(* ===== verification/Prelude.thy ===== *)
theory Prelude
  imports Main "HOL-Library.Word"
begin

text \<open>
  The shared prelude: machine integers, the result type of every modelled C function, the
  sequencing combinator of that type, and generic facts on lists, options and 32-bit
  wrap-around that several components use.
\<close>

section \<open>Machine integers\<close>

type_synonym u8 = "8 word"
type_synonym u16 = "16 word"
type_synonym u32 = "32 word"

text \<open>
  A C \<open>int\<close> is modelled by its mathematical value; \<open>s32\<close> wraps the result of an arithmetic
  operation into the signed 32-bit range.
\<close>

definition s32 :: "int \<Rightarrow> int" where
  "s32 x = (x + 2 ^ 31) mod 2 ^ 32 - 2 ^ 31"

lemma s32_bounds: "- (2 ^ 31) \<le> s32 x" "s32 x < 2 ^ 31"
  by (simp_all add: s32_def)

lemma s32_id: "- (2 ^ 31) \<le> x \<Longrightarrow> x < 2 ^ 31 \<Longrightarrow> s32 x = x"
  by (simp add: s32_def)

lemma unat_lt32: "unat (w :: u32) < 2 ^ 32"
  using unsigned_less [where 'a = nat, of w] by simp

section \<open>Results of C functions\<close>

text \<open>
  A C function of the kernel returns a value, panics with a message, or does not return.
  \<open>ret v\<close>, \<open>panic msg\<close> and \<open>None\<close> are these three outcomes. \<open>None\<close> is the value of a loop that
  never ends and of a call that would block for ever when the code runs alone.
\<close>

type_synonym 'a res = "(string + 'a) option"

abbreviation ret :: "'a \<Rightarrow> 'a res" where
  "ret v \<equiv> Some (Inr v)"

abbreviation panic :: "string \<Rightarrow> 'a res" where
  "panic msg \<equiv> Some (Inl msg)"

definition rbind :: "'a res \<Rightarrow> ('a \<Rightarrow> 'b res) \<Rightarrow> 'b res" where
  "rbind m f = Option.bind m (\<lambda>r. case r of Inl e \<Rightarrow> Some (Inl e) | Inr x \<Rightarrow> f x)"

named_theorems res_simps \<open>inversion of sequenced results\<close>

lemma rbind_ret [simp]: "rbind (ret x) f = f x"
  by (simp add: rbind_def)

lemma rbind_panic [simp]: "rbind (panic e) f = panic e"
  by (simp add: rbind_def)

lemma rbind_None [simp]: "rbind None f = None"
  by (simp add: rbind_def)

lemma rbind_eq_ret [res_simps]:
  "rbind m f = ret y \<longleftrightarrow> (\<exists>x. m = ret x \<and> f x = ret y)"
  by (cases m) (auto simp: rbind_def split: sum.splits)

lemma rbind_eq_panic [res_simps]:
  "rbind m f = panic e \<longleftrightarrow> m = panic e \<or> (\<exists>x. m = ret x \<and> f x = panic e)"
  by (cases m) (auto simp: rbind_def split: sum.splits)

lemma rbind_assoc: "rbind (rbind m f) g = rbind m (\<lambda>x. rbind (f x) g)"
  by (auto simp: rbind_def split: sum.splits option.splits bind_splits)

lemma rbind_cong [fundef_cong]:
  "m = m' \<Longrightarrow> (\<And>x. m' = ret x \<Longrightarrow> f x = g x) \<Longrightarrow> rbind m f = rbind m' g"
  by (cases m') (auto simp: rbind_def split: sum.splits)

lemma rbind_mono [partial_function_mono]:
  assumes "mono_option B" "\<And>y. mono_option (\<lambda>f. C y f)"
  shows "mono_option (\<lambda>f. rbind (B f) (\<lambda>y. C y f))"
  unfolding rbind_def
proof (rule bind_mono [OF assms(1)])
  fix r show "mono_option (\<lambda>f. case r of Inl e \<Rightarrow> Some (Inl e) | Inr x \<Rightarrow> C x f)"
    by (cases r) (auto intro!: assms(2) option.const_mono)
qed

text \<open>The result a caller of a procedure relies on: it returns, and the value satisfies \<open>Q\<close>.\<close>

definition returns :: "'a res \<Rightarrow> ('a \<Rightarrow> bool) \<Rightarrow> bool" where
  "returns m Q = (case m of Some (Inr x) \<Rightarrow> Q x | _ \<Rightarrow> False)"

lemma returns_ret [simp]: "returns (ret x) Q = Q x"
  by (simp add: returns_def)

lemma returns_panic [simp]: "\<not> returns (panic e) Q"
  by (simp add: returns_def)

lemma returns_None [simp]: "\<not> returns None Q"
  by (simp add: returns_def)

lemma returns_iff: "returns m Q \<longleftrightarrow> (\<exists>x. m = ret x \<and> Q x)"
  by (auto simp: returns_def split: option.splits sum.splits)

lemma returns_rbind: "returns (rbind m f) Q \<longleftrightarrow> returns m (\<lambda>x. returns (f x) Q)"
  by (auto simp: returns_iff res_simps)

lemma returns_mono: "returns m P \<Longrightarrow> (\<And>x. P x \<Longrightarrow> Q x) \<Longrightarrow> returns m Q"
  by (auto simp: returns_iff)

lemma rbind_split:
  "P (rbind m f) \<longleftrightarrow>
    (m = None \<longrightarrow> P None) \<and> (\<forall>e. m = panic e \<longrightarrow> P (panic e)) \<and> (\<forall>x. m = ret x \<longrightarrow> P (f x))"
  by (cases m) (auto simp: rbind_def split: sum.splits)

section \<open>Lists\<close>

lemma takeWhile_prefix:
  "(\<forall>x\<in>set xs. P x) \<Longrightarrow> (ys = [] \<or> \<not> P (hd ys)) \<Longrightarrow> takeWhile P (xs @ ys) = xs"
  by (induction xs) (auto, cases ys, auto)

lemma distinct_less_length:
  assumes "distinct xs" "set xs \<subseteq> {..<n}" "p < n" "p \<notin> set xs"
  shows "length xs < n"
proof -
  have "card (insert p (set xs)) \<le> card {..<n}"
    using assms by (intro card_mono) auto
  with assms show ?thesis by (simp add: distinct_card)
qed

lemma free_index:
  assumes "distinct is" "length is < n"
  shows "\<exists>i\<in>{1..n}. i \<notin> set is"
proof (rule ccontr)
  assume "\<not> ?thesis"
  then have "{1..n} \<subseteq> set is" by blast
  then have "card {1..n} \<le> card (set is)" by (intro card_mono) auto
  with assms show False by (simp add: distinct_card)
qed

end
