(* ===== verification/Cprintf.thy ===== *)
theory Cprintf
  imports Prelude
begin

text \<open>
  Formatted output: \<open>printint\<close> and \<open>cprintf\<close> of console.c and the user library's \<open>printint\<close> and
  \<open>printf\<close> of printf.c. A C string is the list of its characters before the NUL. The characters
  handed to \<open>consputc\<close> or \<open>putc\<close> are the result; a conversion whose argument is missing or of the
  wrong kind is undefined in C and gives \<open>None\<close>.
\<close>

section \<open>Integers\<close>

text \<open>
  The \<open>do ... while\<close> loop of \<open>printint\<close>: least significant digit first, as it fills \<open>buf\<close>. A base
  below 2 divides by zero or never ends; both callers pass 10 or 16.
\<close>

function int_digits :: "string \<Rightarrow> nat \<Rightarrow> nat \<Rightarrow> string" where
  "int_digits digits base x =
     (if base < 2 then []
      else digits ! (x mod base) #
           (if x div base \<noteq> 0 then int_digits digits base (x div base) else []))"
  by pat_completeness auto
termination
  by (relation "measure (\<lambda>(digits, base, x). x)") (auto simp: div_greater_zero_iff)

declare int_digits.simps [simp del]

definition printint_buf :: "string \<Rightarrow> u32 \<Rightarrow> nat \<Rightarrow> bool \<Rightarrow> string" where
  "printint_buf digits xx base sign =
     (let neg = (sign \<and> sint xx < 0);
          x = unat (if neg then - xx else xx)
      in int_digits digits base x @ (if neg then ''-'' else []))"

text \<open>\<open>printint\<close> of console.c (digits in lower case) and of printf.c (upper case).\<close>

definition printint :: "u32 \<Rightarrow> nat \<Rightarrow> bool \<Rightarrow> string" where
  "printint xx base sign = rev (printint_buf ''0123456789abcdef'' xx base sign)"

definition printint_user :: "u32 \<Rightarrow> nat \<Rightarrow> bool \<Rightarrow> string" where
  "printint_user xx base sgn' = rev (printint_buf ''0123456789ABCDEF'' xx base sgn')"

section \<open>Format strings\<close>

text \<open>The words after \<open>fmt\<close> on the stack: integers, and strings (\<open>None\<close> is the null pointer).\<close>

datatype carg = W u32 | S "string option"

definition nullable :: "string option \<Rightarrow> string" where
  "nullable so = (case so of None \<Rightarrow> ''(null)'' | Some str \<Rightarrow> str)"

fun cprintf :: "string \<Rightarrow> carg list \<Rightarrow> string option" where
  "cprintf [] argp = Some []"
| "cprintf (c # fmt) argp =
     (if c \<noteq> CHR ''%'' then map_option (Cons c) (cprintf fmt argp)
      else case fmt of
        [] \<Rightarrow> Some []
      | f # fmt' \<Rightarrow>
          (if f = CHR ''d'' then
             (case argp of W w # argp' \<Rightarrow>
                map_option (append (printint w 10 True)) (cprintf fmt' argp') | _ \<Rightarrow> None)
           else if f = CHR ''x'' \<or> f = CHR ''p'' then
             (case argp of W w # argp' \<Rightarrow>
                map_option (append (printint w 16 False)) (cprintf fmt' argp') | _ \<Rightarrow> None)
           else if f = CHR ''s'' then
             (case argp of S so # argp' \<Rightarrow>
                map_option (append (nullable so)) (cprintf fmt' argp') | _ \<Rightarrow> None)
           else if f = CHR ''%'' then map_option (Cons CHR ''%'') (cprintf fmt' argp)
           else map_option (append [CHR ''%'', f]) (cprintf fmt' argp)))"

text \<open>
  The user library's \<open>printf\<close> is a two-state machine over the format (\<open>state\<close> is 0 or \<open>'%'\<close>),
  with an additional \<open>%c\<close>.
\<close>

fun printf :: "bool \<Rightarrow> string \<Rightarrow> carg list \<Rightarrow> string option" where
  "printf pct [] ap = Some []"
| "printf False (c # fmt) ap =
     (if c = CHR ''%'' then printf True fmt ap
      else map_option (Cons c) (printf False fmt ap))"
| "printf True (c # fmt) ap =
     (if c = CHR ''d'' then
        (case ap of W w # ap' \<Rightarrow>
           map_option (append (printint_user w 10 True)) (printf False fmt ap') | _ \<Rightarrow> None)
      else if c = CHR ''x'' \<or> c = CHR ''p'' then
        (case ap of W w # ap' \<Rightarrow>
           map_option (append (printint_user w 16 False)) (printf False fmt ap') | _ \<Rightarrow> None)
      else if c = CHR ''s'' then
        (case ap of S so # ap' \<Rightarrow>
           map_option (append (nullable so)) (printf False fmt ap') | _ \<Rightarrow> None)
      else if c = CHR ''c'' then
        (case ap of W w # ap' \<Rightarrow>
           map_option (Cons (char_of (unat w))) (printf False fmt ap') | _ \<Rightarrow> None)
      else if c = CHR ''%'' then map_option (Cons c) (printf False fmt ap)
      else map_option (append [CHR ''%'', c]) (printf False fmt ap))"

section \<open>Properties\<close>

lemma int_digits_length:
  assumes "2 \<le> base" "x < base ^ n" "0 < n"
  shows "length (int_digits digits base x) \<le> n"
  using assms
proof (induction n arbitrary: x)
  case 0
  then show ?case by simp
next
  case (Suc n)
  show ?case
  proof (cases "x div base = 0")
    case True
    then show ?thesis by (simp add: int_digits.simps [of _ _ x])
  next
    case False
    then have "x div base < base ^ n" "0 < n"
      using Suc.prems by (auto simp: less_mult_imp_div_less mult.commute intro!: Nat.gr0I)
    with Suc show ?thesis by (simp add: int_digits.simps [of _ _ x])
  qed
qed

text \<open>
  C18: the buffer \<open>char buf[16]\<close> of \<open>printint\<close> never overflows: with base 10 or 16 it holds at most 11
  characters, the sign included.
\<close>

theorem printint_buf_fits:
  "base = 10 \<or> base = 16 \<Longrightarrow> length (printint_buf digits xx base sign) \<le> 11"
proof -
  assume b: "base = 10 \<or> base = 16"
  have "(2 :: nat) ^ 32 \<le> base ^ 10"
    using b by auto
  then have "unat w < base ^ 10" for w :: u32
    using unat_lt32 [of w] by linarith
  then have "length (int_digits digits base (unat w)) \<le> 10" for w :: u32
    using b by (intro int_digits_length) auto
  from this [of xx] this [of "- xx"] show ?thesis
    by (simp add: printint_buf_def Let_def)
qed

theorem printint_buf_fits_witness:
  "length (printint_buf ''0123456789abcdef'' (- 12345) 10 True) \<le> 11"
  using printint_buf_fits [of 10 "''0123456789abcdef''" "- 12345" True] by simp

end
