(* ===== verification/Machine.thy ===== *)
theory Machine
  imports Cprintf
begin

unbundle bit_operations_syntax

text \<open>
  The machine the kernel runs on: byte-addressed memory, the per-CPU structures of proc.h, the
  interrupt flag of the CPU that executes, the spin locks, and the characters written to the
  console. The state of every kernel component extends the record \<open>machine\<close>, so a component's
  operations apply to the states of the components built on it.
\<close>

section \<open>State\<close>

text \<open>\<open>struct cpu\<close>; \<open>cpu_proc\<close> is an index into \<open>ptable.proc\<close> (\<open>None\<close> is the null pointer).\<close>

record cpu =
  apicid :: u8
  started :: u32
  ncli :: int
  intena :: bool
  cpu_proc :: "nat option"

text \<open>The spin locks of the kernel, by the structure that holds them.\<close>

datatype lockid =
    L_ptable | L_kmem | L_ticks | L_cons | L_ide | L_bcache | L_log | L_icache | L_ftable
  | L_pipe u32 | L_buf nat | L_inode nat

text \<open>\<open>struct spinlock\<close> without the call stack \<open>pcs\<close> that it keeps for debugging.\<close>

record spinlock =
  locked :: u32
  lk_name :: string
  lk_cpu :: "nat option"

record machine =
  mem :: "u32 \<Rightarrow> u8"
  console :: string
  fl_if :: bool
  lapicid :: u8
  ncpu :: nat
  cpus :: "nat \<Rightarrow> cpu"
  locks :: "lockid \<Rightarrow> spinlock"

text \<open>
  Kernel output: \<open>cprintf\<close> hands its characters to the console device (the lines that take
  \<open>cons.lock\<close> are commented out in console.c).
\<close>

definition kprintf :: "string \<Rightarrow> carg list \<Rightarrow> 'a machine_scheme \<Rightarrow> 'a machine_scheme res" where
  "kprintf fmt args s =
     (case cprintf fmt args of None \<Rightarrow> None | Some out \<Rightarrow> ret (s\<lparr>console := console s @ out\<rparr>))"

section \<open>Memory words\<close>

text \<open>A 32-bit access is little-endian.\<close>

definition read32 :: "(u32 \<Rightarrow> u8) \<Rightarrow> u32 \<Rightarrow> u32" where
  "read32 m a = ucast (m a) OR push_bit 8 (ucast (m (a + 1)))
     OR push_bit 16 (ucast (m (a + 2))) OR push_bit 24 (ucast (m (a + 3)))"

definition write32 :: "(u32 \<Rightarrow> u8) \<Rightarrow> u32 \<Rightarrow> u32 \<Rightarrow> (u32 \<Rightarrow> u8)" where
  "write32 m a v = m(a := ucast v, a + 1 := ucast (drop_bit 8 v),
     a + 2 := ucast (drop_bit 16 v), a + 3 := ucast (drop_bit 24 v))"

lemma bytes_of_word:
  "(ucast (ucast v :: u8) :: u32) OR push_bit 8 (ucast (ucast (drop_bit 8 v) :: u8))
     OR push_bit 16 (ucast (ucast (drop_bit 16 v) :: u8))
     OR push_bit 24 (ucast (ucast (drop_bit 24 v) :: u8)) = v"
proof (rule bit_word_eqI)
  fix n assume "n < LENGTH(32)"
  then consider "n < 8" | "8 \<le> n" "n < 16" | "16 \<le> n" "n < 24" | "24 \<le> n" "n < 32"
    by fastforce
  then show "bit ((ucast (ucast v :: u8) :: u32) OR push_bit 8 (ucast (ucast (drop_bit 8 v) :: u8))
     OR push_bit 16 (ucast (ucast (drop_bit 16 v) :: u8))
     OR push_bit 24 (ucast (ucast (drop_bit 24 v) :: u8))) n = bit v n"
    by cases (auto simp: bit_simps)
qed

lemma read32_write32_same [simp]: "read32 (write32 m a v) a = v"
  by (simp add: read32_def write32_def bytes_of_word)

text \<open>Two word accesses do not overlap when the distance between them is at least 4 both ways.\<close>

definition apart :: "u32 \<Rightarrow> u32 \<Rightarrow> bool" where
  "apart a b \<longleftrightarrow> 4 \<le> b - a \<and> 4 \<le> a - b"

lemma write32_other: "x \<notin> {a, a + 1, a + 2, a + 3} \<Longrightarrow> write32 m a v x = m x"
  by (simp add: write32_def)

lemma apart_offsets:
  assumes "apart a b" "i < 4" "j < 4"
  shows "b + i \<noteq> a + j"
proof
  assume "b + i = a + j"
  then have e: "b - a = j - i"
    by (simp add: algebra_simps)
  then have e2: "a - b = i - j"
    by (metis minus_diff_eq)
  show False
  proof (cases "i \<le> j")
    case True
    then have "j - i \<le> j" by (metis word_sub_le)
    with assms e show False by (auto simp: apart_def)
  next
    case False
    then have "i - j \<le> i" by (metis word_sub_le linear)
    with assms e2 show False by (auto simp: apart_def)
  qed
qed

lemma read32_write32_apart:
  assumes "apart a b"
  shows "read32 (write32 m a v) b = read32 m b"
proof -
  have ne: "b + i \<noteq> a + j" if "i < 4" "j < 4" for i j
    using apart_offsets [OF assms] that by blast
  have "write32 m a v (b + i) = m (b + i)" if "i < 4" for i
    using ne [OF that, of 0] ne [OF that, of 1] ne [OF that, of 2] ne [OF that, of 3]
    by (intro write32_other) simp
  from this [of 0] this [of 1] this [of 2] this [of 3] show ?thesis
    by (simp add: read32_def)
qed

end
