(* ===== verification/Spinlock.thy ===== *)
theory Spinlock
  imports Machine
begin

text \<open>
  The current CPU (\<open>mycpu\<close>, \<open>cpuid\<close> of proc.c) and spin locks (spinlock.c).
\<close>

section \<open>The current CPU\<close>

text \<open>The loop of \<open>mycpu\<close>: the first of the \<open>n\<close> CPUs whose APIC identifier is \<open>a\<close>.\<close>

definition cpu_index :: "nat \<Rightarrow> u8 \<Rightarrow> (nat \<Rightarrow> cpu) \<Rightarrow> nat option" where
  "cpu_index n a f = find (\<lambda>i. apicid (f i) = a) [0..<n]"

definition mycpu :: "'a machine_scheme \<Rightarrow> nat res" where
  "mycpu s =
     (if fl_if s then panic ''mycpu called with interrupts enabled\<newline>''
      else case cpu_index (ncpu s) (lapicid s) (cpus s) of
        Some i \<Rightarrow> ret i
      | None \<Rightarrow> panic ''unknown apicid\<newline>'')"

text \<open>\<open>mycpu() - cpus\<close>: a CPU is modelled by its index already.\<close>

definition cpuid :: "'a machine_scheme \<Rightarrow> nat res" where
  "cpuid s = mycpu s"

definition set_cpu :: "nat \<Rightarrow> cpu \<Rightarrow> 'a machine_scheme \<Rightarrow> 'a machine_scheme" where
  "set_cpu c r s = s\<lparr>cpus := (cpus s)(c := r)\<rparr>"

section \<open>Interrupt nesting\<close>

definition pushcli :: "'a machine_scheme \<Rightarrow> 'a machine_scheme res" where
  "pushcli s =
     (let eflags = fl_if s; s = s\<lparr>fl_if := False\<rparr> in
      rbind (mycpu s) (\<lambda>c.
      let s = (if ncli (cpus s c) = 0 then set_cpu c ((cpus s c)\<lparr>intena := eflags\<rparr>) s else s)
      in ret (set_cpu c ((cpus s c)\<lparr>ncli := ncli (cpus s c) + 1\<rparr>) s)))"

definition popcli :: "'a machine_scheme \<Rightarrow> 'a machine_scheme res" where
  "popcli s =
     (if fl_if s then panic ''popcli - interruptible''
      else rbind (mycpu s) (\<lambda>c.
      let s = set_cpu c ((cpus s c)\<lparr>ncli := ncli (cpus s c) - 1\<rparr>) s in
      if ncli (cpus s c) < 0 then panic ''popcli''
      else if ncli (cpus s c) = 0 \<and> intena (cpus s c) then ret (s\<lparr>fl_if := True\<rparr>)
      else ret s))"

section \<open>Locks\<close>

definition set_lock :: "lockid \<Rightarrow> spinlock \<Rightarrow> 'a machine_scheme \<Rightarrow> 'a machine_scheme" where
  "set_lock l r s = s\<lparr>locks := (locks s)(l := r)\<rparr>"

definition initlock :: "lockid \<Rightarrow> string \<Rightarrow> 'a machine_scheme \<Rightarrow> 'a machine_scheme" where
  "initlock l name s = set_lock l \<lparr>locked = 0, lk_name = name, lk_cpu = None\<rparr> s"

definition holding :: "lockid \<Rightarrow> 'a machine_scheme \<Rightarrow> (bool \<times> 'a machine_scheme) res" where
  "holding l s =
     rbind (pushcli s) (\<lambda>s.
     rbind (mycpu s) (\<lambda>c.
     let r = (locked (locks s l) \<noteq> 0 \<and> lk_cpu (locks s l) = Some c) in
     rbind (popcli s) (\<lambda>s. ret (r, s))))"

text \<open>\<open>xchg(&lk->locked, 1)\<close> returns the old value; the loop spins while it was not 0.\<close>

partial_function (option) spin :: "lockid \<Rightarrow> 'a machine_scheme \<Rightarrow> 'a machine_scheme res" where
  "spin l s =
     (let old = locked (locks s l); s' = set_lock l ((locks s l)\<lparr>locked := 1\<rparr>) s in
      if old \<noteq> 0 then spin l s' else ret s')"

definition acquire :: "lockid \<Rightarrow> 'a machine_scheme \<Rightarrow> 'a machine_scheme res" where
  "acquire l s =
     rbind (pushcli s) (\<lambda>s.
     rbind (holding l s) (\<lambda>(r, s).
     if r then panic ''acquire'' else
     rbind (spin l s) (\<lambda>s.
     rbind (mycpu s) (\<lambda>c.
     ret (set_lock l ((locks s l)\<lparr>lk_cpu := Some c\<rparr>) s)))))"

definition release :: "lockid \<Rightarrow> 'a machine_scheme \<Rightarrow> 'a machine_scheme res" where
  "release l s =
     rbind (holding l s) (\<lambda>(r, s).
     if \<not> r then panic ''release'' else
     let s = set_lock l ((locks s l)\<lparr>lk_cpu := None\<rparr>) s;
         s = set_lock l ((locks s l)\<lparr>locked := 0\<rparr>) s
     in popcli s)"

section \<open>What the operations do\<close>

text \<open>
  \<open>on_cpu c s\<close>: the executing CPU is \<open>c\<close>, and its interrupt nesting is consistent: the depth is
  not negative and interrupts are off while it is positive.
\<close>

definition on_cpu :: "nat \<Rightarrow> 'a machine_scheme \<Rightarrow> bool" where
  "on_cpu c s \<longleftrightarrow>
     cpu_index (ncpu s) (lapicid s) (cpus s) = Some c \<and>
     0 \<le> ncli (cpus s c) \<and> (0 < ncli (cpus s c) \<longrightarrow> \<not> fl_if s)"

text \<open>The effect of entering and leaving a critical section.\<close>

definition acquired :: "lockid \<Rightarrow> nat \<Rightarrow> 'a machine_scheme \<Rightarrow> 'a machine_scheme" where
  "acquired l c s = s\<lparr>
     fl_if := False,
     cpus := (cpus s)(c := (cpus s c)\<lparr>
       intena := (if ncli (cpus s c) = 0 then fl_if s else intena (cpus s c)),
       ncli := ncli (cpus s c) + 1\<rparr>),
     locks := (locks s)(l := (locks s l)\<lparr>locked := 1, lk_cpu := Some c\<rparr>)\<rparr>"

definition released :: "lockid \<Rightarrow> nat \<Rightarrow> 'a machine_scheme \<Rightarrow> 'a machine_scheme" where
  "released l c s = s\<lparr>
     locks := (locks s)(l := (locks s l)\<lparr>lk_cpu := None, locked := 0\<rparr>),
     fl_if := (ncli (cpus s c) = 1 \<and> intena (cpus s c)),
     cpus := (cpus s)(c := (cpus s c)\<lparr>ncli := ncli (cpus s c) - 1\<rparr>)\<rparr>"

definition holds :: "lockid \<Rightarrow> nat \<Rightarrow> 'a machine_scheme \<Rightarrow> bool" where
  "holds l c s \<longleftrightarrow> locked (locks s l) \<noteq> 0 \<and> lk_cpu (locks s l) = Some c"

lemma cpu_index_upd [simp]:
  assumes "apicid r = apicid (f c)"
  shows "cpu_index n a (f(c := r)) = cpu_index n a f"
proof -
  have "(\<lambda>i. apicid ((f(c := r)) i) = a) = (\<lambda>i. apicid (f i) = a)"
    using assms by (auto simp: fun_eq_iff)
  then show ?thesis
    unfolding cpu_index_def by (rule arg_cong)
qed

lemma mycpu_on_cpu: "on_cpu c s \<Longrightarrow> \<not> fl_if s \<Longrightarrow> mycpu s = ret c"
  by (simp add: mycpu_def on_cpu_def)

lemma pushcli_on_cpu:
  "on_cpu c s \<Longrightarrow> pushcli s = ret (s\<lparr>fl_if := False, cpus := (cpus s)(c := (cpus s c)\<lparr>
       intena := (if ncli (cpus s c) = 0 then fl_if s else intena (cpus s c)),
       ncli := ncli (cpus s c) + 1\<rparr>)\<rparr>)"
  by (auto simp: pushcli_def mycpu_def on_cpu_def set_cpu_def Let_def)

lemma popcli_on_cpu:
  "on_cpu c s \<Longrightarrow> 0 < ncli (cpus s c) \<Longrightarrow>
   popcli s = ret (s\<lparr>fl_if := (ncli (cpus s c) = 1 \<and> intena (cpus s c)),
     cpus := (cpus s)(c := (cpus s c)\<lparr>ncli := ncli (cpus s c) - 1\<rparr>)\<rparr>)"
  by (auto simp: popcli_def mycpu_def on_cpu_def set_cpu_def Let_def)

lemma on_cpu_push:
  "on_cpu c s \<Longrightarrow> on_cpu c (s\<lparr>fl_if := False, cpus := (cpus s)(c := (cpus s c)\<lparr>
       intena := b, ncli := ncli (cpus s c) + 1\<rparr>)\<rparr>)"
  by (auto simp: on_cpu_def)

lemma holding_nested:
  assumes "on_cpu c s" "0 < ncli (cpus s c)"
  shows "holding l s = ret (holds l c s, s)"
proof -
  note push = pushcli_on_cpu [OF assms(1)]
  let ?s = "s\<lparr>fl_if := False, cpus := (cpus s)(c := (cpus s c)\<lparr>
       intena := (if ncli (cpus s c) = 0 then fl_if s else intena (cpus s c)),
       ncli := ncli (cpus s c) + 1\<rparr>)\<rparr>"
  have oc: "on_cpu c ?s"
    by (rule on_cpu_push [OF assms(1)])
  have "\<not> fl_if s"
    using assms by (simp add: on_cpu_def)
  moreover have "popcli ?s = ret (s\<lparr>fl_if := False\<rparr>)"
    using popcli_on_cpu [OF oc] assms(2) by simp
  ultimately show ?thesis
    using push mycpu_on_cpu [OF oc] by (simp add: holding_def holds_def)
qed

lemma spin_free: "locked (locks s l) = 0 \<Longrightarrow>
   spin l s = ret (set_lock l ((locks s l)\<lparr>locked := 1\<rparr>) s)"
  by (simp add: spin.simps)

lemma spin_returns_free:
  assumes "spin l s = Some r"
  shows "locked (locks s l) = 0"
  by (rule spin.raw_induct [where P = "\<lambda>l s r. locked (locks s l) = 0", OF _ assms])
    (force simp: Let_def set_lock_def split: if_splits)

lemma on_cpu_acquired: "on_cpu c s \<Longrightarrow> on_cpu c (acquired l c s)"
  by (auto simp: on_cpu_def acquired_def)

lemma on_cpu_released: "on_cpu c s \<Longrightarrow> 0 < ncli (cpus s c) \<Longrightarrow> on_cpu c (released l c s)"
  by (auto simp: on_cpu_def released_def)

lemma acquire_free:
  assumes "on_cpu c s" "locked (locks s l) = 0"
  shows "acquire l s = ret (acquired l c s)"
proof -
  let ?s = "s\<lparr>fl_if := False, cpus := (cpus s)(c := (cpus s c)\<lparr>
       intena := (if ncli (cpus s c) = 0 then fl_if s else intena (cpus s c)),
       ncli := ncli (cpus s c) + 1\<rparr>)\<rparr>"
  have oc: "on_cpu c ?s"
    by (rule on_cpu_push [OF assms(1)])
  have nz: "0 < ncli (cpus ?s c)"
    using assms(1) by (simp add: on_cpu_def)
  have "holding l ?s = ret (False, ?s)"
    using holding_nested [OF oc nz] assms(2) by (simp add: holds_def)
  moreover have "mycpu (set_lock l r ?s) = ret c" for r
    using oc by (simp add: mycpu_def set_lock_def on_cpu_def)
  ultimately show ?thesis
    using pushcli_on_cpu [OF assms(1)] assms(2)
    by (simp add: acquire_def spin_free acquired_def set_lock_def)
qed

lemma release_held:
  assumes "on_cpu c s" "0 < ncli (cpus s c)" "holds l c s"
  shows "release l s = ret (released l c s)"
proof -
  have oc: "on_cpu c (set_lock l r s)" for r
    using assms(1) by (simp add: on_cpu_def set_lock_def)
  have p: "popcli (set_lock l r s) = ret ((set_lock l r s)\<lparr>
     fl_if := (ncli (cpus s c) = 1 \<and> intena (cpus s c)),
     cpus := (cpus s)(c := (cpus s c)\<lparr>ncli := ncli (cpus s c) - 1\<rparr>)\<rparr>)" for r
    using popcli_on_cpu [OF oc] assms(2) by (simp add: set_lock_def)
  have "set_lock l r (set_lock l r' s) = set_lock l r s" for r r'
    by (simp add: set_lock_def)
  then show ?thesis
    using holding_nested [OF assms(1,2), of l] assms(3) p
    by (simp add: release_def Let_def set_lock_def) (simp add: released_def)
qed

lemma holds_acquired [simp]: "holds l c (acquired l c s)"
  by (simp add: holds_def acquired_def)

lemma holds_acquired_other: "l \<noteq> l' \<Longrightarrow> holds l' c (acquired l c s) = holds l' c s"
  by (simp add: holds_def acquired_def)

section \<open>Critical sections\<close>

text \<open>A lock nobody holds, and what a closed critical section leaves behind: \<open>intena\<close> of the CPU.\<close>

definition free_lock :: "lockid \<Rightarrow> 'a machine_scheme \<Rightarrow> bool" where
  "free_lock l s \<longleftrightarrow> locked (locks s l) = 0 \<and> lk_cpu (locks s l) = None"

definition settle :: "nat \<Rightarrow> 'a machine_scheme \<Rightarrow> 'a machine_scheme" where
  "settle c s = s\<lparr>cpus := (cpus s)(c := (cpus s c)\<lparr>
     intena := (if ncli (cpus s c) = 0 then fl_if s else intena (cpus s c))\<rparr>)\<rparr>"

lemma released_acquired:
  assumes "on_cpu c s" "free_lock l s"
  shows "released l c (acquired l c s) = settle c s"
proof -
  have "(locks s l)\<lparr>lk_cpu := None, locked := 0\<rparr> = locks s l"
    using assms(2) by (simp add: free_lock_def)
  moreover have "ncli (cpus s c) = 0 \<or> \<not> fl_if s"
    using assms(1) by (auto simp: on_cpu_def)
  ultimately show ?thesis
    by (cases s) (auto simp: released_def acquired_def settle_def fun_upd_idem)
qed

lemma on_cpu_settle [simp]: "on_cpu c (settle c s) = on_cpu c s"
  by (simp add: on_cpu_def settle_def)

lemma settle_simps [simp]:
  "mem (settle c s) = mem s" "console (settle c s) = console s" "fl_if (settle c s) = fl_if s"
  "locks (settle c s) = locks s" "ncli (cpus (settle c s) i) = ncli (cpus s i)"
  "cpu_proc (cpus (settle c s) i) = cpu_proc (cpus s i)"
  by (simp_all add: settle_def)

lemma free_lock_settle [simp]: "free_lock l (settle c s) = free_lock l s"
  by (simp add: free_lock_def)

lemma settle_nested: "ncli (cpus s c) \<noteq> 0 \<Longrightarrow> settle c s = s"
  by (cases s) (simp add: settle_def)

end
