(* ===== verification/CString.thy ===== *)
theory CString
  imports Machine
begin

unbundle bit_operations_syntax

text \<open>
  string.c: the byte and string routines of the kernel, on byte-addressed memory. A pointer is a
  32-bit word and pointer arithmetic wraps. A routine returns the new memory or the C result; the
  destination pointer that the C functions return is their first argument.
\<close>

section \<open>Memory blocks\<close>

text \<open>\<open>rep stosb\<close> and \<open>rep stosl\<close> of x86.h.\<close>

fun stosb :: "(u32 \<Rightarrow> u8) \<Rightarrow> u32 \<Rightarrow> u8 \<Rightarrow> nat \<Rightarrow> (u32 \<Rightarrow> u8)" where
  "stosb m addr data 0 = m"
| "stosb m addr data (Suc cnt) = stosb (m(addr := data)) (addr + 1) data cnt"

fun stosl :: "(u32 \<Rightarrow> u8) \<Rightarrow> u32 \<Rightarrow> u32 \<Rightarrow> nat \<Rightarrow> (u32 \<Rightarrow> u8)" where
  "stosl m addr data 0 = m"
| "stosl m addr data (Suc cnt) = stosl (write32 m addr data) (addr + 4) data cnt"

definition memset :: "(u32 \<Rightarrow> u8) \<Rightarrow> u32 \<Rightarrow> u32 \<Rightarrow> u32 \<Rightarrow> (u32 \<Rightarrow> u8)" where
  "memset m dst c n =
     (if dst mod 4 = 0 \<and> n mod 4 = 0
      then let c = c AND 0xFF
           in stosl m dst (push_bit 24 c OR push_bit 16 c OR push_bit 8 c OR c) (unat n div 4)
      else stosb m dst (ucast c) (unat n))"

fun memcmp :: "(u32 \<Rightarrow> u8) \<Rightarrow> u32 \<Rightarrow> u32 \<Rightarrow> nat \<Rightarrow> int" where
  "memcmp m s1 s2 0 = 0"
| "memcmp m s1 s2 (Suc n) =
     (if m s1 \<noteq> m s2 then uint (m s1) - uint (m s2) else memcmp m (s1 + 1) (s2 + 1) n)"

fun copy_up :: "(u32 \<Rightarrow> u8) \<Rightarrow> u32 \<Rightarrow> u32 \<Rightarrow> nat \<Rightarrow> (u32 \<Rightarrow> u8)" where
  "copy_up m d s 0 = m"
| "copy_up m d s (Suc n) = copy_up (m(d := m s)) (d + 1) (s + 1) n"

fun copy_down :: "(u32 \<Rightarrow> u8) \<Rightarrow> u32 \<Rightarrow> u32 \<Rightarrow> nat \<Rightarrow> (u32 \<Rightarrow> u8)" where
  "copy_down m d s 0 = m"
| "copy_down m d s (Suc n) = copy_down (m(d - 1 := m (s - 1))) (d - 1) (s - 1) n"

definition memmove :: "(u32 \<Rightarrow> u8) \<Rightarrow> u32 \<Rightarrow> u32 \<Rightarrow> u32 \<Rightarrow> (u32 \<Rightarrow> u8)" where
  "memmove m dst src n =
     (if src < dst \<and> dst < src + n then copy_down m (dst + n) (src + n) (unat n)
      else copy_up m dst src (unat n))"

definition memcpy :: "(u32 \<Rightarrow> u8) \<Rightarrow> u32 \<Rightarrow> u32 \<Rightarrow> u32 \<Rightarrow> (u32 \<Rightarrow> u8)" where
  "memcpy m dst src n = memmove m dst src n"

text \<open>A block of bytes stored at, and read from, consecutive addresses.\<close>

fun put_bytes :: "(u32 \<Rightarrow> u8) \<Rightarrow> u32 \<Rightarrow> u8 list \<Rightarrow> (u32 \<Rightarrow> u8)" where
  "put_bytes m a [] = m"
| "put_bytes m a (b # bs) = put_bytes (m(a := b)) (a + 1) bs"

fun get_bytes :: "(u32 \<Rightarrow> u8) \<Rightarrow> u32 \<Rightarrow> nat \<Rightarrow> u8 list" where
  "get_bytes m a 0 = []"
| "get_bytes m a (Suc n) = m a # get_bytes m (a + 1) n"

section \<open>Strings\<close>

fun strncmp :: "(u32 \<Rightarrow> u8) \<Rightarrow> u32 \<Rightarrow> u32 \<Rightarrow> nat \<Rightarrow> int" where
  "strncmp m p q 0 = 0"
| "strncmp m p q (Suc n) =
     (if m p \<noteq> 0 \<and> m p = m q then strncmp m (p + 1) (q + 1) n
      else uint (m p) - uint (m q))"

text \<open>
  The two loops of \<open>strncpy\<close>; the first returns the pointer and the count the second starts with.
  A negative count copies nothing.
\<close>

fun strncpy_copy :: "(u32 \<Rightarrow> u8) \<Rightarrow> u32 \<Rightarrow> u32 \<Rightarrow> nat \<Rightarrow> (u32 \<Rightarrow> u8) \<times> u32 \<times> nat" where
  "strncpy_copy m s t 0 = (m, s, 0)"
| "strncpy_copy m s t (Suc n) =
     (let m' = m(s := m t) in
      if m t \<noteq> 0 then strncpy_copy m' (s + 1) (t + 1) n else (m', s + 1, n))"

definition strncpy :: "(u32 \<Rightarrow> u8) \<Rightarrow> u32 \<Rightarrow> u32 \<Rightarrow> int \<Rightarrow> (u32 \<Rightarrow> u8)" where
  "strncpy m s t n =
     (let (m, s, n) = strncpy_copy m s t (nat n) in stosb m s 0 n)"

fun safestrcpy_copy :: "(u32 \<Rightarrow> u8) \<Rightarrow> u32 \<Rightarrow> u32 \<Rightarrow> nat \<Rightarrow> (u32 \<Rightarrow> u8)" where
  "safestrcpy_copy m s t 0 = m(s := 0)"
| "safestrcpy_copy m s t (Suc n) =
     (let m' = m(s := m t) in
      if m t \<noteq> 0 then safestrcpy_copy m' (s + 1) (t + 1) n else m'(s + 1 := 0))"

definition safestrcpy :: "(u32 \<Rightarrow> u8) \<Rightarrow> u32 \<Rightarrow> u32 \<Rightarrow> int \<Rightarrow> (u32 \<Rightarrow> u8)" where
  "safestrcpy m s t n = (if n \<le> 0 then m else safestrcpy_copy m s t (nat (n - 1)))"

text \<open>\<open>strlen\<close> runs for ever (or leaves the mapped memory) when no NUL follows.\<close>

partial_function (option) strlen :: "(u32 \<Rightarrow> u8) \<Rightarrow> u32 \<Rightarrow> int \<Rightarrow> int res" where
  "strlen m s n = (if m (s + word_of_int n) \<noteq> 0 then strlen m s (n + 1) else ret n)"

section \<open>Blocks of memory\<close>

text \<open>\<open>x\<close> lies in the \<open>n\<close> bytes from \<open>a\<close> on (which may wrap).\<close>

definition within :: "u32 \<Rightarrow> nat \<Rightarrow> u32 \<Rightarrow> bool" where
  "within a n x \<longleftrightarrow> unat (x - a) < n"

lemma within_0 [simp]: "\<not> within a 0 x"
  by (simp add: within_def)

lemma within_Suc: "within a (Suc n) x \<longleftrightarrow> x = a \<or> within (a + 1) n x"
proof (cases "x - a = 0")
  case False
  then have "unat (x - (a + 1)) = unat (x - a) - 1" "0 < unat (x - a)"
    by (unat_arith, simp add: unat_gt_0)
  with False show ?thesis by (auto simp: within_def)
qed (simp add: within_def)

lemma within_split:
  assumes "unat a + i < 2 ^ 32" "i \<le> n"
  shows "within a n x \<longleftrightarrow> within a i x \<or> within (a + of_nat i) (n - i) x"
  using assms
proof (induction i arbitrary: a n)
  case (Suc i)
  then obtain k where n: "n = Suc k" by (cases n) auto
  have "unat (a + 1) + i < 2 ^ 32"
    using Suc.prems(1) by unat_arith
  then have "within (a + 1) k x \<longleftrightarrow> within (a + 1) i x \<or> within (a + 1 + of_nat i) (k - i) x"
    using Suc.prems(2) n by (intro Suc.IH) auto
  then show ?case by (simp add: n within_Suc add.assoc add.commute [of 1])
qed simp

lemma stosb_eq: "stosb m a c n x = (if within a n x then c else m x)"
  by (induction n arbitrary: m a) (auto simp: within_Suc)

lemma write32_eq:
  "write32 m a v x =
     (if x = a then ucast v else if x = a + 1 then ucast (drop_bit 8 v)
      else if x = a + 2 then ucast (drop_bit 16 v)
      else if x = a + 3 then ucast (drop_bit 24 v) else m x)"
proof -
  have "a + 1 \<noteq> a" "a + 2 \<noteq> a" "a + 3 \<noteq> a" "a + 2 \<noteq> a + 1" "a + 3 \<noteq> a + 1" "a + 3 \<noteq> a + 2"
    by simp_all
  then show ?thesis by (auto simp: write32_def)
qed

lemma within_4: "within a (4 + n) x \<longleftrightarrow> x \<in> {a, a + 1, a + 2, a + 3} \<or> within (a + 4) n x"
proof -
  have n: "4 + n = Suc (Suc (Suc (Suc n)))" by simp
  show ?thesis unfolding n by (auto simp: within_Suc add.assoc)
qed

lemma stosl_fill:
  assumes "ucast w = b" "ucast (drop_bit 8 w) = b" "ucast (drop_bit 16 w) = b"
    "ucast (drop_bit 24 w) = b"
  shows "stosl m a w n x = (if within a (4 * n) x then b else m x)"
proof (induction n arbitrary: m a)
  case (Suc n)
  have "4 * Suc n = 4 + 4 * n" by simp
  with Suc assms show ?case by (auto simp: within_4 write32_eq)
qed simp

lemma memset_word:
  fixes c :: u32
  defines "b \<equiv> c AND 0xFF"
  defines "w \<equiv> push_bit 24 b OR push_bit 16 b OR push_bit 8 b OR b"
  shows "(ucast w :: u8) = ucast c" "(ucast (drop_bit 8 w) :: u8) = ucast c"
    "(ucast (drop_bit 16 w) :: u8) = ucast c" "(ucast (drop_bit 24 w) :: u8) = ucast c"
proof -
  have b: "bit b n \<longleftrightarrow> n < 8 \<and> bit c n" for n
  proof -
    have "(0xFF :: u32) = mask 8" by (simp add: mask_eq_exp_minus_1)
    then have "bit b n \<longleftrightarrow> bit c n \<and> bit (mask 8 :: u32) n" by (simp only: b_def bit_and_iff)
    then show ?thesis by (auto simp only: bit_mask_iff) simp
  qed
  show "(ucast w :: u8) = ucast c" "(ucast (drop_bit 8 w) :: u8) = ucast c"
    "(ucast (drop_bit 16 w) :: u8) = ucast c" "(ucast (drop_bit 24 w) :: u8) = ucast c"
    by (rule bit_word_eqI, auto simp: w_def bit_simps b)+
qed

lemma memset_eq: "memset m dst c n x = (if within dst (unat n) x then ucast c else m x)"
proof (cases "dst mod 4 = 0 \<and> n mod 4 = 0")
  case True
  have "unat (n mod 4) = unat n mod 4" by (simp add: unat_mod)
  then have "4 * (unat n div 4) = unat n" using True by auto
  then show ?thesis
    unfolding memset_def if_P [OF True] Let_def stosl_fill [OF memset_word] by simp
qed (auto simp: memset_def stosb_eq)

section \<open>Copies\<close>

lemma unat_add_nat: "unat (s :: u32) + i < 2 ^ 32 \<Longrightarrow> unat (s + of_nat i) = unat s + i"
  by (simp add: unat_word_ariths unat_of_nat)

lemma within_unat: "unat a + n \<le> 2 ^ 32 \<Longrightarrow> within a n x \<longleftrightarrow> unat a \<le> unat x \<and> unat x < unat a + n"
  unfolding within_def using unat_lt32 [of x] by (auto simp: unat_sub_if')

lemma unat_shift:
  assumes "unat s + n \<le> 2 ^ 32" "within d n x"
  shows "unat (s + (x - d)) = unat s + unat (x - d)"
  using assms unat_add_nat [of s "unat (x - d)"] by (simp add: within_def)

lemma copy_up_eq:
  assumes "unat s + n \<le> 2 ^ 32" "unat d + n \<le> 2 ^ 32" "unat d \<le> unat s \<or> unat s + n \<le> unat d"
  shows "copy_up m d s n x = (if within d n x then m (s + (x - d)) else m x)"
  using assms
proof (induction n arbitrary: m d s)
  case (Suc n)
  show ?case
  proof (cases "n = 0")
    case True
    then show ?thesis by (auto simp: within_Suc)
  next
    case False
    have s: "unat (s + 1) = unat s + 1" and d: "unat (d + 1) = unat d + 1"
      using unat_add_nat [of s 1] unat_add_nat [of d 1] Suc.prems False by auto
    let ?m = "m(d := m s)"
    have IH: "copy_up ?m (d + 1) (s + 1) n x =
        (if within (d + 1) n x then ?m (s + 1 + (x - (d + 1))) else ?m x)"
      by (rule Suc.IH) (use Suc.prems s d in auto)
    have "s + 1 + (x - (d + 1)) = s + (x - d)" by simp
    moreover have "s + (x - d) \<noteq> d" if w: "within (d + 1) n x"
    proof -
      have "within d (Suc n) x" using w by (simp add: within_Suc)
      moreover have "unat (x - d) \<noteq> 0"
      proof
        assume "unat (x - d) = 0"
        then have "x = d" by (simp add: unat_eq_0)
        with w d Suc.prems show False by (simp add: within_unat)
      qed
      ultimately have "unat (s + (x - d)) \<noteq> unat d"
        using unat_shift [of s "Suc n" d x] Suc.prems by (auto simp: within_def)
      then show ?thesis by metis
    qed
    ultimately show ?thesis by (auto simp: IH within_Suc)
  qed
qed simp

lemma within_end:
  assumes "unat d + n < 2 ^ 32"
  shows "within d (Suc n) x \<longleftrightarrow> within d n x \<or> x = d + of_nat n"
proof -
  have "within d (Suc n) x \<longleftrightarrow> within d n x \<or> within (d + of_nat n) 1 x"
    using within_split [of d n "Suc n" x] assms by simp
  also have "within (d + of_nat n) 1 x \<longleftrightarrow> x = d + of_nat n"
    by (simp add: within_Suc)
  finally show ?thesis .
qed

lemma copy_down_eq:
  assumes "unat d + n \<le> 2 ^ 32" "unat s < unat d"
  shows "copy_down m (d + of_nat n) (s + of_nat n) n x = (if within d n x then m (s + (x - d)) else m x)"
  using assms
proof (induction n arbitrary: m)
  case (Suc n)
  let ?m = "m(d + of_nat n := m (s + of_nat n))"
  have IH: "copy_down ?m (d + of_nat n) (s + of_nat n) n x =
      (if within d n x then ?m (s + (x - d)) else ?m x)"
    by (rule Suc.IH) (use Suc.prems in auto)
  have "s + (x - d) \<noteq> d + of_nat n" if w: "within d n x"
  proof -
    have "unat (s + (x - d)) = unat s + unat (x - d)" "unat (x - d) < n"
      using unat_shift [of s n d x] Suc.prems w by (auto simp: within_def)
    moreover have "unat (d + of_nat n) = unat d + n"
      using Suc.prems by (intro unat_add_nat) simp
    ultimately have "unat (s + (x - d)) \<noteq> unat (d + of_nat n)" using Suc.prems by simp
    then show ?thesis by metis
  qed
  moreover have "\<not> within d n (d + of_nat n)"
    using Suc.prems unat_add_nat [of d n] by (simp add: within_unat)
  ultimately have "copy_down m (d + of_nat (Suc n)) (s + of_nat (Suc n)) (Suc n) x =
      (if within d n x \<or> x = d + of_nat n then m (s + (x - d)) else m x)"
    using IH by auto
  with within_end [of d n x] Suc.prems show ?case by simp
qed simp

lemma memmove_eq:
  assumes "unat src + unat n < 2 ^ 32" "unat dst + unat n < 2 ^ 32"
  shows "memmove m dst src n x = (if within dst (unat n) x then m (src + (x - dst)) else m x)"
proof (cases "src < dst \<and> dst < src + n")
  case True
  have n: "n = of_nat (unat n)" by simp
  have "unat src < unat dst" using True by (simp add: word_less_nat_alt)
  then have "copy_down m (dst + of_nat (unat n)) (src + of_nat (unat n)) (unat n) x =
      (if within dst (unat n) x then m (src + (x - dst)) else m x)"
    using assms by (intro copy_down_eq) auto
  with True n show ?thesis by (simp add: memmove_def)
next
  case False
  have "unat (src + n) = unat src + unat n"
    using unat_add_nat [of src "unat n"] assms by simp
  then have "unat dst \<le> unat src \<or> unat src + unat n \<le> unat dst"
    using False by (auto simp: word_less_nat_alt)
  with assms have "copy_up m dst src (unat n) x =
      (if within dst (unat n) x then m (src + (x - dst)) else m x)"
    by (intro copy_up_eq) auto
  then show ?thesis unfolding memmove_def if_not_P [OF False] .
qed

text \<open>
  C16: \<open>memmove\<close> copies the \<open>n\<close> bytes at \<open>src\<close> as they were before the call to
  \<open>dst\<close> and changes nothing else, also when the two blocks overlap, as long as neither block
  runs past the end of the address space.
\<close>

theorem memmove_correct:
  assumes "unat src + unat n < 2 ^ 32" "unat dst + unat n < 2 ^ 32"
  shows "memmove m dst src n x = (if within dst (unat n) x then m (src + (x - dst)) else m x)"
  using assms by (rule memmove_eq)

theorem memmove_correct_witness:
  "memmove (\<lambda>a. ucast a) 102 100 8 109 = 107 \<and> memmove (\<lambda>a. ucast a) 102 100 8 110 = 110"
  using memmove_correct [of 100 8 102 "\<lambda>a. ucast a" 109] memmove_correct [of 100 8 102 "\<lambda>a. ucast a" 110]
  by (simp add: within_def)

section \<open>Comparison and bounded copies\<close>

text \<open>
  \<open>memcmp\<close> returns the difference of the bytes at the first position where the blocks differ, and
  0 exactly when they agree.
\<close>

lemma memcmp_first_difference:
  "(memcmp m s1 s2 n = 0 \<and> (\<forall>i<n. m (s1 + of_nat i) = m (s2 + of_nat i))) \<or>
   (\<exists>k<n. (\<forall>i<k. m (s1 + of_nat i) = m (s2 + of_nat i)) \<and> m (s1 + of_nat k) \<noteq> m (s2 + of_nat k) \<and>
      memcmp m s1 s2 n = uint (m (s1 + of_nat k)) - uint (m (s2 + of_nat k)))"
proof (induction n arbitrary: s1 s2)
  case (Suc n)
  have all: "(\<forall>i<Suc k. m (s1 + of_nat i) = m (s2 + of_nat i)) \<longleftrightarrow>
      m s1 = m s2 \<and> (\<forall>i<k. m (s1 + 1 + of_nat i) = m (s2 + 1 + of_nat i))" for k
    by (simp add: All_less_Suc2 add.assoc)
  show ?case
  proof (cases "m s1 = m s2")
    case True
    from Suc [of "s1 + 1" "s2 + 1"] show ?thesis
    proof
      assume "\<exists>k<n. (\<forall>i<k. m (s1 + 1 + of_nat i) = m (s2 + 1 + of_nat i)) \<and>
        m (s1 + 1 + of_nat k) \<noteq> m (s2 + 1 + of_nat k) \<and>
        memcmp m (s1 + 1) (s2 + 1) n = uint (m (s1 + 1 + of_nat k)) - uint (m (s2 + 1 + of_nat k))"
      then obtain k where k: "k < n" "\<forall>i<k. m (s1 + 1 + of_nat i) = m (s2 + 1 + of_nat i)"
        "m (s1 + 1 + of_nat k) \<noteq> m (s2 + 1 + of_nat k)"
        "memcmp m (s1 + 1) (s2 + 1) n = uint (m (s1 + 1 + of_nat k)) - uint (m (s2 + 1 + of_nat k))"
        by blast
      have "\<forall>i<Suc k. m (s1 + of_nat i) = m (s2 + of_nat i)" using all True k(2) by blast
      with True k show ?thesis by (intro disjI2 exI [of _ "Suc k"]) (simp add: add.assoc)
    next
      assume "memcmp m (s1 + 1) (s2 + 1) n = 0 \<and> (\<forall>i<n. m (s1 + 1 + of_nat i) = m (s2 + 1 + of_nat i))"
      with True all [of n] show ?thesis by (intro disjI1) simp
    qed
  next
    case False
    then show ?thesis by (intro disjI2 exI [of _ 0]) simp
  qed
qed simp

lemma safestrcpy_copy_frame:
  "n < 2 ^ 31 \<Longrightarrow> \<not> within s (Suc n) x \<Longrightarrow> safestrcpy_copy m s t n x = m x"
proof (induction n arbitrary: m s t)
  case (Suc n)
  then have "x \<noteq> s" "x \<noteq> s + 1" "\<not> within (s + 1) (Suc n) x"
    by (auto simp: within_Suc [of s] within_Suc [of "s + 1"])
  with Suc show ?case by (simp add: Let_def)
qed (simp add: within_Suc)

lemma safestrcpy_copy_terminated:
  "n < 2 ^ 31 \<Longrightarrow> \<exists>k\<le>n. safestrcpy_copy m s t n (s + of_nat k) = 0"
proof (induction n arbitrary: m s t)
  case (Suc n)
  show ?case
  proof (cases "m t = 0")
    case True
    then show ?thesis by (intro exI [of _ 1]) (simp add: Let_def)
  next
    case False
    obtain k where "k \<le> n" "safestrcpy_copy (m(s := m t)) (s + 1) (t + 1) n (s + 1 + of_nat k) = 0"
      using Suc by fastforce
    with False show ?thesis
      by (intro exI [of _ "Suc k"]) (simp add: Let_def add.assoc)
  qed
qed (auto intro!: exI [of _ 0])

text \<open>
  C17: \<open>safestrcpy(s, t, n)\<close> with a positive count leaves a NUL within the
  first \<open>n\<close> bytes of \<open>s\<close> and writes to none outside them.
\<close>

theorem safestrcpy_terminates:
  assumes "0 < n" "n < 2 ^ 31"
  shows "(\<exists>k. int k < n \<and> safestrcpy m s t n (s + of_nat k) = 0) \<and>
    (\<forall>x. \<not> within s (nat n) x \<longrightarrow> safestrcpy m s t n x = m x)"
proof -
  have n: "Suc (nat (n - 1)) = nat n" "nat (n - 1) < 2 ^ 31" using assms by auto
  obtain k where "k \<le> nat (n - 1)" "safestrcpy_copy m s t (nat (n - 1)) (s + of_nat k) = 0"
    using safestrcpy_copy_terminated [OF n(2)] by blast
  moreover have "safestrcpy_copy m s t (nat (n - 1)) x = m x" if "\<not> within s (nat n) x" for x
    using safestrcpy_copy_frame [OF n(2)] that n(1) by simp
  ultimately show ?thesis
    using assms by (auto simp: safestrcpy_def intro!: exI [of _ k])
qed

theorem safestrcpy_terminates_witness:
  "\<exists>k. int k < 4 \<and> safestrcpy (\<lambda>_. 65) 1000 2000 4 (1000 + of_nat k) = 0"
  using safestrcpy_terminates [of 4 "\<lambda>_. 65" 1000 2000] by auto

end
