(* ===== verification/Kalloc.thy ===== *)
theory Kalloc
  imports Spinlock CString
begin

unbundle bit_operations_syntax

text \<open>
  kalloc.c: the physical page allocator, and the address conversions of memlayout.h. The free list
  runs through the free pages themselves: the first word of a free page is the address of the
  next one.
\<close>

section \<open>Addresses\<close>

definition KERNBASE :: u32 where "KERNBASE = 0x80000000"
definition PHYSTOP :: u32 where "PHYSTOP = 0xE000000"
definition PGSIZE :: u32 where "PGSIZE = 4096"

definition PGROUNDUP :: "u32 \<Rightarrow> u32" where
  "PGROUNDUP sz = (sz + PGSIZE - 1) AND NOT (PGSIZE - 1)"

definition PGROUNDDOWN :: "u32 \<Rightarrow> u32" where
  "PGROUNDDOWN a = a AND NOT (PGSIZE - 1)"

definition V2P :: "u32 \<Rightarrow> u32 res" where
  "V2P a =
     (if a < KERNBASE
      then panic (''V2P on address < KERNBASE '' @ ''(not a kernel virtual address; consider walking page '' @
        ''table to determine physical address of a user virtual address)'')
      else ret (a - KERNBASE))"

definition P2V :: "u32 \<Rightarrow> u32 res" where
  "P2V a = (if KERNBASE < a then panic ''P2V on address > KERNBASE'' else ret (a + KERNBASE))"

section \<open>State and operations\<close>

text \<open>
  The structure \<open>kmem\<close> (its lock is \<open>L_kmem\<close>) and \<open>kend\<close>, the linker's symbol \<open>end\<close>: the first
  address after the kernel.
\<close>

record kmem = machine +
  use_lock :: int
  freelist :: u32
  kend :: u32

definition kmem_acquire :: "'a kmem_scheme \<Rightarrow> 'a kmem_scheme res" where
  "kmem_acquire s = (if use_lock s \<noteq> 0 then acquire L_kmem s else ret s)"

definition kmem_release :: "'a kmem_scheme \<Rightarrow> 'a kmem_scheme res" where
  "kmem_release s = (if use_lock s \<noteq> 0 then release L_kmem s else ret s)"

definition kfree :: "u32 \<Rightarrow> 'a kmem_scheme \<Rightarrow> 'a kmem_scheme res" where
  "kfree v s =
     (if v mod PGSIZE \<noteq> 0 \<or> v < kend s then panic ''kfree''
      else rbind (V2P v) (\<lambda>pa.
      if PHYSTOP \<le> pa then panic ''kfree''
      else let s = s\<lparr>mem := memset (mem s) v 1 PGSIZE\<rparr> in
      rbind (kmem_acquire s) (\<lambda>s.
      let s = s\<lparr>mem := write32 (mem s) v (freelist s)\<rparr>;
          s = s\<lparr>freelist := v\<rparr>
      in kmem_release s)))"

definition kalloc :: "'a kmem_scheme \<Rightarrow> (u32 \<times> 'a kmem_scheme) res" where
  "kalloc s =
     rbind (kmem_acquire s) (\<lambda>s.
     let r = freelist s;
         s = (if r \<noteq> 0 then s\<lparr>freelist := read32 (mem s) r\<rparr> else s)
     in rbind (kmem_release s) (\<lambda>s. ret (r, s)))"

partial_function (option) free_pages_from ::
  "u32 \<Rightarrow> u32 \<Rightarrow> 'a kmem_scheme \<Rightarrow> 'a kmem_scheme res" where
  "free_pages_from p vend s =
     (if p + PGSIZE \<le> vend then rbind (kfree p s) (\<lambda>s. free_pages_from (p + PGSIZE) vend s)
      else ret s)"

definition freerange :: "u32 \<Rightarrow> u32 \<Rightarrow> 'a kmem_scheme \<Rightarrow> 'a kmem_scheme res" where
  "freerange vstart vend s =
     (if vend < vstart then panic ''freerange''
      else free_pages_from (PGROUNDUP vstart) vend s)"

definition kinit1 :: "u32 \<Rightarrow> u32 \<Rightarrow> 'a kmem_scheme \<Rightarrow> 'a kmem_scheme res" where
  "kinit1 vstart vend s =
     (let s = initlock L_kmem ''kmem'' s; s = s\<lparr>use_lock := 0\<rparr>
      in freerange vstart vend s)"

definition kinit2 :: "u32 \<Rightarrow> u32 \<Rightarrow> 'a kmem_scheme \<Rightarrow> 'a kmem_scheme res" where
  "kinit2 vstart vend s =
     rbind (freerange vstart vend s) (\<lambda>s. ret (s\<lparr>use_lock := 1\<rparr>))"

text \<open>A sequence of allocations: the pages it returns, in order.\<close>

fun repeat_alloc :: "('s \<Rightarrow> (u32 \<times> 's) res) \<Rightarrow> nat \<Rightarrow> 's \<Rightarrow> (u32 list \<times> 's) res" where
  "repeat_alloc alloc 0 s = ret ([], s)"
| "repeat_alloc alloc (Suc n) s =
     rbind (alloc s) (\<lambda>(p, s). rbind (repeat_alloc alloc n s) (\<lambda>(ps, s). ret (p # ps, s)))"

section \<open>The invariant\<close>

fun chain :: "(u32 \<Rightarrow> u8) \<Rightarrow> u32 \<Rightarrow> u32 list \<Rightarrow> bool" where
  "chain m a [] \<longleftrightarrow> a = 0"
| "chain m a (p # ps) \<longleftrightarrow> a = p \<and> p \<noteq> 0 \<and> chain m (read32 m p) ps"

text \<open>What \<open>kfree\<close> accepts: an aligned page between the kernel and the top of physical memory.\<close>

definition page_ok :: "u32 \<Rightarrow> u32 \<Rightarrow> bool" where
  "page_ok e p \<longleftrightarrow> p mod PGSIZE = 0 \<and> e \<le> p \<and> KERNBASE \<le> p \<and> p - KERNBASE < PHYSTOP"

text \<open>Everything \<open>kalloc\<close> and \<open>kfree\<close> need to run on CPU \<open>c\<close>, and the list of free pages.\<close>

definition kmem_lock :: "nat \<Rightarrow> 'a kmem_scheme \<Rightarrow> bool" where
  "kmem_lock c s \<longleftrightarrow> use_lock s \<noteq> 0 \<longrightarrow> on_cpu c s \<and> free_lock L_kmem s"

definition kmem_ok :: "nat \<Rightarrow> 'a kmem_scheme \<Rightarrow> u32 list \<Rightarrow> bool" where
  "kmem_ok c s l \<longleftrightarrow> kmem_lock c s \<and> chain (mem s) (freelist s) l \<and> distinct l \<and>
     (\<forall>p\<in>set l. page_ok (kend s) p)"

definition settled :: "nat \<Rightarrow> 'a kmem_scheme \<Rightarrow> 'a kmem_scheme" where
  "settled c s = (if use_lock s \<noteq> 0 then settle c s else s)"

lemma page_ok_nonzero: "page_ok e p \<Longrightarrow> p \<noteq> 0"
  by (auto simp: page_ok_def KERNBASE_def)

lemma chain_cong:
  "(\<And>p. p \<in> set l \<Longrightarrow> read32 m' p = read32 m p) \<Longrightarrow> chain m' a l = chain m a l"
  by (induction l arbitrary: a) auto

lemma page_disjoint:
  assumes "p mod PGSIZE = 0" "v mod PGSIZE = 0" "p \<noteq> v" "i < 4096"
  shows "\<not> within v (unat PGSIZE) (p + of_nat i)"
proof -
  have "unat p mod 4096 = 0" "unat v mod 4096 = 0"
    using assms(1,2) by (simp_all add: PGSIZE_def unat_mod flip: unat_eq_0)
  then obtain a b where ab: "unat p = 4096 * a" "unat v = 4096 * b" by (auto elim!: dvdE simp: mod_eq_0_iff_dvd)
  have lt: "4096 * a < 2 ^ 32" "4096 * b < 2 ^ 32"
    using unat_lt32 [of p] unat_lt32 [of v] ab by auto
  have "a \<noteq> b" using ab assms(3) by (metis word_unat_eq_iff)
  have p: "unat (p + of_nat i) = 4096 * a + i"
    using unat_add_nat [of p i] ab lt assms(4) by auto
  have "within v 4096 (p + of_nat i) \<longleftrightarrow> 4096 * b \<le> 4096 * a + i \<and> 4096 * a + i < 4096 * b + 4096"
    using within_unat [of v 4096 "p + of_nat i"] ab lt p by auto
  with \<open>a \<noteq> b\<close> assms(4) show ?thesis by (auto simp: PGSIZE_def)
qed

lemma read32_cong:
  assumes "\<And>i. i < 4 \<Longrightarrow> m' (p + of_nat i) = m (p + of_nat i)"
  shows "read32 m' p = read32 m p"
  using assms [of 0] assms [of 1] assms [of 2] assms [of 3] by (simp add: read32_def)

lemma within_page_start: "within v 4 x \<Longrightarrow> within v (unat PGSIZE) x"
  by (simp add: within_def PGSIZE_def)

lemma junk_other_page:
  assumes "\<not> within v (unat PGSIZE) x"
  shows "write32 (memset m v 1 PGSIZE) v a x = m x"
proof -
  have "\<not> within v 4 x" using assms within_page_start by blast
  then have "write32 (memset m v 1 PGSIZE) v a x = memset m v 1 PGSIZE x"
    using within_4 [of v 0 x] by (simp add: write32_eq)
  with assms show ?thesis by (simp add: memset_eq)
qed

section \<open>The operations under the invariant\<close>

lemma V2P_page: "page_ok e v \<Longrightarrow> V2P v = ret (v - KERNBASE)"
  by (simp add: V2P_def page_ok_def linorder_not_less)

lemma kmem_acquire_eq:
  "kmem_lock c s \<Longrightarrow> kmem_acquire s = ret (if use_lock s \<noteq> 0 then acquired L_kmem c s else s)"
  by (simp add: kmem_acquire_def kmem_lock_def acquire_free free_lock_def)

lemma kmem_release_eq:
  assumes "kmem_lock c s"
  shows "kmem_release ((if use_lock s \<noteq> 0 then acquired L_kmem c s else s)\<lparr>mem := m, freelist := f\<rparr>) =
    ret ((settled c s)\<lparr>mem := m, freelist := f\<rparr>)"
proof (cases "use_lock s = 0")
  case False
  with assms have on: "on_cpu c s" and fr: "free_lock L_kmem s" by (auto simp: kmem_lock_def)
  let ?s = "(acquired L_kmem c s)\<lparr>mem := m, freelist := f\<rparr>"
  have "on_cpu c ?s" "0 < ncli (cpus ?s c)" "holds L_kmem c ?s"
    using on_cpu_acquired [OF on, of L_kmem] on by (auto simp: on_cpu_def acquired_def holds_def)
  then have "release L_kmem ?s = ret (released L_kmem c ?s)" by (rule release_held)
  moreover have "released L_kmem c ?s = (released L_kmem c (acquired L_kmem c s))\<lparr>mem := m, freelist := f\<rparr>"
    by (rule kmem.equality) (simp_all add: released_def)
  moreover have "use_lock ?s \<noteq> 0" using False by (simp add: acquired_def)
  ultimately show ?thesis
    using False by (simp add: kmem_release_def settled_def released_acquired [OF on fr])
qed (simp add: kmem_release_def settled_def)

lemma kfree_eq:
  assumes "page_ok (kend s) v" "kmem_lock c s"
  shows "kfree v s = ret ((settled c s)\<lparr>
    mem := write32 (memset (mem s) v 1 PGSIZE) v (freelist s), freelist := v\<rparr>)"
proof -
  let ?m = "memset (mem s) v 1 PGSIZE" and ?s = "s\<lparr>mem := memset (mem s) v 1 PGSIZE\<rparr>"
  have l: "kmem_lock c ?s" using assms(2) by (simp add: kmem_lock_def on_cpu_def free_lock_def)
  let ?a = "if use_lock ?s \<noteq> 0 then acquired L_kmem c ?s else ?s"
  have a: "kmem_acquire ?s = ret ?a" by (rule kmem_acquire_eq [OF l])
  have f: "mem ?a = ?m" "freelist ?a = freelist s" by (simp_all add: acquired_def)
  have "\<not> (v mod PGSIZE \<noteq> 0 \<or> v < kend s)" "\<not> PHYSTOP \<le> v - KERNBASE"
    using assms(1) by (auto simp: page_ok_def)
  then have "kfree v s = kmem_release (?a\<lparr>mem := write32 ?m v (freelist s), freelist := v\<rparr>)"
    unfolding kfree_def V2P_page [OF assms(1)] by (simp add: a Let_def) (simp add: acquired_def)
  also have "\<dots> = ret ((settled c ?s)\<lparr>mem := write32 ?m v (freelist s), freelist := v\<rparr>)"
    by (rule kmem_release_eq [OF l])
  also have "(settled c ?s)\<lparr>mem := write32 ?m v (freelist s), freelist := v\<rparr> =
      (settled c s)\<lparr>mem := write32 ?m v (freelist s), freelist := v\<rparr>"
    by (rule kmem.equality) (simp_all add: settled_def settle_def)
  finally show ?thesis .
qed

lemma kalloc_eq:
  assumes "kmem_lock c s"
  shows "kalloc s = ret (freelist s, (settled c s)\<lparr>
    mem := mem s, freelist := (if freelist s \<noteq> 0 then read32 (mem s) (freelist s) else 0)\<rparr>)"
proof -
  let ?a = "if use_lock s \<noteq> 0 then acquired L_kmem c s else s"
  let ?f = "if freelist s \<noteq> 0 then read32 (mem s) (freelist s) else 0"
  have f: "mem ?a = mem s" "freelist ?a = freelist s" by (simp_all add: acquired_def)
  have e: "(if freelist ?a \<noteq> 0 then ?a\<lparr>freelist := read32 (mem ?a) (freelist ?a)\<rparr> else ?a) =
      ?a\<lparr>mem := mem s, freelist := ?f\<rparr>"
    unfolding f by (rule kmem.equality) (simp_all add: acquired_def)
  show ?thesis
    unfolding kalloc_def kmem_acquire_eq [OF assms] rbind_ret Let_def e [unfolded f] f
      kmem_release_eq [OF assms] ..
qed

lemma kmem_ok_kfree:
  assumes "kmem_ok c s l" "page_ok (kend s) v" "v \<notin> set l"
  shows "\<exists>s'. kfree v s = ret s' \<and> kmem_ok c s' (v # l)"
proof -
  let ?m = "write32 (memset (mem s) v 1 PGSIZE) v (freelist s)"
  have lk: "kmem_lock c s" and ch: "chain (mem s) (freelist s) l" and di: "distinct l"
    and pg: "\<forall>p\<in>set l. page_ok (kend s) p"
    using assms(1) by (auto simp: kmem_ok_def)
  have "chain ?m (freelist s) l = chain (mem s) (freelist s) l"
  proof (rule chain_cong, rule read32_cong, rule junk_other_page, rule page_disjoint)
    fix p and i :: nat assume "p \<in> set l" "i < 4"
    then show "p mod PGSIZE = 0" "v mod PGSIZE = 0" "p \<noteq> v" "i < 4096"
      using pg assms(2,3) by (auto simp: page_ok_def)
  qed
  with ch di pg lk assms(2,3) page_ok_nonzero [OF assms(2)]
  show ?thesis
    unfolding kfree_eq [OF assms(2) lk]
    by (auto simp: kmem_ok_def kmem_lock_def settled_def settle_def on_cpu_def free_lock_def)
qed

lemma kmem_ok_kalloc:
  assumes "kmem_ok c s l"
  shows "\<exists>s'. kalloc s = ret (case l of [] \<Rightarrow> 0 | p # _ \<Rightarrow> p, s') \<and> kmem_ok c s' (tl l) \<and>
    mem s' = mem s"
proof -
  have lk: "kmem_lock c s" and ch: "chain (mem s) (freelist s) l"
    using assms by (auto simp: kmem_ok_def)
  with assms show ?thesis
    unfolding kalloc_eq [OF lk]
    by (cases l) (auto simp: kmem_ok_def kmem_lock_def settled_def settle_def on_cpu_def free_lock_def)
qed

section \<open>Initialisation\<close>

text \<open>The \<open>n\<close> pages from \<open>p\<close> on.\<close>

definition pages :: "u32 \<Rightarrow> nat \<Rightarrow> u32 list" where
  "pages p n = map (\<lambda>i. p + of_nat i * PGSIZE) [0..<n]"

lemma pages_0 [simp]: "pages p 0 = []"
  by (simp add: pages_def)

lemma pages_Suc: "pages p (Suc n) = p # pages (p + PGSIZE) n"
proof -
  have "[0..<Suc n] = 0 # map Suc [0..<n]" by (simp add: map_Suc_upt upt_conv_Cons del: upt_Suc)
  then show ?thesis by (simp add: pages_def algebra_simps)
qed

lemma unat_PGSIZE_add:
  assumes "unat p + 4096 < 2 ^ 32"
  shows "unat (p + PGSIZE) = unat p + 4096"
  using unat_add_nat [of p 4096] assms by (simp add: PGSIZE_def)

lemma free_pages_from_ok:
  assumes "kmem_ok c s l" "p mod PGSIZE = 0" "KERNBASE \<le> p" "kend s \<le> p"
    and "unat vend \<le> 0x8E000000" "unat p < unat vend + 4096"
    and "n = (unat vend - unat p) div 4096" "\<forall>q\<in>set l. q < p"
  shows "\<exists>s'. free_pages_from p vend s = ret s' \<and> kmem_ok c s' (rev (pages p n) @ l) \<and>
    kend s' = kend s \<and> use_lock s' = use_lock s"
  using assms
proof (induction n arbitrary: p s l)
  case 0
  have "unat (p + PGSIZE) = unat p + 4096"
    using unat_PGSIZE_add [of p] 0(5,6) by simp
  moreover have "unat vend < unat p + 4096" using 0(7) by simp
  ultimately have "\<not> p + PGSIZE \<le> vend" by (simp add: word_le_nat_alt)
  with 0(1) show ?case by (simp add: free_pages_from.simps)
next
  case (Suc n)
  have a: "unat (p + PGSIZE) = unat p + 4096"
    using unat_PGSIZE_add [of p] Suc.prems(5,6) by simp
  have le: "unat p + 4096 \<le> unat vend" using Suc.prems(7) by simp
  then have n: "n = (unat vend - unat (p + PGSIZE)) div 4096"
    using Suc.prems(7) div_add_self2 [of 4096 "unat vend - unat (p + PGSIZE)"] a by simp
  have go: "p + PGSIZE \<le> vend" using le a by (simp add: word_le_nat_alt)
  have "unat p < 0x8E000000" "0x80000000 \<le> unat p"
    using le Suc.prems(3,5) by (simp_all add: KERNBASE_def word_le_nat_alt)
  then have "p - KERNBASE < PHYSTOP"
    by (simp add: PHYSTOP_def KERNBASE_def) unat_arith
  then have pg: "page_ok (kend s) p" using Suc.prems(2-4) by (simp add: page_ok_def)
  have nl: "p \<notin> set l" using Suc.prems(8) by blast
  obtain s1 where s1: "kfree p s = ret s1" "kmem_ok c s1 (p # l)"
    using kmem_ok_kfree [OF Suc.prems(1) pg nl] by blast
  have "kmem_lock c s" using Suc.prems(1) by (simp add: kmem_ok_def)
  then have ke: "kend s1 = kend s" "use_lock s1 = use_lock s"
    using kfree_eq [OF pg, of c] s1(1) by (auto simp: settled_def settle_def)
  have lt: "p < p + PGSIZE" using a by (simp add: word_less_nat_alt)
  have "\<exists>s'. free_pages_from (p + PGSIZE) vend s1 = ret s' \<and>
      kmem_ok c s' (rev (pages (p + PGSIZE) n) @ p # l) \<and> kend s' = kend s1 \<and> use_lock s' = use_lock s1"
  proof (rule Suc.IH [OF s1(2) _ _ _ Suc.prems(5) _ n])
    show "(p + PGSIZE) mod PGSIZE = 0"
      using Suc.prems(2) a by (simp add: PGSIZE_def unat_mod flip: unat_eq_0)
    show "KERNBASE \<le> p + PGSIZE" "kend s1 \<le> p + PGSIZE"
      using Suc.prems(3,4) lt ke by auto
    show "unat (p + PGSIZE) < unat vend + 4096" using a le by simp
    show "\<forall>q\<in>set (p # l). q < p + PGSIZE" using lt Suc.prems(8) by auto
  qed
  with go s1(1) ke show ?case by (subst free_pages_from.simps) (simp add: pages_Suc)
qed

lemma clear_low_bits: "unat ((a :: u32) AND NOT (PGSIZE - 1)) = unat a div 4096 * 4096"
proof -
  have m: "PGSIZE - 1 = mask 12" by (simp add: PGSIZE_def mask_eq_exp_minus_1)
  have "a AND NOT (mask 12) = push_bit 12 (drop_bit 12 a)"
    by (rule bit_word_eqI)
      (auto simp only: bit_and_iff bit_not_iff bit_mask_iff bit_push_bit_iff bit_drop_bit_eq comp_def
        possible_bit_word le_add_diff_inverse not_less)
  moreover have "unat (push_bit 12 (drop_bit 12 a)) = unat a div 4096 * 4096"
  proof -
    have "unat a div 4096 * 4096 < 2 ^ 32"
      using unat_lt32 [of a] div_times_less_eq_dividend [of "unat a" 4096] by linarith
    then show ?thesis
      by (simp add: push_bit_eq_mult drop_bit_eq_div unat_word_ariths unat_div)
  qed
  ultimately show ?thesis unfolding m by simp
qed

lemma unat_PGROUNDUP:
  assumes "unat a + 4095 < 2 ^ 32"
  shows "unat (PGROUNDUP a) = (unat a + 4095) div 4096 * 4096"
proof -
  have e: "a + PGSIZE - 1 = a + of_nat 4095" by (simp add: PGSIZE_def)
  have "unat (a + of_nat 4095) = unat a + 4095"
    using assms by (rule unat_add_nat)
  then show ?thesis unfolding PGROUNDUP_def clear_low_bits e by simp
qed

section \<open>The interface\<close>

text \<open>
  What the clients of the allocator rely on: the pages that are free form a list; an allocation
  returns its first page, or 0 when there is none; a page that is not free can be given back.
\<close>

locale page_allocator =
  fixes inv :: "'s \<Rightarrow> u32 list \<Rightarrow> bool"
    and accepts :: "'s \<Rightarrow> u32 \<Rightarrow> bool"
    and alloc :: "'s \<Rightarrow> (u32 \<times> 's) res"
    and free :: "u32 \<Rightarrow> 's \<Rightarrow> 's res"
  assumes inv_pages: "inv s l \<Longrightarrow> distinct l \<and> 0 \<notin> set l"
    and alloc_law: "inv s l \<Longrightarrow> \<exists>s'. alloc s = ret (case l of [] \<Rightarrow> 0 | p # _ \<Rightarrow> p, s') \<and> inv s' (tl l)"
    and free_law: "inv s l \<Longrightarrow> accepts s p \<Longrightarrow> p \<notin> set l \<Longrightarrow> \<exists>s'. free p s = ret s' \<and> inv s' (p # l)"
begin

lemma alloc_free:
  assumes "inv s l" "accepts s p" "p \<notin> set l"
  shows "\<exists>s'. rbind (free p s) alloc = ret (p, s') \<and> inv s' l"
  using free_law [OF assms] alloc_law [of _ "p # l"] by force

lemma alloc_exhausts:
  assumes "inv s l"
  shows "\<exists>s'. repeat_alloc alloc n s = ret (take n l @ replicate (n - length l) 0, s') \<and> inv s' (drop n l)"
  using assms
proof (induction n arbitrary: s l)
  case (Suc n)
  obtain s1 where s1: "alloc s = ret (case l of [] \<Rightarrow> 0 | p # _ \<Rightarrow> p, s1)" "inv s1 (tl l)"
    using alloc_law [OF Suc.prems] by blast
  obtain s2 where "repeat_alloc alloc n s1 = ret (take n (tl l) @ replicate (n - length (tl l)) 0, s2)"
    "inv s2 (drop n (tl l))"
    using Suc.IH [OF s1(2)] by blast
  with s1(1) show ?case by (cases l) auto
qed simp

end

interpretation km: page_allocator "kmem_ok c" "\<lambda>s. page_ok (kend s)" kalloc kfree
proof
  fix s :: "'a kmem_scheme" and l p
  assume ok: "kmem_ok c s l"
  then show "distinct l \<and> 0 \<notin> set l"
    using page_ok_nonzero by (auto simp: kmem_ok_def)
  from ok show "\<exists>s'. kalloc s = ret (case l of [] \<Rightarrow> 0 | p # _ \<Rightarrow> p, s') \<and> kmem_ok c s' (tl l)"
    using kmem_ok_kalloc by blast
  show "\<exists>s'. kfree p s = ret s' \<and> kmem_ok c s' (p # l)" if "page_ok (kend s) p" "p \<notin> set l"
    using kmem_ok_kfree [OF ok that] .
qed

section \<open>Properties\<close>

text \<open>An idle machine with one CPU, all locks free and every byte of memory 0.\<close>

definition idle :: kmem where
  "idle = \<lparr>mem = (\<lambda>_. 0), console = [], fl_if = True, lapicid = 0, ncpu = 1,
     cpus = (\<lambda>_. \<lparr>apicid = 0, started = 1, ncli = 0, intena = False, cpu_proc = None\<rparr>),
     locks = (\<lambda>_. \<lparr>locked = 0, lk_name = [], lk_cpu = None\<rparr>),
     use_lock = 1, freelist = 0, kend = 0x80100000\<rparr>"

lemma on_cpu_idle: "on_cpu 0 idle"
  by (simp add: on_cpu_def idle_def cpu_index_def)

lemma kmem_ok_idle: "kmem_ok 0 idle []"
  using on_cpu_idle by (simp add: kmem_ok_def kmem_lock_def free_lock_def) (simp add: idle_def)

text \<open>
  C13: after \<open>kinit1(vstart, vend)\<close> the free list holds exactly the whole pages between
  \<open>vstart\<close>, rounded up, and \<open>vend\<close>, the highest first, provided the range lies above the kernel
  and within physical memory; the initialisation does not panic.
\<close>

theorem kinit1_free_list:
  assumes "freelist s = 0" "KERNBASE \<le> vstart" "kend s \<le> vstart" "vstart \<le> vend"
    and "vend \<le> KERNBASE + PHYSTOP"
  shows "\<exists>s'. kinit1 vstart vend s = ret s' \<and>
    kmem_ok c s' (rev (pages (PGROUNDUP vstart) ((unat vend - unat (PGROUNDUP vstart)) div 4096)))"
proof -
  let ?s = "(initlock L_kmem ''kmem'' s)\<lparr>use_lock := 0\<rparr>"
  have top: "unat vend \<le> 0x8E000000" "unat vstart \<le> unat vend"
    using assms(4,5) by (simp_all add: PHYSTOP_def KERNBASE_def word_le_nat_alt)
  then have p: "unat (PGROUNDUP vstart) = (unat vstart + 4095) div 4096 * 4096"
    by (intro unat_PGROUNDUP) simp
  then have le: "vstart \<le> PGROUNDUP vstart" by (simp add: word_le_nat_alt)
  have ok: "kmem_ok c ?s []"
    using assms(1) by (simp add: kmem_ok_def kmem_lock_def initlock_def set_lock_def)
  have "\<exists>s'. free_pages_from (PGROUNDUP vstart) vend ?s = ret s' \<and>
      kmem_ok c s' (rev (pages (PGROUNDUP vstart) ((unat vend - unat (PGROUNDUP vstart)) div 4096)) @ []) \<and>
      kend s' = kend ?s \<and> use_lock s' = use_lock ?s"
  proof (rule free_pages_from_ok [OF ok _ _ _ top(1) _ refl])
    show "PGROUNDUP vstart mod PGSIZE = 0"
      by (simp add: PGSIZE_def unat_mod p flip: unat_eq_0)
    show "KERNBASE \<le> PGROUNDUP vstart" "kend ?s \<le> PGROUNDUP vstart"
      using assms(2,3) le by (simp_all add: initlock_def set_lock_def)
    show "unat (PGROUNDUP vstart) < unat vend + 4096" using p top by simp
  qed simp
  with assms(4) show ?thesis by (auto simp: kinit1_def freerange_def Let_def)
qed

theorem kinit1_free_list_witness:
  "\<exists>s'. kinit1 0x80100000 0x80104000 idle = ret s' \<and>
    kmem_ok 0 s' (rev (pages (PGROUNDUP 0x80100000) ((unat (0x80104000 :: u32) - unat (PGROUNDUP 0x80100000)) div 4096)))"
  by (rule kinit1_free_list) (simp_all add: KERNBASE_def PHYSTOP_def idle_def)

text \<open>
  C14: \<open>n\<close> calls of \<open>kalloc\<close> return the first \<open>n\<close> pages of the free list, each
  page once, and 0 for every call after the last free page; the other pages stay free.
\<close>

theorem kalloc_distinct_pages:
  assumes "kmem_ok c s l"
  shows "\<exists>s'. repeat_alloc kalloc n s = ret (take n l @ replicate (n - length l) 0, s') \<and>
    distinct (take n l) \<and> 0 \<notin> set (take n l) \<and> kmem_ok c s' (drop n l)"
  using km.alloc_exhausts [OF assms, of n] km.inv_pages [OF assms] by (auto dest: in_set_takeD)

theorem kalloc_distinct_pages_witness:
  "\<exists>s'. repeat_alloc kalloc 3 idle = ret ([0, 0, 0], s')"
  using kalloc_distinct_pages [OF kmem_ok_idle, of 3] by (auto simp: eval_nat_numeral)

text \<open>
  C15: \<open>kfree\<close> panics for every address that is not an aligned page above the kernel
  and below the top of physical memory; for such a page it returns, the page is junk-filled apart
  from the link, becomes the head of the free list, and no byte outside it changes.
\<close>

theorem kfree_accepts:
  assumes "kmem_lock c s"
  shows "(\<not> page_ok (kend s) v \<longrightarrow> (\<exists>msg. kfree v s = panic msg)) \<and>
    (page_ok (kend s) v \<longrightarrow> (\<exists>s'. kfree v s = ret s' \<and> freelist s' = v \<and> read32 (mem s') v = freelist s \<and>
      (\<forall>x. mem s' x = (if within v 4 x then write32 (mem s) v (freelist s) x
                        else if within v 4096 x then 1 else mem s x))))"
proof (intro conjI impI)
  assume n: "\<not> page_ok (kend s) v"
  show "\<exists>msg. kfree v s = panic msg"
  proof (cases "v < KERNBASE")
    case True
    then show ?thesis by (simp add: kfree_def V2P_def)
  next
    case False
    then have "V2P v = ret (v - KERNBASE)" by (simp add: V2P_def)
    with n False show ?thesis by (auto simp: kfree_def page_ok_def not_less)
  qed
next
  assume pg: "page_ok (kend s) v"
  have w: "within v 4 x \<longleftrightarrow> x = v \<or> x = v + 1 \<or> x = v + 2 \<or> x = v + 3" for x
    using within_4 [of v 0 x] by simp
  show "\<exists>s'. kfree v s = ret s' \<and> freelist s' = v \<and> read32 (mem s') v = freelist s \<and>
      (\<forall>x. mem s' x = (if within v 4 x then write32 (mem s) v (freelist s) x
                        else if within v 4096 x then 1 else mem s x))"
    unfolding kfree_eq [OF pg assms] by (simp add: w write32_eq memset_eq PGSIZE_def)
qed

theorem kfree_accepts_witness:
  "\<exists>s'. kfree 0x80200000 idle = ret s' \<and> freelist s' = 0x80200000"
proof -
  have l: "kmem_lock 0 idle" using kmem_ok_idle by (simp add: kmem_ok_def)
  have "page_ok (kend idle) 0x80200000"
    by (simp add: page_ok_def idle_def PGSIZE_def KERNBASE_def PHYSTOP_def)
  with kfree_accepts [of 0 idle "0x80200000"] l show ?thesis by blast
qed

text \<open>
  A page that is given back is the next page handed out, and the other free
  pages are still free afterwards.
\<close>

theorem kfree_then_kalloc:
  assumes "kmem_ok c s l" "page_ok (kend s) v" "v \<notin> set l"
  shows "\<exists>s'. rbind (kfree v s) kalloc = ret (v, s') \<and> kmem_ok c s' l"
  using assms by (rule km.alloc_free)

theorem kfree_then_kalloc_witness:
  "\<exists>s'. rbind (kfree 0x80200000 idle) kalloc = ret (0x80200000, s') \<and> kmem_ok 0 s' []"
  by (rule kfree_then_kalloc [OF kmem_ok_idle])
    (simp_all add: page_ok_def idle_def PGSIZE_def KERNBASE_def PHYSTOP_def)

end
