(* ===== verification/Vm.thy ===== *)
theory Vm
  imports Kalloc
begin

unbundle bit_operations_syntax

text \<open>
  vm.c: two-level page tables, the kernel part of an address space, growing, shrinking, copying and
  freeing user memory, and the copy to user space. Page directories and page tables live in
  memory; the kernel reaches physical address \<open>pa\<close> at \<open>pa + KERNBASE\<close>. \<open>loaduvm\<close>, which reads
  from an inode, is modelled with the file system.
\<close>

section \<open>Constants of mmu.h and memlayout.h\<close>

definition PTE_P :: u32 where "PTE_P = 0x001"
definition PTE_W :: u32 where "PTE_W = 0x002"
definition PTE_U :: u32 where "PTE_U = 0x004"
definition EXTMEM :: u32 where "EXTMEM = 0x100000"
definition DEVSPACE :: u32 where "DEVSPACE = 0xFE000000"
definition KERNLINK :: u32 where "KERNLINK = KERNBASE + EXTMEM"
definition KSTACKSIZE :: u32 where "KSTACKSIZE = 4096"

definition PDX :: "u32 \<Rightarrow> u32" where "PDX va = drop_bit 22 va AND 0x3FF"
definition PTX :: "u32 \<Rightarrow> u32" where "PTX va = drop_bit 12 va AND 0x3FF"

definition PGADDR :: "u32 \<Rightarrow> u32 \<Rightarrow> u32 \<Rightarrow> u32" where
  "PGADDR d t ofs = push_bit 22 d OR push_bit 12 t OR ofs"

definition PTE_ADDR :: "u32 \<Rightarrow> u32" where "PTE_ADDR pte = pte AND NOT 0xFFF"
definition PTE_FLAGS :: "u32 \<Rightarrow> u32" where "PTE_FLAGS pte = pte AND 0xFFF"

section \<open>Segments\<close>

record segdesc =
  lim_15_0 :: u32
  base_15_0 :: u32
  base_23_16 :: u32
  sd_type :: u32
  sd_s :: u32
  sd_dpl :: u32
  sd_p :: u32
  lim_19_16 :: u32
  sd_db :: u32
  sd_g :: u32
  base_31_24 :: u32

definition SEG :: "u32 \<Rightarrow> u32 \<Rightarrow> u32 \<Rightarrow> u32 \<Rightarrow> segdesc" where
  "SEG ty base lim dpl =
     \<lparr>lim_15_0 = drop_bit 12 lim AND 0xffff, base_15_0 = base AND 0xffff,
      base_23_16 = drop_bit 16 base AND 0xff, sd_type = ty, sd_s = 1, sd_dpl = dpl, sd_p = 1,
      lim_19_16 = drop_bit 28 lim, sd_db = 1, sd_g = 1, base_31_24 = drop_bit 24 base\<rparr>"

definition SEG16 :: "u32 \<Rightarrow> u32 \<Rightarrow> u32 \<Rightarrow> u32 \<Rightarrow> segdesc" where
  "SEG16 ty base lim dpl =
     \<lparr>lim_15_0 = lim AND 0xffff, base_15_0 = base AND 0xffff,
      base_23_16 = drop_bit 16 base AND 0xff, sd_type = ty, sd_s = 1, sd_dpl = dpl, sd_p = 1,
      lim_19_16 = drop_bit 16 lim, sd_db = 1, sd_g = 0, base_31_24 = drop_bit 24 base\<rparr>"

definition SEG_KCODE :: nat where "SEG_KCODE = 1"
definition SEG_KDATA :: nat where "SEG_KDATA = 2"
definition SEG_UCODE :: nat where "SEG_UCODE = 3"
definition SEG_UDATA :: nat where "SEG_UDATA = 4"
definition SEG_TSS :: nat where "SEG_TSS = 5"

text \<open>The fields of \<open>struct taskstate\<close> that the kernel sets; the structure has 104 bytes.\<close>

record taskstate =
  ts_esp0 :: u32
  ts_ss0 :: u16
  ts_iomb :: u16

section \<open>State\<close>

text \<open>
  Per CPU the segment descriptors and the task state with its address; the kernel's page directory
  and the linker's symbol \<open>data\<close>; the control registers.
\<close>

record vms = kmem +
  gdt :: "nat \<Rightarrow> nat \<Rightarrow> segdesc"
  tss :: "nat \<Rightarrow> taskstate"
  tss_addr :: "nat \<Rightarrow> u32"
  kdata :: u32
  kpgdir :: u32
  cr3 :: u32
  gdtr :: "nat option"
  task_register :: u32

definition seginit :: "'a vms_scheme \<Rightarrow> 'a vms_scheme res" where
  "seginit s =
     rbind (cpuid s) (\<lambda>c.
     let gd = (gdt s c)(SEG_KCODE := SEG (0x8 OR 0x2) 0 0xffffffff 0,
                        SEG_KDATA := SEG 0x2 0 0xffffffff 0,
                        SEG_UCODE := SEG (0x8 OR 0x2) 0 0xffffffff 3,
                        SEG_UDATA := SEG 0x2 0 0xffffffff 3)
     in ret (s\<lparr>gdt := (gdt s)(c := gd), gdtr := Some c\<rparr>))"

section \<open>Walking and mapping\<close>

text \<open>\<open>walkpgdir\<close> returns the address of the entry, 0 for the null pointer.\<close>

definition walkpgdir :: "u32 \<Rightarrow> u32 \<Rightarrow> bool \<Rightarrow> 'a kmem_scheme \<Rightarrow> (u32 \<times> 'a kmem_scheme) res" where
  "walkpgdir pgdir va alloc s =
     (let pde = pgdir + 4 * PDX va in
      if read32 (mem s) pde AND PTE_P \<noteq> 0
      then rbind (P2V (PTE_ADDR (read32 (mem s) pde))) (\<lambda>pgtab. ret (pgtab + 4 * PTX va, s))
      else if \<not> alloc then ret (0, s)
      else rbind (kalloc s) (\<lambda>(pgtab, s).
        if pgtab = 0 then ret (0, s)
        else let s = s\<lparr>mem := memset (mem s) pgtab 0 PGSIZE\<rparr> in
        rbind (V2P pgtab) (\<lambda>pa.
        let s = s\<lparr>mem := write32 (mem s) pde (pa OR PTE_P OR PTE_W OR PTE_U)\<rparr>
        in ret (pgtab + 4 * PTX va, s))))"

partial_function (option) mappages_loop ::
  "u32 \<Rightarrow> u32 \<Rightarrow> u32 \<Rightarrow> u32 \<Rightarrow> u32 \<Rightarrow> 'a kmem_scheme \<Rightarrow> (int \<times> 'a kmem_scheme) res" where
  "mappages_loop pgdir a lst pa perm s =
     rbind (walkpgdir pgdir a True s) (\<lambda>(pte, s).
     if pte = 0 then ret (-1, s)
     else if read32 (mem s) pte AND PTE_P \<noteq> 0 then panic ''remap''
     else let s = s\<lparr>mem := write32 (mem s) pte (pa OR perm OR PTE_P)\<rparr> in
     if a = lst then ret (0, s)
     else mappages_loop pgdir (a + PGSIZE) lst (pa + PGSIZE) perm s)"

definition mappages ::
  "u32 \<Rightarrow> u32 \<Rightarrow> u32 \<Rightarrow> u32 \<Rightarrow> u32 \<Rightarrow> 'a kmem_scheme \<Rightarrow> (int \<times> 'a kmem_scheme) res" where
  "mappages pgdir va len pa perm s =
     mappages_loop pgdir (PGROUNDDOWN va) (PGROUNDDOWN (va + len - 1)) pa perm s"

section \<open>Shrinking and freeing\<close>

partial_function (option) dealloc_loop ::
  "u32 \<Rightarrow> u32 \<Rightarrow> u32 \<Rightarrow> 'a kmem_scheme \<Rightarrow> 'a kmem_scheme res" where
  "dealloc_loop pgdir a oldsz s =
     (if a < oldsz then
        rbind (walkpgdir pgdir a False s) (\<lambda>(pte, s).
        if pte = 0 then dealloc_loop pgdir (PGADDR (PDX a + 1) 0 0 - PGSIZE + PGSIZE) oldsz s
        else if read32 (mem s) pte AND PTE_P \<noteq> 0 then
          let pa = PTE_ADDR (read32 (mem s) pte) in
          if pa = 0 then panic ''kfree''
          else rbind (P2V pa) (\<lambda>v.
            rbind (kfree v s) (\<lambda>s.
            dealloc_loop pgdir (a + PGSIZE) oldsz (s\<lparr>mem := write32 (mem s) pte 0\<rparr>)))
        else dealloc_loop pgdir (a + PGSIZE) oldsz s)
      else ret s)"

definition deallocuvm :: "u32 \<Rightarrow> u32 \<Rightarrow> u32 \<Rightarrow> 'a kmem_scheme \<Rightarrow> (u32 \<times> 'a kmem_scheme) res" where
  "deallocuvm pgdir oldsz newsz s =
     (if oldsz \<le> newsz then ret (oldsz, s)
      else rbind (dealloc_loop pgdir (PGROUNDUP newsz) oldsz s) (\<lambda>s. ret (newsz, s)))"

text \<open>The loop of \<open>freevm\<close> over the remaining \<open>n\<close> of the 1024 directory entries.\<close>

fun free_tables :: "u32 \<Rightarrow> nat \<Rightarrow> 'a kmem_scheme \<Rightarrow> 'a kmem_scheme res" where
  "free_tables pgdir 0 s = ret s"
| "free_tables pgdir (Suc n) s =
     (let e = read32 (mem s) (pgdir + 4 * of_nat (1024 - Suc n)) in
      if e AND PTE_P \<noteq> 0
      then rbind (P2V (PTE_ADDR e)) (\<lambda>v. rbind (kfree v s) (free_tables pgdir n))
      else free_tables pgdir n s)"

definition freevm :: "u32 \<Rightarrow> 'a kmem_scheme \<Rightarrow> 'a kmem_scheme res" where
  "freevm pgdir s =
     (if pgdir = 0 then panic ''freevm: no pgdir''
      else rbind (deallocuvm pgdir KERNBASE 0 s) (\<lambda>(_, s).
           rbind (free_tables pgdir 1024 s) (kfree pgdir)))"

section \<open>The kernel part of an address space\<close>

text \<open>The table \<open>kmap\<close>: virtual start, physical start, physical end, permissions.\<close>

definition kmap :: "'a vms_scheme \<Rightarrow> (u32 \<times> u32 \<times> u32 \<times> u32) list" where
  "kmap s =
     [(KERNBASE, 0, EXTMEM, PTE_W),
      (KERNLINK, KERNLINK - KERNBASE, kdata s - KERNBASE, 0),
      (kdata s, kdata s - KERNBASE, PHYSTOP, PTE_W),
      (DEVSPACE, DEVSPACE, 0, PTE_W)]"

fun map_kernel ::
  "u32 \<Rightarrow> (u32 \<times> u32 \<times> u32 \<times> u32) list \<Rightarrow> 'a kmem_scheme \<Rightarrow> (u32 \<times> 'a kmem_scheme) res" where
  "map_kernel pgdir [] s = ret (pgdir, s)"
| "map_kernel pgdir ((virt, phys_start, phys_end, perm) # ks) s =
     rbind (mappages pgdir virt (phys_end - phys_start) phys_start perm s) (\<lambda>(r, s).
     if r < 0 then rbind (freevm pgdir s) (\<lambda>s. ret (0, s))
     else map_kernel pgdir ks s)"

definition setupkvm :: "'a vms_scheme \<Rightarrow> (u32 \<times> 'a vms_scheme) res" where
  "setupkvm s =
     rbind (kalloc s) (\<lambda>(pgdir, s).
     if pgdir = 0 then ret (0, s)
     else let s = s\<lparr>mem := memset (mem s) pgdir 0 PGSIZE\<rparr> in
     rbind (P2V PHYSTOP) (\<lambda>top.
     if DEVSPACE < top then panic ''PHYSTOP too high''
     else map_kernel pgdir (kmap s) s))"

definition switchkvm :: "'a vms_scheme \<Rightarrow> 'a vms_scheme res" where
  "switchkvm s = rbind (V2P (kpgdir s)) (\<lambda>pa. ret (s\<lparr>cr3 := pa\<rparr>))"

definition kvmalloc :: "'a vms_scheme \<Rightarrow> 'a vms_scheme res" where
  "kvmalloc s = rbind (setupkvm s) (\<lambda>(p, s). switchkvm (s\<lparr>kpgdir := p\<rparr>))"

text \<open>\<open>switchuvm\<close> uses the kernel stack and the page directory of the process.\<close>

definition switchuvm :: "(u32 \<times> u32) option \<Rightarrow> 'a vms_scheme \<Rightarrow> 'a vms_scheme res" where
  "switchuvm p s =
     (case p of None \<Rightarrow> panic ''switchuvm: no process''
      | Some (kstack, pgdir) \<Rightarrow>
          if kstack = 0 then panic ''switchuvm: no kstack''
          else if pgdir = 0 then panic ''switchuvm: no pgdir''
          else rbind (pushcli s) (\<lambda>s.
            rbind (mycpu s) (\<lambda>c.
            let s = s\<lparr>gdt := (gdt s)(c := (gdt s c)(SEG_TSS :=
                      (SEG16 0x9 (tss_addr s c) 103 0)\<lparr>sd_s := 0\<rparr>)),
                      tss := (tss s)(c := \<lparr>ts_esp0 = kstack + KSTACKSIZE,
                        ts_ss0 = of_nat (SEG_KDATA * 8), ts_iomb = 0xFFFF\<rparr>),
                      task_register := of_nat (SEG_TSS * 8)\<rparr>
            in rbind (V2P pgdir) (\<lambda>pa. popcli (s\<lparr>cr3 := pa\<rparr>)))))"

section \<open>User memory\<close>

text \<open>\<open>init\<close> is the address of the code to load, in kernel memory.\<close>

definition inituvm :: "u32 \<Rightarrow> u32 \<Rightarrow> u32 \<Rightarrow> 'a kmem_scheme \<Rightarrow> 'a kmem_scheme res" where
  "inituvm pgdir init sz s =
     (if PGSIZE \<le> sz then panic ''inituvm: more than a page''
      else rbind (kalloc s) (\<lambda>(m, s).
        let s = s\<lparr>mem := memset (mem s) m 0 PGSIZE\<rparr> in
        rbind (V2P m) (\<lambda>pa.
        rbind (mappages pgdir 0 PGSIZE pa (PTE_W OR PTE_U) s) (\<lambda>(_, s).
        ret (s\<lparr>mem := memmove (mem s) m init sz\<rparr>)))))"

partial_function (option) alloc_loop ::
  "u32 \<Rightarrow> u32 \<Rightarrow> u32 \<Rightarrow> u32 \<Rightarrow> 'a kmem_scheme \<Rightarrow> (u32 \<times> 'a kmem_scheme) res" where
  "alloc_loop pgdir a oldsz newsz s =
     (if a < newsz then
        rbind (kalloc s) (\<lambda>(m, s).
        if m = 0 then
          rbind (kprintf ''allocuvm out of memory\<newline>'' [] s) (\<lambda>s.
          rbind (deallocuvm pgdir newsz oldsz s) (\<lambda>(_, s). ret (0, s)))
        else let s = s\<lparr>mem := memset (mem s) m 0 PGSIZE\<rparr> in
          rbind (V2P m) (\<lambda>pa.
          rbind (mappages pgdir a PGSIZE pa (PTE_W OR PTE_U) s) (\<lambda>(r, s).
          if r < 0 then
            rbind (kprintf ''allocuvm out of memory (2)\<newline>'' [] s) (\<lambda>s.
            rbind (deallocuvm pgdir newsz oldsz s) (\<lambda>(_, s).
            rbind (kfree m s) (\<lambda>s. ret (0, s))))
          else alloc_loop pgdir (a + PGSIZE) oldsz newsz s)))
      else ret (newsz, s))"

definition allocuvm :: "u32 \<Rightarrow> u32 \<Rightarrow> u32 \<Rightarrow> 'a kmem_scheme \<Rightarrow> (u32 \<times> 'a kmem_scheme) res" where
  "allocuvm pgdir oldsz newsz s =
     (if KERNBASE \<le> newsz then ret (0, s)
      else if newsz < oldsz then ret (oldsz, s)
      else alloc_loop pgdir (PGROUNDUP oldsz) oldsz newsz s)"

definition clearpteu :: "u32 \<Rightarrow> u32 \<Rightarrow> 'a kmem_scheme \<Rightarrow> 'a kmem_scheme res" where
  "clearpteu pgdir uva s =
     rbind (walkpgdir pgdir uva False s) (\<lambda>(pte, s).
     if pte = 0 then panic ''clearpteu''
     else ret (s\<lparr>mem := write32 (mem s) pte (read32 (mem s) pte AND NOT PTE_U)\<rparr>))"

partial_function (option) copy_loop ::
  "u32 \<Rightarrow> u32 \<Rightarrow> u32 \<Rightarrow> u32 \<Rightarrow> 'a kmem_scheme \<Rightarrow> (u32 \<times> 'a kmem_scheme) res" where
  "copy_loop pgdir d i sz s =
     (if i < sz then
        rbind (walkpgdir pgdir i False s) (\<lambda>(pte, s).
        if pte = 0 then panic ''copyuvm: pte should exist''
        else if read32 (mem s) pte AND PTE_P = 0 then panic ''copyuvm: page not present''
        else let pa = PTE_ADDR (read32 (mem s) pte); flags = PTE_FLAGS (read32 (mem s) pte) in
          rbind (kalloc s) (\<lambda>(m, s).
          if m = 0 then rbind (freevm d s) (\<lambda>s. ret (0, s))
          else rbind (P2V pa) (\<lambda>src.
            let s = s\<lparr>mem := memmove (mem s) m src PGSIZE\<rparr> in
            rbind (V2P m) (\<lambda>pm.
            rbind (mappages d i PGSIZE pm flags s) (\<lambda>(r, s).
            if r < 0 then rbind (kfree m s) (\<lambda>s. rbind (freevm d s) (\<lambda>s. ret (0, s)))
            else copy_loop pgdir d (i + PGSIZE) sz s)))))
      else ret (d, s))"

definition copyuvm :: "u32 \<Rightarrow> u32 \<Rightarrow> 'a vms_scheme \<Rightarrow> (u32 \<times> 'a vms_scheme) res" where
  "copyuvm pgdir sz s =
     rbind (setupkvm s) (\<lambda>(d, s). if d = 0 then ret (0, s) else copy_loop pgdir d 0 sz s)"

text \<open>
  \<open>uva2ka\<close> does not test the pointer \<open>walkpgdir\<close> returns: where no page table covers the address it
  reads through the null pointer, which is undefined.
\<close>

definition uva2ka :: "u32 \<Rightarrow> u32 \<Rightarrow> 'a kmem_scheme \<Rightarrow> u32 res" where
  "uva2ka pgdir uva s =
     rbind (walkpgdir pgdir uva False s) (\<lambda>(pte, s).
     if pte = 0 then None
     else if read32 (mem s) pte AND PTE_P = 0 then ret 0
     else if read32 (mem s) pte AND PTE_U = 0 then ret 0
     else P2V (PTE_ADDR (read32 (mem s) pte)))"

text \<open>\<open>copyout\<close> with the bytes its pointer \<open>p\<close> refers to in the current address space.\<close>

partial_function (option) copyout ::
  "u32 \<Rightarrow> u32 \<Rightarrow> u8 list \<Rightarrow> 'a kmem_scheme \<Rightarrow> (int \<times> 'a kmem_scheme) res" where
  "copyout pgdir va buf s =
     (if buf \<noteq> [] then
        let va0 = PGROUNDDOWN va in
        rbind (uva2ka pgdir va0 s) (\<lambda>pa0.
        if pa0 = 0 then ret (-1, s)
        else let n = unat (PGSIZE - (va - va0));
                 s = s\<lparr>mem := put_bytes (mem s) (pa0 + (va - va0)) (take n buf)\<rparr>
          in copyout pgdir (va0 + PGSIZE) (drop n buf) s)
      else ret (0, s))"

section \<open>Kernel accesses to memory through a pointer\<close>

text \<open>
  The kernel dereferences user pointers in the address space of the current process. The addresses
  from KERNBASE on are mapped one to one onto the memory of the model; an address below is
  translated by the page tables that \<open>%cr3\<close> selects. An access to a page that is not mapped, or a
  write to one that is not writable, is a page fault in the kernel, on which \<open>trap\<close> panics.
\<close>

definition translate :: "bool \<Rightarrow> u32 \<Rightarrow> 'a vms_scheme \<Rightarrow> u32 res" where
  "translate wr va s =
     (if KERNBASE \<le> va then ret va
      else let pde = read32 (mem s) (cr3 s + KERNBASE + 4 * PDX va) in
        if pde AND PTE_P = 0 then panic ''trap''
        else let pte = read32 (mem s) (PTE_ADDR pde + KERNBASE + 4 * PTX va) in
          if pte AND PTE_P = 0 \<or> (wr \<and> pte AND PTE_W = 0) then panic ''trap''
          else ret (PTE_ADDR pte + KERNBASE + (va AND 0xFFF)))"

fun vfetch :: "u32 \<Rightarrow> nat \<Rightarrow> 'a vms_scheme \<Rightarrow> u8 list res" where
  "vfetch a 0 s = ret []"
| "vfetch a (Suc n) s =
     rbind (translate False a s) (\<lambda>k. rbind (vfetch (a + 1) n s) (\<lambda>bs. ret (mem s k # bs)))"

fun vstore :: "u32 \<Rightarrow> u8 list \<Rightarrow> 'a vms_scheme \<Rightarrow> 'a vms_scheme res" where
  "vstore a [] s = ret s"
| "vstore a (b # bs) s =
     rbind (translate True a s) (\<lambda>k. vstore (a + 1) bs (s\<lparr>mem := (mem s)(k := b)\<rparr>))"

definition bytes32 :: "u32 \<Rightarrow> u8 list" where
  "bytes32 v = [ucast v, ucast (drop_bit 8 v), ucast (drop_bit 16 v), ucast (drop_bit 24 v)]"

definition bytes16 :: "u16 \<Rightarrow> u8 list" where
  "bytes16 v = [ucast v, ucast (drop_bit 8 v)]"

text \<open>An access depends on the memory and on the current page directory only; a store changes the memory only.\<close>

lemma translate_cong: "mem s = mem t \<Longrightarrow> cr3 s = cr3 t \<Longrightarrow> translate wr a s = translate wr a t"
  unfolding translate_def Let_def by simp

lemma vfetch_cong: "mem s = mem t \<Longrightarrow> cr3 s = cr3 t \<Longrightarrow> vfetch a n s = vfetch a n t"
proof (induction n arbitrary: a)
  case (Suc n)
  then show ?case using translate_cong [of s t False a] by simp
qed simp

lemma vstore_cong:
  "vstore a bs s = ret t \<Longrightarrow> mem s' = mem s \<Longrightarrow> cr3 s' = cr3 s \<Longrightarrow> vstore a bs s' = ret (s'\<lparr>mem := mem t\<rparr>)"
proof (induction bs arbitrary: a s s')
  case Nil
  then show ?case by (cases s') auto
next
  case (Cons b bs)
  then obtain k where k: "translate True a s = ret k" "vstore (a + 1) bs (s\<lparr>mem := (mem s)(k := b)\<rparr>) = ret t"
    by (auto simp: rbind_eq_ret)
  then show ?case
    using Cons.IH [OF k(2), of "s'\<lparr>mem := (mem s')(k := b)\<rparr>"] Cons.prems translate_cong [of s s' True a] by simp
qed

lemma vstore_cr3: "vstore a bs s = ret t \<Longrightarrow> cr3 t = cr3 s"
proof (induction bs arbitrary: a s)
  case (Cons b bs)
  then show ?case by (auto simp: rbind_eq_ret)
qed simp

lemma vfetch_length: "vfetch a n s = ret bs \<Longrightarrow> length bs = n"
  by (induction n arbitrary: a bs) (auto simp: rbind_eq_ret)

end
