(* ===== verification/SkipList.thy ===== *)
theory SkipList
  imports Prelude
begin

unbundle bit_operations_syntax

text \<open>
  The skip list of proc.c: the nodes of \<open>ptable.level\<close>, the loops of \<open>delete\<close> and \<open>insert\<close> over
  them, and the pseudo-random generator that chooses the number of levels. The functions here
  work on the node array alone; \<open>dl\<close> gives the virtual deadline of the process a pointer refers
  to. The operations on the whole process table are in the theory \<open>Proc\<close>.
\<close>

section \<open>Nodes\<close>

definition NPROC :: nat where "NPROC = 64"
definition LEVELS :: int where "LEVELS = 4"
definition SKIPLIST_P :: nat where "SKIPLIST_P = 2500"

text \<open>
  A pointer to a node is null or \<open>&ptable.level[l][i]\<close>. The level may be -1: both loops form the
  address \<open>&ptable->level[-1][0]\<close> when they leave level 0 at its head. What memory holds at the
  null pointer and in front of the array is part of the node store: it is whatever is there.
\<close>

datatype nref = NULL | NodeAt int nat

record node =
  n_proc :: "nat option"
  n_prev :: nref
  n_next :: nref
  n_lower :: nref

type_synonym nodes = "nref \<Rightarrow> node"

definition set_proc :: "nref \<Rightarrow> nat option \<Rightarrow> nodes \<Rightarrow> nodes" where
  "set_proc r v h = h(r := (h r)\<lparr>n_proc := v\<rparr>)"

definition set_prev :: "nref \<Rightarrow> nref \<Rightarrow> nodes \<Rightarrow> nodes" where
  "set_prev r v h = h(r := (h r)\<lparr>n_prev := v\<rparr>)"

definition set_next :: "nref \<Rightarrow> nref \<Rightarrow> nodes \<Rightarrow> nodes" where
  "set_next r v h = h(r := (h r)\<lparr>n_next := v\<rparr>)"

definition set_lower :: "nref \<Rightarrow> nref \<Rightarrow> nodes \<Rightarrow> nodes" where
  "set_lower r v h = h(r := (h r)\<lparr>n_lower := v\<rparr>)"

section \<open>The search that insert and delete share\<close>

text \<open>
  The first loop of \<open>delete\<close> and of \<open>insert\<close>; the two differ in the panic message only. It may
  run for ever on a store whose lists are cyclic, so it is a partial function. The result is
  the array \<open>placement\<close> and the last value of \<open>curr\<close>.
\<close>

partial_function (option) find_placement ::
  "string \<Rightarrow> nodes \<Rightarrow> (nat option \<Rightarrow> int) \<Rightarrow> int \<Rightarrow> int \<Rightarrow> nref \<Rightarrow> (int \<Rightarrow> nref)
    \<Rightarrow> ((int \<Rightarrow> nref) \<times> nref) res" where
  "find_placement msg h dl d level cur placement =
     (if 0 \<le> level then
        if n_next (h cur) \<noteq> NULL \<and> dl (n_proc (h (n_next (h cur)))) < d
        then find_placement msg h dl d level (n_next (h cur)) placement
        else if n_proc (h cur) = None
        then find_placement msg h dl d (level - 1) (NodeAt (level - 1) 0) (placement(level := cur))
        else if n_lower (h cur) = NULL \<and> 0 \<le> level - 1 then panic msg
        else find_placement msg h dl d (level - 1) (n_lower (h cur)) (placement(level := cur))
      else ret (placement, cur))"

section \<open>delete\<close>

text \<open>The \<open>while\<close> loop over the nodes of one level with the deadline \<open>d\<close>.\<close>

partial_function (option) delete_scan ::
  "nodes \<Rightarrow> (nat option \<Rightarrow> int) \<Rightarrow> int \<Rightarrow> nat \<Rightarrow> nref \<Rightarrow> nref res" where
  "delete_scan h dl d p cur =
     (if n_next (h cur) \<noteq> NULL \<and> dl (n_proc (h (n_next (h cur)))) = d \<and> n_proc (h cur) \<noteq> Some p
      then delete_scan h dl d p (n_next (h cur))
      else ret cur)"

text \<open>The \<open>for\<close> loop over the placements, from the top level down.\<close>

partial_function (option) delete_search ::
  "nodes \<Rightarrow> (nat option \<Rightarrow> int) \<Rightarrow> int \<Rightarrow> nat \<Rightarrow> (int \<Rightarrow> nref) \<Rightarrow> int \<Rightarrow> nref \<Rightarrow> nref res" where
  "delete_search h dl d p placement level cur =
     (if n_proc (h cur) \<noteq> Some p then
        if level < 0 then panic ''deletion search beyond lowest level''
        else rbind (delete_scan h dl d p (placement level)) (\<lambda>cur.
             delete_search h dl d p placement (level - 1) cur)
      else ret cur)"

text \<open>The body of the \<open>do ... while\<close> loop: take \<open>cur\<close> out of its list and clear it.\<close>

definition unlink_node :: "nref \<Rightarrow> nodes \<Rightarrow> nodes" where
  "unlink_node cur h =
     (let h = set_next (n_prev (h cur)) (n_next (h cur)) h;
          h = (if n_next (h cur) \<noteq> NULL then set_prev (n_next (h cur)) (n_prev (h cur)) h else h);
          h = set_proc cur None h;
          h = set_prev cur NULL h;
          h = set_next cur NULL h
      in set_lower cur NULL h)"

text \<open>
  The loop. The next node, \<open>cur->lower\<close>, is read after the other fields of \<open>cur\<close> are cleared
  and before \<open>lower\<close> is.
\<close>

partial_function (option) delete_nodes :: "nodes \<Rightarrow> nref \<Rightarrow> nodes res" where
  "delete_nodes h cur =
     (if n_prev (h cur) = NULL then panic ''somehow deleting node with no set previous\<newline>''
      else let below = n_lower (h cur); h' = unlink_node cur h in
      if below \<noteq> NULL then delete_nodes h' below else ret h')"

definition delete_heap :: "nodes \<Rightarrow> (nat option \<Rightarrow> int) \<Rightarrow> int \<Rightarrow> nat \<Rightarrow> nodes res" where
  "delete_heap h dl d p =
     rbind (find_placement ''deletion: above level 0 with no lower'' h dl d
              (LEVELS - 1) (NodeAt (LEVELS - 1) 0) (\<lambda>_. NULL)) (\<lambda>(placement, cur).
     rbind (delete_search h dl d p placement (LEVELS - 1) cur) (\<lambda>cur.
     delete_nodes h cur))"

section \<open>random\<close>

text \<open>One step of the 32-bit generator, and \<open>random(max)\<close>: the value and the new seed.\<close>

definition next_seed :: "u32 \<Rightarrow> u32" where
  "next_seed seed =
     (let seed = seed XOR push_bit 17 seed;
          seed = seed XOR drop_bit 7 seed
      in seed XOR push_bit 5 seed)"

definition random :: "u32 \<Rightarrow> u32 \<Rightarrow> u32 \<times> u32" where
  "random mx seed = (let seed = next_seed seed in (seed mod mx, seed))"

section \<open>insert\<close>

text \<open>The scan for the first unallocated node of a level, from index \<open>i\<close>.\<close>

function find_free :: "nodes \<Rightarrow> int \<Rightarrow> nat \<Rightarrow> nat res" where
  "find_free h level i =
     (if n_proc (h (NodeAt level i)) \<noteq> None then
        if NPROC + 1 \<le> i + 1 then panic ''not enough memory to store a new value\<newline>''
        else find_free h level (i + 1)
      else ret i)"
  by pat_completeness auto
termination
  by (relation "measure (\<lambda>(h, level, i). NPROC - i)") auto

declare find_free.simps [simp del]

text \<open>Filling the node and linking it behind \<open>placement[level]\<close>.\<close>

definition link_node :: "nref \<Rightarrow> nat \<Rightarrow> nref \<Rightarrow> nref \<Rightarrow> nodes \<Rightarrow> nodes" where
  "link_node node p lower cur h =
     (let h = set_lower node lower h;
          h = set_proc node (Some p) h;
          h = set_prev node cur h;
          h = set_next node (n_next (h cur)) h;
          h = set_next cur node h
      in if n_next (h node) \<noteq> NULL then set_prev (n_next (h node)) node h else h)"

text \<open>
  The \<open>for\<close> loop over the levels. The result is the level at which the loop stops, the nodes and
  the seed.
\<close>

function insert_levels ::
  "nat \<Rightarrow> (int \<Rightarrow> nref) \<Rightarrow> nat \<Rightarrow> nref \<Rightarrow> nodes \<Rightarrow> u32 \<Rightarrow> (nat \<times> nodes \<times> u32) res" where
  "insert_levels p placement level lower h seed =
     (if int level < LEVELS then
        let (roll, seed') = (if level \<noteq> 0 then random 10000 seed else (0, seed)) in
        if level \<noteq> 0 \<and> SKIPLIST_P \<le> unat roll then ret (level, h, seed')
        else rbind (find_free h (int level) 1) (\<lambda>i.
             let node = NodeAt (int level) i in
             insert_levels p placement (level + 1) node
               (link_node node p lower (placement (int level)) h) seed')
      else ret (level, h, seed))"
  by pat_completeness auto
termination
  by (relation "measure (\<lambda>(p, placement, level, lower, h, seed). nat LEVELS - level)") auto

declare insert_levels.simps [simp del]

definition insert_heap ::
  "nodes \<Rightarrow> (nat option \<Rightarrow> int) \<Rightarrow> int \<Rightarrow> nat \<Rightarrow> u32 \<Rightarrow> (nat \<times> nodes \<times> u32) res" where
  "insert_heap h dl d p seed =
     rbind (find_placement ''insertion: above level 0 with no lower'' h dl d
              (LEVELS - 1) (NodeAt (LEVELS - 1) 0) (\<lambda>_. NULL)) (\<lambda>(placement, cur).
     insert_levels p placement 0 NULL h seed)"

end
