(* ===== verification/SkipInv.thy ===== *)
theory SkipInv
  imports SkipList
begin

text \<open>
  The representation invariant of the skip list and the correctness of the loops of \<open>insert\<close> and
  \<open>delete\<close>.
\<close>

section \<open>Linked lists of nodes\<close>

fun seg :: "nodes \<Rightarrow> nref \<Rightarrow> nref list \<Rightarrow> bool" where
  "seg h x [] \<longleftrightarrow> True"
| "seg h x (y # ys) \<longleftrightarrow> n_next (h x) = y \<and> n_prev (h y) = x \<and> seg h y ys"

definition dll :: "nodes \<Rightarrow> nref \<Rightarrow> nref list \<Rightarrow> bool" where
  "dll h x ys \<longleftrightarrow> seg h x ys \<and> n_next (h (last (x # ys))) = NULL"

lemma seg_append [simp]: "seg h x (ys @ zs) \<longleftrightarrow> seg h x ys \<and> seg h (last (x # ys)) zs"
  by (induction ys arbitrary: x) auto

lemma seg_cong:
  "(\<And>y. y \<in> set (butlast (x # ys)) \<Longrightarrow> n_next (h' y) = n_next (h y)) \<Longrightarrow>
   (\<And>y. y \<in> set ys \<Longrightarrow> n_prev (h' y) = n_prev (h y)) \<Longrightarrow> seg h' x ys = seg h x ys"
  by (induction ys arbitrary: x) auto

lemma dll_next:
  "dll h x (ys @ zs) \<Longrightarrow> n_next (h (last (x # ys))) = (case zs of [] \<Rightarrow> NULL | z # _ \<Rightarrow> z)"
  by (cases zs) (auto simp: dll_def)

lemma dll_append:
  "dll h x (A @ B) \<longleftrightarrow> seg h x A \<and> (case B of [] \<Rightarrow> n_next (h (last (x # A))) = NULL
     | b # B' \<Rightarrow> n_next (h (last (x # A))) = b \<and> n_prev (h b) = last (x # A) \<and> dll h b B')"
  by (cases B) (auto simp: dll_def)

section \<open>The invariant\<close>

text \<open>
  Level \<open>k\<close> holds the list \<open>xs\<close> of pairs of a node index and the process that occupies the node:
  the nodes form a doubly linked list behind the head, exactly these nodes are allocated, no
  process occurs twice and the virtual deadlines do not decrease along the list.
\<close>

abbreviation refs :: "int \<Rightarrow> (nat \<times> nat) list \<Rightarrow> nref list" where
  "refs k xs \<equiv> map (\<lambda>x. NodeAt k (fst x)) xs"

definition level_ok :: "nodes \<Rightarrow> (nat option \<Rightarrow> int) \<Rightarrow> int \<Rightarrow> (nat \<times> nat) list \<Rightarrow> bool" where
  "level_ok h dl k xs \<longleftrightarrow>
     dll h (NodeAt k 0) (refs k xs) \<and>
     n_proc (h (NodeAt k 0)) = None \<and>
     (\<forall>x\<in>set xs. 1 \<le> fst x \<and> fst x \<le> NPROC \<and> snd x < NPROC \<and>
        n_proc (h (NodeAt k (fst x))) = Some (snd x)) \<and>
     (\<forall>i\<in>{1..NPROC}. i \<notin> fst ` set xs \<longrightarrow> n_proc (h (NodeAt k i)) = None) \<and>
     distinct (map fst xs) \<and> distinct (map snd xs) \<and>
     sorted (map (\<lambda>x. dl (Some (snd x))) xs)"

text \<open>The node of a process points down to the node of the same process one level below.\<close>

definition lower_ok :: "nodes \<Rightarrow> (int \<Rightarrow> (nat \<times> nat) list) \<Rightarrow> int \<Rightarrow> bool" where
  "lower_ok h N k \<longleftrightarrow>
     (\<forall>x\<in>set (N k). if k = 0 then n_lower (h (NodeAt k (fst x))) = NULL
        else \<exists>j. n_lower (h (NodeAt k (fst x))) = NodeAt (k - 1) j \<and> (j, snd x) \<in> set (N (k - 1)))"

definition skip_ok :: "nodes \<Rightarrow> (nat option \<Rightarrow> int) \<Rightarrow> (int \<Rightarrow> (nat \<times> nat) list) \<Rightarrow> bool" where
  "skip_ok h dl N \<longleftrightarrow> (\<forall>k. 0 \<le> k \<and> k < LEVELS \<longrightarrow> level_ok h dl k (N k) \<and> lower_ok h N k)"

lemma skip_ok_level: "skip_ok h dl N \<Longrightarrow> 0 \<le> k \<Longrightarrow> k < LEVELS \<Longrightarrow> level_ok h dl k (N k)"
  and skip_ok_lower: "skip_ok h dl N \<Longrightarrow> 0 \<le> k \<Longrightarrow> k < LEVELS \<Longrightarrow> lower_ok h N k"
  by (auto simp: skip_ok_def)

section \<open>The search\<close>

definition before :: "(nat option \<Rightarrow> int) \<Rightarrow> int \<Rightarrow> (nat \<times> nat) list \<Rightarrow> (nat \<times> nat) list" where
  "before dl d xs = takeWhile (\<lambda>x. dl (Some (snd x)) < d) xs"

definition pred_of :: "(nat option \<Rightarrow> int) \<Rightarrow> int \<Rightarrow> int \<Rightarrow> (nat \<times> nat) list \<Rightarrow> nref" where
  "pred_of dl d k xs = last (NodeAt k 0 # refs k (before dl d xs))"

lemma level_ok_next:
  assumes "level_ok h dl k (A @ B)"
  shows "n_next (h (last (NodeAt k 0 # refs k A))) = (case B of [] \<Rightarrow> NULL | b # _ \<Rightarrow> NodeAt k (fst b))"
  using assms dll_next [of h "NodeAt k 0" "refs k A" "refs k B"]
  by (cases B) (auto simp: level_ok_def)

lemma level_ok_last:
  assumes "level_ok h dl k (A @ B)"
  shows "n_proc (h (last (NodeAt k 0 # refs k A))) = (if A = [] then None else Some (snd (last A)))"
proof (cases "A = []")
  case True
  with assms show ?thesis by (simp add: level_ok_def)
next
  case False
  then have "last A \<in> set (A @ B)" by simp
  with assms have "n_proc (h (NodeAt k (fst (last A)))) = Some (snd (last A))"
    by (auto simp: level_ok_def)
  with False show ?thesis by (simp add: last_map)
qed

lemma find_placement_level:
  assumes "level_ok h dl k (A @ B)" "0 \<le> k" "\<forall>x\<in>set A. dl (Some (snd x)) < d"
    and "cur = last (NodeAt k 0 # refs k A)"
  shows "find_placement msg h dl d k cur pl =
    (let c = pred_of dl d k (A @ B) in
     if before dl d (A @ B) = []
     then find_placement msg h dl d (k - 1) (NodeAt (k - 1) 0) (pl(k := c))
     else if n_lower (h c) = NULL \<and> 0 \<le> k - 1 then panic msg
     else find_placement msg h dl d (k - 1) (n_lower (h c)) (pl(k := c)))"
  using assms
proof (induction B arbitrary: A cur)
  case Nil
  have bef: "before dl d A = A"
    using Nil.prems(3) by (simp add: before_def)
  have nx: "n_next (h cur) = NULL"
    using level_ok_next [OF Nil.prems(1)] Nil.prems(4) by simp
  show ?case
  proof (cases "A = []")
    case True
    with Nil.prems have "n_proc (h cur) = None" by (simp add: level_ok_def)
    with True nx bef Nil.prems(2,4) show ?thesis
      by (subst find_placement.simps) (simp add: pred_of_def Let_def)
  next
    case False
    then have "n_proc (h cur) = Some (snd (last A))"
      using level_ok_last [OF Nil.prems(1)] Nil.prems(4) by simp
    with False nx bef Nil.prems(2,4) show ?thesis
      by (subst find_placement.simps) (simp add: pred_of_def Let_def)
  qed
next
  case (Cons b B)
  have nx: "n_next (h cur) = NodeAt k (fst b)"
    using level_ok_next [OF Cons.prems(1)] Cons.prems(4) by simp
  have pb: "n_proc (h (NodeAt k (fst b))) = Some (snd b)"
    using Cons.prems(1) by (auto simp: level_ok_def)
  show ?case
  proof (cases "dl (Some (snd b)) < d")
    case True
    have "find_placement msg h dl d k cur pl = find_placement msg h dl d k (NodeAt k (fst b)) pl"
      using True nx pb Cons.prems(2) by (subst find_placement.simps) simp
    also have "\<dots> = (let c = pred_of dl d k ((A @ [b]) @ B) in
       if before dl d ((A @ [b]) @ B) = []
       then find_placement msg h dl d (k - 1) (NodeAt (k - 1) 0) (pl(k := c))
       else if n_lower (h c) = NULL \<and> 0 \<le> k - 1 then panic msg
       else find_placement msg h dl d (k - 1) (n_lower (h c)) (pl(k := c)))"
      using Cons.prems True by (intro Cons.IH) auto
    finally show ?thesis by simp
  next
    case False
    then have bef: "before dl d (A @ b # B) = A"
      using Cons.prems(3) by (simp add: before_def takeWhile_prefix)
    show ?thesis
    proof (cases "A = []")
      case True
      with Cons.prems have "n_proc (h cur) = None" by (simp add: level_ok_def)
      with True False nx pb bef Cons.prems(2,4) show ?thesis
        by (subst find_placement.simps) (simp add: pred_of_def Let_def)
    next
      case nA: False
      then have "n_proc (h cur) = Some (snd (last A))"
        using level_ok_last [OF Cons.prems(1)] Cons.prems(4) by simp
      with nA False nx pb bef Cons.prems(2,4) show ?thesis
        by (subst find_placement.simps) (simp add: pred_of_def Let_def)
    qed
  qed
qed

lemma sorted_prefix_less:
  assumes "sorted (map f (xs @ x # ys))" "f x < (d :: int)" "y \<in> set (xs @ [x])"
  shows "f y < d"
  using assms by (auto simp: sorted_append)

lemma find_placement_ok:
  assumes ok: "skip_ok h dl N" and "k < LEVELS" "N k = A @ B" "0 \<le> k"
    and "\<forall>x\<in>set A. dl (Some (snd x)) < d" "cur = last (NodeAt k 0 # refs k A)"
  shows "\<exists>c. find_placement msg h dl d k cur pl =
     ret (\<lambda>j. if 0 \<le> j \<and> j \<le> k then pred_of dl d j (N j) else pl j, c) \<and>
     (c = NULL \<or> c = NodeAt (-1) 0)"
  using assms(2-)
proof (induction "nat k" arbitrary: k A B cur pl)
  case 0
  then have k: "k = 0" by simp
  have lev: "level_ok h dl 0 (A @ B)" and low: "lower_ok h N 0"
    using ok 0 k by (auto simp: skip_ok_def LEVELS_def)
  note step = find_placement_level [OF lev _ \<open>\<forall>x\<in>set A. dl (Some (snd x)) < d\<close>, of cur msg pl]
  have fin: "find_placement msg h dl d (-1) c' pl' = ret (pl', c')" for c' pl'
    by (subst find_placement.simps) simp
  have plc: "pl(0 := pred_of dl d 0 (A @ B)) =
      (\<lambda>j. if 0 \<le> j \<and> j \<le> 0 then pred_of dl d j (N j) else pl j)"
    using 0 k by (auto simp: fun_eq_iff)
  show ?case
  proof (cases "before dl d (A @ B) = []")
    case True
    with step 0 k fin plc show ?thesis by simp
  next
    case False
    let ?x = "last (before dl d (A @ B))"
    have c: "pred_of dl d 0 (A @ B) = NodeAt 0 (fst ?x)"
      using False by (simp add: pred_of_def last_map)
    have "?x \<in> set (N 0)"
      using last_in_set [OF False] 0 k by (auto simp: before_def dest: set_takeWhileD)
    then have "n_lower (h (NodeAt 0 (fst ?x))) = NULL"
      using low by (auto simp: lower_ok_def)
    with step 0 k fin plc False c show ?thesis by simp
  qed
next
  case (Suc n)
  then have k: "1 \<le> k" "n = nat (k - 1)" "k - 1 < LEVELS" "0 \<le> k - 1" by auto
  have lev: "level_ok h dl k (A @ B)"
    using skip_ok_level [OF ok Suc.prems(3,1)] Suc.prems(2) by simp
  have low: "lower_ok h N k"
    by (rule skip_ok_lower [OF ok Suc.prems(3,1)])
  have lev': "level_ok h dl (k - 1) (N (k - 1))"
    by (rule skip_ok_level [OF ok k(4,3)])
  let ?pl = "pl(k := pred_of dl d k (N k))"
  have plc: "(\<lambda>j. if 0 \<le> j \<and> j \<le> k - 1 then pred_of dl d j (N j) else ?pl j) =
      (\<lambda>j. if 0 \<le> j \<and> j \<le> k then pred_of dl d j (N j) else pl j)"
    using Suc.prems by (auto simp: fun_eq_iff)
  note step = find_placement_level [OF lev _ \<open>\<forall>x\<in>set A. dl (Some (snd x)) < d\<close>, of cur msg pl]
  show ?case
  proof (cases "before dl d (A @ B) = []")
    case True
    have "\<exists>c. find_placement msg h dl d (k - 1) (NodeAt (k - 1) 0) ?pl =
       ret (\<lambda>j. if 0 \<le> j \<and> j \<le> k - 1 then pred_of dl d j (N j) else ?pl j, c) \<and>
       (c = NULL \<or> c = NodeAt (-1) 0)"
      by (rule Suc.hyps(1) [of "k - 1" "[]" "N (k - 1)"]) (use k in auto)
    with True step Suc.prems plc show ?thesis by simp
  next
    case False
    let ?x = "last (before dl d (A @ B))"
    have c: "pred_of dl d k (A @ B) = NodeAt k (fst ?x)"
      using False by (simp add: pred_of_def last_map)
    have xin: "?x \<in> set (before dl d (A @ B))"
      using last_in_set [OF False] .
    then have mem: "?x \<in> set (N k)" and dx: "dl (Some (snd ?x)) < d"
      using Suc.prems(2) set_takeWhileD [of ?x "\<lambda>x. dl (Some (snd x)) < d" "A @ B"]
      by (simp_all add: before_def)
    have "\<exists>j. n_lower (h (NodeAt k (fst ?x))) = NodeAt (k - 1) j \<and> (j, snd ?x) \<in> set (N (k - 1))"
      using low [unfolded lower_ok_def, THEN bspec, OF mem] k(1) by simp
    then obtain j where j: "n_lower (h (NodeAt k (fst ?x))) = NodeAt (k - 1) j"
      and "(j, snd ?x) \<in> set (N (k - 1))"
      by blast
    then obtain A' B' where N': "N (k - 1) = (A' @ [(j, snd ?x)]) @ B'"
      using split_list by fastforce
    have "\<forall>y\<in>set (A' @ [(j, snd ?x)]). dl (Some (snd y)) < d"
    proof
      fix y assume "y \<in> set (A' @ [(j, snd ?x)])"
      moreover have "sorted (map (\<lambda>x. dl (Some (snd x))) (A' @ (j, snd ?x) # B'))"
        using lev' N' by (simp add: level_ok_def)
      ultimately show "dl (Some (snd y)) < d"
        using dx sorted_prefix_less [of "\<lambda>x. dl (Some (snd x))" A' "(j, snd ?x)" B' d y] by simp
    qed
    then have "\<exists>c. find_placement msg h dl d (k - 1) (NodeAt (k - 1) j) ?pl =
       ret (\<lambda>j. if 0 \<le> j \<and> j \<le> k - 1 then pred_of dl d j (N j) else ?pl j, c) \<and>
       (c = NULL \<or> c = NodeAt (-1) 0)"
      by (intro Suc.hyps(1) [of "k - 1", OF k(2,3) N']) (use k in auto)
    with False step Suc.prems plc c j show ?thesis by simp
  qed
qed

section \<open>Searching for the node to delete\<close>

text \<open>
  The scan of one level: from the last node in front of deadline \<open>d\<close> it stops at the node of \<open>p\<close>
  if the level has one, and otherwise at a node that is not of \<open>p\<close>.
\<close>

lemma delete_scan_ok:
  assumes "level_ok h dl k (A @ B)" "cur = last (NodeAt k 0 # refs k A)"
    and "\<forall>x\<in>set A. snd x \<noteq> p" "dl (Some p) = d"
    and "\<forall>x\<in>set B. d \<le> dl (Some (snd x))"
  shows "\<exists>c. delete_scan h dl d p cur = ret c \<and>
    ((\<exists>i. (i, p) \<in> set B \<and> c = NodeAt k i) \<or> p \<notin> snd ` set B \<and> n_proc (h c) \<noteq> Some p)"
  using assms
proof (induction B arbitrary: A cur)
  case Nil
  have nx: "n_next (h cur) = NULL"
    using level_ok_next [OF Nil.prems(1)] Nil.prems(2) by simp
  have "n_proc (h cur) \<noteq> Some p"
    using level_ok_last [OF Nil.prems(1)] Nil.prems(2,3) by (cases "A = []") auto
  with nx show ?case
    by (subst delete_scan.simps) simp
next
  case (Cons b B)
  have nx: "n_next (h cur) = NodeAt k (fst b)"
    using level_ok_next [OF Cons.prems(1)] Cons.prems(2) by simp
  have pb: "n_proc (h (NodeAt k (fst b))) = Some (snd b)"
    using Cons.prems(1) by (auto simp: level_ok_def)
  have pc: "n_proc (h cur) \<noteq> Some p"
    using level_ok_last [OF Cons.prems(1)] Cons.prems(2,3) by (cases "A = []") auto
  show ?case
  proof (cases "snd b = p")
    case True
    then have "delete_scan h dl d p cur = delete_scan h dl d p (NodeAt k (fst b))"
      using nx pb pc Cons.prems(4) by (subst delete_scan.simps) simp
    also have "\<dots> = ret (NodeAt k (fst b))"
      using pb True by (subst delete_scan.simps) simp
    finally show ?thesis
      using True by (intro exI [of _ "NodeAt k (fst b)"]) (auto intro!: exI [of _ "fst b"])
  next
    case nb: False
    show ?thesis
    proof (cases "dl (Some (snd b)) = d")
      case True
      have "delete_scan h dl d p cur = delete_scan h dl d p (NodeAt k (fst b))"
        using nx pb pc True by (subst delete_scan.simps) simp
      moreover have "\<exists>c. delete_scan h dl d p (NodeAt k (fst b)) = ret c \<and>
        ((\<exists>i. (i, p) \<in> set B \<and> c = NodeAt k i) \<or> p \<notin> snd ` set B \<and> n_proc (h c) \<noteq> Some p)"
      proof (rule Cons.IH [of "A @ [b]"])
        show "level_ok h dl k ((A @ [b]) @ B)" using Cons.prems(1) by simp
        show "NodeAt k (fst b) = last (NodeAt k 0 # refs k (A @ [b]))" by simp
      qed (use Cons.prems(3-) nb in simp_all)
      ultimately obtain c where "delete_scan h dl d p cur = ret c"
        "(\<exists>i. (i, p) \<in> set B \<and> c = NodeAt k i) \<or> p \<notin> snd ` set B \<and> n_proc (h c) \<noteq> Some p"
        by metis
      with nb show ?thesis by (intro exI [of _ c]) auto
    next
      case False
      then have "d < dl (Some (snd b))"
        using Cons.prems(5) by auto
      moreover have "\<forall>x\<in>set B. dl (Some (snd b)) \<le> dl (Some (snd x))"
        using Cons.prems(1) by (auto simp: level_ok_def sorted_append)
      ultimately have noB: "p \<notin> snd ` set B"
        using Cons.prems(4) by force
      have "delete_scan h dl d p cur = ret cur"
        using nx pb pc False by (subst delete_scan.simps) simp
      with noB nb pc show ?thesis by simp
    qed
  qed
qed

lemma before_split:
  assumes "level_ok h dl k xs"
  obtains B where "xs = before dl d xs @ B" "\<forall>x\<in>set B. d \<le> dl (Some (snd x))"
proof -
  let ?P = "\<lambda>x. dl (Some (snd x)) < d" and ?f = "\<lambda>x. dl (Some (snd x))"
  have sp: "xs = before dl d xs @ dropWhile ?P xs"
    by (simp add: before_def)
  have "\<forall>x\<in>set (dropWhile ?P xs). d \<le> ?f x"
  proof (cases "dropWhile ?P xs")
    case Nil
    show ?thesis unfolding Nil by simp
  next
    case (Cons y ys)
    have "d \<le> ?f y"
      using hd_dropWhile [of ?P xs] Cons by simp
    moreover have "sorted (map ?f (before dl d xs @ y # ys))"
      using assms sp Cons by (simp add: level_ok_def)
    ultimately show ?thesis
      using Cons by (auto simp: sorted_append)
  qed
  with sp that show thesis by blast
qed

lemma before_less: "x \<in> set (before dl d xs) \<Longrightarrow> dl (Some (snd x)) < d"
  by (auto simp: before_def dest: set_takeWhileD)

lemma delete_search_ok:
  assumes ok: "skip_ok h dl N" and d: "dl (Some p) = d" and p0: "p \<in> snd ` set (N 0)"
    and pl: "\<And>j. 0 \<le> j \<Longrightarrow> j < LEVELS \<Longrightarrow> pl j = pred_of dl d j (N j)"
    and "0 \<le> l" "l < LEVELS" "n_proc (h cur) \<noteq> Some p"
    and "\<And>j. l < j \<Longrightarrow> j < LEVELS \<Longrightarrow> p \<notin> snd ` set (N j)"
  shows "\<exists>k i. delete_search h dl d p pl l cur = ret (NodeAt k i) \<and> 0 \<le> k \<and> k \<le> l \<and>
    (i, p) \<in> set (N k) \<and> (\<forall>j. k < j \<longrightarrow> j < LEVELS \<longrightarrow> p \<notin> snd ` set (N j))"
  using assms(5-)
proof (induction "nat l" arbitrary: l cur)
  have scan: "\<exists>c. delete_scan h dl d p (pl l) = ret c \<and>
      ((\<exists>i. (i, p) \<in> set (N l) \<and> c = NodeAt l i) \<or> p \<notin> snd ` set (N l) \<and> n_proc (h c) \<noteq> Some p)"
    if l: "0 \<le> l" "l < LEVELS" for l
  proof -
    have lev: "level_ok h dl l (N l)" by (rule skip_ok_level [OF ok l])
    obtain B where B: "N l = before dl d (N l) @ B" "\<forall>x\<in>set B. d \<le> dl (Some (snd x))"
      using before_split [OF lev] by blast
    have A: "\<forall>x\<in>set (before dl d (N l)). snd x \<noteq> p"
      using d by (auto dest: before_less)
    have "\<exists>c. delete_scan h dl d p (pl l) = ret c \<and>
      ((\<exists>i. (i, p) \<in> set B \<and> c = NodeAt l i) \<or> p \<notin> snd ` set B \<and> n_proc (h c) \<noteq> Some p)"
      by (rule delete_scan_ok [OF _ _ A d B(2)]) (use lev B(1) pl [OF l] in \<open>simp_all add: pred_of_def\<close>)
    then obtain c where c: "delete_scan h dl d p (pl l) = ret c"
      "(\<exists>i. (i, p) \<in> set B \<and> c = NodeAt l i) \<or> p \<notin> snd ` set B \<and> n_proc (h c) \<noteq> Some p"
      by blast
    have "set (N l) = set (before dl d (N l)) \<union> set B"
      by (subst B(1)) simp
    with c A show ?thesis by (intro exI [of _ c]) auto
  qed
  {
    case 0
    then have l: "l = 0" by simp
    obtain c where c: "delete_scan h dl d p (pl 0) = ret c"
      "(\<exists>i. (i, p) \<in> set (N 0) \<and> c = NodeAt 0 i)"
      using scan [of 0] p0 by (auto simp: LEVELS_def)
    then obtain i where i: "(i, p) \<in> set (N 0)" "c = NodeAt 0 i" by blast
    have "level_ok h dl 0 (N 0)"
      by (rule skip_ok_level [OF ok]) (simp_all add: LEVELS_def)
    with i have "n_proc (h c) = Some p" by (auto simp: level_ok_def)
    then have "delete_search h dl d p pl 0 cur = ret (NodeAt 0 i)"
      using c(1) i(2) 0(4) by (subst delete_search.simps, simp) (subst delete_search.simps, simp)
    with l i(1) 0(5) show ?case by (intro exI [of _ 0] exI [of _ i]) simp
  next
    case (Suc n)
    then have l: "0 \<le> l - 1" "l - 1 < LEVELS" "n = nat (l - 1)" by auto
    obtain c where c: "delete_scan h dl d p (pl l) = ret c"
      "(\<exists>i. (i, p) \<in> set (N l) \<and> c = NodeAt l i) \<or> p \<notin> snd ` set (N l) \<and> n_proc (h c) \<noteq> Some p"
      using scan [OF Suc.prems(1,2)] by blast
    have step: "delete_search h dl d p pl l cur = delete_search h dl d p pl (l - 1) c"
      using c(1) Suc.prems(1,3) by (subst delete_search.simps) simp
    show ?case
      using c(2)
    proof
      assume "\<exists>i. (i, p) \<in> set (N l) \<and> c = NodeAt l i"
      then obtain i where i: "(i, p) \<in> set (N l)" "c = NodeAt l i" by blast
      have "n_proc (h c) = Some p"
        using i skip_ok_level [OF ok Suc.prems(1,2)] by (auto simp: level_ok_def)
      then have "delete_search h dl d p pl (l - 1) c = ret c"
        by (subst delete_search.simps) simp
      with step i Suc.prems show ?thesis by (intro exI [of _ l] exI [of _ i]) simp
    next
      assume np: "p \<notin> snd ` set (N l) \<and> n_proc (h c) \<noteq> Some p"
      have "p \<notin> snd ` set (N j)" if "l - 1 < j" "j < LEVELS" for j
        using that Suc.prems(4) [of j] np by (cases "j = l") auto
      then obtain k i where "delete_search h dl d p pl (l - 1) c = ret (NodeAt k i)" "0 \<le> k"
        "k \<le> l - 1" "(i, p) \<in> set (N k)" "\<forall>j. k < j \<longrightarrow> j < LEVELS \<longrightarrow> p \<notin> snd ` set (N j)"
        using Suc.hyps(1) [OF l(3,1,2), of c] np by blast
      with step show ?thesis by (intro exI [of _ k] exI [of _ i]) simp
    qed
  }
qed

section \<open>Unlinking and linking one node\<close>

lemma unlink_fields:
  assumes "n_prev (h c) \<noteq> c" "n_next (h c) \<noteq> c"
  shows "n_next (unlink_node c h r) =
      (if r = c then NULL else if r = n_prev (h c) then n_next (h c) else n_next (h r))"
    and "n_prev (unlink_node c h r) =
      (if r = c then NULL else if r = n_next (h c) \<and> r \<noteq> NULL then n_prev (h c) else n_prev (h r))"
    and "n_proc (unlink_node c h r) = (if r = c then None else n_proc (h r))"
    and "n_lower (unlink_node c h r) = (if r = c then NULL else n_lower (h r))"
  using assms
  by (auto simp: unlink_node_def set_next_def set_prev_def set_proc_def set_lower_def Let_def)

lemma link_fields:
  assumes "node \<noteq> c" "n_next (h c) \<noteq> node"
  shows "n_next (link_node node p lower c h r) =
      (if r = c then node else if r = node then n_next (h c) else n_next (h r))"
    and "n_prev (link_node node p lower c h r) =
      (if r = n_next (h c) \<and> r \<noteq> NULL then node else if r = node then c else n_prev (h r))"
    and "n_proc (link_node node p lower c h r) = (if r = node then Some p else n_proc (h r))"
    and "n_lower (link_node node p lower c h r) = (if r = node then lower else n_lower (h r))"
  using assms
  by (auto simp: link_node_def set_next_def set_prev_def set_proc_def set_lower_def Let_def)

lemma last_not_butlast: "distinct (x # A) \<Longrightarrow> y \<in> set (butlast (x # A)) \<Longrightarrow> y \<noteq> last (x # A)"
  by (metis append_butlast_last_id distinct_append list.distinct(1) not_distinct_conv_prefix)

lemma dll_unlink:
  assumes "dll h x (A @ c # B)" "distinct (x # A @ c # B)" "NULL \<notin> set (x # A @ c # B)"
  shows "n_prev (h c) = last (x # A)" "n_prev (h c) \<noteq> c" "n_next (h c) \<noteq> c"
    and "dll (unlink_node c h) x (A @ B)"
proof -
  define P where "P = last (x # A)"
  have PA: "P \<in> set (x # A)" unfolding P_def by (rule last_in_set) simp
  have P: "P \<noteq> c" "P \<notin> set B" using PA assms(2) by auto
  have pc: "n_prev (h c) = P"
    using assms(1) unfolding dll_append P_def by simp
  then show "n_prev (h c) = last (x # A)" by (simp only: P_def)
  show ne: "n_prev (h c) \<noteq> c" using P(1) pc by simp
  have nc: "n_next (h c) = (case B of [] \<Rightarrow> NULL | b # _ \<Rightarrow> b)"
    using dll_next [of h x "A @ [c]" B] assms(1) by simp
  then show ne': "n_next (h c) \<noteq> c"
    using assms(2,3) by (auto split: list.splits)
  note f = unlink_fields [of h c, OF ne ne', unfolded pc]
  let ?h = "unlink_node c h"
  have segA: "seg ?h x A = seg h x A"
  proof (rule seg_cong)
    fix y assume y: "y \<in> set (butlast (x # A))"
    have "distinct (x # A)" using assms(2) by simp
    then have "y \<noteq> P" unfolding P_def using y by (rule last_not_butlast)
    moreover have "y \<noteq> c" using in_set_butlastD [OF y] assms(2) by auto
    ultimately show "n_next (?h y) = n_next (h y)" by (simp add: f(1))
  next
    fix y assume "y \<in> set A"
    then have "y \<noteq> c" "y \<noteq> n_next (h c)"
      using assms(2,3) nc by (auto split: list.splits)
    then show "n_prev (?h y) = n_prev (h y)" by (simp add: f(2))
  qed
  have A: "seg ?h x A" using assms(1) unfolding dll_append segA by simp
  show "dll ?h x (A @ B)"
  proof (cases B)
    case Nil
    have "n_next (?h P) = NULL" using nc Nil P(1) by (simp add: f(1))
    with A Nil show ?thesis unfolding dll_append P_def by simp
  next
    case (Cons b B')
    have b: "b \<noteq> c" "b \<noteq> NULL" using assms(2,3) Cons by auto
    have "seg ?h b B' = seg h b B'"
    proof (rule seg_cong)
      fix y assume "y \<in> set (butlast (b # B'))"
      then have "y \<in> set B" unfolding Cons by (rule in_set_butlastD)
      then have "y \<noteq> P" "y \<noteq> c" using P(2) assms(2) by auto
      then show "n_next (?h y) = n_next (h y)" by (simp add: f(1))
    next
      fix y assume "y \<in> set B'"
      then have "y \<noteq> c" "y \<noteq> n_next (h c)"
        using assms(2) nc Cons by auto
      then show "n_prev (?h y) = n_prev (h y)" by (simp add: f(2))
    qed
    moreover have "n_next (?h (last (b # B'))) = n_next (h (last (b # B')))"
    proof -
      have "last (b # B') \<in> set B" unfolding Cons by (rule last_in_set) simp
      then have "last (b # B') \<noteq> P" "last (b # B') \<noteq> c" using P(2) assms(2) by auto
      then show ?thesis by (simp only: f(1) if_False)
    qed
    moreover have "dll h b B'"
      using assms(1) Cons dll_append [of h x "A @ [c]" B] by simp
    ultimately have "dll ?h b B'" by (simp only: dll_def)
    moreover have "n_next (?h P) = b" "n_prev (?h b) = P"
      using nc Cons b P(1) by (simp_all add: f(1,2))
    ultimately show ?thesis
      using A unfolding dll_append P_def Cons by simp
  qed
qed

lemma dll_link:
  assumes "dll h x (A @ B)" "distinct (x # A @ B)" "NULL \<notin> set (x # A @ B)"
    and "node \<notin> set (x # A @ B)" "node \<noteq> NULL" and c_def: "c = last (x # A)"
  shows "node \<noteq> c" "n_next (h c) \<noteq> node" "dll (link_node node p lower c h) x (A @ node # B)"
proof -
  have cA: "c \<in> set (x # A)" unfolding c_def by (rule last_in_set) simp
  have c: "c \<notin> set B" using cA assms(2) by auto
  show ne: "node \<noteq> c" using cA assms(4) by auto
  have nc: "n_next (h c) = (case B of [] \<Rightarrow> NULL | b # _ \<Rightarrow> b)"
    unfolding c_def by (rule dll_next [OF assms(1)])
  then show ne': "n_next (h c) \<noteq> node"
    using assms(4,5) by (auto split: list.splits)
  note f = link_fields [of node c h, OF ne ne', of p lower]
  let ?h = "link_node node p lower c h"
  have segA: "seg ?h x A = seg h x A"
  proof (rule seg_cong)
    fix y assume y: "y \<in> set (butlast (x # A))"
    have "distinct (x # A)" using assms(2) by simp
    then have "y \<noteq> c" unfolding c_def using y by (rule last_not_butlast)
    moreover have "y \<noteq> node" using in_set_butlastD [OF y] assms(4) by auto
    ultimately show "n_next (?h y) = n_next (h y)" by (simp add: f(1))
  next
    fix y assume "y \<in> set A"
    then have "y \<noteq> node" "y \<noteq> n_next (h c)"
      using assms(2,3,4) nc by (auto split: list.splits)
    then show "n_prev (?h y) = n_prev (h y)" by (simp add: f(2))
  qed
  have A: "seg ?h x A" using assms(1) unfolding dll_append segA by simp
  have cn: "n_next (?h c) = node" "n_prev (?h node) = c"
    using ne ne' by (simp_all add: f(1,2))
  have "dll ?h node B"
  proof (cases B)
    case Nil
    with nc ne show ?thesis by (simp add: dll_def f(1))
  next
    case (Cons b B')
    have b: "b \<noteq> node" "b \<noteq> NULL" using assms(3,4) Cons by auto
    have "seg ?h b B' = seg h b B'"
    proof (rule seg_cong)
      fix y assume "y \<in> set (butlast (b # B'))"
      then have "y \<in> set B" unfolding Cons by (rule in_set_butlastD)
      then have "y \<noteq> c" "y \<noteq> node" using c assms(4) by auto
      then show "n_next (?h y) = n_next (h y)" by (simp add: f(1))
    next
      fix y assume "y \<in> set B'"
      then have "y \<noteq> node" "y \<noteq> n_next (h c)"
        using assms(2,4) nc Cons by auto
      then show "n_prev (?h y) = n_prev (h y)" by (simp add: f(2))
    qed
    moreover have "n_next (?h (last (b # B'))) = n_next (h (last (b # B')))"
    proof -
      have "last (b # B') \<in> set B" unfolding Cons by (rule last_in_set) simp
      then have "last (b # B') \<noteq> c" "last (b # B') \<noteq> node" using c assms(4) by auto
      then show ?thesis by (simp only: f(1) if_False)
    qed
    moreover have "dll h b B'"
      using assms(1) unfolding dll_append Cons by simp
    ultimately have "dll ?h b B'" by (simp only: dll_def)
    moreover have "n_next (?h node) = b" "n_prev (?h b) = node"
      using nc Cons b ne by (simp_all add: f(1,2))
    ultimately show ?thesis
      using Cons dll_append [of ?h node "[]" B] by simp
  qed
  with A cn show "dll ?h x (A @ node # B)"
    unfolding dll_append c_def [symmetric] by simp
qed

section \<open>The invariant under unlinking\<close>

lemma level_cong:
  assumes "\<And>j. h' (NodeAt k j) = h (NodeAt k j)"
  shows "level_ok h' dl k xs = level_ok h dl k xs"
proof -
  have s: "seg h' (NodeAt k j) (refs k ys) = seg h (NodeAt k j) (refs k ys)" for j ys
    by (induction ys arbitrary: j) (simp_all add: assms)
  have "last (NodeAt k 0 # refs k xs) = NodeAt k (last (0 # map fst xs))"
    by (induction xs rule: rev_induct) auto
  then show ?thesis
    by (simp add: level_ok_def dll_def s assms)
qed

lemma level_refs:
  assumes "level_ok h dl k xs"
  shows "distinct (NodeAt k 0 # refs k xs)" "NULL \<notin> set (NodeAt k 0 # refs k xs)"
proof -
  have "distinct (map fst xs)" "\<forall>x\<in>set xs. 1 \<le> fst x"
    using assms by (simp_all add: level_ok_def)
  then have "distinct (0 # map fst xs)" by force
  then have "distinct (map (NodeAt k) (0 # map fst xs))"
    by (subst distinct_map) (simp add: inj_on_def)
  then show "distinct (NodeAt k 0 # refs k xs)" by (simp add: comp_def)
  show "NULL \<notin> set (NodeAt k 0 # refs k xs)" by auto
qed

lemma level_unlink:
  assumes "level_ok h dl k (A @ (i, p) # B)"
  shows "level_ok (unlink_node (NodeAt k i) h) dl k (A @ B)"
    and "\<And>r. r \<noteq> NodeAt k i \<Longrightarrow> n_lower (unlink_node (NodeAt k i) h r) = n_lower (h r)"
    and "\<And>r. (\<forall>j. r \<noteq> NodeAt k j) \<Longrightarrow> unlink_node (NodeAt k i) h r = h r"
    and "n_prev (h (NodeAt k i)) \<noteq> NULL"
proof -
  let ?c = "NodeAt k i" and ?h = "unlink_node (NodeAt k i) h"
  have dl: "dll h (NodeAt k 0) (refs k A @ ?c # refs k B)"
    using assms by (simp add: level_ok_def)
  have di: "distinct (NodeAt k 0 # refs k A @ ?c # refs k B)"
    and nn: "NULL \<notin> set (NodeAt k 0 # refs k A @ ?c # refs k B)"
    using level_refs [OF assms] by simp_all
  note u = dll_unlink [OF dl di nn]
  note f = unlink_fields [of h ?c, OF u(2,3)]
  have pc: "\<exists>j. n_prev (h ?c) = NodeAt k j"
    using u(1) last_in_set [of "NodeAt k 0 # refs k A"] by auto
  then show "n_prev (h ?c) \<noteq> NULL" by auto
  have nc: "n_next (h ?c) = NULL \<or> (\<exists>j. n_next (h ?c) = NodeAt k j)"
    using dll_next [of h "NodeAt k 0" "refs k A @ [?c]" "refs k B"] dl by (cases B) auto
  show "n_lower (?h r) = n_lower (h r)" if "r \<noteq> ?c" for r
    using that by (simp add: f(4))
  show "?h r = h r" if "\<forall>j. r \<noteq> NodeAt k j" for r
    using that pc nc by (intro node.equality) (auto simp: f)
  have np: "n_proc (?h (NodeAt k j)) = (if j = i then None else n_proc (h (NodeAt k j)))" for j
    by (simp add: f(3))
  have ix: "i \<notin> fst ` set (A @ B)"
    using assms by (auto simp: level_ok_def)
  have i0: "i \<noteq> 0"
    using assms by (auto simp: level_ok_def)
  show "level_ok ?h dl k (A @ B)"
    unfolding level_ok_def
  proof (intro conjI)
    show "dll ?h (NodeAt k 0) (refs k (A @ B))" using u(4) by simp
    show "n_proc (?h (NodeAt k 0)) = None"
      using assms i0 by (simp add: np level_ok_def)
    show "\<forall>x\<in>set (A @ B). 1 \<le> fst x \<and> fst x \<le> NPROC \<and> snd x < NPROC \<and>
        n_proc (?h (NodeAt k (fst x))) = Some (snd x)"
      using assms ix by (auto simp: np level_ok_def)
    show "\<forall>j\<in>{1..NPROC}. j \<notin> fst ` set (A @ B) \<longrightarrow> n_proc (?h (NodeAt k j)) = None"
      using assms by (auto simp: np level_ok_def)
    show "distinct (map fst (A @ B))" "distinct (map snd (A @ B))"
      "sorted (map (\<lambda>x. dl (Some (snd x))) (A @ B))"
      using assms by (auto simp: level_ok_def sorted_append)
  qed
qed

lemma skip_unlink:
  assumes ok: "skip_ok h dl N" and k: "0 \<le> k" "k < LEVELS" and N: "N k = A @ (i, p) # B"
    and above: "\<And>j. k < j \<Longrightarrow> j < LEVELS \<Longrightarrow> p \<notin> snd ` set (N j)"
  shows "skip_ok (unlink_node (NodeAt k i) h) dl (N(k := A @ B))"
  unfolding skip_ok_def
proof (intro allI impI)
  fix j assume j: "0 \<le> j \<and> j < LEVELS"
  note lev = skip_ok_level [OF ok k, unfolded N]
  let ?h = "unlink_node (NodeAt k i) h" and ?N = "N(k := A @ B)"
  note u = level_unlink [OF lev]
  have jl: "level_ok h dl j (N j)" and jlo: "lower_ok h N j"
    using ok j by (auto simp: skip_ok_def)
  have dist: "distinct (map fst (A @ (i, p) # B))" "distinct (map snd (A @ (i, p) # B))"
    using lev by (simp_all only: level_ok_def)
  have dis: "fst x \<noteq> i \<and> snd x \<noteq> p" if "x \<in> set (A @ B)" for x
  proof -
    have "fst x \<in> set (map fst A) \<union> set (map fst B)" "snd x \<in> set (map snd A) \<union> set (map snd B)"
      using that by auto
    with dist show ?thesis by (auto simp del: set_map)
  qed
  have "level_ok ?h dl j (?N j)"
  proof (cases "j = k")
    case True
    with u(1) show ?thesis by simp
  next
    case False
    have "level_ok ?h dl j (N j) = level_ok h dl j (N j)"
      by (rule level_cong) (use False in \<open>auto intro!: u(3)\<close>)
    with False jl show ?thesis by simp
  qed
  moreover have "lower_ok ?h ?N j"
    unfolding lower_ok_def
  proof
    fix x assume x: "x \<in> set (?N j)"
    then have xN: "x \<in> set (N j)" using N by (auto split: if_splits)
    have xp: "j \<ge> k \<Longrightarrow> snd x \<noteq> p"
      using x above [of j] dis [of x] j by (cases "j = k") auto
    have "NodeAt j (fst x) \<noteq> NodeAt k i"
      using x dis [of x] by (cases "j = k") auto
    then have lw: "n_lower (?h (NodeAt j (fst x))) = n_lower (h (NodeAt j (fst x)))"
      by (rule u(2))
    note old = jlo [unfolded lower_ok_def, THEN bspec, OF xN]
    show "if j = 0 then n_lower (?h (NodeAt j (fst x))) = NULL
        else \<exists>ja. n_lower (?h (NodeAt j (fst x))) = NodeAt (j - 1) ja \<and> (ja, snd x) \<in> set (?N (j - 1))"
    proof (cases "j = 0")
      case True
      with old lw show ?thesis by simp
    next
      case False
      then obtain ja where ja: "n_lower (h (NodeAt j (fst x))) = NodeAt (j - 1) ja"
        "(ja, snd x) \<in> set (N (j - 1))"
        using old by auto
      have "(ja, snd x) \<in> set (?N (j - 1))"
        using ja(2) N xp by (cases "j - 1 = k") auto
      with False ja(1) lw show ?thesis by auto
    qed
  qed
  ultimately show "level_ok ?h dl j (?N j) \<and> lower_ok ?h ?N j" ..
qed

lemma skip_ok_cong:
  assumes "\<And>j. 0 \<le> j \<Longrightarrow> j < LEVELS \<Longrightarrow> N' j = N j"
  shows "skip_ok h dl N' = skip_ok h dl N"
proof -
  have "lower_ok h N' k = lower_ok h N k" if "0 \<le> k" "k < LEVELS" for k
    using assms [of k] assms [of "k - 1"] that by (cases "k = 0") (auto simp: lower_ok_def)
  with assms show ?thesis by (auto simp: skip_ok_def)
qed

text \<open>The references outside the array \<open>ptable.level\<close>.\<close>

definition outside :: "nref \<Rightarrow> bool" where
  "outside r \<longleftrightarrow> (\<forall>k i. r = NodeAt k i \<longrightarrow> k < 0 \<or> LEVELS \<le> k)"

abbreviation others :: "nat \<Rightarrow> (nat \<times> nat) list \<Rightarrow> (nat \<times> nat) list" where
  "others p xs \<equiv> filter (\<lambda>x. snd x \<noteq> p) xs"

lemma others_id: "p \<notin> snd ` set xs \<Longrightarrow> others p xs = xs"
  by (induction xs) auto

lemma others_split:
  assumes "distinct (map snd (A @ (i, p) # B))"
  shows "others p (A @ (i, p) # B) = A @ B"
proof -
  have "\<forall>x\<in>set A. snd x \<noteq> p" "\<forall>x\<in>set B. snd x \<noteq> p"
    using assms by auto
  then show ?thesis by simp
qed

lemma delete_nodes_ok:
  assumes "skip_ok h dl N" "0 \<le> k" "k < LEVELS" "(i, p) \<in> set (N k)"
    and "\<And>j. k < j \<Longrightarrow> j < LEVELS \<Longrightarrow> p \<notin> snd ` set (N j)"
  shows "\<exists>h'. delete_nodes h (NodeAt k i) = ret h' \<and> skip_ok h' dl (\<lambda>j. others p (N j)) \<and>
    (\<forall>r. outside r \<longrightarrow> h' r = h r)"
  using assms
proof (induction "nat k" arbitrary: k i h N)
  have one: "\<exists>A B. N k = A @ (i, p) # B \<and> A @ B = others p (N k) \<and>
      skip_ok (unlink_node (NodeAt k i) h) dl (N(k := A @ B)) \<and> n_prev (h (NodeAt k i)) \<noteq> NULL \<and>
      (\<forall>r. outside r \<longrightarrow> unlink_node (NodeAt k i) h r = h r)"
    if a: "skip_ok h dl N" "0 \<le> k" "k < LEVELS" "(i, p) \<in> set (N k)"
      "\<And>j. k < j \<Longrightarrow> j < LEVELS \<Longrightarrow> p \<notin> snd ` set (N j)" for h N k i
  proof -
    obtain A B where N: "N k = A @ (i, p) # B"
      using split_list [OF a(4)] by blast
    have lev: "level_ok h dl k (A @ (i, p) # B)"
      using skip_ok_level [OF a(1-3)] N by simp
    then have "others p (N k) = A @ B"
      using N others_split [of A i p B] by (simp add: level_ok_def)
    moreover have "unlink_node (NodeAt k i) h r = h r" if "outside r" for r
      using that a(2,3) by (intro level_unlink(3) [OF lev]) (auto simp: outside_def)
    ultimately show ?thesis
      using N skip_unlink [OF a(1-3) N a(5)] level_unlink(4) [OF lev] by auto
  qed
  {
    case 0
    then have k: "k = 0" by simp
    obtain A B where ab: "N k = A @ (i, p) # B" "A @ B = others p (N k)"
      "skip_ok (unlink_node (NodeAt k i) h) dl (N(k := A @ B))" "n_prev (h (NodeAt k i)) \<noteq> NULL"
      "\<forall>r. outside r \<longrightarrow> unlink_node (NodeAt k i) h r = h r"
      using one [OF 0(2-6)] by blast
    have "n_lower (h (NodeAt 0 i)) = NULL"
      using skip_ok_lower [OF 0(2), of 0] 0(5) k by (auto simp: lower_ok_def LEVELS_def)
    then have "delete_nodes h (NodeAt k i) = ret (unlink_node (NodeAt k i) h)"
      using ab(4) k by (subst delete_nodes.simps) simp
    moreover have "skip_ok (unlink_node (NodeAt k i) h) dl (\<lambda>j. others p (N j))"
    proof (subst skip_ok_cong [of _ "N(k := A @ B)"])
      fix j assume "0 \<le> j" "j < LEVELS"
      then show "others p (N j) = (N(k := A @ B)) j"
        using ab(2) others_id [OF 0(6) [of j]] k by (cases "j = 0") simp_all
    qed (rule ab(3))
    ultimately show ?case using ab(5) by blast
  next
    case (Suc n)
    then have k: "0 \<le> k - 1" "k - 1 < LEVELS" "n = nat (k - 1)" "k \<noteq> 0" by auto
    obtain A B where ab: "N k = A @ (i, p) # B" "A @ B = others p (N k)"
      "skip_ok (unlink_node (NodeAt k i) h) dl (N(k := A @ B))" "n_prev (h (NodeAt k i)) \<noteq> NULL"
      "\<forall>r. outside r \<longrightarrow> unlink_node (NodeAt k i) h r = h r"
      using one [OF Suc(3-7)] by blast
    obtain j where j: "n_lower (h (NodeAt k i)) = NodeAt (k - 1) j" "(j, p) \<in> set (N (k - 1))"
      using skip_ok_lower [OF Suc(3-5), unfolded lower_ok_def, THEN bspec, OF Suc(6)] k(4) by auto
    have step: "delete_nodes h (NodeAt k i) =
        delete_nodes (unlink_node (NodeAt k i) h) (NodeAt (k - 1) j)"
      using ab(4) j(1) by (subst delete_nodes.simps) simp
    have "\<exists>h'. delete_nodes (unlink_node (NodeAt k i) h) (NodeAt (k - 1) j) = ret h' \<and>
        skip_ok h' dl (\<lambda>m. others p ((N(k := A @ B)) m)) \<and>
        (\<forall>r. outside r \<longrightarrow> h' r = unlink_node (NodeAt k i) h r)"
    proof (rule Suc(1) [OF k(3) ab(3) k(1,2)])
      show "(j, p) \<in> set ((N(k := A @ B)) (k - 1))" using j(2) by simp
      show "p \<notin> snd ` set ((N(k := A @ B)) m)" if "k - 1 < m" "m < LEVELS" for m
        using that Suc(7) [of m] ab(2) by (cases "m = k") auto
    qed
    then obtain h' where h': "delete_nodes h (NodeAt k i) = ret h'"
      "skip_ok h' dl (\<lambda>m. others p ((N(k := A @ B)) m))"
      "\<forall>r. outside r \<longrightarrow> h' r = unlink_node (NodeAt k i) h r"
      using step by auto
    have "(\<lambda>m. others p ((N(k := A @ B)) m)) = (\<lambda>m. others p (N m))"
      using ab(2) by (auto simp: fun_eq_iff)
    with h' ab(5) show ?case by auto
  }
qed

theorem delete_heap_ok:
  assumes ok: "skip_ok h dl N" and p: "p \<in> snd ` set (N 0)"
    and stray: "n_proc (h NULL) \<noteq> Some p" "n_proc (h (NodeAt (-1) 0)) \<noteq> Some p"
  shows "\<exists>h'. delete_heap h dl (dl (Some p)) p = ret h' \<and> skip_ok h' dl (\<lambda>j. others p (N j)) \<and>
    (\<forall>r. outside r \<longrightarrow> h' r = h r)"
proof -
  let ?d = "dl (Some p)"
  have "\<exists>c. find_placement ''deletion: above level 0 with no lower'' h dl ?d
      (LEVELS - 1) (NodeAt (LEVELS - 1) 0) (\<lambda>_. NULL) =
      ret (\<lambda>j. if 0 \<le> j \<and> j \<le> LEVELS - 1 then pred_of dl ?d j (N j) else NULL, c) \<and>
      (c = NULL \<or> c = NodeAt (-1) 0)"
    by (rule find_placement_ok [OF ok, of _ "[]" "N (LEVELS - 1)"]) (simp_all add: LEVELS_def)
  then obtain c where fp: "find_placement ''deletion: above level 0 with no lower'' h dl ?d
      (LEVELS - 1) (NodeAt (LEVELS - 1) 0) (\<lambda>_. NULL) =
      ret (\<lambda>j. if 0 \<le> j \<and> j \<le> LEVELS - 1 then pred_of dl ?d j (N j) else NULL, c)"
      and c: "c = NULL \<or> c = NodeAt (-1) 0"
    by blast
  let ?pl = "\<lambda>j. if 0 \<le> j \<and> j \<le> LEVELS - 1 then pred_of dl ?d j (N j) else NULL"
  have "\<exists>k i. delete_search h dl ?d p ?pl (LEVELS - 1) c = ret (NodeAt k i) \<and> 0 \<le> k \<and>
      k \<le> LEVELS - 1 \<and> (i, p) \<in> set (N k) \<and> (\<forall>j. k < j \<longrightarrow> j < LEVELS \<longrightarrow> p \<notin> snd ` set (N j))"
    by (rule delete_search_ok [OF ok refl p]) (use c stray in \<open>auto simp: LEVELS_def\<close>)
  then obtain k i where ds: "delete_search h dl ?d p ?pl (LEVELS - 1) c = ret (NodeAt k i)"
    and k: "0 \<le> k" "k < LEVELS" and i: "(i, p) \<in> set (N k)"
    and ab: "\<And>j. k < j \<Longrightarrow> j < LEVELS \<Longrightarrow> p \<notin> snd ` set (N j)"
    by force
  show ?thesis
    using delete_nodes_ok [OF ok k i ab] fp ds by (simp add: delete_heap_def)
qed

end
