(* ===== verification/SkipIns.thy ===== *)
theory SkipIns
  imports SkipInv
begin

text \<open>
  Insertion into the skip list: a free node is always found, linking it keeps the invariant, and
  the process enters every level up to the one at which the dice stop the loop.
\<close>

section \<open>Free nodes\<close>

lemma find_free_ok:
  assumes "n_proc (h (NodeAt k j)) = None" "i \<le> j" "j \<le> NPROC"
  shows "\<exists>m. find_free h k i = ret m \<and> i \<le> m \<and> m \<le> NPROC \<and> n_proc (h (NodeAt k m)) = None"
  using assms
proof (induction h k i rule: find_free.induct)
  case (1 h k i)
  show ?case
  proof (cases "n_proc (h (NodeAt k i)) = None")
    case True
    with 1(3,4) show ?thesis by (subst find_free.simps) simp
  next
    case False
    then have "i < j" using 1(2,3) by (cases "i = j") auto
    then have "\<not> NPROC + 1 \<le> i + 1" "i + 1 \<le> j" using 1(4) by auto
    with 1(1) [OF False] 1(2,4) False show ?thesis
      by (subst find_free.simps) fastforce
  qed
qed

lemma find_free_level:
  assumes "level_ok h dl k xs" "length xs < NPROC"
  shows "\<exists>i. find_free h k 1 = ret i \<and> 1 \<le> i \<and> i \<le> NPROC \<and> i \<notin> fst ` set xs"
proof -
  have "distinct (map fst xs)" using assms(1) by (simp only: level_ok_def)
  then obtain j where j: "j \<in> {1..NPROC}" "j \<notin> fst ` set xs"
    using free_index [of "map fst xs" NPROC] assms(2) by auto
  then have "n_proc (h (NodeAt k j)) = None"
    using assms(1) by (simp add: level_ok_def)
  then obtain i where i: "find_free h k 1 = ret i" "1 \<le> i" "i \<le> NPROC"
      "n_proc (h (NodeAt k i)) = None"
    using find_free_ok [of h k j 1] j(1) by auto
  have "i \<notin> fst ` set xs"
    using assms(1) i(4) by (auto simp: level_ok_def)
  with i show ?thesis by blast
qed

section \<open>The invariant under linking\<close>

text \<open>The list of a level after the insertion of \<open>y\<close> at the placement of the deadline \<open>d\<close>.\<close>

definition after :: "(nat option \<Rightarrow> int) \<Rightarrow> int \<Rightarrow> (nat \<times> nat) list \<Rightarrow> (nat \<times> nat) list" where
  "after dl d xs = dropWhile (\<lambda>x. dl (Some (snd x)) < d) xs"

definition placed :: "(nat option \<Rightarrow> int) \<Rightarrow> int \<Rightarrow> nat \<times> nat \<Rightarrow> (nat \<times> nat) list \<Rightarrow> (nat \<times> nat) list" where
  "placed dl d y xs = before dl d xs @ y # after dl d xs"

lemma before_after: "before dl d xs @ after dl d xs = xs"
  by (simp add: before_def after_def)

lemma set_placed [simp]: "set (placed dl d y xs) = insert y (set xs)"
proof -
  have "set (before dl d xs) \<union> set (after dl d xs) = set xs"
    using arg_cong [OF before_after [of dl d xs], of set] by simp
  then show ?thesis by (auto simp: placed_def)
qed

lemma placed_sorted:
  assumes "sorted (map (\<lambda>x. dl (Some (snd x))) xs)" "dl (Some (snd y)) = d"
  shows "sorted (map (\<lambda>x. dl (Some (snd x))) (placed dl d y xs))"
proof -
  let ?g = "\<lambda>x. dl (Some (snd x))" and ?A = "before dl d xs"
  let ?B = "after dl d xs"
  have s: "sorted (map ?g ?A @ map ?g ?B)"
    using assms(1) by (simp flip: map_append add: before_after)
  have a: "\<forall>x\<in>set ?A. ?g x < d"
    by (auto simp: before_def dest: set_takeWhileD)
  have b: "\<forall>x\<in>set ?B. d \<le> ?g x"
  proof (cases ?B)
    case (Cons z zs)
    then have "\<not> ?g z < d"
      using dropWhile_eq_Cons_conv [of "\<lambda>x. ?g x < d" xs z zs] by (simp add: after_def)
    moreover have "\<forall>x\<in>set zs. ?g z \<le> ?g x"
      using s Cons by (simp add: sorted_append)
    ultimately show ?thesis using Cons by auto
  qed simp
  from a b s assms(2) show ?thesis
    by (auto simp: placed_def sorted_append less_imp_le intro: order.trans)
qed

lemma placed_distinct:
  assumes "distinct (map f xs)" "f y \<notin> f ` set xs"
  shows "distinct (map f (placed dl d y xs))"
proof -
  have "distinct (map f (before dl d xs) @ map f (after dl d xs))"
    using assms(1) by (simp flip: map_append add: before_after)
  moreover have "f y \<notin> set (map f (before dl d xs) @ map f (after dl d xs))"
    using assms(2) by (simp flip: map_append add: before_after)
  ultimately show ?thesis by (auto simp: placed_def simp del: set_map)
qed

lemma level_link:
  assumes ok: "level_ok h dl k xs" and i: "1 \<le> i" "i \<le> NPROC" "i \<notin> fst ` set xs"
    and p: "p < NPROC" "p \<notin> snd ` set xs" "dl (Some p) = d"
  shows "level_ok (link_node (NodeAt k i) p lower (pred_of dl d k xs) h) dl k (placed dl d (i, p) xs)"
    and "\<And>r. n_lower (link_node (NodeAt k i) p lower (pred_of dl d k xs) h r) =
      (if r = NodeAt k i then lower else n_lower (h r))"
    and "\<And>r. (\<forall>j. r \<noteq> NodeAt k j) \<Longrightarrow> link_node (NodeAt k i) p lower (pred_of dl d k xs) h r = h r"
proof -
  let ?A = "before dl d xs" and ?c = "pred_of dl d k xs" and ?node = "NodeAt k i"
  let ?B = "after dl d xs"
  let ?h = "link_node ?node p lower ?c h"
  have xs: "refs k ?A @ refs k ?B = refs k xs"
    by (simp flip: map_append add: before_after)
  have dll: "dll h (NodeAt k 0) (refs k ?A @ refs k ?B)"
    unfolding xs using ok by (simp only: level_ok_def)
  have r: "distinct (NodeAt k 0 # refs k ?A @ refs k ?B)" "NULL \<notin> set (NodeAt k 0 # refs k ?A @ refs k ?B)"
    using level_refs [OF ok] unfolding xs by simp_all
  have nn: "?node \<notin> set (NodeAt k 0 # refs k ?A @ refs k ?B)"
    using i unfolding xs by auto
  note l = dll_link [OF dll r nn nref.distinct(2) pred_of_def]
  note f = link_fields [of ?node ?c h, OF l(1,2), of p lower]
  have c: "\<exists>j. ?c = NodeAt k j"
    unfolding pred_of_def using last_in_set [of "NodeAt k 0 # refs k ?A"] by auto
  have nc: "n_next (h ?c) = NULL \<or> (\<exists>j. n_next (h ?c) = NodeAt k j)"
    unfolding pred_of_def dll_next [OF dll] by (cases ?B) auto
  show "n_lower (?h r) = (if r = ?node then lower else n_lower (h r))" for r
    by (rule f(4))
  show "?h r = h r" if "\<forall>j. r \<noteq> NodeAt k j" for r
    using that c nc by (intro node.equality) (auto simp: f)
  have np: "n_proc (?h (NodeAt k j)) = (if j = i then Some p else n_proc (h (NodeAt k j)))" for j
    by (simp add: f(3))
  have old: "1 \<le> fst x \<and> fst x \<le> NPROC \<and> snd x < NPROC \<and> fst x \<noteq> i \<and>
      n_proc (h (NodeAt k (fst x))) = Some (snd x)" if "x \<in> set xs" for x
  proof -
    have "fst x \<noteq> i" using i(3) that by blast
    with ok that show ?thesis by (simp add: level_ok_def)
  qed
  show "level_ok ?h dl k (placed dl d (i, p) xs)"
    unfolding level_ok_def
  proof (intro conjI)
    show "dll ?h (NodeAt k 0) (refs k (placed dl d (i, p) xs))"
      using l(3) [of p lower] by (simp add: placed_def)
    show "n_proc (?h (NodeAt k 0)) = None"
      using ok i by (simp add: np level_ok_def)
    show "\<forall>x\<in>set (placed dl d (i, p) xs). 1 \<le> fst x \<and> fst x \<le> NPROC \<and> snd x < NPROC \<and>
        n_proc (?h (NodeAt k (fst x))) = Some (snd x)"
      using old i p by (simp add: np)
    show "\<forall>j\<in>{1..NPROC}. j \<notin> fst ` set (placed dl d (i, p) xs) \<longrightarrow> n_proc (?h (NodeAt k j)) = None"
      using ok by (auto simp: np level_ok_def)
    show "distinct (map fst (placed dl d (i, p) xs))" "distinct (map snd (placed dl d (i, p) xs))"
      using ok i p by (simp_all add: placed_distinct level_ok_def)
    show "sorted (map (\<lambda>x. dl (Some (snd x))) (placed dl d (i, p) xs))"
      using ok p(3) by (intro placed_sorted) (simp_all add: level_ok_def)
  qed
qed

lemma skip_link:
  assumes ok: "skip_ok h dl N" and k: "0 \<le> k" "k < LEVELS"
    and i: "1 \<le> i" "i \<le> NPROC" "i \<notin> fst ` set (N k)"
    and p: "p < NPROC" "p \<notin> snd ` set (N k)" "dl (Some p) = d"
    and low: "if k = 0 then lower = NULL else \<exists>j. lower = NodeAt (k - 1) j \<and> (j, p) \<in> set (N (k - 1))"
  shows "skip_ok (link_node (NodeAt k i) p lower (pred_of dl d k (N k)) h) dl
    (N(k := placed dl d (i, p) (N k)))"
  unfolding skip_ok_def
proof (intro allI impI)
  fix j assume j: "0 \<le> j \<and> j < LEVELS"
  note lev = skip_ok_level [OF ok k]
  let ?h = "link_node (NodeAt k i) p lower (pred_of dl d k (N k)) h"
  let ?N = "N(k := placed dl d (i, p) (N k))"
  note l = level_link [OF lev i p, where lower = lower]
  have jl: "level_ok h dl j (N j)" and jlo: "lower_ok h N j"
    using ok j by (auto simp: skip_ok_def)
  have "level_ok ?h dl j (?N j)"
  proof (cases "j = k")
    case True
    with l(1) show ?thesis by simp
  next
    case False
    have "level_ok ?h dl j (N j) = level_ok h dl j (N j)"
      by (rule level_cong) (use False in \<open>auto intro!: l(3)\<close>)
    with False jl show ?thesis by simp
  qed
  moreover have "lower_ok ?h ?N j"
    unfolding lower_ok_def
  proof
    fix x assume x: "x \<in> set (?N j)"
    have sub: "set (N m) \<subseteq> set (?N m)" for m by auto
    show "if j = 0 then n_lower (?h (NodeAt j (fst x))) = NULL
        else \<exists>ja. n_lower (?h (NodeAt j (fst x))) = NodeAt (j - 1) ja \<and> (ja, snd x) \<in> set (?N (j - 1))"
    proof (cases "NodeAt j (fst x) = NodeAt k i")
      case True
      have "x = (i, p)"
      proof (rule ccontr)
        assume "x \<noteq> (i, p)"
        then have "x \<in> set (N k)" using x True by simp
        with i(3) True show False by auto
      qed
      with True low l(2) show ?thesis by auto
    next
      case False
      have "x \<in> set (N j)"
        using x False by (cases "j = k") auto
      then have "if j = 0 then n_lower (h (NodeAt j (fst x))) = NULL
        else \<exists>ja. n_lower (h (NodeAt j (fst x))) = NodeAt (j - 1) ja \<and> (ja, snd x) \<in> set (N (j - 1))"
        using jlo unfolding lower_ok_def by blast
      then show ?thesis unfolding l(2) if_not_P [OF False] using sub by (auto split: if_splits)
    qed
  qed
  ultimately show "level_ok ?h dl j (?N j) \<and> lower_ok ?h ?N j" ..
qed

section \<open>The loop over the levels\<close>

text \<open>What insertion does to the list of processes of a level.\<close>

definition enqueue :: "(nat option \<Rightarrow> int) \<Rightarrow> nat \<Rightarrow> nat list \<Rightarrow> nat list" where
  "enqueue dl p ps = takeWhile (\<lambda>q. dl (Some q) < dl (Some p)) ps @
     p # dropWhile (\<lambda>q. dl (Some q) < dl (Some p)) ps"

lemma map_snd_placed: "map snd (placed dl (dl (Some p)) (i, p) xs) = enqueue dl p (map snd xs)"
  by (simp add: placed_def enqueue_def before_def after_def takeWhile_map dropWhile_map comp_def)

lemma level_length:
  assumes "level_ok h dl k xs" "p < NPROC" "p \<notin> snd ` set xs"
  shows "length xs < NPROC"
  using assms distinct_less_length [of "map snd xs" NPROC p]
  by (auto simp: level_ok_def)

lemma insert_levels_ok:
  assumes "skip_ok h dl N" "p < NPROC" "dl (Some p) = d" "int l \<le> LEVELS"
    and "\<And>j. int l \<le> j \<Longrightarrow> j < LEVELS \<Longrightarrow> p \<notin> snd ` set (N j) \<and> pl j = pred_of dl d j (N j)"
    and "if l = 0 then lower = NULL else \<exists>i. lower = NodeAt (int l - 1) i \<and> (i, p) \<in> set (N (int l - 1))"
  shows "\<exists>m h' seed' N'. insert_levels p pl l lower h seed = ret (m, h', seed') \<and>
    l \<le> m \<and> int m \<le> LEVELS \<and> (l = 0 \<longrightarrow> 1 \<le> m) \<and> skip_ok h' dl N' \<and>
    (\<forall>j. map snd (N' j) = (if int l \<le> j \<and> j < int m then enqueue dl p (map snd (N j)) else map snd (N j))) \<and>
    (\<forall>r. outside r \<longrightarrow> h' r = h r)"
  using assms
proof (induction p pl l lower h seed arbitrary: N rule: insert_levels.induct)
  case (1 p pl l lower h seed)
  define rs where "rs = (if l \<noteq> 0 then random 10000 seed else (0, seed))"
  show ?case
  proof (cases "int l < LEVELS \<and> \<not> (l \<noteq> 0 \<and> SKIPLIST_P \<le> unat (fst rs))")
    case False
    then have "\<exists>seed'. insert_levels p pl l lower h seed = ret (l, h, seed')"
      by (subst insert_levels.simps) (auto simp: rs_def Let_def split: prod.splits)
    then obtain seed' where s: "insert_levels p pl l lower h seed = ret (l, h, seed')" ..
    have "l \<noteq> 0" using False by (auto simp: LEVELS_def)
    with s 1(2,5) show ?thesis
      by (intro exI [of _ l] exI [of _ h] exI [of _ seed'] exI [of _ N]) auto
  next
    case True
    then have l: "int l < LEVELS" and roll: "\<not> (l \<noteq> 0 \<and> SKIPLIST_P \<le> unat (fst rs))" by auto
    have l0: "0 \<le> int l" by simp
    have pN: "p \<notin> snd ` set (N (int l))" and pl: "pl (int l) = pred_of dl d (int l) (N (int l))"
      using 1(6) [of "int l"] l by auto
    have lev: "level_ok h dl (int l) (N (int l))" by (rule skip_ok_level [OF 1(2) l0 l])
    obtain i where i: "find_free h (int l) 1 = ret i" "1 \<le> i" "i \<le> NPROC" "i \<notin> fst ` set (N (int l))"
      using find_free_level [OF lev level_length [OF lev 1(3) pN]] by blast
    define h1 where "h1 = link_node (NodeAt (int l) i) p lower (pl (int l)) h"
    define N1 where "N1 = N(int l := placed dl d (i, p) (N (int l)))"
    have step: "insert_levels p pl l lower h seed = insert_levels p pl (l + 1) (NodeAt (int l) i) h1 (snd rs)"
      using l roll i(1)
      by (subst insert_levels.simps) (auto simp: rs_def h1_def Let_def case_prod_unfold
        simp del: One_nat_def)
    have low: "if int l = 0 then lower = NULL
        else \<exists>j. lower = NodeAt (int l - 1) j \<and> (j, p) \<in> set (N (int l - 1))"
      using 1(7) by simp
    have ok1: "skip_ok h1 dl N1"
      unfolding h1_def N1_def pl by (rule skip_link [OF 1(2) l0 l i(2-4) 1(3) pN 1(4) low])
    have fr: "h1 r = h r" if "outside r" for r
      unfolding h1_def pl by (rule level_link(3) [OF lev i(2-4) 1(3) pN 1(4)])
        (use that l in \<open>auto simp: outside_def\<close>)
    have "\<exists>m h' seed' N'. insert_levels p pl (l + 1) (NodeAt (int l) i) h1 (snd rs) = ret (m, h', seed') \<and>
      l + 1 \<le> m \<and> int m \<le> LEVELS \<and> (l + 1 = 0 \<longrightarrow> 1 \<le> m) \<and> skip_ok h' dl N' \<and>
      (\<forall>j. map snd (N' j) = (if int (l + 1) \<le> j \<and> j < int m then enqueue dl p (map snd (N1 j)) else map snd (N1 j))) \<and>
      (\<forall>r. outside r \<longrightarrow> h' r = h1 r)"
      unfolding h1_def
    proof (rule 1(1) [OF l, of rs "fst rs" "snd rs"])
      show "rs = (if l \<noteq> 0 then random 10000 seed else (0, seed))" by (rule rs_def)
      show "(fst rs, snd rs) = rs" by simp
      show "\<not> (l \<noteq> 0 \<and> SKIPLIST_P \<le> unat (fst rs))" by (rule roll)
      show "skip_ok (link_node (NodeAt (int l) i) p lower (pl (int l)) h) dl N1"
        using ok1 by (simp add: h1_def)
      show "p \<notin> snd ` set (N1 j) \<and> pl j = pred_of dl d j (N1 j)" if "int (l + 1) \<le> j" "j < LEVELS" for j
        using 1(6) [of j] that by (simp add: N1_def)
    qed (use 1(3,4) l i(1) in \<open>auto simp: N1_def\<close>)
    then obtain m h' seed' N' where r: "insert_levels p pl l lower h seed = ret (m, h', seed')"
      "l + 1 \<le> m" "int m \<le> LEVELS" "skip_ok h' dl N'"
      "\<And>j. map snd (N' j) = (if int (l + 1) \<le> j \<and> j < int m then enqueue dl p (map snd (N1 j)) else map snd (N1 j))"
      "\<And>r. outside r \<Longrightarrow> h' r = h1 r"
      unfolding step by blast
    have n1: "map snd (N1 j) = (if j = int l then enqueue dl p (map snd (N j)) else map snd (N j))" for j
      using map_snd_placed [of dl p i "N (int l)"] 1(4) by (simp add: N1_def)
    have "map snd (N' j) = (if int l \<le> j \<and> j < int m then enqueue dl p (map snd (N j)) else map snd (N j))" for j
      using r(2) by (auto simp: r(5) n1)
    with r fr show ?thesis by auto
  qed
qed

theorem insert_heap_ok:
  assumes ok: "skip_ok h dl N" and p: "p < NPROC" "p \<notin> snd ` set (N 0)"
    and above: "\<And>k. 0 < k \<Longrightarrow> k < LEVELS \<Longrightarrow> p \<notin> snd ` set (N k)"
  shows "\<exists>m h' seed' N'. insert_heap h dl (dl (Some p)) p seed = ret (m, h', seed') \<and>
    1 \<le> m \<and> int m \<le> LEVELS \<and> skip_ok h' dl N' \<and>
    (\<forall>j. map snd (N' j) = (if 0 \<le> j \<and> j < int m then enqueue dl p (map snd (N j)) else map snd (N j))) \<and>
    (\<forall>r. outside r \<longrightarrow> h' r = h r)"
proof -
  let ?d = "dl (Some p)"
  let ?pl = "\<lambda>j. if 0 \<le> j \<and> j \<le> LEVELS - 1 then pred_of dl ?d j (N j) else NULL"
  have "\<exists>c. find_placement ''insertion: above level 0 with no lower'' h dl ?d
      (LEVELS - 1) (NodeAt (LEVELS - 1) 0) (\<lambda>_. NULL) = ret (?pl, c) \<and> (c = NULL \<or> c = NodeAt (-1) 0)"
    by (rule find_placement_ok [OF ok, of _ "[]" "N (LEVELS - 1)"]) (simp_all add: LEVELS_def)
  then obtain c where fp: "find_placement ''insertion: above level 0 with no lower'' h dl ?d
      (LEVELS - 1) (NodeAt (LEVELS - 1) 0) (\<lambda>_. NULL) = ret (?pl, c)"
    by blast
  have free: "p \<notin> snd ` set (N j)" if "0 \<le> j" "j < LEVELS" for j
    using above [of j] p(2) that by (cases "j = 0") auto
  have "\<exists>m h' seed' N'. insert_levels p ?pl 0 NULL h seed = ret (m, h', seed') \<and>
    0 \<le> m \<and> int m \<le> LEVELS \<and> ((0::nat) = 0 \<longrightarrow> 1 \<le> m) \<and> skip_ok h' dl N' \<and>
    (\<forall>j. map snd (N' j) = (if int 0 \<le> j \<and> j < int m then enqueue dl p (map snd (N j)) else map snd (N j))) \<and>
    (\<forall>r. outside r \<longrightarrow> h' r = h r)"
    by (rule insert_levels_ok [OF ok p(1) refl]) (use free in \<open>auto simp: LEVELS_def\<close>)
  then obtain m h' seed' N' where "insert_levels p ?pl 0 NULL h seed = ret (m, h', seed')"
    "1 \<le> m" "int m \<le> LEVELS" "skip_ok h' dl N'"
    "\<And>j. map snd (N' j) = (if int 0 \<le> j \<and> j < int m then enqueue dl p (map snd (N j)) else map snd (N j))"
    "\<forall>r. outside r \<longrightarrow> h' r = h r"
    by blast
  then show ?thesis unfolding insert_heap_def fp
    by (intro exI [of _ m] exI [of _ h'] exI [of _ seed'] exI [of _ N']) simp
qed

end
