(* ===== verification/SkipQueue.thy ===== *)
theory SkipQueue
  imports SkipIns
begin

text \<open>
  The skip list as a queue of processes ordered by virtual deadline: the interface the process
  table relies on, the abstraction from the nodes to the queue, and the properties of the
  pseudo-random generator.
\<close>

section \<open>The interface\<close>

text \<open>
  \<open>rep h dl q L\<close>: the store \<open>h\<close> holds the queue \<open>q\<close>, and process \<open>p\<close> of it occupies the lowest
  \<open>L p\<close> levels. \<open>stray h p\<close> says that a read outside the structure finds the process \<open>p\<close>.
\<close>

locale deadline_queue =
  fixes rep :: "'h \<Rightarrow> (nat option \<Rightarrow> int) \<Rightarrow> nat list \<Rightarrow> (nat \<Rightarrow> nat) \<Rightarrow> bool"
    and ins :: "'h \<Rightarrow> (nat option \<Rightarrow> int) \<Rightarrow> int \<Rightarrow> nat \<Rightarrow> u32 \<Rightarrow> (nat \<times> 'h \<times> u32) res"
    and del :: "'h \<Rightarrow> (nat option \<Rightarrow> int) \<Rightarrow> int \<Rightarrow> nat \<Rightarrow> 'h res"
    and front :: "'h \<Rightarrow> nat option"
    and stray :: "'h \<Rightarrow> nat \<Rightarrow> bool"
  assumes rep_queue: "rep h dl q L \<Longrightarrow>
      distinct q \<and> set q \<subseteq> {..<NPROC} \<and> sorted (map (\<lambda>p. dl (Some p)) q)"
    and ins_law: "rep h dl q L \<Longrightarrow> p < NPROC \<Longrightarrow> p \<notin> set q \<Longrightarrow>
      \<exists>m h' seed'. ins h dl (dl (Some p)) p seed = ret (m, h', seed') \<and> 1 \<le> m \<and> int m \<le> LEVELS \<and>
        rep h' dl (enqueue dl p q) (L(p := m)) \<and> (\<forall>r. stray h' r = stray h r)"
    and del_law: "rep h dl q L \<Longrightarrow> p \<in> set q \<Longrightarrow> \<not> stray h p \<Longrightarrow>
      \<exists>h'. del h dl (dl (Some p)) p = ret h' \<and> rep h' dl (remove1 p q) L \<and> (\<forall>r. stray h' r = stray h r)"
    and front_law: "rep h dl q L \<Longrightarrow> front h = (case q of [] \<Rightarrow> None | p # _ \<Rightarrow> Some p)"
    and rep_deadlines: "rep h dl q L \<Longrightarrow> (\<And>p. p \<in> set q \<Longrightarrow> dl' (Some p) = dl (Some p)) \<Longrightarrow> rep h dl' q L"
begin

lemma front_earliest:
  assumes "rep h dl q L" "front h = Some p"
  shows "p \<in> set q \<and> (\<forall>r\<in>set q. dl (Some p) \<le> dl (Some r))"
  using front_law [OF assms(1)] assms(2) rep_queue [OF assms(1)]
  by (auto split: list.splits)

lemma front_none:
  assumes "rep h dl q L"
  shows "front h = None \<longleftrightarrow> q = []"
  using front_law [OF assms] by (auto split: list.splits)

lemma ins_front:
  assumes "rep h dl q L" "p < NPROC" "p \<notin> set q"
  shows "\<exists>m h' seed'. ins h dl (dl (Some p)) p seed = ret (m, h', seed') \<and>
    front h' = (if q \<noteq> [] \<and> dl (Some (hd q)) < dl (Some p) then Some (hd q) else Some p)"
proof -
  obtain m h' seed' where i: "ins h dl (dl (Some p)) p seed = ret (m, h', seed')"
    "rep h' dl (enqueue dl p q) (L(p := m))"
    using ins_law [OF assms] by blast
  have "front h' = (if q \<noteq> [] \<and> dl (Some (hd q)) < dl (Some p) then Some (hd q) else Some p)"
    using front_law [OF i(2)] by (cases q) (auto simp: enqueue_def)
  with i(1) show ?thesis by blast
qed

lemma remove1_enqueue:
  assumes "p \<notin> set q"
  shows "remove1 p (enqueue dl p q) = q"
proof -
  have "p \<notin> set (takeWhile (\<lambda>x. dl (Some x) < dl (Some p)) q)"
    using assms by (auto dest: set_takeWhileD)
  then show ?thesis by (simp add: enqueue_def remove1_append)
qed

lemma del_ins:
  assumes "rep h dl q L" "p < NPROC" "p \<notin> set q" "\<not> stray h p"
  shows "\<exists>m h' seed' h''. ins h dl (dl (Some p)) p seed = ret (m, h', seed') \<and>
    del h' dl (dl (Some p)) p = ret h'' \<and> rep h'' dl q (L(p := m))"
proof -
  obtain m h' seed' where i: "ins h dl (dl (Some p)) p seed = ret (m, h', seed')"
    "rep h' dl (enqueue dl p q) (L(p := m))" "\<not> stray h' p"
    using ins_law [OF assms(1-3)] assms(4) by blast
  have "p \<in> set (enqueue dl p q)" by (simp add: enqueue_def)
  from del_law [OF i(2) this i(3)] i(1) show ?thesis
    by (auto simp: remove1_enqueue [OF assms(3)])
qed

end

section \<open>The skip list implements it\<close>

definition skip_rep :: "nodes \<Rightarrow> (nat option \<Rightarrow> int) \<Rightarrow> nat list \<Rightarrow> (nat \<Rightarrow> nat) \<Rightarrow> bool" where
  "skip_rep h dl q L \<longleftrightarrow> (\<exists>N. skip_ok h dl N \<and> map snd (N 0) = q \<and>
     (\<forall>k p. 0 \<le> k \<longrightarrow> k < LEVELS \<longrightarrow> (p \<in> snd ` set (N k) \<longleftrightarrow> p \<in> set q \<and> k < int (L p))))"

text \<open>The process at the front, as the scheduler reads it: \<open>ptable.level[0][0].next->proc\<close>.\<close>

definition skip_front :: "nodes \<Rightarrow> nat option" where
  "skip_front h =
     (if n_next (h (NodeAt 0 0)) = NULL then None else n_proc (h (n_next (h (NodeAt 0 0)))))"

definition skip_stray :: "nodes \<Rightarrow> nat \<Rightarrow> bool" where
  "skip_stray h p \<longleftrightarrow> n_proc (h NULL) = Some p \<or> n_proc (h (NodeAt (-1) 0)) = Some p"

lemma skip_stray_frame:
  assumes "\<forall>r. outside r \<longrightarrow> h' r = h r"
  shows "skip_stray h' p = skip_stray h p"
proof -
  have "outside NULL" "outside (NodeAt (-1) 0)" by (simp_all add: outside_def)
  with assms show ?thesis by (simp add: skip_stray_def)
qed

lemma set_enqueue [simp]: "set (enqueue dl p q) = insert p (set q)"
proof -
  have "set (takeWhile P q) \<union> set (dropWhile P q) = set q" for P
    by (metis set_append takeWhile_dropWhile_id)
  then show ?thesis by (auto simp: enqueue_def)
qed

lemma skip_ok_deadlines:
  assumes "skip_ok h dl N" "\<And>k x. 0 \<le> k \<Longrightarrow> k < LEVELS \<Longrightarrow> x \<in> set (N k) \<Longrightarrow> dl' (Some (snd x)) = dl (Some (snd x))"
  shows "skip_ok h dl' N"
  unfolding skip_ok_def
proof (intro allI impI conjI)
  fix k assume k: "0 \<le> k \<and> k < LEVELS"
  then show "lower_ok h N k" using assms(1) by (simp add: skip_ok_def)
  have "map (\<lambda>x. dl' (Some (snd x))) (N k) = map (\<lambda>x. dl (Some (snd x))) (N k)"
    using k by (intro map_cong refl assms(2)) auto
  moreover have "level_ok h dl k (N k)" using assms(1) k by (simp add: skip_ok_def)
  ultimately show "level_ok h dl' k (N k)" unfolding level_ok_def by metis
qed

lemma skip_ins_law:
  assumes "skip_rep h dl q L" "p < NPROC" "p \<notin> set q"
  shows "\<exists>m h' seed'. insert_heap h dl (dl (Some p)) p seed = ret (m, h', seed') \<and> 1 \<le> m \<and>
    int m \<le> LEVELS \<and> skip_rep h' dl (enqueue dl p q) (L(p := m)) \<and> (\<forall>r. skip_stray h' r = skip_stray h r)"
proof -
  obtain N where N: "skip_ok h dl N" "map snd (N 0) = q"
    "\<And>k p. 0 \<le> k \<Longrightarrow> k < LEVELS \<Longrightarrow> p \<in> snd ` set (N k) \<longleftrightarrow> p \<in> set q \<and> k < int (L p)"
    using assms(1) by (auto simp: skip_rep_def)
  have n0: "p \<notin> snd ` set (N 0)" using N(2) assms(3) by (metis set_map)
  have above: "p \<notin> snd ` set (N k)" if "0 < k" "k < LEVELS" for k
    using N(3) [of k p] that assms(3) by simp
  obtain m h' seed' N' where r: "insert_heap h dl (dl (Some p)) p seed = ret (m, h', seed')"
    "1 \<le> m" "int m \<le> LEVELS" "skip_ok h' dl N'"
    "\<And>j. map snd (N' j) = (if 0 \<le> j \<and> j < int m then enqueue dl p (map snd (N j)) else map snd (N j))"
    "\<forall>r. outside r \<longrightarrow> h' r = h r"
    using insert_heap_ok [OF N(1) assms(2) n0 above] by blast
  have "x \<in> snd ` set (N' k) \<longleftrightarrow> x \<in> set (enqueue dl p q) \<and> k < int ((L(p := m)) x)"
    if k: "0 \<le> k" "k < LEVELS" for k x
  proof -
    have "snd ` set (N' k) = set (map snd (N' k))" by simp
    also have "\<dots> = (if k < int m then insert p (snd ` set (N k)) else snd ` set (N k))"
      using k by (simp add: r(5))
    finally show ?thesis using N(3) [OF k, of x] assms(3) by (auto split: if_splits)
  qed
  then have "skip_rep h' dl (enqueue dl p q) (L(p := m))"
    unfolding skip_rep_def using r(2,4) r(5) [of 0] N(2) by (intro exI [of _ N']) simp
  with r skip_stray_frame [OF r(6)] show ?thesis by auto
qed

lemma filter_remove1: "distinct xs \<Longrightarrow> filter (\<lambda>x. x \<noteq> p) xs = remove1 p xs"
  by (induction xs) (auto simp: filter_id_conv)

lemma skip_del_law:
  assumes "skip_rep h dl q L" "p \<in> set q" "\<not> skip_stray h p"
  shows "\<exists>h'. delete_heap h dl (dl (Some p)) p = ret h' \<and> skip_rep h' dl (remove1 p q) L \<and>
    (\<forall>r. skip_stray h' r = skip_stray h r)"
proof -
  obtain N where N: "skip_ok h dl N" "map snd (N 0) = q"
    "\<And>k p. 0 \<le> k \<Longrightarrow> k < LEVELS \<Longrightarrow> p \<in> snd ` set (N k) \<longleftrightarrow> p \<in> set q \<and> k < int (L p)"
    using assms(1) by (auto simp: skip_rep_def)
  have p: "p \<in> snd ` set (N 0)" using N(2) assms(2) by (metis set_map)
  obtain h' where r: "delete_heap h dl (dl (Some p)) p = ret h'" "skip_ok h' dl (\<lambda>j. others p (N j))"
    "\<forall>r. outside r \<longrightarrow> h' r = h r"
    using delete_heap_ok [OF N(1) p] assms(3) by (auto simp: skip_stray_def)
  have d: "distinct q"
    using skip_ok_level [OF N(1), of 0] N(2) by (simp add: level_ok_def LEVELS_def)
  have "map snd (others p (N 0)) = filter (\<lambda>x. x \<noteq> p) (map snd (N 0))"
    by (simp add: filter_map comp_def)
  then have "map snd (others p (N 0)) = remove1 p q" using N(2) d by (simp add: filter_remove1)
  moreover have "x \<in> snd ` set (others p (N k)) \<longleftrightarrow> x \<in> set (remove1 p q) \<and> k < int (L x)"
    if k: "0 \<le> k" "k < LEVELS" for k x
  proof -
    have "x \<in> snd ` set (others p (N k)) \<longleftrightarrow> x \<noteq> p \<and> x \<in> snd ` set (N k)" by auto
    then show ?thesis using N(3) [OF k, of x] d by auto
  qed
  ultimately have "skip_rep h' dl (remove1 p q) L"
    unfolding skip_rep_def using r(2) by (intro exI [of _ "\<lambda>j. others p (N j)"]) simp
  with r skip_stray_frame [OF r(3)] show ?thesis by auto
qed

lemma skip_rep_head:
  assumes "skip_rep h dl q L"
  shows "case q of [] \<Rightarrow> n_next (h (NodeAt 0 0)) = NULL
    | p # _ \<Rightarrow> n_next (h (NodeAt 0 0)) \<noteq> NULL \<and> n_proc (h (n_next (h (NodeAt 0 0)))) = Some p"
proof -
  obtain N where N: "skip_ok h dl N" "map snd (N 0) = q"
    using assms by (auto simp: skip_rep_def)
  have lev: "level_ok h dl 0 ([] @ N 0)"
    using skip_ok_level [OF N(1), of 0] by (simp add: LEVELS_def)
  show ?thesis
  proof (cases "N 0")
    case Nil
    with level_ok_next [OF lev] N(2) show ?thesis by auto
  next
    case (Cons x xs)
    moreover have "n_proc (h (NodeAt 0 (fst x))) = Some (snd x)"
      using lev Cons by (simp add: level_ok_def)
    ultimately show ?thesis
      using level_ok_next [OF lev] N(2) by auto
  qed
qed

lemma skip_front_law:
  assumes "skip_rep h dl q L"
  shows "skip_front h = (case q of [] \<Rightarrow> None | p # _ \<Rightarrow> Some p)"
  using skip_rep_head [OF assms] by (auto simp: skip_front_def split: list.splits)

interpretation sl: deadline_queue skip_rep insert_heap delete_heap skip_front skip_stray
proof
  fix h dl q L p and seed :: u32 and dl' :: "nat option \<Rightarrow> int"
  assume rep: "skip_rep h dl q L"
  then obtain N where N: "skip_ok h dl N" "map snd (N 0) = q"
    "\<And>k p. 0 \<le> k \<Longrightarrow> k < LEVELS \<Longrightarrow> p \<in> snd ` set (N k) \<longleftrightarrow> p \<in> set q \<and> k < int (L p)"
    by (auto simp: skip_rep_def)
  have "level_ok h dl 0 (N 0)" using skip_ok_level [OF N(1), of 0] by (simp add: LEVELS_def)
  then show "distinct q \<and> set q \<subseteq> {..<NPROC} \<and> sorted (map (\<lambda>p. dl (Some p)) q)"
    using N(2) by (auto simp: level_ok_def comp_def)
  show "skip_front h = (case q of [] \<Rightarrow> None | p # _ \<Rightarrow> Some p)"
    by (rule skip_front_law [OF rep])
  show "\<exists>m h' seed'. insert_heap h dl (dl (Some p)) p seed = ret (m, h', seed') \<and> 1 \<le> m \<and>
      int m \<le> LEVELS \<and> skip_rep h' dl (enqueue dl p q) (L(p := m)) \<and> (\<forall>r. skip_stray h' r = skip_stray h r)"
    if "p < NPROC" "p \<notin> set q"
    using skip_ins_law [OF rep that] .
  show "\<exists>h'. delete_heap h dl (dl (Some p)) p = ret h' \<and> skip_rep h' dl (remove1 p q) L \<and>
      (\<forall>r. skip_stray h' r = skip_stray h r)"
    if "p \<in> set q" "\<not> skip_stray h p"
    using skip_del_law [OF rep that] .
  show "skip_rep h dl' q L" if eq: "\<And>p. p \<in> set q \<Longrightarrow> dl' (Some p) = dl (Some p)"
  proof -
    have "skip_ok h dl' N"
    proof (rule skip_ok_deadlines [OF N(1)])
      fix k x assume "0 \<le> k" "k < LEVELS" "x \<in> set (N k)"
      then show "dl' (Some (snd x)) = dl (Some (snd x))"
        using N(3) [of k "snd x"] eq by blast
    qed
    with N(2,3) show ?thesis unfolding skip_rep_def by blast
  qed
qed

lemma skip_rep_levels:
  assumes "skip_rep h dl q L" "\<And>p. p \<in> set q \<Longrightarrow> L' p = L p"
  shows "skip_rep h dl q L'"
proof -
  obtain N where N: "skip_ok h dl N" "map snd (N 0) = q"
    "\<And>k p. 0 \<le> k \<Longrightarrow> k < LEVELS \<Longrightarrow> p \<in> snd ` set (N k) \<longleftrightarrow> p \<in> set q \<and> k < int (L p)"
    using assms(1) by (auto simp: skip_rep_def)
  have "p \<in> snd ` set (N k) \<longleftrightarrow> p \<in> set q \<and> k < int (L' p)" if "0 \<le> k" "k < LEVELS" for k p
    using N(3) [OF that, of p] assms(2) [of p] by metis
  with N(1,2) show ?thesis unfolding skip_rep_def by blast
qed

section \<open>The empty queue\<close>

definition no_nodes :: nodes where
  "no_nodes = (\<lambda>_. \<lparr>n_proc = None, n_prev = NULL, n_next = NULL, n_lower = NULL\<rparr>)"

lemma skip_rep_empty:
  assumes "\<And>k i. 0 \<le> k \<Longrightarrow> k < LEVELS \<Longrightarrow> i \<le> NPROC \<Longrightarrow> n_proc (h (NodeAt k i)) = None"
    and "\<And>k. 0 \<le> k \<Longrightarrow> k < LEVELS \<Longrightarrow> n_next (h (NodeAt k 0)) = NULL"
  shows "skip_rep h dl [] L"
proof -
  have "skip_ok h dl (\<lambda>_. [])"
    using assms by (auto simp: skip_ok_def level_ok_def lower_ok_def dll_def)
  then show ?thesis unfolding skip_rep_def by (intro exI [of _ "\<lambda>_. []"]) simp
qed

section \<open>The generator\<close>

lemma shift_up_fixpoint:
  assumes "x = push_bit n x" "0 < n"
  shows "(x :: u32) = 0"
proof (rule bit_word_eqI)
  fix i
  have "\<not> bit x i"
  proof (induction i rule: less_induct)
    case (less i)
    have "bit x i = bit (push_bit n x) i" using assms(1) by simp
    also have "\<dots> \<longleftrightarrow> n \<le> i \<and> i < 32 \<and> bit x (i - n)" by (auto simp: bit_push_bit_iff)
    finally show ?case using less [of "i - n"] assms(2) by auto
  qed
  then show "bit x i = bit 0 i" by simp
qed

lemma shift_down_fixpoint:
  assumes "x = drop_bit n x" "0 < n"
  shows "(x :: u32) = 0"
proof (rule bit_word_eqI)
  fix i
  have "\<not> bit x i"
  proof (induction "32 - i" arbitrary: i rule: less_induct)
    case less
    show ?case
    proof (cases "i < 32")
      case True
      have "bit x i = bit (drop_bit n x) i" using assms(1) by simp
      also have "\<dots> \<longleftrightarrow> bit x (n + i)" by (simp add: bit_drop_bit_eq)
      finally show ?thesis using less [of "n + i"] assms(2) True by auto
    next
      case False
      then show ?thesis using bit_imp_le_length [of x i] by auto
    qed
  qed
  then show "bit x i = bit 0 i" by simp
qed

lemma xor_zero: "(a :: u32) XOR b = 0 \<longleftrightarrow> a = b"
proof
  assume a: "a XOR b = 0"
  show "a = b"
  proof (rule bit_word_eqI)
    fix i
    have "\<not> bit (a XOR b) i" using a by simp
    then show "bit a i = bit b i" by (auto simp: bit_xor_iff)
  qed
qed simp

lemma next_seed_zero: "next_seed x = 0 \<longleftrightarrow> x = 0"
proof -
  have up: "y XOR push_bit n y = 0 \<longleftrightarrow> y = 0" if "0 < n" for y :: u32 and n
    using shift_up_fixpoint [of y n] that by (auto simp: xor_zero)
  have dn: "y XOR drop_bit n y = 0 \<longleftrightarrow> y = 0" if "0 < n" for y :: u32 and n
    using shift_down_fixpoint [of y n] that by (auto simp: xor_zero)
  show ?thesis unfolding next_seed_def Let_def by (simp only: up dn zero_less_numeral)
qed

text \<open>
  C10: the generator of proc.c never reaches the seed 0, at which it would
  return 0 for ever, from a seed that is not 0 (SEED is 6969420), and \<open>random(max)\<close> is below
  \<open>max\<close>.
\<close>

theorem random_never_stuck:
  assumes "seed \<noteq> 0" "mx \<noteq> 0"
  shows "((\<lambda>x. snd (random mx x)) ^^ n) seed \<noteq> 0 \<and> fst (random mx seed) < mx"
proof
  show "((\<lambda>x. snd (random mx x)) ^^ n) seed \<noteq> 0"
    by (induction n) (simp_all add: assms(1) random_def Let_def next_seed_zero)
  show "fst (random mx seed) < mx"
    using assms(2) by (simp add: random_def Let_def word_gt_0 word_mod_less_divisor)
qed

theorem random_never_stuck_witness:
  "((\<lambda>x. snd (random 10000 x)) ^^ 1000) 6969420 \<noteq> 0 \<and> fst (random 10000 6969420) < 10000"
  by (rule random_never_stuck) simp_all

end
