(* ===== verification/Proc.thy ===== *)
theory Proc
  imports Vm SkipQueue
begin

unbundle bit_operations_syntax

text \<open>
  proc.c: the process table, the operations of the skip list on it, allocation of process slots,
  sleeping and waking, the scheduler. A function that calls \<open>swtch\<close> is split there: the first
  part ends when the CPU leaves for the scheduler (or for the process), the second part is what
  runs when it comes back. Process creation and termination use the file system and follow in the
  theory \<open>Life\<close>.
\<close>

section \<open>State\<close>

datatype procstate = UNUSED | EMBRYO | SLEEPING | RUNNABLE | RUNNING | ZOMBIE

text \<open>Wait channels: a channel is the address of an object, used for its identity only.\<close>

datatype chan =
    NoChan | C_ticks | C_proc nat | C_log | C_buf nat | C_buf_lock nat | C_inode_lock nat
  | C_nread u32 | C_nwrite u32 | C_input

text \<open>
  \<open>struct proc\<close>. A pointer to a process is an index into \<open>ptable.proc\<close>, one to an open file or an
  inode an index into its table; \<open>p_tf\<close> and \<open>p_context\<close> are addresses on the kernel stack;
  \<open>p_name\<close> holds the characters before the NUL.
\<close>

record proc =
  p_sz :: u32
  p_pgdir :: u32
  p_kstack :: u32
  p_state :: procstate
  p_pid :: int
  p_parent :: "nat option"
  p_tf :: u32
  p_context :: u32
  p_chan :: chan
  p_killed :: int
  p_ofile :: "nat \<Rightarrow> nat option"
  p_cwd :: "nat option"
  p_name :: string
  virt_deadline :: int
  nice :: int
  ticks_left :: int
  max_skiplist_level :: int

text \<open>
  Where a process continues when the scheduler switches to it: at \<open>forkret\<close>, or behind the call
  of \<open>sched\<close> in \<open>yield\<close>, \<open>sleep\<close> or \<open>exit\<close>, with the local variable \<open>intena\<close> of \<open>sched\<close>.
\<close>

datatype resume = At_forkret | In_yield bool | In_sleep lockid bool | In_exit bool

text \<open>
  The globals of proc.c and \<open>ticks\<close> of trap.c. \<open>null_proc\<close> is what a read through a null process
  pointer finds. \<open>trapret\<close> and \<open>forkret\<close> are the addresses of these routines.
\<close>

record ptable = vms +
  level :: nodes
  procs :: "nat \<Rightarrow> proc"
  null_proc :: proc
  seed :: u32
  schedlog_active :: int
  schedlog_lasttick :: int
  ins_del_flag :: int
  initproc :: "nat option"
  nextpid :: int
  ticks :: u32
  resume_at :: "nat \<Rightarrow> resume"
  trapret_addr :: u32
  forkret_addr :: u32

definition upd_proc :: "nat \<Rightarrow> (proc \<Rightarrow> proc) \<Rightarrow> 'a ptable_scheme \<Rightarrow> 'a ptable_scheme" where
  "upd_proc p f s = s\<lparr>procs := (procs s)(p := f (procs s p))\<rparr>"

text \<open>The virtual deadline read through a process pointer.\<close>

definition deadline :: "'a ptable_scheme \<Rightarrow> nat option \<Rightarrow> int" where
  "deadline s r = (case r of None \<Rightarrow> virt_deadline (null_proc s) | Some p \<Rightarrow> virt_deadline (procs s p))"

section \<open>The skip list of the process table\<close>

definition BFS_DEFAULT_QUANTUM :: int where "BFS_DEFAULT_QUANTUM = 50"
definition NICE_FIRST_LEVEL :: int where "NICE_FIRST_LEVEL = -20"
definition NICE_LAST_LEVEL :: int where "NICE_LAST_LEVEL = 19"
definition SEED :: u32 where "SEED = 6969420"

definition computevd :: "int \<Rightarrow> int \<Rightarrow> int" where
  "computevd nice_value curr_ticks =
     s32 (curr_ticks + (nice_value - NICE_FIRST_LEVEL + 1) * BFS_DEFAULT_QUANTUM)"

definition delete_proc :: "nat \<Rightarrow> 'a ptable_scheme \<Rightarrow> (int \<times> 'a ptable_scheme) res" where
  "delete_proc p s =
     rbind (if ins_del_flag s \<noteq> 0
            then kprintf ''removed|[%d]%d\<newline>'' [W (word_of_int (p_pid (procs s p))),
                   W (word_of_int (max_skiplist_level (procs s p)))] s
            else ret s) (\<lambda>s.
     rbind (delete_heap (level s) (deadline s) (virt_deadline (procs s p)) p) (\<lambda>h.
     let lev = max_skiplist_level (procs s p) in
     ret (lev, upd_proc p (\<lambda>r. r\<lparr>max_skiplist_level := -1\<rparr>) (s\<lparr>level := h\<rparr>))))"

definition insert_proc :: "nat \<Rightarrow> 'a ptable_scheme \<Rightarrow> (int \<times> 'a ptable_scheme) res" where
  "insert_proc p s =
     rbind (insert_heap (level s) (deadline s) (virt_deadline (procs s p)) p (seed s)) (\<lambda>(lev, h, sd).
     let s = upd_proc p (\<lambda>r. r\<lparr>max_skiplist_level := int lev\<rparr>) (s\<lparr>level := h, seed := sd\<rparr>) in
     rbind (if ins_del_flag s \<noteq> 0
            then kprintf ''inserted|[%d]%d\<newline>'' [W (word_of_int (p_pid (procs s p))),
                   W (of_nat lev)] s
            else ret s) (\<lambda>s. ret (int lev, s)))"

definition pinit :: "'a ptable_scheme \<Rightarrow> 'a ptable_scheme res" where
  "pinit s =
     (let s = initlock L_ptable ''ptable'' s in
      rbind (acquire L_ptable s) (\<lambda>s.
      let heads = (\<lambda>h r. case r of
              NodeAt i j \<Rightarrow>
                if 0 \<le> i \<and> i < LEVELS \<and> j < NPROC + 1
                then (if j = 0 then (h r)\<lparr>n_prev := NULL, n_next := NULL, n_lower := NULL, n_proc := None\<rparr>
                      else (h r)\<lparr>n_proc := None\<rparr>)
                else h r
            | NULL \<Rightarrow> h r)
      in release L_ptable (s\<lparr>level := heads (level s)\<rparr>)))"

section \<open>The current process\<close>

definition myproc :: "'a machine_scheme \<Rightarrow> (nat option \<times> 'a machine_scheme) res" where
  "myproc s =
     rbind (pushcli s) (\<lambda>s.
     rbind (mycpu s) (\<lambda>c.
     let p = cpu_proc (cpus s c) in
     rbind (popcli s) (\<lambda>s. ret (p, s))))"

text \<open>\<open>myproc()\<close> where the caller dereferences the result: a null pointer is undefined.\<close>

definition curproc :: "'a machine_scheme \<Rightarrow> (nat \<times> 'a machine_scheme) res" where
  "curproc s = rbind (myproc s) (\<lambda>(p, s). case p of None \<Rightarrow> None | Some q \<Rightarrow> ret (q, s))"

section \<open>Process slots\<close>

definition allocproc :: "'a ptable_scheme \<Rightarrow> (nat option \<times> 'a ptable_scheme) res" where
  "allocproc s =
     rbind (acquire L_ptable s) (\<lambda>s.
     case find (\<lambda>p. p_state (procs s p) = UNUSED) [0..<NPROC] of
       None \<Rightarrow> rbind (release L_ptable s) (\<lambda>s. ret (None, s))
     | Some p \<Rightarrow>
         let s = upd_proc p (\<lambda>r. r\<lparr>virt_deadline := 0, nice := 0, p_state := EMBRYO, p_pid := nextpid s\<rparr>) s;
             s = s\<lparr>nextpid := s32 (nextpid s + 1)\<rparr> in
         rbind (release L_ptable s) (\<lambda>s.
         rbind (kalloc s) (\<lambda>(k, s).
         let s = upd_proc p (\<lambda>r. r\<lparr>p_kstack := k\<rparr>) s in
         if k = 0 then ret (None, upd_proc p (\<lambda>r. r\<lparr>p_state := UNUSED\<rparr>) s)
         else
           let tf = k + KSTACKSIZE - 76;
               sp = tf - 4;
               ctx = sp - 20;
               s = upd_proc p (\<lambda>r. r\<lparr>p_tf := tf, p_context := ctx\<rparr>) s;
               s = s\<lparr>mem := write32 (mem s) sp (trapret_addr s)\<rparr>;
               s = s\<lparr>mem := memset (mem s) ctx 0 20\<rparr>;
               s = s\<lparr>mem := write32 (mem s) (ctx + 16) (forkret_addr s)\<rparr>;
               s = s\<lparr>resume_at := (resume_at s)(p := At_forkret)\<rparr>
           in ret (Some p, s))))"

definition growproc :: "int \<Rightarrow> 'a ptable_scheme \<Rightarrow> (int \<times> 'a ptable_scheme) res" where
  "growproc n s =
     rbind (curproc s) (\<lambda>(p, s).
     let sz = p_sz (procs s p); pgdir = p_pgdir (procs s p);
         finish = (\<lambda>sz s.
           let s = upd_proc p (\<lambda>r. r\<lparr>p_sz := sz\<rparr>) s in
           rbind (switchuvm (Some (p_kstack (procs s p), p_pgdir (procs s p))) s) (\<lambda>s. ret (0, s)))
     in
     if 0 < n then
       rbind (allocuvm pgdir sz (sz + word_of_int n) s) (\<lambda>(sz, s).
       if sz = 0 then ret (-1, s) else finish sz s)
     else if n < 0 then
       rbind (deallocuvm pgdir sz (sz + word_of_int n) s) (\<lambda>(sz, s).
       if sz = 0 then ret (-1, s) else finish sz s)
     else finish sz s)"

section \<open>Waking\<close>

fun wakeup_scan :: "nat list \<Rightarrow> chan \<Rightarrow> 'a ptable_scheme \<Rightarrow> 'a ptable_scheme res" where
  "wakeup_scan [] ch s = ret s"
| "wakeup_scan (p # ps) ch s =
     (if p_state (procs s p) = SLEEPING \<and> p_chan (procs s p) = ch
      then rbind (insert_proc p (upd_proc p (\<lambda>r. r\<lparr>p_state := RUNNABLE\<rparr>) s)) (\<lambda>(_, s).
           wakeup_scan ps ch s)
      else wakeup_scan ps ch s)"

definition wakeup1 :: "chan \<Rightarrow> 'a ptable_scheme \<Rightarrow> 'a ptable_scheme res" where
  "wakeup1 ch s = wakeup_scan [0..<NPROC] ch s"

definition wakeup :: "chan \<Rightarrow> 'a ptable_scheme \<Rightarrow> 'a ptable_scheme res" where
  "wakeup ch s =
     rbind (acquire L_ptable s) (\<lambda>s. rbind (wakeup1 ch s) (release L_ptable))"

definition kill :: "int \<Rightarrow> 'a ptable_scheme \<Rightarrow> (int \<times> 'a ptable_scheme) res" where
  "kill pid s =
     rbind (acquire L_ptable s) (\<lambda>s.
     case find (\<lambda>p. p_pid (procs s p) = pid) [0..<NPROC] of
       None \<Rightarrow> rbind (release L_ptable s) (\<lambda>s. ret (-1, s))
     | Some p \<Rightarrow>
         let s = upd_proc p (\<lambda>r. r\<lparr>p_killed := 1\<rparr>) s in
         rbind (if p_state (procs s p) = SLEEPING
                then rbind (insert_proc p (upd_proc p (\<lambda>r. r\<lparr>p_state := RUNNABLE\<rparr>) s)) (\<lambda>(_, s). ret s)
                else ret s) (\<lambda>s.
         rbind (release L_ptable s) (\<lambda>s. ret (0, s))))"

section \<open>Leaving the CPU\<close>

text \<open>\<open>sched\<close> up to \<open>swtch\<close>: the checks, and the value of \<open>intena\<close> it keeps; and its last line.\<close>

definition sched_enter :: "'a ptable_scheme \<Rightarrow> (bool \<times> 'a ptable_scheme) res" where
  "sched_enter s =
     rbind (myproc s) (\<lambda>(po, s).
     rbind (holding L_ptable s) (\<lambda>(held, s).
     if \<not> held then panic ''sched ptable.lock''
     else rbind (mycpu s) (\<lambda>c.
     if ncli (cpus s c) \<noteq> 1 then panic ''sched locks''
     else case po of None \<Rightarrow> None
     | Some p \<Rightarrow>
         if p_state (procs s p) = RUNNING then panic ''sched running''
         else if fl_if s then panic ''sched interruptible''
         else ret (intena (cpus s c), s))))"

definition sched_leave :: "bool \<Rightarrow> 'a ptable_scheme \<Rightarrow> 'a ptable_scheme res" where
  "sched_leave ie s = rbind (mycpu s) (\<lambda>c. ret (set_cpu c ((cpus s c)\<lparr>intena := ie\<rparr>) s))"

definition yield_enter :: "'a ptable_scheme \<Rightarrow> 'a ptable_scheme res" where
  "yield_enter s =
     rbind (curproc s) (\<lambda>(p, s).
     rbind (acquire L_ptable s) (\<lambda>s.
     let s = upd_proc p (\<lambda>r. r\<lparr>p_state := RUNNABLE\<rparr>) s in
     rbind (delete_proc p s) (\<lambda>(_, s).
     let s = upd_proc p (\<lambda>r. r\<lparr>virt_deadline := computevd (nice r) (sint (ticks s))\<rparr>) s in
     rbind (insert_proc p s) (\<lambda>(_, s).
     rbind (sched_enter s) (\<lambda>(ie, s).
     ret (s\<lparr>resume_at := (resume_at s)(p := In_yield ie)\<rparr>))))))"

definition yield_leave :: "bool \<Rightarrow> 'a ptable_scheme \<Rightarrow> 'a ptable_scheme res" where
  "yield_leave ie s = rbind (sched_leave ie s) (release L_ptable)"

definition sleep_enter :: "chan \<Rightarrow> lockid option \<Rightarrow> 'a ptable_scheme \<Rightarrow> 'a ptable_scheme res" where
  "sleep_enter ch lko s =
     rbind (myproc s) (\<lambda>(po, s).
     case po of None \<Rightarrow> panic ''sleep''
     | Some p \<Rightarrow>
       (case lko of None \<Rightarrow> panic ''sleep without lk''
        | Some lk \<Rightarrow>
            rbind (if lk \<noteq> L_ptable then rbind (acquire L_ptable s) (release lk) else ret s) (\<lambda>s.
            let s = upd_proc p (\<lambda>r. r\<lparr>p_chan := ch\<rparr>) s in
            rbind (if p_state (procs s p) = RUNNABLE \<or> p_state (procs s p) = RUNNING
                   then rbind (delete_proc p s) (\<lambda>(_, s). ret s) else ret s) (\<lambda>s.
            let s = upd_proc p (\<lambda>r. r\<lparr>p_state := SLEEPING\<rparr>) s in
            rbind (sched_enter s) (\<lambda>(ie, s).
            ret (s\<lparr>resume_at := (resume_at s)(p := In_sleep lk ie)\<rparr>))))))"

definition sleep_leave :: "nat \<Rightarrow> lockid \<Rightarrow> bool \<Rightarrow> 'a ptable_scheme \<Rightarrow> 'a ptable_scheme res" where
  "sleep_leave p lk ie s =
     rbind (sched_leave ie s) (\<lambda>s.
     let s = upd_proc p (\<lambda>r. r\<lparr>p_chan := NoChan\<rparr>) s in
     if lk \<noteq> L_ptable then rbind (release L_ptable s) (acquire lk) else ret s)"

section \<open>The scheduler\<close>

definition schedlog :: "int \<Rightarrow> 'a ptable_scheme \<Rightarrow> 'a ptable_scheme" where
  "schedlog n s = s\<lparr>schedlog_active := 1, schedlog_lasttick := sint (ticks s + word_of_int n)\<rparr>"

definition procstate_num :: "procstate \<Rightarrow> u32" where
  "procstate_num st = (case st of UNUSED \<Rightarrow> 0 | EMBRYO \<Rightarrow> 1 | SLEEPING \<Rightarrow> 2 | RUNNABLE \<Rightarrow> 3
     | RUNNING \<Rightarrow> 4 | ZOMBIE \<Rightarrow> 5)"

text \<open>The last loop of the log output, over \<open>k = i .. highest_idx\<close>.\<close>

fun log_procs :: "nat list \<Rightarrow> 'a ptable_scheme \<Rightarrow> 'a ptable_scheme res" where
  "log_procs [] s = ret s"
| "log_procs (k # ks) s =
     (let pp = procs s k in
      rbind (if p_state pp = UNUSED then kprintf ''[-]---:0:-(-)(-)(-)'' [] s
             else kprintf ''[%d]%s:%d:%d(%d)(%d)(%d)''
               [W (word_of_int (p_pid pp)), S (Some (p_name pp)), W (procstate_num (p_state pp)),
                W (word_of_int (nice pp)), W (word_of_int (max_skiplist_level pp)),
                W (word_of_int (virt_deadline pp)), W (word_of_int (ticks_left pp))] s) (\<lambda>s.
      rbind (if ks \<noteq> [] then kprintf '','' [] s else ret s) (log_procs ks)))"

definition log_schedule :: "'a ptable_scheme \<Rightarrow> 'a ptable_scheme res" where
  "log_schedule s =
     (if schedlog_active s = 0 then ret s
      else if word_of_int (schedlog_lasttick s) < ticks s then ret (s\<lparr>schedlog_active := 0\<rparr>)
      else rbind (kprintf ''%d|'' [W (ticks s)] s) (\<lambda>s.
        let used = filter (\<lambda>k. p_state (procs s k) \<noteq> UNUSED) [0..<NPROC] in
        rbind (log_procs (if used = [] then [] else [0..<Suc (last used)]) s) (\<lambda>s.
        kprintf ''\<newline>'' [] s)))"

text \<open>
  One round of the loop of \<open>scheduler\<close> on CPU \<open>c\<close> up to \<open>swtch\<close>: the chosen process, or \<open>None\<close> when
  the queue is empty and the round is over.
\<close>

definition scheduler_enter :: "nat \<Rightarrow> 'a ptable_scheme \<Rightarrow> (nat option \<times> 'a ptable_scheme) res" where
  "scheduler_enter c s =
     (let s = s\<lparr>fl_if := True\<rparr> in
      rbind (acquire L_ptable s) (\<lambda>s.
      if n_next (level s (NodeAt 0 0)) \<noteq> NULL then
        (case n_proc (level s (n_next (level s (NodeAt 0 0)))) of
           None \<Rightarrow> panic ''selected process is 0\<newline>''
         | Some p \<Rightarrow>
             let s = set_cpu c ((cpus s c)\<lparr>cpu_proc := Some p\<rparr>) s in
             rbind (switchuvm (Some (p_kstack (procs s p), p_pgdir (procs s p))) s) (\<lambda>s.
             let s = upd_proc p (\<lambda>r. r\<lparr>p_state := RUNNING, ticks_left := BFS_DEFAULT_QUANTUM\<rparr>) s in
             rbind (log_schedule s) (\<lambda>s. ret (Some p, s))))
      else rbind (release L_ptable s) (\<lambda>s. ret (None, s))))"

text \<open>The rest of the round, when a process has switched back.\<close>

definition scheduler_leave :: "nat \<Rightarrow> 'a ptable_scheme \<Rightarrow> 'a ptable_scheme res" where
  "scheduler_leave c s =
     rbind (switchkvm s) (\<lambda>s.
     release L_ptable (set_cpu c ((cpus s c)\<lparr>cpu_proc := None\<rparr>) s))"

section \<open>The process listing\<close>

text \<open>\<open>getcallerpcs\<close> of spinlock.c: follow the chain of frame pointers, at most \<open>n\<close> of them.\<close>

fun caller_pcs :: "(u32 \<Rightarrow> u8) \<Rightarrow> u32 \<Rightarrow> nat \<Rightarrow> u32 list" where
  "caller_pcs m ebp 0 = []"
| "caller_pcs m ebp (Suc n) =
     (if ebp = 0 \<or> ebp < KERNBASE \<or> ebp = 0xffffffff then replicate (Suc n) 0
      else read32 m (ebp + 4) # caller_pcs m (read32 m ebp) n)"

definition getcallerpcs :: "(u32 \<Rightarrow> u8) \<Rightarrow> u32 \<Rightarrow> u32 list" where
  "getcallerpcs m v = caller_pcs m (v - 8) 10"

fun print_pcs :: "u32 list \<Rightarrow> 'a machine_scheme \<Rightarrow> 'a machine_scheme res" where
  "print_pcs [] s = ret s"
| "print_pcs (pc # pcs) s =
     (if pc \<noteq> 0 then rbind (kprintf '' %p'' [W pc] s) (print_pcs pcs) else ret s)"

definition state_name :: "procstate \<Rightarrow> string" where
  "state_name st = (case st of UNUSED \<Rightarrow> ''unused'' | EMBRYO \<Rightarrow> ''embryo'' | SLEEPING \<Rightarrow> ''sleep ''
     | RUNNABLE \<Rightarrow> ''runble'' | RUNNING \<Rightarrow> ''run   '' | ZOMBIE \<Rightarrow> ''zombie'')"

fun procdump_scan :: "nat list \<Rightarrow> 'a ptable_scheme \<Rightarrow> 'a ptable_scheme res" where
  "procdump_scan [] s = ret s"
| "procdump_scan (p # ps) s =
     (let r = procs s p in
      if p_state r = UNUSED then procdump_scan ps s
      else rbind (kprintf ''%d %s %s'' [W (word_of_int (p_pid r)), S (Some (state_name (p_state r))),
                    S (Some (p_name r))] s) (\<lambda>s.
        rbind (if p_state r = SLEEPING
               then print_pcs (getcallerpcs (mem s) (read32 (mem s) (p_context r + 12) + 8)) s
               else ret s) (\<lambda>s.
        rbind (kprintf ''\<newline>'' [] s) (procdump_scan ps))))"

definition procdump :: "'a ptable_scheme \<Rightarrow> 'a ptable_scheme res" where
  "procdump s = procdump_scan [0..<NPROC] s"

end
