(* ===== verification/Bio.thy ===== *)
theory Bio
  imports Proc
begin

unbundle bit_operations_syntax

text \<open>
  Sleep locks (sleeplock.c), the in-memory disk driver (memide.c) and the buffer cache (bio.c).
  A call that would put its process to sleep until another process acts does not return when the
  code runs alone: its value is \<open>None\<close>.
\<close>

section \<open>State\<close>

definition NBUF :: nat where "NBUF = 30"
definition BSIZE :: nat where "BSIZE = 512"
definition B_VALID :: u32 where "B_VALID = 0x2"
definition B_DIRTY :: u32 where "B_DIRTY = 0x4"

text \<open>The sleep locks of the kernel: one in every buffer and one in every cached inode.\<close>

datatype slid = SL_buf nat | SL_inode nat

record sleeplock =
  sl_locked :: u32
  sl_name :: string
  sl_pid :: int

text \<open>The spin lock inside a sleep lock, and the channel its waiters sleep on.\<close>

definition sl_lk :: "slid \<Rightarrow> lockid" where
  "sl_lk lk = (case lk of SL_buf i \<Rightarrow> L_buf i | SL_inode i \<Rightarrow> L_inode i)"

definition sl_chan :: "slid \<Rightarrow> chan" where
  "sl_chan lk = (case lk of SL_buf i \<Rightarrow> C_buf_lock i | SL_inode i \<Rightarrow> C_inode_lock i)"

type_synonym block = "u8 list"

text \<open>\<open>struct buf\<close>; a pointer to a buffer is the list head or an index into \<open>bcache.buf\<close>.\<close>

datatype bref = BHead | Buf nat

record buf =
  b_flags :: u32
  b_dev :: u32
  b_blockno :: u32
  b_refcnt :: u32
  b_data :: block

text \<open>
  \<open>bnext\<close> and \<open>bprev\<close> are the fields \<open>next\<close> and \<open>prev\<close> of the buffers and of \<open>bcache.head\<close>. The disk is an
  array of blocks; \<open>disk_writes\<close> records the writes the device has performed, latest first.
\<close>

record bcache = ptable +
  slocks :: "slid \<Rightarrow> sleeplock"
  bufs :: "nat \<Rightarrow> buf"
  bnext :: "bref \<Rightarrow> bref"
  bprev :: "bref \<Rightarrow> bref"
  disk :: "nat \<Rightarrow> block"
  disksize :: u32
  disk_writes :: "(nat \<times> block) list"

definition upd_slock :: "slid \<Rightarrow> (sleeplock \<Rightarrow> sleeplock) \<Rightarrow> 'a bcache_scheme \<Rightarrow> 'a bcache_scheme" where
  "upd_slock lk f s = s\<lparr>slocks := (slocks s)(lk := f (slocks s lk))\<rparr>"

definition upd_buf :: "nat \<Rightarrow> (buf \<Rightarrow> buf) \<Rightarrow> 'a bcache_scheme \<Rightarrow> 'a bcache_scheme" where
  "upd_buf b f s = s\<lparr>bufs := (bufs s)(b := f (bufs s b))\<rparr>"

definition set_bnext :: "bref \<Rightarrow> bref \<Rightarrow> 'a bcache_scheme \<Rightarrow> 'a bcache_scheme" where
  "set_bnext b v s = s\<lparr>bnext := (bnext s)(b := v)\<rparr>"

definition set_bprev :: "bref \<Rightarrow> bref \<Rightarrow> 'a bcache_scheme \<Rightarrow> 'a bcache_scheme" where
  "set_bprev b v s = s\<lparr>bprev := (bprev s)(b := v)\<rparr>"

section \<open>Sleep locks\<close>

definition initsleeplock :: "slid \<Rightarrow> string \<Rightarrow> 'a bcache_scheme \<Rightarrow> 'a bcache_scheme" where
  "initsleeplock lk name s =
     upd_slock lk (\<lambda>_. \<lparr>sl_locked = 0, sl_name = name, sl_pid = 0\<rparr>) (initlock (sl_lk lk) ''sleep lock'' s)"

text \<open>\<open>acquiresleep\<close>: a lock that is taken blocks the caller.\<close>

definition acquiresleep :: "slid \<Rightarrow> 'a bcache_scheme \<Rightarrow> 'a bcache_scheme res" where
  "acquiresleep lk s =
     rbind (acquire (sl_lk lk) s) (\<lambda>s.
     if sl_locked (slocks s lk) \<noteq> 0 then None
     else let s = upd_slock lk (\<lambda>r. r\<lparr>sl_locked := 1\<rparr>) s in
       rbind (curproc s) (\<lambda>(p, s).
       release (sl_lk lk) (upd_slock lk (\<lambda>r. r\<lparr>sl_pid := p_pid (procs s p)\<rparr>) s)))"

text \<open>
  One pass of the loop of \<open>acquiresleep\<close> in a system of several processes: the lock is taken
  (\<open>True\<close>), or the caller has gone to sleep on it and is about to enter the scheduler.
\<close>

definition acquiresleep_step :: "slid \<Rightarrow> 'a bcache_scheme \<Rightarrow> (bool \<times> 'a bcache_scheme) res" where
  "acquiresleep_step lk s =
     (if sl_locked (slocks s lk) \<noteq> 0
      then rbind (sleep_enter (sl_chan lk) (Some (sl_lk lk)) s) (\<lambda>s. ret (False, s))
      else let s = upd_slock lk (\<lambda>r. r\<lparr>sl_locked := 1\<rparr>) s in
        rbind (curproc s) (\<lambda>(p, s).
        rbind (release (sl_lk lk) (upd_slock lk (\<lambda>r. r\<lparr>sl_pid := p_pid (procs s p)\<rparr>) s)) (\<lambda>s.
        ret (True, s))))"

definition releasesleep :: "slid \<Rightarrow> 'a bcache_scheme \<Rightarrow> 'a bcache_scheme res" where
  "releasesleep lk s =
     rbind (acquire (sl_lk lk) s) (\<lambda>s.
     let s = upd_slock lk (\<lambda>r. r\<lparr>sl_locked := 0, sl_pid := 0\<rparr>) s in
     rbind (wakeup (sl_chan lk) s) (release (sl_lk lk)))"

text \<open>\<open>myproc()\<close> is called only where the lock is taken, by the short-circuit of \<open>&&\<close>.\<close>

definition holdingsleep :: "slid \<Rightarrow> 'a bcache_scheme \<Rightarrow> (bool \<times> 'a bcache_scheme) res" where
  "holdingsleep lk s =
     rbind (acquire (sl_lk lk) s) (\<lambda>s.
     rbind (if sl_locked (slocks s lk) \<noteq> 0
            then rbind (curproc s) (\<lambda>(p, s). ret (sl_pid (slocks s lk) = p_pid (procs s p), s))
            else ret (False, s)) (\<lambda>(r, s).
     rbind (release (sl_lk lk) s) (\<lambda>s. ret (r, s))))"

section \<open>The disk\<close>

definition ideinit :: "(nat \<Rightarrow> block) \<Rightarrow> u32 \<Rightarrow> 'a bcache_scheme \<Rightarrow> 'a bcache_scheme" where
  "ideinit fs_img fs_img_size s = s\<lparr>disk := fs_img, disksize := fs_img_size div of_nat BSIZE\<rparr>"

definition ideintr :: "'a bcache_scheme \<Rightarrow> 'a bcache_scheme" where
  "ideintr s = s"

definition iderw :: "nat \<Rightarrow> 'a bcache_scheme \<Rightarrow> 'a bcache_scheme res" where
  "iderw b s =
     rbind (holdingsleep (SL_buf b) s) (\<lambda>(h, s).
     if \<not> h then panic ''iderw: buf not locked''
     else if b_flags (bufs s b) AND (B_VALID OR B_DIRTY) = B_VALID then panic ''iderw: nothing to do''
     else if b_dev (bufs s b) \<noteq> 1 then panic ''iderw: request not for disk 1''
     else if disksize s \<le> b_blockno (bufs s b) then panic ''iderw: block out of range''
     else let n = unat (b_blockno (bufs s b));
              s = (if b_flags (bufs s b) AND B_DIRTY \<noteq> 0
                   then (upd_buf b (\<lambda>r. r\<lparr>b_flags := b_flags r AND NOT B_DIRTY\<rparr>) s)
                     \<lparr>disk := (disk s)(n := b_data (bufs s b)),
                      disk_writes := (n, b_data (bufs s b)) # disk_writes s\<rparr>
                   else upd_buf b (\<lambda>r. r\<lparr>b_data := disk s n\<rparr>) s)
       in ret (upd_buf b (\<lambda>r. r\<lparr>b_flags := b_flags r OR B_VALID\<rparr>) s))"

section \<open>The buffer cache\<close>

text \<open>Linking a buffer in front of the list, as \<open>binit\<close> and \<open>brelse\<close> do.\<close>

fun binit_link :: "nat list \<Rightarrow> 'a bcache_scheme \<Rightarrow> 'a bcache_scheme" where
  "binit_link [] s = s"
| "binit_link (b # bs) s =
     (let s = set_bnext (Buf b) (bnext s BHead) s;
          s = set_bprev (Buf b) BHead s;
          s = initsleeplock (SL_buf b) ''buffer'' s;
          s = set_bprev (bnext s BHead) (Buf b) s;
          s = set_bnext BHead (Buf b) s
      in binit_link bs s)"

definition binit :: "'a bcache_scheme \<Rightarrow> 'a bcache_scheme" where
  "binit s =
     (let s = initlock L_bcache ''bcache'' s;
          s = set_bprev BHead BHead s;
          s = set_bnext BHead BHead s
      in binit_link [0..<NBUF] s)"

text \<open>The two scans of \<open>bget\<close>, from the most and from the least recently used buffer.\<close>

partial_function (option) scan_cached ::
  "(bref \<Rightarrow> bref) \<Rightarrow> (nat \<Rightarrow> buf) \<Rightarrow> u32 \<Rightarrow> u32 \<Rightarrow> bref \<Rightarrow> nat option res" where
  "scan_cached nxt bf dev blockno b =
     (case b of BHead \<Rightarrow> ret None
      | Buf i \<Rightarrow>
          if b_dev (bf i) = dev \<and> b_blockno (bf i) = blockno then ret (Some i)
          else scan_cached nxt bf dev blockno (nxt b))"

partial_function (option) scan_unused ::
  "(bref \<Rightarrow> bref) \<Rightarrow> (nat \<Rightarrow> buf) \<Rightarrow> bref \<Rightarrow> nat option res" where
  "scan_unused prv bf b =
     (case b of BHead \<Rightarrow> ret None
      | Buf i \<Rightarrow>
          if b_refcnt (bf i) = 0 \<and> b_flags (bf i) AND B_DIRTY = 0 then ret (Some i)
          else scan_unused prv bf (prv b))"

definition bget :: "u32 \<Rightarrow> u32 \<Rightarrow> 'a bcache_scheme \<Rightarrow> (nat \<times> 'a bcache_scheme) res" where
  "bget dev blockno s =
     rbind (acquire L_bcache s) (\<lambda>s.
     rbind (scan_cached (bnext s) (bufs s) dev blockno (bnext s BHead)) (\<lambda>found.
     case found of
       Some b \<Rightarrow>
         rbind (release L_bcache (upd_buf b (\<lambda>r. r\<lparr>b_refcnt := b_refcnt r + 1\<rparr>) s)) (\<lambda>s.
         rbind (acquiresleep (SL_buf b) s) (\<lambda>s. ret (b, s)))
     | None \<Rightarrow>
         rbind (scan_unused (bprev s) (bufs s) (bprev s BHead)) (\<lambda>unused.
         case unused of
           Some b \<Rightarrow>
             rbind (release L_bcache
               (upd_buf b (\<lambda>r. r\<lparr>b_dev := dev, b_blockno := blockno, b_flags := 0, b_refcnt := 1\<rparr>) s)) (\<lambda>s.
             rbind (acquiresleep (SL_buf b) s) (\<lambda>s. ret (b, s)))
         | None \<Rightarrow> panic ''bget: no buffers'')))"

definition bread :: "u32 \<Rightarrow> u32 \<Rightarrow> 'a bcache_scheme \<Rightarrow> (nat \<times> 'a bcache_scheme) res" where
  "bread dev blockno s =
     rbind (bget dev blockno s) (\<lambda>(b, s).
     if b_flags (bufs s b) AND B_VALID = 0 then rbind (iderw b s) (\<lambda>s. ret (b, s))
     else ret (b, s))"

definition bwrite :: "nat \<Rightarrow> 'a bcache_scheme \<Rightarrow> 'a bcache_scheme res" where
  "bwrite b s =
     rbind (holdingsleep (SL_buf b) s) (\<lambda>(h, s).
     if \<not> h then panic ''bwrite''
     else iderw b (upd_buf b (\<lambda>r. r\<lparr>b_flags := b_flags r OR B_DIRTY\<rparr>) s))"

text \<open>The pointer updates at the end of \<open>brelse\<close>: unlink the buffer, link it behind the head.\<close>

definition move_to_front :: "nat \<Rightarrow> 'a bcache_scheme \<Rightarrow> 'a bcache_scheme" where
  "move_to_front b s =
     (let s = set_bprev (bnext s (Buf b)) (bprev s (Buf b)) s;
          s = set_bnext (bprev s (Buf b)) (bnext s (Buf b)) s;
          s = set_bnext (Buf b) (bnext s BHead) s;
          s = set_bprev (Buf b) BHead s;
          s = set_bprev (bnext s BHead) (Buf b) s
      in set_bnext BHead (Buf b) s)"

definition brelse :: "nat \<Rightarrow> 'a bcache_scheme \<Rightarrow> 'a bcache_scheme res" where
  "brelse b s =
     rbind (holdingsleep (SL_buf b) s) (\<lambda>(h, s).
     if \<not> h then panic ''brelse''
     else rbind (releasesleep (SL_buf b) s) (\<lambda>s.
       rbind (acquire L_bcache s) (\<lambda>s.
       let s = upd_buf b (\<lambda>r. r\<lparr>b_refcnt := b_refcnt r - 1\<rparr>) s;
           s = (if b_refcnt (bufs s b) = 0 then move_to_front b s else s)
       in release L_bcache s)))"

text \<open>The code that uses a buffer changes its data in place.\<close>

definition set_data :: "nat \<Rightarrow> block \<Rightarrow> 'a bcache_scheme \<Rightarrow> 'a bcache_scheme" where
  "set_data b d s = upd_buf b (\<lambda>r. r\<lparr>b_data := d\<rparr>) s"

end
