(* ===== verification/Log.thy ===== *)
theory Log
  imports Bio
begin

unbundle bit_operations_syntax

text \<open>
  log.c: the physical redo log. \<open>begin_op\<close> and \<open>end_op\<close> bracket a file system call, \<open>log_write\<close>
  records a modified block, the last \<open>end_op\<close> commits, \<open>initlog\<close> recovers after a crash. Also
  \<open>readsb\<close> of fs.c, with which \<open>initlog\<close> finds the log on disk.
\<close>

section \<open>Words in a block\<close>

definition get32 :: "block \<Rightarrow> nat \<Rightarrow> u32" where
  "get32 d i = ucast (d ! i) OR push_bit 8 (ucast (d ! (i + 1)))
     OR push_bit 16 (ucast (d ! (i + 2))) OR push_bit 24 (ucast (d ! (i + 3)))"

definition put32 :: "block \<Rightarrow> nat \<Rightarrow> u32 \<Rightarrow> block" where
  "put32 d i v = d[i := ucast v, i + 1 := ucast (drop_bit 8 v),
     i + 2 := ucast (drop_bit 16 v), i + 3 := ucast (drop_bit 24 v)]"

section \<open>The superblock\<close>

record superblock =
  sb_size :: u32
  sb_nblocks :: u32
  sb_ninodes :: u32
  sb_nlog :: u32
  sb_logstart :: u32
  sb_inodestart :: u32
  sb_bmapstart :: u32

definition sb_of_block :: "block \<Rightarrow> superblock" where
  "sb_of_block d = \<lparr>sb_size = get32 d 0, sb_nblocks = get32 d 4, sb_ninodes = get32 d 8,
     sb_nlog = get32 d 12, sb_logstart = get32 d 16, sb_inodestart = get32 d 20, sb_bmapstart = get32 d 24\<rparr>"

definition readsb :: "u32 \<Rightarrow> 'a bcache_scheme \<Rightarrow> (superblock \<times> 'a bcache_scheme) res" where
  "readsb dev s =
     rbind (bread dev 1 s) (\<lambda>(bp, s).
     let sb = sb_of_block (b_data (bufs s bp)) in
     rbind (brelse bp s) (\<lambda>s. ret (sb, s)))"

section \<open>State\<close>

definition LOGSIZE :: int where "LOGSIZE = 30"
definition MAXOPBLOCKS :: int where "MAXOPBLOCKS = 10"

text \<open>\<open>struct log\<close> and its header; block numbers are kept as 32-bit words.\<close>

record logst = bcache +
  log_start :: u32
  log_size :: int
  log_outstanding :: int
  log_committing :: int
  log_dev :: u32
  lh_n :: int
  lh_block :: "nat \<Rightarrow> u32"

section \<open>The header block\<close>

text \<open>A header on disk with more than LOGSIZE entries overruns \<open>log.lh.block\<close>, which is undefined.\<close>

definition read_head :: "'a logst_scheme \<Rightarrow> 'a logst_scheme res" where
  "read_head s =
     rbind (bread (log_dev s) (log_start s) s) (\<lambda>(b, s).
     let d = b_data (bufs s b); n = sint (get32 d 0) in
     if LOGSIZE < n then None
     else brelse b (s\<lparr>lh_n := n,
       lh_block := (\<lambda>i. if int i < n then get32 d (4 + 4 * i) else lh_block s i)\<rparr>))"

definition head_data :: "block \<Rightarrow> int \<Rightarrow> (nat \<Rightarrow> u32) \<Rightarrow> block" where
  "head_data d n blk =
     fold (\<lambda>i d. put32 d (4 + 4 * i) (blk i)) [0..<nat n] (put32 d 0 (word_of_int n))"

definition write_head :: "'a logst_scheme \<Rightarrow> 'a logst_scheme res" where
  "write_head s =
     rbind (bread (log_dev s) (log_start s) s) (\<lambda>(b, s).
     if LOGSIZE < lh_n s then None
     else let s = set_data b (head_data (b_data (bufs s b)) (lh_n s) (lh_block s)) s in
       rbind (bwrite b s) (brelse b))"

section \<open>Copying between the log and the home locations\<close>

fun install_blocks :: "nat list \<Rightarrow> 'a logst_scheme \<Rightarrow> 'a logst_scheme res" where
  "install_blocks [] s = ret s"
| "install_blocks (tail # tails) s =
     rbind (bread (log_dev s) (log_start s + of_nat tail + 1) s) (\<lambda>(lbuf, s).
     rbind (bread (log_dev s) (lh_block s tail) s) (\<lambda>(dbuf, s).
     rbind (bwrite dbuf (set_data dbuf (b_data (bufs s lbuf)) s)) (\<lambda>s.
     rbind (brelse lbuf s) (\<lambda>s.
     rbind (brelse dbuf s) (install_blocks tails)))))"

definition install_trans :: "'a logst_scheme \<Rightarrow> 'a logst_scheme res" where
  "install_trans s = install_blocks [0..<nat (lh_n s)] s"

fun log_blocks :: "nat list \<Rightarrow> 'a logst_scheme \<Rightarrow> 'a logst_scheme res" where
  "log_blocks [] s = ret s"
| "log_blocks (tail # tails) s =
     rbind (bread (log_dev s) (log_start s + of_nat tail + 1) s) (\<lambda>(dst, s).
     rbind (bread (log_dev s) (lh_block s tail) s) (\<lambda>(src, s).
     rbind (bwrite dst (set_data dst (b_data (bufs s src)) s)) (\<lambda>s.
     rbind (brelse src s) (\<lambda>s.
     rbind (brelse dst s) (log_blocks tails)))))"

definition write_log :: "'a logst_scheme \<Rightarrow> 'a logst_scheme res" where
  "write_log s = log_blocks [0..<nat (lh_n s)] s"

section \<open>Commit and recovery\<close>

definition commit :: "'a logst_scheme \<Rightarrow> 'a logst_scheme res" where
  "commit s =
     (if 0 < lh_n s then
        rbind (write_log s) (\<lambda>s.
        rbind (write_head s) (\<lambda>s.
        rbind (install_trans s) (\<lambda>s.
        write_head (s\<lparr>lh_n := 0\<rparr>))))
      else ret s)"

definition recover_from_log :: "'a logst_scheme \<Rightarrow> 'a logst_scheme res" where
  "recover_from_log s =
     rbind (read_head s) (\<lambda>s.
     rbind (install_trans s) (\<lambda>s.
     write_head (s\<lparr>lh_n := 0\<rparr>)))"

text \<open>The size of \<open>struct logheader\<close> is 4 + 4 * LOGSIZE bytes.\<close>

definition initlog :: "u32 \<Rightarrow> 'a logst_scheme \<Rightarrow> 'a logst_scheme res" where
  "initlog dev s =
     (if int BSIZE \<le> 4 + 4 * LOGSIZE then panic ''initlog: too big logheader''
      else let s = initlock L_log ''log'' s in
        rbind (readsb dev s) (\<lambda>(sb, s).
        recover_from_log (s\<lparr>log_start := sb_logstart sb, log_size := sint (sb_nlog sb), log_dev := dev\<rparr>)))"

section \<open>Transactions\<close>

text \<open>Both waits of \<open>begin_op\<close> last until another process commits: alone it does not return.\<close>

definition begin_op :: "'a logst_scheme \<Rightarrow> 'a logst_scheme res" where
  "begin_op s =
     rbind (acquire L_log s) (\<lambda>s.
     if log_committing s \<noteq> 0 then None
     else if LOGSIZE < lh_n s + (log_outstanding s + 1) * MAXOPBLOCKS then None
     else release L_log (s\<lparr>log_outstanding := log_outstanding s + 1\<rparr>))"

text \<open>
  One pass of the loop of \<open>begin_op\<close>, \<open>log.lock\<close> held, in a system of several processes: the call is
  admitted (\<open>True\<close>), or it sleeps on the log.
\<close>

definition begin_op_step :: "'a logst_scheme \<Rightarrow> (bool \<times> 'a logst_scheme) res" where
  "begin_op_step s =
     (if log_committing s \<noteq> 0 \<or> LOGSIZE < lh_n s + (log_outstanding s + 1) * MAXOPBLOCKS
      then rbind (sleep_enter C_log (Some L_log) s) (\<lambda>s. ret (False, s))
      else rbind (release L_log (s\<lparr>log_outstanding := log_outstanding s + 1\<rparr>)) (\<lambda>s. ret (True, s)))"

definition end_op :: "'a logst_scheme \<Rightarrow> 'a logst_scheme res" where
  "end_op s =
     rbind (acquire L_log s) (\<lambda>s.
     let s = s\<lparr>log_outstanding := log_outstanding s - 1\<rparr> in
     if log_committing s \<noteq> 0 then panic ''log.committing''
     else let do_commit = (log_outstanding s = 0) in
       rbind (if do_commit then ret (s\<lparr>log_committing := 1\<rparr>) else wakeup C_log s) (\<lambda>s.
       rbind (release L_log s) (\<lambda>s.
       if do_commit then
         rbind (commit s) (\<lambda>s.
         rbind (acquire L_log s) (\<lambda>s.
         rbind (wakeup C_log (s\<lparr>log_committing := 0\<rparr>)) (release L_log)))
       else ret s)))"

text \<open>The scan of \<open>log_write\<close>: the index of the block in the header, or the first free index.\<close>

definition log_index :: "(nat \<Rightarrow> u32) \<Rightarrow> int \<Rightarrow> u32 \<Rightarrow> nat" where
  "log_index blk n bno =
     (case find (\<lambda>i. blk i = bno) [0..<nat n] of Some i \<Rightarrow> i | None \<Rightarrow> nat n)"

definition log_write :: "nat \<Rightarrow> 'a logst_scheme \<Rightarrow> 'a logst_scheme res" where
  "log_write b s =
     (if LOGSIZE \<le> lh_n s \<or> log_size s - 1 \<le> lh_n s then panic ''too big a transaction''
      else if log_outstanding s < 1 then panic ''log_write outside of trans''
      else rbind (acquire L_log s) (\<lambda>s.
        let bno = b_blockno (bufs s b); i = log_index (lh_block s) (lh_n s) bno;
            s = s\<lparr>lh_block := (lh_block s)(i := bno),
                   lh_n := (if int i = lh_n s then lh_n s + 1 else lh_n s)\<rparr>;
            s = upd_buf b (\<lambda>r. r\<lparr>b_flags := b_flags r OR B_DIRTY\<rparr>) s
        in release L_log s))"

end
