(* ===== verification/Fs.thy ===== *)
theory Fs
  imports Log
begin

unbundle bit_operations_syntax

text \<open>
  fs.c: the block bitmap, the inodes on disk and their cache, the contents of files, directories
  and path names. A pointer into \<open>icache.inode\<close> is an index, a path the bytes before its NUL. The
  device branches of \<open>readi\<close> and \<open>writei\<close> call the console and follow in the theory \<open>File\<close>.
\<close>

section \<open>Data\<close>

definition NINODE :: nat where "NINODE = 50"
definition NDIRECT :: nat where "NDIRECT = 12"
definition NINDIRECT :: nat where "NINDIRECT = 128"
definition MAXFILE :: nat where "MAXFILE = NDIRECT + NINDIRECT"
definition IPB :: nat where "IPB = 8"
definition BPB :: nat where "BPB = 4096"
definition DIRSIZ :: nat where "DIRSIZ = 14"
definition ROOTDEV :: u32 where "ROOTDEV = 1"
definition ROOTINO :: u32 where "ROOTINO = 1"
definition T_DIR :: u16 where "T_DIR = 1"
definition T_FILE :: u16 where "T_FILE = 2"
definition T_DEV :: u16 where "T_DEV = 3"

type_synonym cstr = "u8 list"

definition SLASH :: u8 where "SLASH = 47"

definition get16 :: "block \<Rightarrow> nat \<Rightarrow> u16" where
  "get16 d i = ucast (d ! i) OR push_bit 8 (ucast (d ! (i + 1)))"

definition put16 :: "block \<Rightarrow> nat \<Rightarrow> u16 \<Rightarrow> block" where
  "put16 d i v = d[i := ucast v, i + 1 := ucast (drop_bit 8 v)]"

text \<open>\<open>struct dinode\<close>, 64 bytes: four 16-bit fields, the size and the block addresses.\<close>

record dinode =
  d_type :: u16
  d_major :: u16
  d_minor :: u16
  d_nlink :: u16
  d_size :: u32
  d_addrs :: "nat \<Rightarrow> u32"

definition get_dinode :: "block \<Rightarrow> nat \<Rightarrow> dinode" where
  "get_dinode d k = (let o' = 64 * k in
     \<lparr>d_type = get16 d o', d_major = get16 d (o' + 2), d_minor = get16 d (o' + 4),
      d_nlink = get16 d (o' + 6), d_size = get32 d (o' + 8), d_addrs = (\<lambda>i. get32 d (o' + 12 + 4 * i))\<rparr>)"

definition put_dinode :: "block \<Rightarrow> nat \<Rightarrow> dinode \<Rightarrow> block" where
  "put_dinode d k di = (let o' = 64 * k in
     fold (\<lambda>i d. put32 d (o' + 12 + 4 * i) (d_addrs di i)) [0..<NDIRECT + 1]
       (put32 (put16 (put16 (put16 (put16 d o' (d_type di)) (o' + 2) (d_major di)) (o' + 4) (d_minor di))
         (o' + 6) (d_nlink di)) (o' + 8) (d_size di)))"

record inode =
  i_dev :: u32
  i_inum :: u32
  i_ref :: int
  i_valid :: int
  i_type :: u16
  i_major :: u16
  i_minor :: u16
  i_nlink :: u16
  i_size :: u32
  i_addrs :: "nat \<Rightarrow> u32"

record fss = logst +
  sb :: superblock
  inodes :: "nat \<Rightarrow> inode"

definition upd_inode :: "nat \<Rightarrow> (inode \<Rightarrow> inode) \<Rightarrow> 'a fss_scheme \<Rightarrow> 'a fss_scheme" where
  "upd_inode ip f s = s\<lparr>inodes := (inodes s)(ip := f (inodes s ip))\<rparr>"

definition IBLOCK :: "u32 \<Rightarrow> superblock \<Rightarrow> u32" where
  "IBLOCK i b = i div of_nat IPB + sb_inodestart b"

definition BBLOCK :: "u32 \<Rightarrow> superblock \<Rightarrow> u32" where
  "BBLOCK i b = i div of_nat BPB + sb_bmapstart b"

section \<open>Blocks\<close>

definition bzero :: "u32 \<Rightarrow> u32 \<Rightarrow> 'a fss_scheme \<Rightarrow> 'a fss_scheme res" where
  "bzero dev bno s =
     rbind (bread dev bno s) (\<lambda>(bp, s).
     rbind (log_write bp (set_data bp (replicate BSIZE 0) s)) (brelse bp))"

text \<open>The bit of block \<open>bi\<close> in a bitmap block.\<close>

definition bit_clear :: "block \<Rightarrow> nat \<Rightarrow> bool" where
  "bit_clear d bi \<longleftrightarrow> d ! (bi div 8) AND push_bit (bi mod 8) 1 = 0"

definition mark_used :: "block \<Rightarrow> nat \<Rightarrow> block" where
  "mark_used d bi = d[bi div 8 := d ! (bi div 8) OR push_bit (bi mod 8) 1]"

definition mark_free :: "block \<Rightarrow> nat \<Rightarrow> block" where
  "mark_free d bi = d[bi div 8 := d ! (bi div 8) AND NOT (push_bit (bi mod 8) 1)]"

text \<open>The inner loop of \<open>balloc\<close>: the first free block of the bitmap block that covers \<open>b\<close>.\<close>

definition first_free :: "block \<Rightarrow> u32 \<Rightarrow> u32 \<Rightarrow> nat option" where
  "first_free d b sz =
     find (bit_clear d) (takeWhile (\<lambda>bi. b + of_nat bi < sz) [0..<BPB])"

partial_function (option) balloc_from :: "u32 \<Rightarrow> u32 \<Rightarrow> 'a fss_scheme \<Rightarrow> (u32 \<times> 'a fss_scheme) res" where
  "balloc_from dev b s =
     (if b < sb_size (sb s) then
        rbind (bread dev (BBLOCK b (sb s)) s) (\<lambda>(bp, s).
        case first_free (b_data (bufs s bp)) b (sb_size (sb s)) of
          Some bi \<Rightarrow>
            rbind (log_write bp (set_data bp (mark_used (b_data (bufs s bp)) bi) s)) (\<lambda>s.
            rbind (brelse bp s) (\<lambda>s.
            rbind (bzero dev (b + of_nat bi) s) (\<lambda>s. ret (b + of_nat bi, s))))
        | None \<Rightarrow> rbind (brelse bp s) (balloc_from dev (b + of_nat BPB)))
      else panic ''balloc: out of blocks'')"

definition balloc :: "u32 \<Rightarrow> 'a fss_scheme \<Rightarrow> (u32 \<times> 'a fss_scheme) res" where
  "balloc dev s = balloc_from dev 0 s"

definition bfree :: "u32 \<Rightarrow> u32 \<Rightarrow> 'a fss_scheme \<Rightarrow> 'a fss_scheme res" where
  "bfree dev b s =
     rbind (bread dev (BBLOCK b (sb s)) s) (\<lambda>(bp, s).
     let bi = unat b mod BPB in
     if bit_clear (b_data (bufs s bp)) bi then panic ''freeing free block''
     else rbind (log_write bp (set_data bp (mark_free (b_data (bufs s bp)) bi) s)) (brelse bp))"

section \<open>Inodes\<close>

fun init_inode_locks :: "nat list \<Rightarrow> 'a fss_scheme \<Rightarrow> 'a fss_scheme" where
  "init_inode_locks [] s = s"
| "init_inode_locks (i # is) s = init_inode_locks is (initsleeplock (SL_inode i) ''inode'' s)"

definition iinit :: "u32 \<Rightarrow> 'a fss_scheme \<Rightarrow> 'a fss_scheme res" where
  "iinit dev s =
     (let s = init_inode_locks [0..<NINODE] (initlock L_icache ''icache'' s) in
      rbind (readsb dev s) (\<lambda>(b, s).
      kprintf (''sb: size %d nblocks %d ninodes %d nlog %d logstart %d'' @
               '' inodestart %d bmap start %d\<newline>'')
        [W (sb_size b), W (sb_nblocks b), W (sb_ninodes b), W (sb_nlog b), W (sb_logstart b),
         W (sb_inodestart b), W (sb_bmapstart b)] (s\<lparr>sb := b\<rparr>)))"

text \<open>The scan of \<open>iget\<close>: the entry that caches the inode, and the first free entry before it.\<close>

definition iget :: "u32 \<Rightarrow> u32 \<Rightarrow> 'a fss_scheme \<Rightarrow> (nat \<times> 'a fss_scheme) res" where
  "iget dev inum s =
     rbind (acquire L_icache s) (\<lambda>s.
     case find (\<lambda>i. 0 < i_ref (inodes s i) \<and> i_dev (inodes s i) = dev \<and> i_inum (inodes s i) = inum)
            [0..<NINODE] of
       Some ip \<Rightarrow>
         rbind (release L_icache (upd_inode ip (\<lambda>r. r\<lparr>i_ref := i_ref r + 1\<rparr>) s)) (\<lambda>s. ret (ip, s))
     | None \<Rightarrow>
         case find (\<lambda>i. i_ref (inodes s i) = 0) [0..<NINODE] of
           None \<Rightarrow> panic ''iget: no inodes''
         | Some ip \<Rightarrow>
             rbind (release L_icache
               (upd_inode ip (\<lambda>r. r\<lparr>i_dev := dev, i_inum := inum, i_ref := 1, i_valid := 0\<rparr>) s))
               (\<lambda>s. ret (ip, s)))"

definition zero_dinode :: dinode where
  "zero_dinode = \<lparr>d_type = 0, d_major = 0, d_minor = 0, d_nlink = 0, d_size = 0, d_addrs = (\<lambda>_. 0)\<rparr>"

partial_function (option) ialloc_from ::
  "u32 \<Rightarrow> u16 \<Rightarrow> u32 \<Rightarrow> 'a fss_scheme \<Rightarrow> (nat \<times> 'a fss_scheme) res" where
  "ialloc_from dev ty inum s =
     (if inum < sb_ninodes (sb s) then
        rbind (bread dev (IBLOCK inum (sb s)) s) (\<lambda>(bp, s).
        let d = b_data (bufs s bp); k = unat inum mod IPB in
        if d_type (get_dinode d k) = 0 then
          rbind (log_write bp (set_data bp (put_dinode d k (zero_dinode\<lparr>d_type := ty\<rparr>)) s)) (\<lambda>s.
          rbind (brelse bp s) (iget dev inum))
        else rbind (brelse bp s) (ialloc_from dev ty (inum + 1)))
      else panic ''ialloc: no inodes'')"

definition ialloc :: "u32 \<Rightarrow> u16 \<Rightarrow> 'a fss_scheme \<Rightarrow> (nat \<times> 'a fss_scheme) res" where
  "ialloc dev ty s = ialloc_from dev ty 1 s"

definition dinode_of :: "inode \<Rightarrow> dinode" where
  "dinode_of i = \<lparr>d_type = i_type i, d_major = i_major i, d_minor = i_minor i, d_nlink = i_nlink i,
     d_size = i_size i, d_addrs = i_addrs i\<rparr>"

definition iupdate :: "nat \<Rightarrow> 'a fss_scheme \<Rightarrow> 'a fss_scheme res" where
  "iupdate ip s =
     rbind (bread (i_dev (inodes s ip)) (IBLOCK (i_inum (inodes s ip)) (sb s)) s) (\<lambda>(bp, s).
     let i = inodes s ip in
     rbind (log_write bp (set_data bp
       (put_dinode (b_data (bufs s bp)) (unat (i_inum i) mod IPB) (dinode_of i)) s)) (brelse bp))"

definition idup :: "nat \<Rightarrow> 'a fss_scheme \<Rightarrow> (nat \<times> 'a fss_scheme) res" where
  "idup ip s =
     rbind (acquire L_icache s) (\<lambda>s.
     rbind (release L_icache (upd_inode ip (\<lambda>r. r\<lparr>i_ref := i_ref r + 1\<rparr>) s)) (\<lambda>s. ret (ip, s)))"

definition ilock :: "nat option \<Rightarrow> 'a fss_scheme \<Rightarrow> 'a fss_scheme res" where
  "ilock ip s =
     (case ip of None \<Rightarrow> panic ''ilock''
      | Some ip \<Rightarrow>
          if i_ref (inodes s ip) < 1 then panic ''ilock''
          else rbind (acquiresleep (SL_inode ip) s) (\<lambda>s.
            if i_valid (inodes s ip) = 0 then
              rbind (bread (i_dev (inodes s ip)) (IBLOCK (i_inum (inodes s ip)) (sb s)) s) (\<lambda>(bp, s).
              let di = get_dinode (b_data (bufs s bp)) (unat (i_inum (inodes s ip)) mod IPB);
                  s = upd_inode ip (\<lambda>r. r\<lparr>i_type := d_type di, i_major := d_major di,
                        i_minor := d_minor di, i_nlink := d_nlink di, i_size := d_size di,
                        i_addrs := d_addrs di\<rparr>) s
              in rbind (brelse bp s) (\<lambda>s.
                let s = upd_inode ip (\<lambda>r. r\<lparr>i_valid := 1\<rparr>) s in
                if i_type (inodes s ip) = 0 then panic ''ilock: no type'' else ret s))
            else ret s))"

definition iunlock :: "nat option \<Rightarrow> 'a fss_scheme \<Rightarrow> 'a fss_scheme res" where
  "iunlock ip s =
     (case ip of None \<Rightarrow> panic ''iunlock''
      | Some ip \<Rightarrow>
          rbind (holdingsleep (SL_inode ip) s) (\<lambda>(h, s).
          if \<not> h \<or> i_ref (inodes s ip) < 1 then panic ''iunlock''
          else releasesleep (SL_inode ip) s))"

section \<open>Inode contents\<close>

definition bmap :: "nat \<Rightarrow> u32 \<Rightarrow> 'a fss_scheme \<Rightarrow> (u32 \<times> 'a fss_scheme) res" where
  "bmap ip bn s =
     (if bn < of_nat NDIRECT then
        let k = unat bn; addr = i_addrs (inodes s ip) k in
        if addr = 0 then
          rbind (balloc (i_dev (inodes s ip)) s) (\<lambda>(addr, s).
          ret (addr, upd_inode ip (\<lambda>r. r\<lparr>i_addrs := (i_addrs r)(k := addr)\<rparr>) s))
        else ret (addr, s)
      else let bn = bn - of_nat NDIRECT in
      if bn < of_nat NINDIRECT then
        rbind (if i_addrs (inodes s ip) NDIRECT = 0 then
                 rbind (balloc (i_dev (inodes s ip)) s) (\<lambda>(addr, s).
                 ret (addr, upd_inode ip (\<lambda>r. r\<lparr>i_addrs := (i_addrs r)(NDIRECT := addr)\<rparr>) s))
               else ret (i_addrs (inodes s ip) NDIRECT, s)) (\<lambda>(addr, s).
        rbind (bread (i_dev (inodes s ip)) addr s) (\<lambda>(bp, s).
        let addr = get32 (b_data (bufs s bp)) (4 * unat bn) in
        rbind (if addr = 0 then
                 rbind (balloc (i_dev (inodes s ip)) s) (\<lambda>(addr, s).
                 rbind (log_write bp (set_data bp (put32 (b_data (bufs s bp)) (4 * unat bn) addr) s)) (\<lambda>s.
                 ret (addr, s)))
               else ret (addr, s)) (\<lambda>(addr, s).
        rbind (brelse bp s) (\<lambda>s. ret (addr, s)))))
      else panic ''bmap: out of range'')"

fun free_direct :: "nat list \<Rightarrow> nat \<Rightarrow> 'a fss_scheme \<Rightarrow> 'a fss_scheme res" where
  "free_direct [] ip s = ret s"
| "free_direct (i # is) ip s =
     (if i_addrs (inodes s ip) i \<noteq> 0 then
        rbind (bfree (i_dev (inodes s ip)) (i_addrs (inodes s ip) i) s) (\<lambda>s.
        free_direct is ip (upd_inode ip (\<lambda>r. r\<lparr>i_addrs := (i_addrs r)(i := 0)\<rparr>) s))
      else free_direct is ip s)"

fun free_indirect :: "nat list \<Rightarrow> nat \<Rightarrow> nat \<Rightarrow> 'a fss_scheme \<Rightarrow> 'a fss_scheme res" where
  "free_indirect [] ip bp s = ret s"
| "free_indirect (j # js) ip bp s =
     (let a = get32 (b_data (bufs s bp)) (4 * j) in
      if a \<noteq> 0 then rbind (bfree (i_dev (inodes s ip)) a s) (free_indirect js ip bp)
      else free_indirect js ip bp s)"

definition itrunc :: "nat \<Rightarrow> 'a fss_scheme \<Rightarrow> 'a fss_scheme res" where
  "itrunc ip s =
     rbind (free_direct [0..<NDIRECT] ip s) (\<lambda>s.
     rbind (if i_addrs (inodes s ip) NDIRECT \<noteq> 0 then
              rbind (bread (i_dev (inodes s ip)) (i_addrs (inodes s ip) NDIRECT) s) (\<lambda>(bp, s).
              rbind (free_indirect [0..<NINDIRECT] ip bp s) (\<lambda>s.
              rbind (brelse bp s) (\<lambda>s.
              rbind (bfree (i_dev (inodes s ip)) (i_addrs (inodes s ip) NDIRECT) s) (\<lambda>s.
              ret (upd_inode ip (\<lambda>r. r\<lparr>i_addrs := (i_addrs r)(NDIRECT := 0)\<rparr>) s)))))
            else ret s) (\<lambda>s.
     iupdate ip (upd_inode ip (\<lambda>r. r\<lparr>i_size := 0\<rparr>) s)))"

definition iput :: "nat \<Rightarrow> 'a fss_scheme \<Rightarrow> 'a fss_scheme res" where
  "iput ip s =
     rbind (acquiresleep (SL_inode ip) s) (\<lambda>s.
     rbind (if i_valid (inodes s ip) \<noteq> 0 \<and> i_nlink (inodes s ip) = 0 then
              rbind (acquire L_icache s) (\<lambda>s.
              let r = i_ref (inodes s ip) in
              rbind (release L_icache s) (\<lambda>s.
              if r = 1 then
                rbind (itrunc ip s) (\<lambda>s.
                rbind (iupdate ip (upd_inode ip (\<lambda>r. r\<lparr>i_type := 0\<rparr>) s)) (\<lambda>s.
                ret (upd_inode ip (\<lambda>r. r\<lparr>i_valid := 0\<rparr>) s)))
              else ret s))
            else ret s) (\<lambda>s.
     rbind (releasesleep (SL_inode ip) s) (\<lambda>s.
     rbind (acquire L_icache s) (\<lambda>s.
     release L_icache (upd_inode ip (\<lambda>r. r\<lparr>i_ref := i_ref r - 1\<rparr>) s)))))"

definition iunlockput :: "nat \<Rightarrow> 'a fss_scheme \<Rightarrow> 'a fss_scheme res" where
  "iunlockput ip s = rbind (iunlock (Some ip) s) (iput ip)"

record stat =
  st_type :: u16
  st_dev :: u32
  st_ino :: u32
  st_nlink :: u16
  st_size :: u32

definition stati :: "inode \<Rightarrow> stat" where
  "stati i = \<lparr>st_type = i_type i, st_dev = i_dev i, st_ino = i_inum i, st_nlink = i_nlink i, st_size = i_size i\<rparr>"

text \<open>
  Reading and writing the blocks of a file. The bytes read are returned, the bytes to write are an
  argument; the callers move them from and to memory. Both loops move at least one byte per turn.
\<close>

definition chunk :: "u32 \<Rightarrow> u32 \<Rightarrow> u32" where
  "chunk left off = min left (of_nat BSIZE - off mod of_nat BSIZE)"

function readi_loop :: "nat \<Rightarrow> u32 \<Rightarrow> u32 \<Rightarrow> 'a fss_scheme \<Rightarrow> (u8 list \<times> 'a fss_scheme) res" where
  "readi_loop ip off left s =
     (if left = 0 then ret ([], s)
      else rbind (bmap ip (off div of_nat BSIZE) s) (\<lambda>(addr, s).
        rbind (bread (i_dev (inodes s ip)) addr s) (\<lambda>(bp, s).
        let m = chunk left off;
            bytes = take (unat m) (drop (unat (off mod of_nat BSIZE)) (b_data (bufs s bp))) in
        rbind (brelse bp s) (\<lambda>s.
        rbind (readi_loop ip (off + m) (left - m) s) (\<lambda>(rest, s). ret (bytes @ rest, s))))))"
  by pat_completeness auto

lemma chunk_progress: "left \<noteq> 0 \<Longrightarrow> unat (left - chunk left off) < unat left"
proof -
  assume "left \<noteq> 0"
  have "off mod 512 < 512"
    by (rule word_mod_less_divisor) simp
  then have "512 - off mod 512 \<noteq> 0"
    by auto
  with \<open>left \<noteq> 0\<close> have "chunk left off \<noteq> 0" "chunk left off \<le> left"
    by (auto simp: chunk_def BSIZE_def min_def)
  then show ?thesis
    by unat_arith
qed

termination readi_loop
  by (relation "measure (\<lambda>(ip, off, left, s). unat left)") (auto simp: chunk_progress)

definition readi_file :: "nat \<Rightarrow> u32 \<Rightarrow> u32 \<Rightarrow> 'a fss_scheme \<Rightarrow> ((int \<times> u8 list) \<times> 'a fss_scheme) res" where
  "readi_file ip off n s =
     (let sz = i_size (inodes s ip) in
      if sz < off \<or> off + n < off then ret ((-1, []), s)
      else let n = (if sz < off + n then sz - off else n) in
        rbind (readi_loop ip off n s) (\<lambda>(bs, s). ret ((sint n, bs), s)))"

function writei_loop :: "nat \<Rightarrow> u8 list \<Rightarrow> u32 \<Rightarrow> u32 \<Rightarrow> 'a fss_scheme \<Rightarrow> (u32 \<times> 'a fss_scheme) res" where
  "writei_loop ip src off left s =
     (if left = 0 then ret (off, s)
      else rbind (bmap ip (off div of_nat BSIZE) s) (\<lambda>(addr, s).
        rbind (bread (i_dev (inodes s ip)) addr s) (\<lambda>(bp, s).
        let m = chunk left off; k = unat (off mod of_nat BSIZE); d = b_data (bufs s bp);
            d = take k d @ take (unat m) src @ drop (k + unat m) d in
        rbind (log_write bp (set_data bp d s)) (\<lambda>s.
        rbind (brelse bp s) (writei_loop ip (drop (unat m) src) (off + m) (left - m))))))"
  by pat_completeness auto

termination writei_loop
  by (relation "measure (\<lambda>(ip, src, off, left, s). unat left)") (auto simp: chunk_progress)

text \<open>The early returns of \<open>writei\<close>, before it looks at the bytes.\<close>

definition writei_refuses :: "nat \<Rightarrow> u32 \<Rightarrow> u32 \<Rightarrow> 'a fss_scheme \<Rightarrow> bool" where
  "writei_refuses ip off n s \<longleftrightarrow>
     i_size (inodes s ip) < off \<or> off + n < off \<or> of_nat (MAXFILE * BSIZE) < off + n"

definition writei_file :: "nat \<Rightarrow> u8 list \<Rightarrow> u32 \<Rightarrow> u32 \<Rightarrow> 'a fss_scheme \<Rightarrow> (int \<times> 'a fss_scheme) res" where
  "writei_file ip src off n s =
     (if writei_refuses ip off n s then ret (-1, s)
      else rbind (writei_loop ip src off n s) (\<lambda>(off, s).
        rbind (if 0 < n \<and> i_size (inodes s ip) < off
               then iupdate ip (upd_inode ip (\<lambda>r. r\<lparr>i_size := off\<rparr>) s)
               else ret s) (\<lambda>s. ret (sint n, s))))"

section \<open>Directories\<close>

text \<open>\<open>strncmp\<close> on the bytes of two strings; behind its last byte a string has its NUL.\<close>

fun strncmp_bytes :: "u8 list \<Rightarrow> u8 list \<Rightarrow> nat \<Rightarrow> int" where
  "strncmp_bytes p q 0 = 0"
| "strncmp_bytes p q (Suc n) =
     (let a = (case p of [] \<Rightarrow> 0 | x # _ \<Rightarrow> x); b = (case q of [] \<Rightarrow> 0 | y # _ \<Rightarrow> y) in
      if a \<noteq> 0 \<and> a = b then strncmp_bytes (tl p) (tl q) n else uint a - uint b)"

definition namecmp :: "cstr \<Rightarrow> cstr \<Rightarrow> int" where
  "namecmp s t = strncmp_bytes s t DIRSIZ"

text \<open>\<open>struct dirent\<close>: the inode number and 14 bytes of name, which \<open>strncpy\<close> pads with NULs.\<close>

definition dirent_bytes :: "u16 \<Rightarrow> cstr \<Rightarrow> u8 list" where
  "dirent_bytes inum name =
     [ucast inum, ucast (drop_bit 8 inum)] @ take DIRSIZ name @ replicate (DIRSIZ - length name) 0"

text \<open>\<open>dirlookup\<close> returns the inode and the offset of its entry.\<close>

partial_function (option) dirlookup_from ::
  "nat \<Rightarrow> cstr \<Rightarrow> u32 \<Rightarrow> 'a fss_scheme \<Rightarrow> ((nat \<times> u32) option \<times> 'a fss_scheme) res" where
  "dirlookup_from dp name off s =
     (if off < i_size (inodes s dp) then
        rbind (readi_file dp off 16 s) (\<lambda>((r, de), s).
        if r \<noteq> 16 then panic ''dirlookup read''
        else if get16 de 0 = 0 then dirlookup_from dp name (off + 16) s
        else if namecmp name (drop 2 de) = 0 then
          rbind (iget (i_dev (inodes s dp)) (ucast (get16 de 0)) s) (\<lambda>(ip, s). ret (Some (ip, off), s))
        else dirlookup_from dp name (off + 16) s)
      else ret (None, s))"

definition dirlookup :: "nat \<Rightarrow> cstr \<Rightarrow> 'a fss_scheme \<Rightarrow> ((nat \<times> u32) option \<times> 'a fss_scheme) res" where
  "dirlookup dp name s =
     (if i_type (inodes s dp) \<noteq> T_DIR then panic ''dirlookup not DIR''
      else dirlookup_from dp name 0 s)"

text \<open>The scan of \<open>dirlink\<close> for an empty entry.\<close>

partial_function (option) empty_dirent :: "nat \<Rightarrow> u32 \<Rightarrow> 'a fss_scheme \<Rightarrow> (u32 \<times> 'a fss_scheme) res" where
  "empty_dirent dp off s =
     (if off < i_size (inodes s dp) then
        rbind (readi_file dp off 16 s) (\<lambda>((r, de), s).
        if r \<noteq> 16 then panic ''dirlink read''
        else if get16 de 0 = 0 then ret (off, s)
        else empty_dirent dp (off + 16) s)
      else ret (off, s))"

definition dirlink :: "nat \<Rightarrow> cstr \<Rightarrow> u32 \<Rightarrow> 'a fss_scheme \<Rightarrow> (int \<times> 'a fss_scheme) res" where
  "dirlink dp name inum s =
     rbind (dirlookup dp name s) (\<lambda>(found, s).
     case found of
       Some (ip, _) \<Rightarrow> rbind (iput ip s) (\<lambda>s. ret (-1, s))
     | None \<Rightarrow>
         rbind (empty_dirent dp 0 s) (\<lambda>(off, s).
         rbind (writei_file dp (dirent_bytes (ucast inum) name) off 16 s) (\<lambda>(r, s).
         if r \<noteq> 16 then panic ''dirlink'' else ret (0, s))))"

section \<open>Paths\<close>

text \<open>\<open>skipelem\<close> returns the element, cut to DIRSIZ bytes, and the rest of the path.\<close>

definition skipelem :: "cstr \<Rightarrow> (cstr \<times> cstr) option" where
  "skipelem path =
     (let path = dropWhile (\<lambda>c. c = SLASH) path in
      if path = [] then None
      else let s = takeWhile (\<lambda>c. c \<noteq> SLASH) path; path = dropWhile (\<lambda>c. c \<noteq> SLASH) path in
        Some (take DIRSIZ s, dropWhile (\<lambda>c. c = SLASH) path))"

lemma skipelem_shorter:
  assumes "skipelem path = Some (name, rest)"
  shows "length rest < length path"
proof -
  define q where "q = dropWhile (\<lambda>c. c = SLASH) path"
  have q: "q \<noteq> []" "rest = dropWhile (\<lambda>c. c = SLASH) (dropWhile (\<lambda>c. c \<noteq> SLASH) q)"
    using assms by (auto simp: skipelem_def q_def Let_def split: if_splits)
  then have "hd q \<noteq> SLASH"
    using hd_dropWhile [of "\<lambda>c. c = SLASH" path] by (simp add: q_def)
  with q have "length (dropWhile (\<lambda>c. c \<noteq> SLASH) q) < length q"
    by (cases q) (auto simp: le_imp_less_Suc length_dropWhile_le)
  then have "length rest < length q"
    using q(2) length_dropWhile_le [of "\<lambda>c. c = SLASH" "dropWhile (\<lambda>c. c \<noteq> SLASH) q"] by simp
  also have "length q \<le> length path"
    by (simp add: q_def length_dropWhile_le)
  finally show ?thesis .
qed

text \<open>The loop of \<open>namex\<close>, with the last element copied into \<open>name\<close>.\<close>

function namex_loop ::
  "cstr \<Rightarrow> bool \<Rightarrow> cstr \<Rightarrow> nat \<Rightarrow> 'a fss_scheme \<Rightarrow> ((nat option \<times> cstr) \<times> 'a fss_scheme) res" where
  "namex_loop path parent name ip s =
     (case skipelem path of
        None \<Rightarrow>
          if parent then rbind (iput ip s) (\<lambda>s. ret ((None, name), s)) else ret ((Some ip, name), s)
      | Some (name, path) \<Rightarrow>
          rbind (ilock (Some ip) s) (\<lambda>s.
          if i_type (inodes s ip) \<noteq> T_DIR then rbind (iunlockput ip s) (\<lambda>s. ret ((None, name), s))
          else if parent \<and> path = [] then rbind (iunlock (Some ip) s) (\<lambda>s. ret ((Some ip, name), s))
          else rbind (dirlookup ip name s) (\<lambda>(found, s).
            case found of
              None \<Rightarrow> rbind (iunlockput ip s) (\<lambda>s. ret ((None, name), s))
            | Some (next, _) \<Rightarrow> rbind (iunlockput ip s) (namex_loop path parent name next))))"
  by pat_completeness auto

termination namex_loop
  by (relation "measure (\<lambda>(path, parent, name, ip, s). length path)") (auto simp: skipelem_shorter)

definition namex :: "cstr \<Rightarrow> bool \<Rightarrow> 'a fss_scheme \<Rightarrow> ((nat option \<times> cstr) \<times> 'a fss_scheme) res" where
  "namex path parent s =
     rbind (if path \<noteq> [] \<and> hd path = SLASH then iget ROOTDEV ROOTINO s
            else rbind (curproc s) (\<lambda>(p, s).
              case p_cwd (procs s p) of None \<Rightarrow> None | Some ip \<Rightarrow> idup ip s)) (\<lambda>(ip, s).
     namex_loop path parent [] ip s)"

definition namei :: "cstr \<Rightarrow> 'a fss_scheme \<Rightarrow> (nat option \<times> 'a fss_scheme) res" where
  "namei path s = rbind (namex path False s) (\<lambda>((ip, _), s). ret (ip, s))"

definition nameiparent :: "cstr \<Rightarrow> 'a fss_scheme \<Rightarrow> ((nat option \<times> cstr) \<times> 'a fss_scheme) res" where
  "nameiparent path s = namex path True s"

end
