(* ===== verification/Devices.thy ===== *)
theory Devices
  imports Fs
begin

unbundle bit_operations_syntax

text \<open>
  The drivers: keyboard (kbd.c, kbd.h), serial port (uart.c), local and I/O interrupt controllers
  (lapic.c, ioapic.c, picirq.c), clock (lapic.c), the tables that describe the processors (mp.c),
  the IDE disk (ide.c) and the poweroff port (kshutdown.c). What the processor reads from a device
  register is an input of the model: register \<open>r\<close> yields \<open>dev_in r n\<close> on its \<open>n\<close>-th read.
  \<open>dev_out\<close> lists what it has written to registers, latest first.
\<close>

section \<open>State\<close>

text \<open>An I/O port, a local APIC register, an I/O APIC register.\<close>

datatype devreg = Port u16 | Lapic u32 | Ioapic u32

record devs = fss +
  dev_in :: "devreg \<Rightarrow> nat \<Rightarrow> u32"
  dev_pos :: "devreg \<Rightarrow> nat"
  dev_out :: "(devreg \<times> u32) list"
  kbd_shift :: u32
  uart :: int
  lapic :: u32
  ioapicid :: u8
  idequeue :: "nat option"
  qnext :: "nat \<Rightarrow> nat option"
  havedisk1 :: int

definition dev_read :: "devreg \<Rightarrow> 'a devs_scheme \<Rightarrow> u32 \<times> 'a devs_scheme" where
  "dev_read r s = (dev_in s r (dev_pos s r), s\<lparr>dev_pos := (dev_pos s)(r := dev_pos s r + 1)\<rparr>)"

definition dev_write :: "devreg \<Rightarrow> u32 \<Rightarrow> 'a devs_scheme \<Rightarrow> 'a devs_scheme" where
  "dev_write r v s = s\<lparr>dev_out := (r, v) # dev_out s\<rparr>"

definition inb :: "u16 \<Rightarrow> 'a devs_scheme \<Rightarrow> u8 \<times> 'a devs_scheme" where
  "inb p s = (let (v, s) = dev_read (Port p) s in (ucast v, s))"

definition outb :: "u16 \<Rightarrow> u8 \<Rightarrow> 'a devs_scheme \<Rightarrow> 'a devs_scheme" where
  "outb p v s = dev_write (Port p) (ucast v) s"

section \<open>Keyboard\<close>

definition SHIFT :: u32 where "SHIFT = 1"
definition CTL :: u32 where "CTL = 2"
definition ALT :: u32 where "ALT = 4"
definition CAPSLOCK :: u32 where "CAPSLOCK = 8"
definition NUMLOCK :: u32 where "NUMLOCK = 16"
definition SCROLLLOCK :: u32 where "SCROLLLOCK = 32"
definition E0ESC :: u32 where "E0ESC = 64"

definition shiftcode :: "u8 \<Rightarrow> u32" where
  "shiftcode d =
     (if d = 0x1D \<or> d = 0x9D then CTL else if d = 0x2A \<or> d = 0x36 then SHIFT
      else if d = 0x38 \<or> d = 0xB8 then ALT else 0)"

definition togglecode :: "u8 \<Rightarrow> u32" where
  "togglecode d =
     (if d = 0x3A then CAPSLOCK else if d = 0x45 then NUMLOCK else if d = 0x46 then SCROLLLOCK else 0)"

text \<open>The entries with a designator: those behind an E0 escape have 0x80 set.\<close>

definition e0_keys :: "u8 \<Rightarrow> u8 \<Rightarrow> u8 \<Rightarrow> u8" where
  "e0_keys kp_enter kp_div d =
     (case map_of [(0x9C, kp_enter), (0xB5, kp_div), (0xC8, 0xE2), (0xD0, 0xE3), (0xC9, 0xE6), (0xD1, 0xE7),
        (0xCB, 0xE4), (0xCD, 0xE5), (0x97, 0xE0), (0xCF, 0xE1), (0xD2, 0xE8), (0xD3, 0xE9)] d of
        None \<Rightarrow> 0 | Some c \<Rightarrow> c)"

definition keypad :: "u8 list" where
  "keypad = [0, 42, 0, 32] @ replicate 13 0 @ map of_char ''789-456+1230.'' @ replicate 4 0"

definition normalrows :: "u8 list" where
  "normalrows = [0, 0x1B] @ map of_char ''1234567890-='' @ [8, 9] @ map of_char ''qwertyuiop[]'' @ [10, 0] @
     map of_char ''asdfghjkl;'' @ [39, 96, 0, 92] @ map of_char ''zxcvbnm,./'' @ keypad"

definition shiftrows :: "u8 list" where
  "shiftrows = [0, 27] @ map of_char ''!@#$%^&*()_+'' @ [8, 9] @ map of_char ''QWERTYUIOP{}'' @ [10, 0] @
     map of_char ''ASDFGHJKL:'' @ [34, 126, 0, 124] @ map of_char ''ZXCVBNM<>?'' @ keypad"

definition ctlrows :: "u8 list" where
  "ctlrows = (let C = map (\<lambda>c. of_char c - 64) in
     replicate 16 0 @ C ''QWERTYUIOP'' @ [0, 0, 13, 0] @ C ''ASDFGHJKL'' @ [0, 0, 0, 0] @ [92 - 64] @
     C ''ZXCVBNM'' @ [0, 0, 47 - 64, 0, 0])"

definition normalmap :: "u8 \<Rightarrow> u8" where
  "normalmap d = (if unat d < length normalrows then normalrows ! unat d else e0_keys 10 47 d)"

definition shiftmap :: "u8 \<Rightarrow> u8" where
  "shiftmap d = (if unat d < length shiftrows then shiftrows ! unat d else e0_keys 10 47 d)"

definition ctlmap :: "u8 \<Rightarrow> u8" where
  "ctlmap d = (if unat d < length ctlrows then ctlrows ! unat d else e0_keys 13 (47 - 64) d)"

text \<open>\<open>kbdgetc\<close> on a byte of the keyboard: the result and the new value of \<open>shift\<close>.\<close>

definition kbd_byte :: "u32 \<Rightarrow> u8 \<Rightarrow> int \<times> u32" where
  "kbd_byte shift data =
     (if data = 0xE0 then (0, shift OR E0ESC)
      else if data AND 0x80 \<noteq> 0 then
        let data = (if shift AND E0ESC \<noteq> 0 then data else data AND 0x7F)
        in (0, shift AND NOT (shiftcode data OR E0ESC))
      else
        let (data, shift) = (if shift AND E0ESC \<noteq> 0 then (data OR 0x80, shift AND NOT E0ESC) else (data, shift));
            shift = (shift OR shiftcode data) XOR togglecode data;
            k = shift AND (CTL OR SHIFT);
            c = (if k = 0 then normalmap data else if k = SHIFT then shiftmap data else ctlmap data);
            c = (if shift AND CAPSLOCK \<noteq> 0
                 then (if 97 \<le> c \<and> c \<le> 122 then c - 32 else if 65 \<le> c \<and> c \<le> 90 then c + 32 else c)
                 else c)
        in (uint c, shift))"

definition kbdgetc :: "'a devs_scheme \<Rightarrow> int \<times> 'a devs_scheme" where
  "kbdgetc s =
     (let (st, s) = inb 0x64 s in
      if st AND 1 = 0 then (-1, s)
      else let (data, s) = inb 0x60 s; (c, shift) = kbd_byte (kbd_shift s) data
        in (c, s\<lparr>kbd_shift := shift\<rparr>))"

section \<open>Interrupt controllers\<close>

definition T_IRQ0 :: u32 where "T_IRQ0 = 32"
definition IRQ_TIMER :: u32 where "IRQ_TIMER = 0"
definition IRQ_KBD :: u32 where "IRQ_KBD = 1"
definition IRQ_COM1 :: u32 where "IRQ_COM1 = 4"
definition IRQ_IDE :: u32 where "IRQ_IDE = 14"
definition IRQ_ERROR :: u32 where "IRQ_ERROR = 19"
definition IRQ_SPURIOUS :: u32 where "IRQ_SPURIOUS = 31"

definition ioapicread :: "u32 \<Rightarrow> 'a devs_scheme \<Rightarrow> u32 \<times> 'a devs_scheme" where
  "ioapicread reg s = dev_read (Ioapic reg) s"

definition ioapicwrite :: "u32 \<Rightarrow> u32 \<Rightarrow> 'a devs_scheme \<Rightarrow> 'a devs_scheme" where
  "ioapicwrite reg v s = dev_write (Ioapic reg) v s"

fun ioapic_mask :: "nat list \<Rightarrow> 'a devs_scheme \<Rightarrow> 'a devs_scheme" where
  "ioapic_mask [] s = s"
| "ioapic_mask (i # is) s =
     ioapic_mask is (ioapicwrite (0x10 + 2 * of_nat i + 1) 0
       (ioapicwrite (0x10 + 2 * of_nat i) (0x10000 OR (T_IRQ0 + of_nat i)) s))"

definition ioapicinit :: "'a devs_scheme \<Rightarrow> 'a devs_scheme res" where
  "ioapicinit s =
     (let (ver, s) = ioapicread 1 s; maxintr = drop_bit 16 ver AND 0xFF;
          (r, s) = ioapicread 0 s; ident = drop_bit 24 r in
      rbind (if ident \<noteq> ucast (ioapicid s)
             then kprintf ''ioapicinit: id isn't equal to ioapicid; not a MP\<newline>'' [] s else ret s) (\<lambda>s.
      ret (ioapic_mask [0..<Suc (unat maxintr)] s)))"

definition ioapicenable :: "u32 \<Rightarrow> u32 \<Rightarrow> 'a devs_scheme \<Rightarrow> 'a devs_scheme" where
  "ioapicenable irq cpunum s =
     ioapicwrite (0x10 + 2 * irq + 1) (push_bit 24 cpunum) (ioapicwrite (0x10 + 2 * irq) (T_IRQ0 + irq) s)"

definition picinit :: "'a devs_scheme \<Rightarrow> 'a devs_scheme" where
  "picinit s = outb (0xA0 + 1) 0xFF (outb (0x20 + 1) 0xFF s)"

text \<open>Registers of the local APIC, by their index.\<close>

definition lapicw :: "u32 \<Rightarrow> u32 \<Rightarrow> 'a devs_scheme \<Rightarrow> 'a devs_scheme" where
  "lapicw index v s = snd (dev_read (Lapic (0x20 div 4)) (dev_write (Lapic index) v s))"

text \<open>The loop that waits for the delivery of an interprocessor interrupt.\<close>

partial_function (option) wait_delivery :: "'a devs_scheme \<Rightarrow> 'a devs_scheme res" where
  "wait_delivery s =
     (let (v, s) = dev_read (Lapic (0x300 div 4)) s in
      if v AND 0x1000 \<noteq> 0 then wait_delivery s else ret s)"

definition lapicinit :: "'a devs_scheme \<Rightarrow> 'a devs_scheme res" where
  "lapicinit s =
     (if lapic s = 0 then ret s
      else
        let s = lapicw (0xF0 div 4) (0x100 OR (T_IRQ0 + IRQ_SPURIOUS)) s;
            s = lapicw (0x3E0 div 4) 0xB s;
            s = lapicw (0x320 div 4) (0x20000 OR (T_IRQ0 + IRQ_TIMER)) s;
            s = lapicw (0x380 div 4) 10000000 s;
            s = lapicw (0x350 div 4) 0x10000 s;
            s = lapicw (0x360 div 4) 0x10000 s;
            (ver, s) = dev_read (Lapic (0x30 div 4)) s;
            s = (if 4 \<le> drop_bit 16 ver AND 0xFF then lapicw (0x340 div 4) 0x10000 s else s);
            s = lapicw (0x370 div 4) (T_IRQ0 + IRQ_ERROR) s;
            s = lapicw (0x280 div 4) 0 s;
            s = lapicw (0x280 div 4) 0 s;
            s = lapicw (0xB0 div 4) 0 s;
            s = lapicw (0x310 div 4) 0 s;
            s = lapicw (0x300 div 4) (0x80000 OR 0x500 OR 0x8000) s
        in rbind (wait_delivery s) (\<lambda>s. ret (lapicw (0x80 div 4) 0 s)))"

definition lapiceoi :: "'a devs_scheme \<Rightarrow> 'a devs_scheme" where
  "lapiceoi s = (if lapic s \<noteq> 0 then lapicw (0xB0 div 4) 0 s else s)"

definition startup_ipi :: "u8 \<Rightarrow> u32 \<Rightarrow> 'a devs_scheme \<Rightarrow> 'a devs_scheme" where
  "startup_ipi ap addr s =
     lapicw (0x300 div 4) (0x600 OR drop_bit 12 addr) (lapicw (0x310 div 4) (push_bit 24 (ucast ap)) s)"

definition lapicstartap :: "u8 \<Rightarrow> u32 \<Rightarrow> 'a devs_scheme \<Rightarrow> 'a devs_scheme res" where
  "lapicstartap ap addr s =
     (let s = outb 0x70 0xF s;
          s = outb (0x70 + 1) 0x0A s in
      rbind (P2V (push_bit 4 0x40 OR 0x67)) (\<lambda>wrv.
      let s = s\<lparr>mem := put_bytes (mem s) wrv (bytes16 0 @ bytes16 (ucast (drop_bit 4 addr)))\<rparr>;
          s = lapicw (0x310 div 4) (push_bit 24 (ucast ap)) s;
          s = lapicw (0x300 div 4) (0x500 OR 0x8000 OR 0x4000) s;
          s = lapicw (0x300 div 4) (0x500 OR 0x8000) s
      in ret (startup_ipi ap addr (startup_ipi ap addr s))))"

section \<open>Clock\<close>

record rtcdate =
  rtc_second :: u32
  rtc_minute :: u32
  rtc_hour :: u32
  rtc_day :: u32
  rtc_month :: u32
  rtc_year :: u32

definition cmos_read :: "u8 \<Rightarrow> 'a devs_scheme \<Rightarrow> u32 \<times> 'a devs_scheme" where
  "cmos_read reg s = (let (v, s) = inb 0x71 (outb 0x70 reg s) in (ucast v, s))"

definition fill_rtcdate :: "'a devs_scheme \<Rightarrow> rtcdate \<times> 'a devs_scheme" where
  "fill_rtcdate s =
     (let (sec, s) = cmos_read 0x00 s; (mi, s) = cmos_read 0x02 s; (ho, s) = cmos_read 0x04 s;
          (da, s) = cmos_read 0x07 s; (mo, s) = cmos_read 0x08 s; (ye, s) = cmos_read 0x09 s
      in (\<lparr>rtc_second = sec, rtc_minute = mi, rtc_hour = ho, rtc_day = da, rtc_month = mo, rtc_year = ye\<rparr>, s))"

text \<open>The loop that reads the clock until two readings agree.\<close>

partial_function (option) read_stable :: "'a devs_scheme \<Rightarrow> (rtcdate \<times> 'a devs_scheme) res" where
  "read_stable s =
     (let (t1, s) = fill_rtcdate s; (sa, s) = cmos_read 0x0a s in
      if sa AND 0x80 \<noteq> 0 then read_stable s
      else let (t2, s) = fill_rtcdate s in
        if t1 = t2 then ret (t1, s) else read_stable s)"

definition CONV :: "u32 \<Rightarrow> u32" where
  "CONV x = drop_bit 4 x * 10 + (x AND 0xf)"

definition cmostime :: "'a devs_scheme \<Rightarrow> (rtcdate \<times> 'a devs_scheme) res" where
  "cmostime s =
     (let (sb', s) = cmos_read 0x0b s; bcd = (sb' AND 4 = 0) in
      rbind (read_stable s) (\<lambda>(t, s).
      let t = (if bcd
               then \<lparr>rtc_second = CONV (rtc_second t), rtc_minute = CONV (rtc_minute t),
                     rtc_hour = CONV (rtc_hour t), rtc_day = CONV (rtc_day t),
                     rtc_month = CONV (rtc_month t), rtc_year = CONV (rtc_year t)\<rparr>
               else t)
      in ret (t\<lparr>rtc_year := rtc_year t + 2000\<rparr>, s)))"

section \<open>Serial port\<close>

definition COM1 :: u16 where "COM1 = 0x3f8"

fun uart_wait :: "nat \<Rightarrow> 'a devs_scheme \<Rightarrow> 'a devs_scheme" where
  "uart_wait 0 s = s"
| "uart_wait (Suc n) s =
     (let (v, s) = inb (COM1 + 5) s in if v AND 0x20 \<noteq> 0 then s else uart_wait n s)"

definition uartputc :: "u8 \<Rightarrow> 'a devs_scheme \<Rightarrow> 'a devs_scheme" where
  "uartputc c s = (if uart s = 0 then s else outb COM1 c (uart_wait 128 s))"

definition uartgetc :: "'a devs_scheme \<Rightarrow> int \<times> 'a devs_scheme" where
  "uartgetc s =
     (if uart s = 0 then (-1, s)
      else let (v, s) = inb (COM1 + 5) s in
        if v AND 1 = 0 then (-1, s)
        else let (c, s) = inb COM1 s in (uint c, s))"

definition uartinit :: "'a devs_scheme \<Rightarrow> 'a devs_scheme" where
  "uartinit s =
     (let s = outb (COM1 + 2) 0 s;
          s = outb (COM1 + 3) 0x80 s;
          s = outb (COM1 + 0) (of_nat (115200 div 9600)) s;
          s = outb (COM1 + 1) 0 s;
          s = outb (COM1 + 3) 0x03 s;
          s = outb (COM1 + 4) 0 s;
          s = outb (COM1 + 1) 0x01 s;
          (v, s) = inb (COM1 + 5) s in
      if v = 0xFF then s
      else
        let s = s\<lparr>uart := 1\<rparr>;
            (_, s) = inb (COM1 + 2) s;
            (_, s) = inb (COM1 + 0) s;
            s = ioapicenable IRQ_COM1 0 s
        in fold (\<lambda>c. uartputc (of_char c)) ''xv6...\<newline>'' s)"

section \<open>Poweroff\<close>

definition shutdown :: "'a devs_scheme \<Rightarrow> 'a devs_scheme" where
  "shutdown s = outb 0x501 0 s"

section \<open>The processors\<close>

definition NCPU :: nat where "NCPU = 8"

text \<open>The sum of \<open>len\<close> bytes, returned as a byte.\<close>

definition checksum :: "(u32 \<Rightarrow> u8) \<Rightarrow> u32 \<Rightarrow> nat \<Rightarrow> u8" where
  "checksum m addr len = sum_list (get_bytes m addr len)"

text \<open>\<open>struct mp\<close> has 16 bytes: \<open>physaddr\<close> at 4, \<open>imcrp\<close> at 12. The null pointer is 0.\<close>

definition mpsearch1 :: "u32 \<Rightarrow> nat \<Rightarrow> 'a machine_scheme \<Rightarrow> u32 res" where
  "mpsearch1 a len s =
     rbind (P2V a) (\<lambda>addr.
     ret (case find (\<lambda>p. get_bytes (mem s) p 4 = map of_char ''_MP_'' \<and> checksum (mem s) p 16 = 0)
            (map (\<lambda>i. addr + 16 * of_nat i) [0..<len div 16]) of None \<Rightarrow> 0 | Some p \<Rightarrow> p))"

definition mpsearch :: "'a machine_scheme \<Rightarrow> u32 res" where
  "mpsearch s =
     rbind (P2V 0x400) (\<lambda>bda.
     let p = push_bit 4 (push_bit 8 (ucast (mem s (bda + 0x0F))) OR ucast (mem s (bda + 0x0E))) in
     rbind (if p \<noteq> 0 then mpsearch1 p 1024 s
            else let p = (push_bit 8 (ucast (mem s (bda + 0x14))) OR ucast (mem s (bda + 0x13))) * 1024
              in mpsearch1 (p - 1024) 1024 s) (\<lambda>mp.
     if mp \<noteq> 0 then ret mp else mpsearch1 0xF0000 0x10000 s))"

definition read16 :: "(u32 \<Rightarrow> u8) \<Rightarrow> u32 \<Rightarrow> u16" where
  "read16 m a = ucast (m a) OR push_bit 8 (ucast (m (a + 1)))"

text \<open>\<open>struct mpconf\<close> has 44 bytes: \<open>length\<close> at 4, \<open>version\<close> at 6, \<open>lapicaddr\<close> at 36.\<close>

definition mpconfig :: "'a machine_scheme \<Rightarrow> (u32 \<times> u32) option res" where
  "mpconfig s =
     rbind (mpsearch s) (\<lambda>mp.
     if mp = 0 \<or> read32 (mem s) (mp + 4) = 0 then ret None
     else rbind (P2V (read32 (mem s) (mp + 4))) (\<lambda>conf.
       if get_bytes (mem s) conf 4 \<noteq> map of_char ''PCMP'' then ret None
       else if mem s (conf + 6) \<noteq> 1 \<and> mem s (conf + 6) \<noteq> 4 then ret None
       else if checksum (mem s) conf (unat (read16 (mem s) (conf + 4))) \<noteq> 0 then ret None
       else ret (Some (mp, conf))))"

text \<open>
  The loop of \<open>mpinit\<close> over the entries of the table. The \<open>break\<close> of an unknown entry leaves the
  switch and not the loop, so the loop meets the same entry again.
\<close>

partial_function (option) mp_entries :: "u32 \<Rightarrow> u32 \<Rightarrow> bool \<Rightarrow> 'a devs_scheme \<Rightarrow> (bool \<times> 'a devs_scheme) res" where
  "mp_entries p e ismp s =
     (if p < e then
        if mem s p = 0 then
          mp_entries (p + 20) e ismp
            (if ncpu s < NCPU
             then s\<lparr>cpus := (cpus s)(ncpu s := (cpus s (ncpu s))\<lparr>apicid := mem s (p + 1)\<rparr>), ncpu := ncpu s + 1\<rparr>
             else s)
        else if mem s p = 2 then mp_entries (p + 8) e ismp (s\<lparr>ioapicid := mem s (p + 1)\<rparr>)
        else if mem s p = 1 \<or> mem s p = 3 \<or> mem s p = 4 then mp_entries (p + 8) e ismp s
        else mp_entries p e False s
      else ret (ismp, s))"

definition mpinit :: "'a devs_scheme \<Rightarrow> 'a devs_scheme res" where
  "mpinit s =
     rbind (mpconfig s) (\<lambda>found.
     case found of None \<Rightarrow> panic ''Expect to run on an SMP''
     | Some (mp, conf) \<Rightarrow>
         let s = s\<lparr>lapic := read32 (mem s) (conf + 36)\<rparr> in
         rbind (mp_entries (conf + 44) (conf + ucast (read16 (mem s) (conf + 4))) True s) (\<lambda>(ismp, s).
         if \<not> ismp then panic ''Didn't find a suitable machine''
         else if mem s (mp + 12) \<noteq> 0 then
           let s = outb 0x22 0x70 s; (v, s) = inb 0x23 s in ret (outb 0x23 (v OR 1) s)
         else ret s))"

section \<open>The IDE disk\<close>

definition FSSIZE :: u32 where "FSSIZE = 2000"

partial_function (option) ide_ready :: "'a devs_scheme \<Rightarrow> (u8 \<times> 'a devs_scheme) res" where
  "ide_ready s =
     (let (r, s) = inb 0x1f7 s in if r AND (0x80 OR 0x40) \<noteq> 0x40 then ide_ready s else ret (r, s))"

definition idewait :: "bool \<Rightarrow> 'a devs_scheme \<Rightarrow> (int \<times> 'a devs_scheme) res" where
  "idewait checkerr s =
     rbind (ide_ready s) (\<lambda>(r, s). ret (if checkerr \<and> r AND (0x20 OR 0x01) \<noteq> 0 then -1 else 0, s))"

fun probe_disk1 :: "nat \<Rightarrow> 'a devs_scheme \<Rightarrow> 'a devs_scheme" where
  "probe_disk1 0 s = s"
| "probe_disk1 (Suc n) s =
     (let (v, s) = inb 0x1f7 s in if v \<noteq> 0 then s\<lparr>havedisk1 := 1\<rparr> else probe_disk1 n s)"

definition ide_ideinit :: "'a devs_scheme \<Rightarrow> 'a devs_scheme res" where
  "ide_ideinit s =
     (let s = initlock L_ide ''ide'' s;
          s = ioapicenable IRQ_IDE (of_nat (ncpu s) - 1) s in
      rbind (idewait False s) (\<lambda>(_, s).
      ret (outb 0x1f6 0xe0 (probe_disk1 1000 (outb 0x1f6 (0xe0 OR 0x10) s)))))"

text \<open>\<open>outsl\<close> and \<open>insl\<close> on the data port, a word at a time.\<close>

fun outsl :: "u8 list \<Rightarrow> nat \<Rightarrow> 'a devs_scheme \<Rightarrow> 'a devs_scheme" where
  "outsl d 0 s = s"
| "outsl d (Suc n) s = outsl (drop 4 d) n (dev_write (Port 0x1f0) (get32 d 0) s)"

fun insl :: "nat \<Rightarrow> 'a devs_scheme \<Rightarrow> u8 list \<times> 'a devs_scheme" where
  "insl 0 s = ([], s)"
| "insl (Suc n) s =
     (let (v, s) = dev_read (Port 0x1f0) s; (d, s) = insl n s in (bytes32 v @ d, s))"

definition idestart :: "nat option \<Rightarrow> 'a devs_scheme \<Rightarrow> 'a devs_scheme res" where
  "idestart bo s =
     (case bo of None \<Rightarrow> panic ''idestart''
      | Some b \<Rightarrow>
          if FSSIZE \<le> b_blockno (bufs s b) then panic ''incorrect blockno''
          else let spb = of_nat (BSIZE div 512); sector = b_blockno (bufs s b) * spb;
                   read_cmd = (if spb = 1 then 0x20 else 0xc4); write_cmd = (if spb = 1 then 0x30 else 0xc5) in
            if 7 < spb then panic ''idestart''
            else rbind (idewait False s) (\<lambda>(_, s).
              let s = outb 0x3f6 0 s;
                  s = outb 0x1f2 (ucast spb) s;
                  s = outb 0x1f3 (ucast (sector AND 0xff)) s;
                  s = outb 0x1f4 (ucast (drop_bit 8 sector AND 0xff)) s;
                  s = outb 0x1f5 (ucast (drop_bit 16 sector AND 0xff)) s;
                  s = outb 0x1f6 (ucast (0xe0 OR push_bit 4 (b_dev (bufs s b) AND 1) OR
                        (drop_bit 24 sector AND 0x0f))) s
              in ret (if b_flags (bufs s b) AND B_DIRTY \<noteq> 0
                      then outsl (b_data (bufs s b)) (BSIZE div 4) (outb 0x1f7 write_cmd s)
                      else outb 0x1f7 read_cmd s)))"

definition ide_ideintr :: "'a devs_scheme \<Rightarrow> 'a devs_scheme res" where
  "ide_ideintr s =
     rbind (acquire L_ide s) (\<lambda>s.
     case idequeue s of None \<Rightarrow> release L_ide s
     | Some b \<Rightarrow>
         let s = s\<lparr>idequeue := qnext s b\<rparr> in
         rbind (if b_flags (bufs s b) AND B_DIRTY = 0 then
                  rbind (idewait True s) (\<lambda>(r, s).
                  if 0 \<le> r then let (d, s) = insl (BSIZE div 4) s in ret (set_data b d s) else ret s)
                else ret s) (\<lambda>s.
         let s = upd_buf b (\<lambda>r. r\<lparr>b_flags := (b_flags r OR B_VALID) AND NOT B_DIRTY\<rparr>) s in
         rbind (wakeup (C_buf b) s) (\<lambda>s.
         rbind (if idequeue s \<noteq> None then idestart (idequeue s) s else ret s) (release L_ide))))"

text \<open>
  The walk of \<open>iderw\<close> to the end of the queue, where it links \<open>b\<close>. The pointer \<open>pp\<close> is the variable
  \<open>idequeue\<close> (\<open>None\<close>) or the field \<open>qnext\<close> of a buffer.
\<close>

partial_function (option) ide_tail :: "(nat \<Rightarrow> nat option) \<Rightarrow> nat option \<Rightarrow> nat option \<Rightarrow> nat option res" where
  "ide_tail nxt pp target =
     (case target of None \<Rightarrow> ret pp | Some b \<Rightarrow> ide_tail nxt (Some b) (nxt b))"

definition ide_append :: "nat \<Rightarrow> 'a devs_scheme \<Rightarrow> 'a devs_scheme res" where
  "ide_append b s =
     (let s = s\<lparr>qnext := (qnext s)(b := None)\<rparr> in
      rbind (ide_tail (qnext s) None (idequeue s)) (\<lambda>pp.
      ret (case pp of None \<Rightarrow> s\<lparr>idequeue := Some b\<rparr>
           | Some q \<Rightarrow> s\<lparr>qnext := (qnext s)(q := Some b)\<rparr>)))"

text \<open>
  \<open>iderw\<close> up to its wait: \<open>True\<close> when the request is done, \<open>False\<close> when the process has gone to sleep
  on the buffer.
\<close>

definition ide_iderw :: "nat \<Rightarrow> 'a devs_scheme \<Rightarrow> (bool \<times> 'a devs_scheme) res" where
  "ide_iderw b s =
     rbind (holdingsleep (SL_buf b) s) (\<lambda>(h, s).
     if \<not> h then panic ''iderw: buf not locked''
     else if b_flags (bufs s b) AND (B_VALID OR B_DIRTY) = B_VALID then panic ''iderw: nothing to do''
     else if b_dev (bufs s b) \<noteq> 0 \<and> havedisk1 s = 0 then panic ''iderw: ide disk 1 not present''
     else rbind (acquire L_ide s) (\<lambda>s.
       rbind (ide_append b s) (\<lambda>s.
       rbind (if idequeue s = Some b then idestart (Some b) s else ret s) (\<lambda>s.
       if b_flags (bufs s b) AND (B_VALID OR B_DIRTY) \<noteq> B_VALID
       then rbind (sleep_enter (C_buf b) (Some L_ide) s) (\<lambda>s. ret (False, s))
       else rbind (release L_ide s) (\<lambda>s. ret (True, s))))))"

end
