(* ===== verification/Ring.thy ===== *)
theory Ring
  imports Prelude
begin

text \<open>
  Bounded byte queues with running 32-bit indices: the interface that the pipes of pipe.c and the
  input buffer of console.c share. The indices wrap around; this is harmless exactly because the size
  of the buffer divides $2^{32}$.
\<close>

section \<open>Contents of a ring\<close>

text \<open>The bytes from index \<open>r\<close> up to index \<open>w\<close>.\<close>

definition ring_contents :: "u32 \<Rightarrow> (u32 \<Rightarrow> u8) \<Rightarrow> u32 \<Rightarrow> u32 \<Rightarrow> u8 list" where
  "ring_contents sz b r w = map (\<lambda>i. b ((r + of_nat i) mod sz)) [0..<unat (w - r)]"

lemma length_ring_contents [simp]: "length (ring_contents sz b r w) = unat (w - r)"
  by (simp add: ring_contents_def)

lemma unat_add_mod:
  fixes a b :: u32
  assumes "m dvd 2 ^ 32"
  shows "unat (a + b) mod m = (unat a + unat b) mod m"
  using assms by (simp add: unat_word_ariths mod_mod_cancel)

lemma add_mod_inj:
  fixes a i j m :: nat
  assumes "(a + i) mod m = (a + j) mod m" "i < m" "j < m"
  shows "i = j"
proof -
  have *: "i = j" if "i \<le> j" "(a + i) mod m = (a + j) mod m" "j < m" for i j
  proof -
    have "m dvd (a + j) - (a + i)"
      using that mod_eq_dvd_iff_nat [of "a + i" "a + j" m] by simp
    then have "m dvd j - i" by simp
    moreover have "j - i < m" using that by simp
    ultimately have "j - i = 0" using nat_dvd_not_less by blast
    with that(1) show ?thesis by simp
  qed
  from * [of i j] * [of j i] assms show ?thesis by (cases "i \<le> j") auto
qed

lemma ring_index_inj:
  fixes r sz :: u32
  assumes "unat sz dvd 2 ^ 32" "i < unat sz" "j < unat sz"
    and "(r + of_nat i) mod sz = (r + of_nat j) mod sz"
  shows "i = j"
proof -
  have small: "unat (of_nat k :: u32) = k" if "k < unat sz" for k
    using that unat_lt32 [of sz] by (simp add: unat_of_nat take_bit_nat_eq_self)
  have "(unat r + i) mod unat sz = (unat r + j) mod unat sz"
    using arg_cong [OF assms(4), of unat] unat_add_mod [OF assms(1), of r "of_nat i"]
      unat_add_mod [OF assms(1), of r "of_nat j"] small assms(2,3)
    by (simp add: unat_mod)
  then show ?thesis
    by (rule add_mod_inj [OF _ assms(2,3)])
qed

lemma ring_get:
  assumes "0 < unat (w - r)"
  shows "ring_contents sz b r w = b (r mod sz) # ring_contents sz b (r + 1) w"
proof -
  obtain n where n: "unat (w - r) = Suc n"
    using assms by (cases "unat (w - r)") auto
  have nz: "w - r \<noteq> 0" using n by auto
  have "w - (r + 1) = (w - r) - 1" by (rule diff_diff_eq [symmetric])
  then have m: "unat (w - (r + 1)) = n"
    using unat_minus_one [OF nz] n by (simp only: diff_Suc_1)
  have "[0..<Suc n] = 0 # map Suc [0..<n]"
    by (simp add: upt_conv_Cons map_Suc_upt del: upt_Suc)
  moreover have "r + of_nat (Suc i) = r + 1 + of_nat i" for i
    by simp
  ultimately show ?thesis
    by (simp only: ring_contents_def n m list.map map_map o_def) simp
qed

lemma ring_put:
  assumes "unat sz dvd 2 ^ 32" "unat (w - r) < unat sz"
  shows "ring_contents sz (b(w mod sz := c)) r (w + 1) = ring_contents sz b r w @ [c]"
proof -
  have "1 + (w - r) \<noteq> 0"
  proof
    assume "1 + (w - r) = 0"
    then have "w - r = - 1" by (metis add.commute eq_neg_iff_add_eq_0)
    moreover have "unat (- 1 :: u32) = 2 ^ 32 - 1"
      by (simp add: unsigned_minus_1_eq_mask mask_eq_exp_minus_1)
    ultimately show False using assms(2) unat_lt32 [of sz] by simp
  qed
  moreover have "w + 1 - r = 1 + (w - r)" by simp
  ultimately have "unat (w + 1 - r) = Suc (unat (w - r))"
    using unatSuc by metis
  moreover have w: "r + of_nat (unat (w - r)) = w"
    by simp
  moreover have "(r + of_nat i) mod sz \<noteq> w mod sz" if "i < unat (w - r)" for i
    using ring_index_inj [OF assms(1), of i "unat (w - r)" r] that assms(2) w by auto
  ultimately show ?thesis
    by (simp add: ring_contents_def)
qed

text \<open>Adjacent segments of a ring, and the segment without its last byte.\<close>

lemma unat_diff_add:
  fixes r w e :: u32
  assumes "unat (w - r) + unat (e - w) < 2 ^ 32"
  shows "unat (e - r) = unat (w - r) + unat (e - w)"
proof -
  have "e - r = (w - r) + (e - w)" by simp
  then have "unat (e - r) = unat ((w - r) + (e - w))" by (rule arg_cong)
  also have "\<dots> = unat (w - r) + unat (e - w)"
    using assms by (simp only: unat_word_ariths mod_less)  (simp)
  finally show ?thesis .
qed

lemma ring_split:
  assumes "unat (w - r) + unat (e - w) < 2 ^ 32"
  shows "ring_contents sz b r e = ring_contents sz b r w @ ring_contents sz b w e"
proof -
  have e: "[0..<unat (e - r)] = [0..<unat (w - r)] @ map (\<lambda>i. i + unat (w - r)) [0..<unat (e - w)]"
    unfolding unat_diff_add [OF assms] upt_add_eq_append [OF le0] map_add_upt by (simp only: add.commute)
  have s: "r + of_nat (i + unat (w - r)) = w + of_nat i" for i
  proof -
    have "(of_nat (unat (w - r)) :: u32) = w - r" by simp
    then have "r + (of_nat i + of_nat (unat (w - r))) = r + (of_nat i + (w - r))" by (simp only:)
    also have "\<dots> = w + of_nat i" by simp
    finally show ?thesis by (simp only: of_nat_add)
  qed
  show ?thesis
    by (simp only: ring_contents_def e map_append map_map o_def s)
qed

lemma ring_unput:
  fixes e w :: u32
  assumes "0 < unat (e - w)"
  shows "unat (e - 1 - w) = unat (e - w) - 1"
    and "ring_contents sz b w e = ring_contents sz b w (e - 1) @ [b ((e - 1) mod sz)]"
proof -
  have nz: "e - w \<noteq> 0" using assms by auto
  have "e - 1 - w = e - w - 1" by (rule diff_right_commute)
  with unat_minus_one [OF nz] show u: "unat (e - 1 - w) = unat (e - w) - 1" by (simp only:)
  obtain n where n: "unat (e - w) = Suc n" using assms by (cases "unat (e - w)") auto
  have "(of_nat (unat (e - 1 - w)) :: u32) = e - 1 - w" by simp
  moreover have un: "unat (e - 1 - w) = n" using u n by (simp only: diff_Suc_1)
  ultimately have "(of_nat n :: u32) = e - 1 - w" by (simp only:)
  then have "w + of_nat n = e - 1" by simp
  then show "ring_contents sz b w e = ring_contents sz b w (e - 1) @ [b ((e - 1) mod sz)]"
    by (simp only: ring_contents_def un n upt_Suc map_append if_True le0 list.map)
qed

section \<open>The interface\<close>

text \<open>
  A ring with its buffer, its indices and its two operations; the laws say what the operations do to
  the fields, and that the size of the buffer divides the range of the indices.
\<close>

locale byte_ring =
  fixes sz :: u32 and buf :: "'s \<Rightarrow> u32 \<Rightarrow> u8" and rd :: "'s \<Rightarrow> u32" and wr :: "'s \<Rightarrow> u32"
    and put :: "u8 \<Rightarrow> 's \<Rightarrow> 's" and get :: "'s \<Rightarrow> u8 \<times> 's"
  assumes size_dvd: "unat sz dvd 2 ^ 32"
    and put_buf: "buf (put c x) = (buf x)(wr x mod sz := c)"
    and put_rd: "rd (put c x) = rd x"
    and put_wr: "wr (put c x) = wr x + 1"
    and get_fst: "fst (get x) = buf x (rd x mod sz)"
    and get_buf: "buf (snd (get x)) = buf x"
    and get_rd: "rd (snd (get x)) = rd x + 1"
    and get_wr: "wr (snd (get x)) = wr x"
begin

text \<open>\<open>put\<close> appends to a ring that is not full, \<open>get\<close> takes the first byte of one that is not empty.\<close>

lemma put_appends:
  "unat (wr x - rd x) < unat sz \<Longrightarrow>
    ring_contents sz (buf (put c x)) (rd (put c x)) (wr (put c x)) = ring_contents sz (buf x) (rd x) (wr x) @ [c]"
  unfolding put_buf put_rd put_wr by (rule ring_put [OF size_dvd])

lemma get_takes:
  "0 < unat (wr x - rd x) \<Longrightarrow>
    ring_contents sz (buf x) (rd x) (wr x) =
      fst (get x) # ring_contents sz (buf (snd (get x))) (rd (snd (get x))) (wr (snd (get x)))"
  by (simp add: get_fst get_buf get_rd get_wr ring_get)

lemma full_iff: "wr x = rd x + sz \<longleftrightarrow> unat (wr x - rd x) = unat sz"
proof -
  have "wr x = rd x + sz \<longleftrightarrow> wr x - rd x = sz"
    by (auto simp: algebra_simps)
  then show ?thesis by (simp add: word_unat_eq_iff)
qed

end

end
