(* ===== verification/Pipe.thy ===== *)
theory Pipe
  imports Devices Ring
begin

unbundle bit_operations_syntax

text \<open>
  The two bounded byte queues of the kernel: the pipes of pipe.c and the input line buffer of
  console.c, with the console device. Both keep running indices that are reduced modulo the size of
  the buffer. A call that has to wait for another process or for input does not return when the code
  runs alone (\<open>None\<close>). \<open>pipealloc\<close>, which uses the file table, is in the theory \<open>File\<close>.
\<close>

section \<open>State\<close>

definition PIPESIZE :: u32 where "PIPESIZE = 512"
definition INPUT_BUF :: u32 where "INPUT_BUF = 128"

text \<open>\<open>struct pipe\<close>, found by the address of the page it lies in.\<close>

record pipe =
  pdata :: "u32 \<Rightarrow> u8"
  nread :: u32
  nwrite :: u32
  readopen :: int
  writeopen :: int

text \<open>The variable \<open>input\<close> of console.c.\<close>

record input =
  ibuf :: "u32 \<Rightarrow> u8"
  ir :: u32
  iw :: u32
  ie :: u32

text \<open>The functions a device can have in \<open>devsw\<close>: those of the console.\<close>

datatype device = Console

record pcs = devs +
  pipes :: "u32 \<Rightarrow> pipe"
  inp :: input
  devsw_read :: "nat \<Rightarrow> device option"
  devsw_write :: "nat \<Rightarrow> device option"
  cons_locking :: int

definition upd_pipe :: "u32 \<Rightarrow> (pipe \<Rightarrow> pipe) \<Rightarrow> 'a pcs_scheme \<Rightarrow> 'a pcs_scheme" where
  "upd_pipe p f s = s\<lparr>pipes := (pipes s)(p := f (pipes s p))\<rparr>"

definition is_killed :: "'a ptable_scheme \<Rightarrow> (bool \<times> 'a ptable_scheme) res" where
  "is_killed s = rbind (curproc s) (\<lambda>(p, s). ret (p_killed (procs s p) \<noteq> 0, s))"

section \<open>Pipes\<close>

definition pipe_full :: "pipe \<Rightarrow> bool" where
  "pipe_full p \<longleftrightarrow> nwrite p = nread p + PIPESIZE"

definition pipe_empty :: "pipe \<Rightarrow> bool" where
  "pipe_empty p \<longleftrightarrow> nread p = nwrite p"

text \<open>\<open>p->data[p->nwrite++ % PIPESIZE] = c\<close> and \<open>p->data[p->nread++ % PIPESIZE]\<close>.\<close>

definition pipe_put :: "u8 \<Rightarrow> pipe \<Rightarrow> pipe" where
  "pipe_put c p = p\<lparr>pdata := (pdata p)(nwrite p mod PIPESIZE := c), nwrite := nwrite p + 1\<rparr>"

definition pipe_get :: "pipe \<Rightarrow> u8 \<times> pipe" where
  "pipe_get p = (pdata p (nread p mod PIPESIZE), p\<lparr>nread := nread p + 1\<rparr>)"

definition pipeclose :: "u32 \<Rightarrow> bool \<Rightarrow> 'a pcs_scheme \<Rightarrow> 'a pcs_scheme res" where
  "pipeclose p writable s =
     rbind (acquire (L_pipe p) s) (\<lambda>s.
     rbind (if writable then wakeup (C_nread p) (upd_pipe p (\<lambda>r. r\<lparr>writeopen := 0\<rparr>) s)
            else wakeup (C_nwrite p) (upd_pipe p (\<lambda>r. r\<lparr>readopen := 0\<rparr>) s)) (\<lambda>s.
     if readopen (pipes s p) = 0 \<and> writeopen (pipes s p) = 0
     then rbind (release (L_pipe p) s) (kfree p)
     else release (L_pipe p) s))"

text \<open>
  The loop of \<open>pipewrite\<close> over the remaining \<open>n\<close> bytes. A full pipe ends the call with -1 where the
  read end is closed or the process is killed, and otherwise puts the writer to sleep.
\<close>

fun pipewrite_loop :: "u32 \<Rightarrow> u32 \<Rightarrow> nat \<Rightarrow> 'a pcs_scheme \<Rightarrow> (bool \<times> 'a pcs_scheme) res" where
  "pipewrite_loop p addr 0 s = ret (True, s)"
| "pipewrite_loop p addr (Suc n) s =
     (if pipe_full (pipes s p) then
        rbind (if readopen (pipes s p) = 0 then ret (True, s) else is_killed s) (\<lambda>(stop, s).
        if stop then ret (False, s) else None)
      else rbind (vfetch addr 1 s) (\<lambda>bs.
        pipewrite_loop p (addr + 1) n (upd_pipe p (pipe_put (hd bs)) s)))"

definition pipewrite :: "u32 \<Rightarrow> u32 \<Rightarrow> int \<Rightarrow> 'a pcs_scheme \<Rightarrow> (int \<times> 'a pcs_scheme) res" where
  "pipewrite p addr n s =
     rbind (acquire (L_pipe p) s) (\<lambda>s.
     rbind (pipewrite_loop p addr (nat n) s) (\<lambda>(done, s).
     if \<not> done then rbind (release (L_pipe p) s) (\<lambda>s. ret (-1, s))
     else rbind (wakeup (C_nread p) s) (\<lambda>s.
       rbind (release (L_pipe p) s) (\<lambda>s. ret (n, s)))))"

text \<open>The copying loop of \<open>piperead\<close>, which returns the number of bytes copied.\<close>

fun piperead_loop :: "u32 \<Rightarrow> u32 \<Rightarrow> nat \<Rightarrow> 'a pcs_scheme \<Rightarrow> (int \<times> 'a pcs_scheme) res" where
  "piperead_loop p addr 0 s = ret (0, s)"
| "piperead_loop p addr (Suc n) s =
     (if pipe_empty (pipes s p) then ret (0, s)
      else let (c, q) = pipe_get (pipes s p) in
        rbind (vstore addr [c] (upd_pipe p (\<lambda>_. q) s)) (\<lambda>s.
        rbind (piperead_loop p (addr + 1) n s) (\<lambda>(i, s). ret (i + 1, s))))"

definition piperead :: "u32 \<Rightarrow> u32 \<Rightarrow> int \<Rightarrow> 'a pcs_scheme \<Rightarrow> (int \<times> 'a pcs_scheme) res" where
  "piperead p addr n s =
     rbind (acquire (L_pipe p) s) (\<lambda>s.
     if pipe_empty (pipes s p) \<and> writeopen (pipes s p) \<noteq> 0 then
       rbind (is_killed s) (\<lambda>(k, s).
       if k then rbind (release (L_pipe p) s) (\<lambda>s. ret (-1, s)) else None)
     else rbind (piperead_loop p addr (nat n) s) (\<lambda>(i, s).
       rbind (wakeup (C_nwrite p) s) (\<lambda>s.
       rbind (release (L_pipe p) s) (\<lambda>s. ret (i, s)))))"

section \<open>The screen\<close>

text \<open>
  \<open>cgaputc\<close> on the cursor position, which the device keeps, and the cells of the screen memory
  \<open>crt\<close>. BACKSPACE is 0x100.
\<close>

definition BACKSPACE :: int where "BACKSPACE = 0x100"

text \<open>The end of \<open>cgaputc\<close>: check, scroll, and blank the cell under the cursor.\<close>

definition cga_scroll :: "int \<Rightarrow> (nat \<Rightarrow> u16) \<Rightarrow> (int \<times> (nat \<Rightarrow> u16)) res" where
  "cga_scroll pos crt =
     (if pos < 0 \<or> 25 * 80 < pos then panic ''pos under/overflow''
      else if 24 \<le> pos div 80 then
        let crt = (\<lambda>i. if i < 23 * 80 then crt (i + 80) else crt i);
            pos = pos - 80;
            crt = (\<lambda>i. if nat pos \<le> i \<and> i < 24 * 80 then 0 else crt i)
        in ret (pos, crt(nat pos := 0x20 OR 0x0700))
      else ret (pos, crt(nat pos := 0x20 OR 0x0700)))"

definition cgaputc :: "int \<Rightarrow> int \<Rightarrow> (nat \<Rightarrow> u16) \<Rightarrow> (int \<times> (nat \<Rightarrow> u16)) res" where
  "cgaputc c pos crt =
     (if c = 10 then cga_scroll (pos + (80 - pos mod 80)) crt
      else if c = BACKSPACE then cga_scroll (if 0 < pos then pos - 1 else pos) crt
      else cga_scroll (pos + 1) (crt(nat pos := (word_of_int c AND 0xff) OR 0x0700)))"

text \<open>The characters \<open>consputc\<close> sends to the serial port, which the field \<open>console\<close> collects.\<close>

definition consputc :: "int \<Rightarrow> 'a machine_scheme \<Rightarrow> 'a machine_scheme" where
  "consputc c s = s\<lparr>console := console s @
     (if c = BACKSPACE then [CHR 0x08, CHR 0x20, CHR 0x08] else [char_of (nat (c mod 256))])\<rparr>"

section \<open>Console input\<close>

definition in_full :: "input \<Rightarrow> bool" where
  "in_full i \<longleftrightarrow> \<not> ie i - ir i < INPUT_BUF"

definition in_put :: "u8 \<Rightarrow> input \<Rightarrow> input" where
  "in_put c i = i\<lparr>ibuf := (ibuf i)(ie i mod INPUT_BUF := c), ie := ie i + 1\<rparr>"

definition in_get :: "input \<Rightarrow> u8 \<times> input" where
  "in_get i = (ibuf i (ir i mod INPUT_BUF), i\<lparr>ir := ir i + 1\<rparr>)"

text \<open>The loop for control-U, which erases back to the start of the line.\<close>

partial_function (option) kill_line :: "'a pcs_scheme \<Rightarrow> 'a pcs_scheme res" where
  "kill_line s =
     (if ie (inp s) \<noteq> iw (inp s) \<and> ibuf (inp s) ((ie (inp s) - 1) mod INPUT_BUF) \<noteq> 10
      then kill_line (consputc BACKSPACE (s\<lparr>inp := (inp s)\<lparr>ie := ie (inp s) - 1\<rparr>\<rparr>))
      else ret s)"

text \<open>The switch of \<open>consoleintr\<close> on one character; the first component asks for a process listing.\<close>

definition consoleintr_char :: "int \<Rightarrow> 'a pcs_scheme \<Rightarrow> (bool \<times> 'a pcs_scheme) res" where
  "consoleintr_char c s =
     (if c = 16 then ret (True, s)
      else if c = 21 then rbind (kill_line s) (\<lambda>s. ret (False, s))
      else if c = 8 \<or> c = 127 then
        (if ie (inp s) \<noteq> iw (inp s)
         then ret (False, consputc BACKSPACE (s\<lparr>inp := (inp s)\<lparr>ie := ie (inp s) - 1\<rparr>\<rparr>))
         else ret (False, s))
      else if c \<noteq> 0 \<and> \<not> in_full (inp s) then
        let c = (if c = 13 then 10 else c);
            s = consputc c (s\<lparr>inp := in_put (word_of_int c) (inp s)\<rparr>) in
        if c = 10 \<or> c = 4 \<or> ie (inp s) = ir (inp s) + INPUT_BUF
        then rbind (wakeup C_input (s\<lparr>inp := (inp s)\<lparr>iw := ie (inp s)\<rparr>\<rparr>)) (\<lambda>s. ret (False, s))
        else ret (False, s)
      else ret (False, s))"

text \<open>The loop of \<open>consoleintr\<close>, which ends when \<open>getc\<close> reports that there is no character.\<close>

partial_function (option) consoleintr_loop ::
  "('a pcs_scheme \<Rightarrow> int \<times> 'a pcs_scheme) \<Rightarrow> bool \<Rightarrow> 'a pcs_scheme \<Rightarrow> (bool \<times> 'a pcs_scheme) res" where
  "consoleintr_loop getc doprocdump s =
     (let (c, s) = getc s in
      if 0 \<le> c then
        rbind (consoleintr_char c s) (\<lambda>(d, s). consoleintr_loop getc (doprocdump \<or> d) s)
      else ret (doprocdump, s))"

definition consoleintr :: "('a pcs_scheme \<Rightarrow> int \<times> 'a pcs_scheme) \<Rightarrow> 'a pcs_scheme \<Rightarrow> 'a pcs_scheme res" where
  "consoleintr getc s =
     rbind (acquire L_cons s) (\<lambda>s.
     rbind (consoleintr_loop getc False s) (\<lambda>(doprocdump, s).
     rbind (release L_cons s) (\<lambda>s. if doprocdump then procdump s else ret s)))"

definition kbdintr :: "'a pcs_scheme \<Rightarrow> 'a pcs_scheme res" where
  "kbdintr s = consoleintr kbdgetc s"

definition uartintr :: "'a pcs_scheme \<Rightarrow> 'a pcs_scheme res" where
  "uartintr s = consoleintr uartgetc s"

text \<open>
  The loop of \<open>consoleread\<close>; \<open>target\<close> is the number of bytes asked for. The result is what is left
  to read (\<open>None\<close> where the process was killed while it waited) and the bytes for \<open>dst\<close>, which the
  callers store.
\<close>

fun consoleread_loop :: "int \<Rightarrow> nat \<Rightarrow> 'a pcs_scheme \<Rightarrow> ((int option \<times> u8 list) \<times> 'a pcs_scheme) res" where
  "consoleread_loop target 0 s = ret ((Some 0, []), s)"
| "consoleread_loop target (Suc n) s =
     (if ir (inp s) = iw (inp s) then
        rbind (is_killed s) (\<lambda>(k, s). if k then ret ((None, []), s) else None)
      else let (c, i) = in_get (inp s); s = s\<lparr>inp := i\<rparr> in
        if c = 4 then
          ret ((Some (int (Suc n)), []),
               if int (Suc n) < target then s\<lparr>inp := (inp s)\<lparr>ir := ir (inp s) - 1\<rparr>\<rparr> else s)
        else if c = 10 then ret ((Some (int n), [c]), s)
        else rbind (consoleread_loop target n s) (\<lambda>((left, bs), s). ret ((left, c # bs), s)))"

definition consoleread :: "nat \<Rightarrow> int \<Rightarrow> 'a pcs_scheme \<Rightarrow> ((int \<times> u8 list) \<times> 'a pcs_scheme) res" where
  "consoleread ip n s =
     rbind (iunlock (Some ip) s) (\<lambda>s.
     rbind (acquire L_cons s) (\<lambda>s.
     rbind (if 0 < n then consoleread_loop n (nat n) s else ret ((Some n, []), s)) (\<lambda>((left, bs), s).
     rbind (release L_cons s) (\<lambda>s.
     rbind (ilock (Some ip) s) (\<lambda>s.
     case left of None \<Rightarrow> ret ((-1, bs), s) | Some k \<Rightarrow> ret ((n - k, bs), s))))))"

fun consolewrite_loop :: "u32 \<Rightarrow> nat \<Rightarrow> 'a pcs_scheme \<Rightarrow> 'a pcs_scheme res" where
  "consolewrite_loop buf 0 s = ret s"
| "consolewrite_loop buf (Suc n) s =
     rbind (vfetch buf 1 s) (\<lambda>bs. consolewrite_loop (buf + 1) n (consputc (uint (hd bs)) s))"

definition consolewrite :: "nat \<Rightarrow> u32 \<Rightarrow> int \<Rightarrow> 'a pcs_scheme \<Rightarrow> (int \<times> 'a pcs_scheme) res" where
  "consolewrite ip buf n s =
     rbind (iunlock (Some ip) s) (\<lambda>s.
     rbind (acquire L_cons s) (\<lambda>s.
     rbind (consolewrite_loop buf (nat n) s) (\<lambda>s.
     rbind (release L_cons s) (\<lambda>s.
     rbind (ilock (Some ip) s) (\<lambda>s. ret (n, s))))))"

definition CONSOLE :: nat where "CONSOLE = 1"

definition consoleinit :: "'a pcs_scheme \<Rightarrow> 'a pcs_scheme" where
  "consoleinit s =
     ioapicenable IRQ_KBD 0
       ((initlock L_cons ''console'' s)\<lparr>devsw_write := (devsw_write s)(CONSOLE := Some Console),
         devsw_read := (devsw_read s)(CONSOLE := Some Console), cons_locking := 1\<rparr>)"

section \<open>The two rings\<close>

interpretation pq: byte_ring PIPESIZE pdata nread nwrite pipe_put pipe_get
  by unfold_locales (simp_all add: pipe_put_def pipe_get_def PIPESIZE_def)

interpretation iq: byte_ring INPUT_BUF ibuf ir ie in_put in_get
  by unfold_locales (simp_all add: in_put_def in_get_def INPUT_BUF_def)

end
