(* ===== verification/File.thy ===== *)
theory File
  imports Pipe
begin

unbundle bit_operations_syntax

text \<open>
  file.c: the table of open files, with \<open>pipealloc\<close> of pipe.c and the device branches of \<open>readi\<close> and
  \<open>writei\<close> of fs.c. A pointer to \<open>struct file\<close> is an index into \<open>ftable.file\<close>.
\<close>

section \<open>State\<close>

definition NFILE :: nat where "NFILE = 100"
definition NDEV :: int where "NDEV = 10"

datatype fdtype = FD_NONE | FD_PIPE | FD_INODE

record struct_file =
  f_type :: fdtype
  f_ref :: int
  f_readable :: bool
  f_writable :: bool
  f_pipe :: u32
  f_ip :: nat
  f_off :: u32

record fls = pcs +
  files :: "nat \<Rightarrow> struct_file"

definition upd_file :: "nat \<Rightarrow> (struct_file \<Rightarrow> struct_file) \<Rightarrow> 'a fls_scheme \<Rightarrow> 'a fls_scheme" where
  "upd_file f g s = s\<lparr>files := (files s)(f := g (files s f))\<rparr>"

section \<open>Reading and writing inodes, devices included\<close>

text \<open>\<open>readi\<close> with the bytes it delivers; \<open>readi\<close> itself stores them at \<open>dst\<close>.\<close>

definition readi_bytes :: "nat \<Rightarrow> u32 \<Rightarrow> u32 \<Rightarrow> 'a fls_scheme \<Rightarrow> ((int \<times> u8 list) \<times> 'a fls_scheme) res" where
  "readi_bytes ip off n s =
     (if i_type (inodes s ip) = T_DEV then
        let major = sint (i_major (inodes s ip)) in
        if major < 0 \<or> NDEV \<le> major then ret ((-1, []), s)
        else case devsw_read s (nat major) of
          None \<Rightarrow> ret ((-1, []), s)
        | Some Console \<Rightarrow> consoleread ip (sint n) s
      else readi_file ip off n s)"

definition readi :: "nat \<Rightarrow> u32 \<Rightarrow> u32 \<Rightarrow> u32 \<Rightarrow> 'a fls_scheme \<Rightarrow> (int \<times> 'a fls_scheme) res" where
  "readi ip dst off n s =
     rbind (readi_bytes ip off n s) (\<lambda>((r, bs), s).
     rbind (vstore dst bs s) (\<lambda>s. ret (r, s)))"

definition writei :: "nat \<Rightarrow> u32 \<Rightarrow> u32 \<Rightarrow> u32 \<Rightarrow> 'a fls_scheme \<Rightarrow> (int \<times> 'a fls_scheme) res" where
  "writei ip src off n s =
     (if i_type (inodes s ip) = T_DEV then
        let major = sint (i_major (inodes s ip)) in
        if major < 0 \<or> NDEV \<le> major then ret (-1, s)
        else case devsw_write s (nat major) of
          None \<Rightarrow> ret (-1, s)
        | Some Console \<Rightarrow> consolewrite ip src (sint n) s
      else if writei_refuses ip off n s then ret (-1, s)
      else rbind (vfetch src (unat n) s) (\<lambda>bs. writei_file ip bs off n s))"

section \<open>The file table\<close>

definition fileinit :: "'a fls_scheme \<Rightarrow> 'a fls_scheme" where
  "fileinit s = initlock L_ftable ''ftable'' s"

definition filealloc :: "'a fls_scheme \<Rightarrow> (nat option \<times> 'a fls_scheme) res" where
  "filealloc s =
     rbind (acquire L_ftable s) (\<lambda>s.
     case find (\<lambda>f. f_ref (files s f) = 0) [0..<NFILE] of
       Some f \<Rightarrow> rbind (release L_ftable (upd_file f (\<lambda>r. r\<lparr>f_ref := 1\<rparr>) s)) (\<lambda>s. ret (Some f, s))
     | None \<Rightarrow> rbind (release L_ftable s) (\<lambda>s. ret (None, s)))"

definition filedup :: "nat \<Rightarrow> 'a fls_scheme \<Rightarrow> (nat \<times> 'a fls_scheme) res" where
  "filedup f s =
     rbind (acquire L_ftable s) (\<lambda>s.
     if f_ref (files s f) < 1 then panic ''filedup''
     else rbind (release L_ftable (upd_file f (\<lambda>r. r\<lparr>f_ref := f_ref r + 1\<rparr>) s)) (\<lambda>s. ret (f, s)))"

definition fileclose :: "nat \<Rightarrow> 'a fls_scheme \<Rightarrow> 'a fls_scheme res" where
  "fileclose f s =
     rbind (acquire L_ftable s) (\<lambda>s.
     if f_ref (files s f) < 1 then panic ''fileclose''
     else let s = upd_file f (\<lambda>r. r\<lparr>f_ref := f_ref r - 1\<rparr>) s in
     if 0 < f_ref (files s f) then release L_ftable s
     else let ff = files s f in
       rbind (release L_ftable (upd_file f (\<lambda>r. r\<lparr>f_ref := 0, f_type := FD_NONE\<rparr>) s)) (\<lambda>s.
       case f_type ff of
         FD_PIPE \<Rightarrow> pipeclose (f_pipe ff) (f_writable ff) s
       | FD_INODE \<Rightarrow> rbind (begin_op s) (\<lambda>s. rbind (iput (f_ip ff) s) end_op)
       | FD_NONE \<Rightarrow> ret s))"

text \<open>The fields of \<open>struct stat\<close> are at offsets 0, 4, 8, 12 and 16; the gaps are not written.\<close>

definition store_stat :: "u32 \<Rightarrow> stat \<Rightarrow> 'a vms_scheme \<Rightarrow> 'a vms_scheme res" where
  "store_stat st x s =
     rbind (vstore (st + 4) (bytes32 (st_dev x)) s) (\<lambda>s.
     rbind (vstore (st + 8) (bytes32 (st_ino x)) s) (\<lambda>s.
     rbind (vstore st (bytes16 (st_type x)) s) (\<lambda>s.
     rbind (vstore (st + 12) (bytes16 (st_nlink x)) s) (\<lambda>s.
     vstore (st + 16) (bytes32 (st_size x)) s))))"

definition filestat :: "nat \<Rightarrow> u32 \<Rightarrow> 'a fls_scheme \<Rightarrow> (int \<times> 'a fls_scheme) res" where
  "filestat f st s =
     (if f_type (files s f) = FD_INODE then
        rbind (ilock (Some (f_ip (files s f))) s) (\<lambda>s.
        rbind (store_stat st (stati (inodes s (f_ip (files s f)))) s) (\<lambda>s.
        rbind (iunlock (Some (f_ip (files s f))) s) (\<lambda>s. ret (0, s))))
      else ret (-1, s))"

definition fileread :: "nat \<Rightarrow> u32 \<Rightarrow> int \<Rightarrow> 'a fls_scheme \<Rightarrow> (int \<times> 'a fls_scheme) res" where
  "fileread f addr n s =
     (if \<not> f_readable (files s f) then ret (-1, s)
      else case f_type (files s f) of
        FD_PIPE \<Rightarrow> piperead (f_pipe (files s f)) addr n s
      | FD_INODE \<Rightarrow>
          rbind (ilock (Some (f_ip (files s f))) s) (\<lambda>s.
          rbind (readi (f_ip (files s f)) addr (f_off (files s f)) (word_of_int n) s) (\<lambda>(r, s).
          let s = (if 0 < r then upd_file f (\<lambda>q. q\<lparr>f_off := f_off q + word_of_int r\<rparr>) s else s) in
          rbind (iunlock (Some (f_ip (files s f))) s) (\<lambda>s. ret (r, s))))
      | FD_NONE \<Rightarrow> panic ''fileread'')"

text \<open>
  The loop of \<open>filewrite\<close>, one transaction per turn. A turn that goes on writes \<open>n1 > 0\<close> bytes,
  so \<open>i\<close> grows; the result is \<open>i\<close> at the end.
\<close>

definition max_write :: int where
  "max_write = ((MAXOPBLOCKS - 1 - 1 - 2) div 2) * 512"

function filewrite_loop :: "nat \<Rightarrow> u32 \<Rightarrow> int \<Rightarrow> int \<Rightarrow> 'a fls_scheme \<Rightarrow> (int \<times> 'a fls_scheme) res" where
  "filewrite_loop f addr n i s =
     (if i < n then
        let n1 = min (n - i) max_write in
        rbind (begin_op s) (\<lambda>s.
        rbind (ilock (Some (f_ip (files s f))) s) (\<lambda>s.
        rbind (writei (f_ip (files s f)) (addr + word_of_int i) (f_off (files s f)) (word_of_int n1) s) (\<lambda>(r, s).
        let s = (if 0 < r then upd_file f (\<lambda>q. q\<lparr>f_off := f_off q + word_of_int r\<rparr>) s else s) in
        rbind (iunlock (Some (f_ip (files s f))) s) (\<lambda>s.
        rbind (end_op s) (\<lambda>s.
        if r < 0 then ret (i, s)
        else if r \<noteq> n1 then panic ''short filewrite''
        else filewrite_loop f addr n (i + r) s)))))
      else ret (i, s))"
  by pat_completeness auto

termination filewrite_loop
  by (relation "measure (\<lambda>(f, addr, n, i, s). nat (n - i))") (auto simp: max_write_def MAXOPBLOCKS_def)

definition filewrite :: "nat \<Rightarrow> u32 \<Rightarrow> int \<Rightarrow> 'a fls_scheme \<Rightarrow> (int \<times> 'a fls_scheme) res" where
  "filewrite f addr n s =
     (if \<not> f_writable (files s f) then ret (-1, s)
      else case f_type (files s f) of
        FD_PIPE \<Rightarrow> pipewrite (f_pipe (files s f)) addr n s
      | FD_INODE \<Rightarrow>
          rbind (filewrite_loop f addr n 0 s) (\<lambda>(i, s). ret (if i = n then n else -1, s))
      | FD_NONE \<Rightarrow> panic ''filewrite'')"

section \<open>Creating a pipe\<close>

text \<open>The part of \<open>pipealloc\<close> behind the label \<open>bad\<close>, where no pipe has been allocated.\<close>

definition close_opt :: "nat option \<Rightarrow> 'a fls_scheme \<Rightarrow> 'a fls_scheme res" where
  "close_opt f s = (case f of None \<Rightarrow> ret s | Some f \<Rightarrow> fileclose f s)"

definition pipealloc :: "'a fls_scheme \<Rightarrow> ((nat \<times> nat) option \<times> 'a fls_scheme) res" where
  "pipealloc s =
     rbind (filealloc s) (\<lambda>(f0, s).
     case f0 of None \<Rightarrow> ret (None, s)
     | Some f0 \<Rightarrow>
         rbind (filealloc s) (\<lambda>(f1, s).
         case f1 of None \<Rightarrow> rbind (close_opt (Some f0) s) (\<lambda>s. ret (None, s))
         | Some f1 \<Rightarrow>
             rbind (kalloc s) (\<lambda>(p, s).
             if p = 0 then
               rbind (close_opt (Some f0) s) (\<lambda>s.
               rbind (close_opt (Some f1) s) (\<lambda>s. ret (None, s)))
             else
               let s = initlock (L_pipe p) ''pipe'' (upd_pipe p
                     (\<lambda>r. r\<lparr>readopen := 1, writeopen := 1, nwrite := 0, nread := 0\<rparr>) s);
                   s = upd_file f0 (\<lambda>r. r\<lparr>f_type := FD_PIPE, f_readable := True, f_writable := False, f_pipe := p\<rparr>) s;
                   s = upd_file f1 (\<lambda>r. r\<lparr>f_type := FD_PIPE, f_readable := False, f_writable := True, f_pipe := p\<rparr>) s
               in ret (Some (f0, f1), s))))"

end
