(* ===== verification/Life.thy ===== *)
theory Life
  imports File
begin

unbundle bit_operations_syntax

text \<open>
  The life of a process: \<open>userinit\<close>, \<open>nicefork\<close>, \<open>fork\<close>, \<open>exit\<close>, \<open>wait\<close> and \<open>forkret\<close> of proc.c,
  \<open>loaduvm\<close> of vm.c and \<open>exec\<close> of exec.c. A trap frame lies in kernel memory at the address \<open>p_tf\<close>.
\<close>

section \<open>State and trap frames\<close>

definition NOFILE :: nat where "NOFILE = 16"
definition MAXARG :: nat where "MAXARG = 32"

text \<open>The static variable \<open>first\<close> of \<open>forkret\<close>, and the image of initcode.S in kernel memory.\<close>

record lifes = fls +
  forkret_first :: int
  initcode_start :: u32
  initcode_size :: u32

text \<open>Offsets of the fields of \<open>struct trapframe\<close>, which has 76 bytes.\<close>

definition TF_EAX :: u32 where "TF_EAX = 28"
definition TF_ES :: u32 where "TF_ES = 40"
definition TF_DS :: u32 where "TF_DS = 44"
definition TF_TRAPNO :: u32 where "TF_TRAPNO = 48"
definition TF_ERR :: u32 where "TF_ERR = 52"
definition TF_EIP :: u32 where "TF_EIP = 56"
definition TF_CS :: u32 where "TF_CS = 60"
definition TF_EFLAGS :: u32 where "TF_EFLAGS = 64"
definition TF_ESP :: u32 where "TF_ESP = 68"
definition TF_SS :: u32 where "TF_SS = 72"
definition TF_LEN :: nat where "TF_LEN = 76"

definition put_mem32 :: "u32 \<Rightarrow> u32 \<Rightarrow> 'a machine_scheme \<Rightarrow> 'a machine_scheme" where
  "put_mem32 a v s = s\<lparr>mem := write32 (mem s) a v\<rparr>"

definition put_mem16 :: "u32 \<Rightarrow> u16 \<Rightarrow> 'a machine_scheme \<Rightarrow> 'a machine_scheme" where
  "put_mem16 a v s = s\<lparr>mem := put_bytes (mem s) a (bytes16 v)\<rparr>"

section \<open>The first process\<close>

text \<open>The trap frame that \<open>userinit\<close> builds: user segments, interrupts on, entry at address 0.\<close>

definition user_frame :: "u32 \<Rightarrow> 'a machine_scheme \<Rightarrow> 'a machine_scheme" where
  "user_frame tf s =
     (let ucode = of_nat (SEG_UCODE * 8) OR 3; udata = of_nat (SEG_UDATA * 8) OR 3;
          s = s\<lparr>mem := memset (mem s) tf 0 (of_nat TF_LEN)\<rparr>;
          s = put_mem16 (tf + TF_CS) ucode s;
          s = put_mem16 (tf + TF_DS) udata s;
          s = put_mem16 (tf + TF_ES) udata s;
          s = put_mem16 (tf + TF_SS) udata s;
          s = put_mem32 (tf + TF_EFLAGS) 0x200 s;
          s = put_mem32 (tf + TF_ESP) PGSIZE s
      in put_mem32 (tf + TF_EIP) 0 s)"

definition userinit :: "'a lifes_scheme \<Rightarrow> 'a lifes_scheme res" where
  "userinit s =
     rbind (allocproc s) (\<lambda>(po, s).
     case po of None \<Rightarrow> None
     | Some p \<Rightarrow>
         let s = s\<lparr>initproc := Some p\<rparr> in
         rbind (setupkvm s) (\<lambda>(pgdir, s).
         let s = upd_proc p (\<lambda>r. r\<lparr>p_pgdir := pgdir\<rparr>) s in
         if pgdir = 0 then panic ''userinit: out of memory?''
         else rbind (inituvm pgdir (initcode_start s) (initcode_size s) s) (\<lambda>s.
           let s = upd_proc p (\<lambda>r. r\<lparr>p_sz := PGSIZE\<rparr>) s;
               s = user_frame (p_tf (procs s p)) s;
               s = upd_proc p (\<lambda>r. r\<lparr>nice := 0, virt_deadline := computevd 0 (sint (ticks s)),
                     p_name := ''initcode''\<rparr>) s in
           rbind (namei [SLASH] s) (\<lambda>(ip, s).
           let s = upd_proc p (\<lambda>r. r\<lparr>p_cwd := ip\<rparr>) s in
           rbind (acquire L_ptable s) (\<lambda>s.
           let s = upd_proc p (\<lambda>r. r\<lparr>p_state := RUNNABLE\<rparr>) s in
           rbind (insert_proc p s) (\<lambda>(_, s). release L_ptable s))))))"

section \<open>fork\<close>

text \<open>The loop of \<open>nicefork\<close> over the open files of \<open>cur\<close>.\<close>

fun dup_files :: "nat list \<Rightarrow> nat \<Rightarrow> nat \<Rightarrow> 'a fls_scheme \<Rightarrow> 'a fls_scheme res" where
  "dup_files [] cur np s = ret s"
| "dup_files (i # is) cur np s =
     (case p_ofile (procs s cur) i of
        None \<Rightarrow> dup_files is cur np s
      | Some f \<Rightarrow>
          rbind (filedup f s) (\<lambda>(f, s).
          dup_files is cur np (upd_proc np (\<lambda>r. r\<lparr>p_ofile := (p_ofile r)(i := Some f)\<rparr>) s)))"

definition nicefork :: "int \<Rightarrow> 'a fls_scheme \<Rightarrow> (int \<times> 'a fls_scheme) res" where
  "nicefork nice_value s =
     (if nice_value < NICE_FIRST_LEVEL \<or> NICE_LAST_LEVEL < nice_value then panic ''invalid nice value''
      else rbind (curproc s) (\<lambda>(cur, s).
        rbind (allocproc s) (\<lambda>(npo, s).
        case npo of None \<Rightarrow> ret (-1, s)
        | Some np \<Rightarrow>
            rbind (copyuvm (p_pgdir (procs s cur)) (p_sz (procs s cur)) s) (\<lambda>(pgdir, s).
            let s = upd_proc np (\<lambda>r. r\<lparr>p_pgdir := pgdir\<rparr>) s in
            if pgdir = 0 then
              rbind (kfree (p_kstack (procs s np)) s) (\<lambda>s.
              ret (-1, upd_proc np (\<lambda>r. r\<lparr>p_kstack := 0, p_state := UNUSED\<rparr>) s))
            else
              let s = upd_proc np (\<lambda>r. r\<lparr>p_sz := p_sz (procs s cur), p_parent := Some cur\<rparr>) s;
                  tf = p_tf (procs s np);
                  s = s\<lparr>mem := put_bytes (mem s) tf (get_bytes (mem s) (p_tf (procs s cur)) TF_LEN)\<rparr>;
                  s = put_mem32 (tf + TF_EAX) 0 s in
              rbind (dup_files [0..<NOFILE] cur np s) (\<lambda>s.
              rbind (case p_cwd (procs s cur) of None \<Rightarrow> None | Some ip \<Rightarrow> idup ip s) (\<lambda>(ip, s).
              let s = upd_proc np (\<lambda>r. r\<lparr>p_cwd := Some ip, p_name := p_name (procs s cur)\<rparr>) s;
                  pid = p_pid (procs s np);
                  s = upd_proc np (\<lambda>r. r\<lparr>nice := nice_value,
                        virt_deadline := computevd nice_value (sint (ticks s))\<rparr>) s in
              rbind (acquire L_ptable s) (\<lambda>s.
              let s = upd_proc np (\<lambda>r. r\<lparr>p_state := RUNNABLE\<rparr>) s in
              rbind (insert_proc np s) (\<lambda>(_, s).
              rbind (release L_ptable s) (\<lambda>s. ret (pid, s)))))))))) "

definition fork :: "'a fls_scheme \<Rightarrow> (int \<times> 'a fls_scheme) res" where
  "fork s = nicefork 0 s"

definition forkret :: "'a lifes_scheme \<Rightarrow> 'a lifes_scheme res" where
  "forkret s =
     rbind (release L_ptable s) (\<lambda>s.
     if forkret_first s \<noteq> 0
     then rbind (iinit ROOTDEV (s\<lparr>forkret_first := 0\<rparr>)) (initlog ROOTDEV)
     else ret s)"

section \<open>exit and wait\<close>

fun close_files :: "nat list \<Rightarrow> nat \<Rightarrow> 'a fls_scheme \<Rightarrow> 'a fls_scheme res" where
  "close_files [] cur s = ret s"
| "close_files (fd # fds) cur s =
     (case p_ofile (procs s cur) fd of
        None \<Rightarrow> close_files fds cur s
      | Some f \<Rightarrow>
          rbind (fileclose f s) (\<lambda>s.
          close_files fds cur (upd_proc cur (\<lambda>r. r\<lparr>p_ofile := (p_ofile r)(fd := None)\<rparr>) s)))"

text \<open>The channel \<open>wakeup1(p)\<close> wakes, for a process pointer \<open>p\<close>.\<close>

definition proc_chan :: "nat option \<Rightarrow> chan" where
  "proc_chan p = (case p of None \<Rightarrow> NoChan | Some q \<Rightarrow> C_proc q)"

text \<open>The loop of \<open>exit\<close> that passes the children to \<open>init\<close>.\<close>

fun reparent :: "nat list \<Rightarrow> nat \<Rightarrow> 'a ptable_scheme \<Rightarrow> 'a ptable_scheme res" where
  "reparent [] cur s = ret s"
| "reparent (p # ps) cur s =
     (if p_parent (procs s p) = Some cur then
        let s = upd_proc p (\<lambda>r. r\<lparr>p_parent := initproc s\<rparr>) s in
        rbind (if p_state (procs s p) = ZOMBIE then wakeup1 (proc_chan (initproc s)) s else ret s)
          (reparent ps cur)
      else reparent ps cur s)"

text \<open>The part of \<open>exit\<close> from the first \<open>acquire(&ptable.lock)\<close> up to the switch.\<close>

definition exit_sched :: "nat \<Rightarrow> 'a ptable_scheme \<Rightarrow> 'a ptable_scheme res" where
  "exit_sched cur s =
     rbind (acquire L_ptable s) (\<lambda>s.
     rbind (if p_state (procs s cur) = RUNNING \<or> p_state (procs s cur) = RUNNABLE
            then rbind (delete_proc cur s) (\<lambda>(_, s). ret s) else ret s) (\<lambda>s.
     rbind (wakeup1 (proc_chan (p_parent (procs s cur))) s) (\<lambda>s.
     rbind (reparent [0..<NPROC] cur s) (\<lambda>s.
     let s = upd_proc cur (\<lambda>r. r\<lparr>p_state := ZOMBIE\<rparr>) s in
     rbind (release L_ptable s) (\<lambda>s.
     rbind (acquire L_ptable s) (\<lambda>s.
     rbind (sched_enter s) (\<lambda>(ie, s).
     ret (s\<lparr>resume_at := (resume_at s)(cur := In_exit ie)\<rparr>))))))))"

definition exit_enter :: "'a fls_scheme \<Rightarrow> 'a fls_scheme res" where
  "exit_enter s =
     rbind (myproc s) (\<lambda>(po, s).
     if po = initproc s then panic ''init exiting''
     else case po of None \<Rightarrow> None
     | Some cur \<Rightarrow>
         rbind (close_files [0..<NOFILE] cur s) (\<lambda>s.
         rbind (begin_op s) (\<lambda>s.
         rbind (case p_cwd (procs s cur) of None \<Rightarrow> None | Some ip \<Rightarrow> iput ip s) (\<lambda>s.
         rbind (end_op s) (\<lambda>s.
         exit_sched cur (upd_proc cur (\<lambda>r. r\<lparr>p_cwd := None\<rparr>) s))))))"

text \<open>What runs if the scheduler ever switches back to a process that has exited.\<close>

definition exit_leave :: "'a ptable_scheme \<Rightarrow> 'a ptable_scheme res" where
  "exit_leave s = panic ''zombie exit''"

text \<open>How a system call ends for now: it returns a value, or the process has left the CPU in it.\<close>

datatype sysres = Rets int | Parked

definition reap :: "nat \<Rightarrow> 'a ptable_scheme \<Rightarrow> 'a ptable_scheme res" where
  "reap p s =
     rbind (kfree (p_kstack (procs s p)) s) (\<lambda>s.
     let s = upd_proc p (\<lambda>r. r\<lparr>p_kstack := 0\<rparr>) s in
     rbind (freevm (p_pgdir (procs s p)) s) (\<lambda>s.
     ret (upd_proc p (\<lambda>r. r\<lparr>p_pid := 0, p_parent := None, p_name := [], p_killed := 0,
       p_state := UNUSED\<rparr>) s)))"

text \<open>One turn of the endless loop of \<open>wait\<close>, with \<open>ptable.lock\<close> held.\<close>

definition wait_turn :: "nat \<Rightarrow> 'a ptable_scheme \<Rightarrow> (sysres \<times> 'a ptable_scheme) res" where
  "wait_turn cur s =
     (case find (\<lambda>p. p_parent (procs s p) = Some cur \<and> p_state (procs s p) = ZOMBIE) [0..<NPROC] of
        Some p \<Rightarrow>
          let pid = p_pid (procs s p) in
          rbind (reap p s) (\<lambda>s. rbind (release L_ptable s) (\<lambda>s. ret (Rets pid, s)))
      | None \<Rightarrow>
          if (\<forall>p \<in> set [0..<NPROC]. p_parent (procs s p) \<noteq> Some cur) \<or> p_killed (procs s cur) \<noteq> 0
          then rbind (release L_ptable s) (\<lambda>s. ret (Rets (-1), s))
          else rbind (sleep_enter (C_proc cur) (Some L_ptable) s) (\<lambda>s. ret (Parked, s)))"

definition wait :: "'a ptable_scheme \<Rightarrow> (sysres \<times> 'a ptable_scheme) res" where
  "wait s =
     rbind (curproc s) (\<lambda>(cur, s).
     rbind (acquire L_ptable s) (wait_turn cur))"

section \<open>exec\<close>

definition ELF_MAGIC :: u32 where "ELF_MAGIC = 0x464C457F"
definition ELF_PROG_LOAD :: u32 where "ELF_PROG_LOAD = 1"

partial_function (option) load_pages ::
  "u32 \<Rightarrow> u32 \<Rightarrow> nat \<Rightarrow> u32 \<Rightarrow> u32 \<Rightarrow> u32 \<Rightarrow> 'a fls_scheme \<Rightarrow> (int \<times> 'a fls_scheme) res" where
  "load_pages pgdir addr ip offset sz i s =
     (if i < sz then
        rbind (walkpgdir pgdir (addr + i) False s) (\<lambda>(pte, s).
        if pte = 0 then panic ''loaduvm: address should exist''
        else let pa = PTE_ADDR (read32 (mem s) pte); n = (if sz - i < PGSIZE then sz - i else PGSIZE) in
          rbind (P2V pa) (\<lambda>dst.
          rbind (readi ip dst (offset + i) n s) (\<lambda>(r, s).
          if word_of_int r \<noteq> n then ret (-1, s)
          else load_pages pgdir addr ip offset sz (i + PGSIZE) s)))
      else ret (0, s))"

definition loaduvm ::
  "u32 \<Rightarrow> u32 \<Rightarrow> nat \<Rightarrow> u32 \<Rightarrow> u32 \<Rightarrow> 'a fls_scheme \<Rightarrow> (int \<times> 'a fls_scheme) res" where
  "loaduvm pgdir addr ip offset sz s =
     (if addr mod PGSIZE \<noteq> 0 then panic ''loaduvm: addr must be page aligned''
      else load_pages pgdir addr ip offset sz 0 s)"

text \<open>\<open>struct elfhdr\<close> has 52 bytes, \<open>struct proghdr\<close> 32. \<open>None\<close> as a value stands for \<open>goto bad\<close>.\<close>

fun load_segments ::
  "nat \<Rightarrow> u32 \<Rightarrow> nat \<Rightarrow> u32 \<Rightarrow> u32 \<Rightarrow> 'a fls_scheme \<Rightarrow> (u32 option \<times> 'a fls_scheme) res" where
  "load_segments ip pgdir 0 off sz s = ret (Some sz, s)"
| "load_segments ip pgdir (Suc n) off sz s =
     rbind (readi_bytes ip off 32 s) (\<lambda>((r, ph), s).
     if r \<noteq> 32 then ret (None, s)
     else let ty = get32 ph 0; foff = get32 ph 4; vaddr = get32 ph 8;
              filesz = get32 ph 16; memsz = get32 ph 20 in
       if ty \<noteq> ELF_PROG_LOAD then load_segments ip pgdir n (off + 32) sz s
       else if memsz < filesz then ret (None, s)
       else if vaddr + memsz < vaddr then ret (None, s)
       else rbind (allocuvm pgdir sz (vaddr + memsz) s) (\<lambda>(sz, s).
         if sz = 0 then ret (None, s)
         else if vaddr mod PGSIZE \<noteq> 0 then ret (None, s)
         else rbind (loaduvm pgdir vaddr ip foff filesz s) (\<lambda>(r, s).
           if r < 0 then ret (None, s) else load_segments ip pgdir n (off + 32) sz s)))"

text \<open>The loop that pushes the argument strings; \<open>ustack\<close> collects their addresses.\<close>

fun push_args ::
  "u32 \<Rightarrow> cstr list \<Rightarrow> u32 \<Rightarrow> u32 list \<Rightarrow> 'a kmem_scheme \<Rightarrow> ((u32 \<times> u32 list) option \<times> 'a kmem_scheme) res" where
  "push_args pgdir [] sp ustack s = ret (Some (sp, ustack), s)"
| "push_args pgdir (arg # args) sp ustack s =
     (if MAXARG \<le> length ustack then ret (None, s)
      else let sp = (sp - of_nat (length arg + 1)) AND NOT 3 in
        rbind (copyout pgdir sp (arg @ [0]) s) (\<lambda>(r, s).
        if r < 0 then ret (None, s) else push_args pgdir args sp (ustack @ [sp]) s))"

text \<open>The part of the path behind its last slash.\<close>

definition last_elem :: "cstr \<Rightarrow> cstr" where
  "last_elem path = rev (takeWhile (\<lambda>c. c \<noteq> SLASH) (rev path))"

definition exec_bad :: "u32 \<Rightarrow> nat option \<Rightarrow> 'a fls_scheme \<Rightarrow> (int \<times> 'a fls_scheme) res" where
  "exec_bad pgdir ip s =
     rbind (if pgdir \<noteq> 0 then freevm pgdir s else ret s) (\<lambda>s.
     rbind (case ip of None \<Rightarrow> ret s | Some ip \<Rightarrow> rbind (iunlockput ip s) end_op) (\<lambda>s.
     ret (-1, s)))"

text \<open>The last part of \<open>exec\<close>: the name of the process, and the switch to the new image.\<close>

definition exec_commit ::
  "nat \<Rightarrow> cstr \<Rightarrow> u32 \<Rightarrow> u32 \<Rightarrow> u32 \<Rightarrow> u32 \<Rightarrow> 'a fls_scheme \<Rightarrow> (int \<times> 'a fls_scheme) res" where
  "exec_commit cur path pgdir sz entry sp s =
     (let s = upd_proc cur (\<lambda>r. r\<lparr>p_name := map (\<lambda>b. char_of (unat b)) (take 15 (last_elem path))\<rparr>) s;
          oldpgdir = p_pgdir (procs s cur);
          s = upd_proc cur (\<lambda>r. r\<lparr>p_pgdir := pgdir, p_sz := sz\<rparr>) s;
          s = put_mem32 (p_tf (procs s cur) + TF_EIP) entry s;
          s = put_mem32 (p_tf (procs s cur) + TF_ESP) sp s in
      rbind (switchuvm (Some (p_kstack (procs s cur), pgdir)) s) (\<lambda>s.
      rbind (freevm oldpgdir s) (\<lambda>s. ret (0, s))))"

text \<open>The middle part of \<open>exec\<close>: the user stack with the arguments.\<close>

definition exec_stack ::
  "nat \<Rightarrow> cstr \<Rightarrow> cstr list \<Rightarrow> u32 \<Rightarrow> u32 \<Rightarrow> u32 \<Rightarrow> 'a fls_scheme \<Rightarrow> (int \<times> 'a fls_scheme) res" where
  "exec_stack cur path argv pgdir sz entry s =
     (let sz = PGROUNDUP sz in
      rbind (allocuvm pgdir sz (sz + 2 * PGSIZE) s) (\<lambda>(sz, s).
      if sz = 0 then exec_bad pgdir None s
      else rbind (clearpteu pgdir (sz - 2 * PGSIZE) s) (\<lambda>s.
        rbind (push_args pgdir argv sz [] s) (\<lambda>(pushed, s).
        case pushed of None \<Rightarrow> exec_bad pgdir None s
        | Some (sp, ustack) \<Rightarrow>
            let argc = of_nat (length ustack);
                words = [0xffffffff, argc, sp - (argc + 1) * 4] @ ustack @ [0];
                sp = sp - (3 + argc + 1) * 4 in
            rbind (copyout pgdir sp (concat (map bytes32 words)) s) (\<lambda>(r, s).
            if r < 0 then exec_bad pgdir None s
            else exec_commit cur path pgdir sz entry sp s)))))"

definition exec :: "cstr \<Rightarrow> cstr list \<Rightarrow> 'a fls_scheme \<Rightarrow> (int \<times> 'a fls_scheme) res" where
  "exec path argv s =
     rbind (curproc s) (\<lambda>(cur, s).
     rbind (begin_op s) (\<lambda>s.
     rbind (namei path s) (\<lambda>(ipo, s).
     case ipo of
       None \<Rightarrow>
         rbind (end_op s) (\<lambda>s.
         rbind (kprintf ''exec: fail\<newline>'' [] s) (\<lambda>s. ret (-1, s)))
     | Some ip \<Rightarrow>
         rbind (ilock (Some ip) s) (\<lambda>s.
         rbind (readi_bytes ip 0 52 s) (\<lambda>((r, elf), s).
         if r \<noteq> 52 then exec_bad 0 (Some ip) s
         else if get32 elf 0 \<noteq> ELF_MAGIC then exec_bad 0 (Some ip) s
         else rbind (setupkvm s) (\<lambda>(pgdir, s).
           if pgdir = 0 then exec_bad 0 (Some ip) s
           else rbind (load_segments ip pgdir (unat (get16 elf 44)) (get32 elf 28) 0 s) (\<lambda>(szo, s).
             case szo of None \<Rightarrow> exec_bad pgdir (Some ip) s
             | Some sz \<Rightarrow>
                 rbind (iunlockput ip s) (\<lambda>s.
                 rbind (end_op s) (\<lambda>s.
                 exec_stack cur path argv pgdir sz (get32 elf 24) s)))))))))"

end
