(* ===== verification/Sys.thy ===== *)
theory Sys
  imports Life
begin

unbundle bit_operations_syntax

text \<open>
  The system calls: argument fetching and the dispatcher (syscall.c), the calls on processes
  (sysproc.c) and those on files (sysfile.c). A call returns a value (\<open>Rets\<close>) or leaves the CPU in the
  middle (\<open>Parked\<close>); a call that blocks inside the file system has no value (\<open>None\<close>).
\<close>

section \<open>Arguments\<close>

definition fetchint :: "u32 \<Rightarrow> 'a ptable_scheme \<Rightarrow> (u32 option \<times> 'a ptable_scheme) res" where
  "fetchint addr s =
     rbind (curproc s) (\<lambda>(p, s).
     if p_sz (procs s p) \<le> addr \<or> p_sz (procs s p) < addr + 4 then ret (None, s)
     else rbind (vfetch addr 4 s) (\<lambda>bs. ret (Some (get32 bs 0), s)))"

text \<open>The loop of \<open>fetchstr\<close> over the \<open>n\<close> bytes up to the end of the process.\<close>

fun scan_string :: "u32 \<Rightarrow> nat \<Rightarrow> 'a vms_scheme \<Rightarrow> cstr option res" where
  "scan_string a 0 s = ret None"
| "scan_string a (Suc n) s =
     rbind (vfetch a 1 s) (\<lambda>bs.
     if hd bs = 0 then ret (Some [])
     else rbind (scan_string (a + 1) n s) (\<lambda>r. ret (map_option (\<lambda>t. hd bs # t) r)))"

definition fetchstr :: "u32 \<Rightarrow> 'a ptable_scheme \<Rightarrow> (cstr option \<times> 'a ptable_scheme) res" where
  "fetchstr addr s =
     rbind (curproc s) (\<lambda>(p, s).
     if p_sz (procs s p) \<le> addr then ret (None, s)
     else rbind (scan_string addr (unat (p_sz (procs s p) - addr)) s) (\<lambda>r. ret (r, s)))"

definition argint :: "u32 \<Rightarrow> 'a ptable_scheme \<Rightarrow> (u32 option \<times> 'a ptable_scheme) res" where
  "argint n s =
     rbind (curproc s) (\<lambda>(p, s). fetchint (read32 (mem s) (p_tf (procs s p) + TF_ESP) + 4 + 4 * n) s)"

text \<open>Continue with a value that was fetched, and fail with -1 where there is none.\<close>

definition fetched ::
  "('v option \<times> 's) res \<Rightarrow> ('v \<Rightarrow> 's \<Rightarrow> (sysres \<times> 's) res) \<Rightarrow> (sysres \<times> 's) res" where
  "fetched m k = rbind m (\<lambda>(v, s). case v of None \<Rightarrow> ret (Rets (-1), s) | Some x \<Rightarrow> k x s)"

definition argptr :: "u32 \<Rightarrow> int \<Rightarrow> 'a ptable_scheme \<Rightarrow> (u32 option \<times> 'a ptable_scheme) res" where
  "argptr n sz s =
     rbind (curproc s) (\<lambda>(p, s).
     rbind (argint n s) (\<lambda>(v, s).
     case v of None \<Rightarrow> ret (None, s)
     | Some i \<Rightarrow>
         if sz < 0 \<or> p_sz (procs s p) \<le> i \<or> p_sz (procs s p) < i + word_of_int sz then ret (None, s)
         else ret (Some i, s)))"

definition argstr :: "u32 \<Rightarrow> 'a ptable_scheme \<Rightarrow> (cstr option \<times> 'a ptable_scheme) res" where
  "argstr n s =
     rbind (argint n s) (\<lambda>(v, s). case v of None \<Rightarrow> ret (None, s) | Some addr \<Rightarrow> fetchstr addr s)"

definition rets :: "(int \<times> 's) res \<Rightarrow> (sysres \<times> 's) res" where
  "rets m = rbind m (\<lambda>(r, s). ret (Rets r, s))"

section \<open>Calls on processes\<close>

definition sys_fork :: "'a fls_scheme \<Rightarrow> (sysres \<times> 'a fls_scheme) res" where
  "sys_fork s = rets (fork s)"

definition sys_exit :: "'a fls_scheme \<Rightarrow> (sysres \<times> 'a fls_scheme) res" where
  "sys_exit s = rbind (exit_enter s) (\<lambda>s. ret (Parked, s))"

definition sys_wait :: "'a fls_scheme \<Rightarrow> (sysres \<times> 'a fls_scheme) res" where
  "sys_wait s = wait s"

definition sys_kill :: "'a fls_scheme \<Rightarrow> (sysres \<times> 'a fls_scheme) res" where
  "sys_kill s = fetched (argint 0 s) (\<lambda>pid s. rets (kill (sint pid) s))"

definition sys_getpid :: "'a fls_scheme \<Rightarrow> (sysres \<times> 'a fls_scheme) res" where
  "sys_getpid s = rbind (curproc s) (\<lambda>(p, s). ret (Rets (p_pid (procs s p)), s))"

definition sys_sbrk :: "'a fls_scheme \<Rightarrow> (sysres \<times> 'a fls_scheme) res" where
  "sys_sbrk s =
     fetched (argint 0 s) (\<lambda>n s.
     rbind (curproc s) (\<lambda>(p, s).
     let addr = sint (p_sz (procs s p)) in
     rbind (growproc (sint n) s) (\<lambda>(r, s). ret (Rets (if r < 0 then -1 else addr), s))))"

text \<open>One turn of the loop of \<open>sys_sleep\<close>, with \<open>tickslock\<close> held.\<close>

definition sleep_turn :: "u32 \<Rightarrow> u32 \<Rightarrow> 'a ptable_scheme \<Rightarrow> (sysres \<times> 'a ptable_scheme) res" where
  "sleep_turn ticks0 n s =
     (if ticks s - ticks0 < n then
        rbind (is_killed s) (\<lambda>(k, s).
        if k then rbind (release L_ticks s) (\<lambda>s. ret (Rets (-1), s))
        else rbind (sleep_enter C_ticks (Some L_ticks) s) (\<lambda>s. ret (Parked, s)))
      else rbind (release L_ticks s) (\<lambda>s. ret (Rets 0, s)))"

definition sys_sleep :: "'a fls_scheme \<Rightarrow> (sysres \<times> 'a fls_scheme) res" where
  "sys_sleep s =
     fetched (argint 0 s) (\<lambda>n s.
     rbind (acquire L_ticks s) (\<lambda>s. sleep_turn (ticks s) n s))"

definition sys_uptime :: "'a fls_scheme \<Rightarrow> (sysres \<times> 'a fls_scheme) res" where
  "sys_uptime s =
     rbind (acquire L_ticks s) (\<lambda>s.
     let xticks = sint (ticks s) in
     rbind (release L_ticks s) (\<lambda>s. ret (Rets xticks, s)))"

definition sys_yield :: "'a fls_scheme \<Rightarrow> (sysres \<times> 'a fls_scheme) res" where
  "sys_yield s = rbind (yield_enter s) (\<lambda>s. ret (Parked, s))"

definition sys_shutdown :: "'a fls_scheme \<Rightarrow> (sysres \<times> 'a fls_scheme) res" where
  "sys_shutdown s = ret (Rets 0, shutdown s)"

text \<open>
  \<open>sys_nicefork\<close> compares the result of \<open>argint\<close>, which is 0 or -1, with the bounds for \<open>n\<close>: the
  test never holds. Where the argument cannot be fetched, \<open>n\<close> is not initialised.
\<close>

definition sys_nicefork :: "'a fls_scheme \<Rightarrow> (sysres \<times> 'a fls_scheme) res" where
  "sys_nicefork s =
     rbind (argint 0 s) (\<lambda>(v, s).
     if (if v = None then -1 else 0) < NICE_FIRST_LEVEL then ret (Rets (-1), s)
     else rbind (argint 0 s) (\<lambda>(v, s).
       if NICE_LAST_LEVEL < (if v = None then -1 else 0) then ret (Rets (-1), s)
       else case v of None \<Rightarrow> None | Some n \<Rightarrow> rets (nicefork (sint n) s)))"

definition sys_schedlog :: "'a fls_scheme \<Rightarrow> (sysres \<times> 'a fls_scheme) res" where
  "sys_schedlog s = fetched (argint 0 s) (\<lambda>n s. ret (Rets 0, schedlog (sint n) s))"

section \<open>File descriptors\<close>

definition argfd :: "u32 \<Rightarrow> 'a fls_scheme \<Rightarrow> ((nat \<times> nat) option \<times> 'a fls_scheme) res" where
  "argfd n s =
     rbind (argint n s) (\<lambda>(v, s).
     case v of None \<Rightarrow> ret (None, s)
     | Some w \<Rightarrow>
         let fd = sint w in
         if fd < 0 \<or> int NOFILE \<le> fd then ret (None, s)
         else rbind (curproc s) (\<lambda>(p, s).
           ret (map_option (\<lambda>f. (nat fd, f)) (p_ofile (procs s p) (nat fd)), s)))"

definition set_ofile :: "nat \<Rightarrow> nat option \<Rightarrow> nat \<Rightarrow> 'a fls_scheme \<Rightarrow> 'a fls_scheme" where
  "set_ofile fd f p s = upd_proc p (\<lambda>r. r\<lparr>p_ofile := (p_ofile r)(fd := f)\<rparr>) s"

definition fdalloc :: "nat \<Rightarrow> 'a fls_scheme \<Rightarrow> (int \<times> 'a fls_scheme) res" where
  "fdalloc f s =
     rbind (curproc s) (\<lambda>(p, s).
     case find (\<lambda>fd. p_ofile (procs s p) fd = None) [0..<NOFILE] of
       Some fd \<Rightarrow> ret (int fd, set_ofile fd (Some f) p s)
     | None \<Rightarrow> ret (-1, s))"

definition sys_dup :: "'a fls_scheme \<Rightarrow> (sysres \<times> 'a fls_scheme) res" where
  "sys_dup s =
     fetched (argfd 0 s) (\<lambda>(_, f) s.
     rbind (fdalloc f s) (\<lambda>(fd, s).
     if fd < 0 then ret (Rets (-1), s)
     else rbind (filedup f s) (\<lambda>(_, s). ret (Rets fd, s))))"

definition sys_read :: "'a fls_scheme \<Rightarrow> (sysres \<times> 'a fls_scheme) res" where
  "sys_read s =
     fetched (argfd 0 s) (\<lambda>(_, f) s.
     fetched (argint 2 s) (\<lambda>n s.
     fetched (argptr 1 (sint n) s) (\<lambda>p s. rets (fileread f p (sint n) s))))"

definition sys_write :: "'a fls_scheme \<Rightarrow> (sysres \<times> 'a fls_scheme) res" where
  "sys_write s =
     fetched (argfd 0 s) (\<lambda>(_, f) s.
     fetched (argint 2 s) (\<lambda>n s.
     fetched (argptr 1 (sint n) s) (\<lambda>p s. rets (filewrite f p (sint n) s))))"

definition sys_close :: "'a fls_scheme \<Rightarrow> (sysres \<times> 'a fls_scheme) res" where
  "sys_close s =
     fetched (argfd 0 s) (\<lambda>(fd, f) s.
     rbind (curproc s) (\<lambda>(p, s).
     rbind (fileclose f (set_ofile fd None p s)) (\<lambda>s. ret (Rets 0, s))))"

definition sys_fstat :: "'a fls_scheme \<Rightarrow> (sysres \<times> 'a fls_scheme) res" where
  "sys_fstat s =
     fetched (argfd 0 s) (\<lambda>(_, f) s.
     fetched (argptr 1 20 s) (\<lambda>st s. rets (filestat f st s)))"

section \<open>Links\<close>

definition upd_nlink :: "(u16 \<Rightarrow> u16) \<Rightarrow> nat \<Rightarrow> 'a fss_scheme \<Rightarrow> 'a fss_scheme res" where
  "upd_nlink f ip s = iupdate ip (upd_inode ip (\<lambda>r. r\<lparr>i_nlink := f (i_nlink r)\<rparr>) s)"

definition end_with :: "int \<Rightarrow> 'a logst_scheme \<Rightarrow> (sysres \<times> 'a logst_scheme) res" where
  "end_with r s = rbind (end_op s) (\<lambda>s. ret (Rets r, s))"

text \<open>The part of \<open>sys_link\<close> behind the label \<open>bad\<close>.\<close>

definition link_bad :: "nat \<Rightarrow> 'a fls_scheme \<Rightarrow> (sysres \<times> 'a fls_scheme) res" where
  "link_bad ip s =
     rbind (ilock (Some ip) s) (\<lambda>s.
     rbind (upd_nlink (\<lambda>n. n - 1) ip s) (\<lambda>s.
     rbind (iunlockput ip s) (end_with (-1))))"

definition sys_link :: "'a fls_scheme \<Rightarrow> (sysres \<times> 'a fls_scheme) res" where
  "sys_link s =
     fetched (argstr 0 s) (\<lambda>old s.
     fetched (argstr 1 s) (\<lambda>new s.
     rbind (begin_op s) (\<lambda>s.
     rbind (namei old s) (\<lambda>(ipo, s).
     case ipo of None \<Rightarrow> end_with (-1) s
     | Some ip \<Rightarrow>
         rbind (ilock (Some ip) s) (\<lambda>s.
         if i_type (inodes s ip) = T_DIR then rbind (iunlockput ip s) (end_with (-1))
         else rbind (upd_nlink (\<lambda>n. n + 1) ip s) (\<lambda>s.
           rbind (iunlock (Some ip) s) (\<lambda>s.
           rbind (nameiparent new s) (\<lambda>((dpo, name), s).
           case dpo of None \<Rightarrow> link_bad ip s
           | Some dp \<Rightarrow>
               rbind (ilock (Some dp) s) (\<lambda>s.
               rbind (if i_dev (inodes s dp) \<noteq> i_dev (inodes s ip) then ret (-1, s)
                      else dirlink dp name (i_inum (inodes s ip)) s) (\<lambda>(r, s).
               if r < 0 then rbind (iunlockput dp s) (link_bad ip)
               else rbind (iunlockput dp s) (\<lambda>s.
                 rbind (iput ip s) (end_with 0))))))))))))"

partial_function (option) isdirempty_from :: "nat \<Rightarrow> u32 \<Rightarrow> 'a fss_scheme \<Rightarrow> (bool \<times> 'a fss_scheme) res" where
  "isdirempty_from dp off s =
     (if off < i_size (inodes s dp) then
        rbind (readi_file dp off 16 s) (\<lambda>((r, de), s).
        if r \<noteq> 16 then panic ''isdirempty: readi''
        else if get16 de 0 \<noteq> 0 then ret (False, s)
        else isdirempty_from dp (off + 16) s)
      else ret (True, s))"

definition isdirempty :: "nat \<Rightarrow> 'a fss_scheme \<Rightarrow> (bool \<times> 'a fss_scheme) res" where
  "isdirempty dp s = isdirempty_from dp (2 * 16) s"

definition DOT :: cstr where "DOT = [46]"
definition DOTDOT :: cstr where "DOTDOT = [46, 46]"

text \<open>The part of \<open>sys_unlink\<close> behind the label \<open>bad\<close>.\<close>

definition unlink_bad :: "nat \<Rightarrow> 'a fls_scheme \<Rightarrow> (sysres \<times> 'a fls_scheme) res" where
  "unlink_bad dp s = rbind (iunlockput dp s) (end_with (-1))"

definition sys_unlink :: "'a fls_scheme \<Rightarrow> (sysres \<times> 'a fls_scheme) res" where
  "sys_unlink s =
     fetched (argstr 0 s) (\<lambda>path s.
     rbind (begin_op s) (\<lambda>s.
     rbind (nameiparent path s) (\<lambda>((dpo, name), s).
     case dpo of None \<Rightarrow> end_with (-1) s
     | Some dp \<Rightarrow>
         rbind (ilock (Some dp) s) (\<lambda>s.
         if namecmp name DOT = 0 \<or> namecmp name DOTDOT = 0 then unlink_bad dp s
         else rbind (dirlookup dp name s) (\<lambda>(found, s).
           case found of None \<Rightarrow> unlink_bad dp s
           | Some (ip, off) \<Rightarrow>
               rbind (ilock (Some ip) s) (\<lambda>s.
               if sint (i_nlink (inodes s ip)) < 1 then panic ''unlink: nlink < 1''
               else rbind (if i_type (inodes s ip) = T_DIR then isdirempty ip s else ret (True, s)) (\<lambda>(e, s).
                 if \<not> e then rbind (iunlockput ip s) (unlink_bad dp)
                 else rbind (writei_file dp (replicate 16 0) off 16 s) (\<lambda>(r, s).
                   if r \<noteq> 16 then panic ''unlink: writei''
                   else rbind (if i_type (inodes s ip) = T_DIR then upd_nlink (\<lambda>n. n - 1) dp s else ret s) (\<lambda>s.
                     rbind (iunlockput dp s) (\<lambda>s.
                     rbind (upd_nlink (\<lambda>n. n - 1) ip s) (\<lambda>s.
                     rbind (iunlockput ip s) (end_with 0))))))))))))"

section \<open>Creating and opening\<close>

text \<open>The part of \<open>create\<close> that makes a new inode; \<open>dp\<close> is the locked parent.\<close>

definition create_new ::
  "nat \<Rightarrow> cstr \<Rightarrow> u16 \<Rightarrow> u16 \<Rightarrow> u16 \<Rightarrow> 'a fls_scheme \<Rightarrow> (nat option \<times> 'a fls_scheme) res" where
  "create_new dp name ty major minor s =
     rbind (ialloc (i_dev (inodes s dp)) ty s) (\<lambda>(ip, s).
     rbind (ilock (Some ip) s) (\<lambda>s.
     rbind (iupdate ip (upd_inode ip (\<lambda>r. r\<lparr>i_major := major, i_minor := minor, i_nlink := 1\<rparr>) s)) (\<lambda>s.
     rbind (if ty = T_DIR then
              rbind (upd_nlink (\<lambda>n. n + 1) dp s) (\<lambda>s.
              rbind (dirlink ip DOT (i_inum (inodes s ip)) s) (\<lambda>(r, s).
              if r < 0 then panic ''create dots''
              else rbind (dirlink ip DOTDOT (i_inum (inodes s dp)) s) (\<lambda>(r, s).
                if r < 0 then panic ''create dots'' else ret s)))
            else ret s) (\<lambda>s.
     rbind (dirlink dp name (i_inum (inodes s ip)) s) (\<lambda>(r, s).
     if r < 0 then panic ''create: dirlink''
     else rbind (iunlockput dp s) (\<lambda>s. ret (Some ip, s)))))))"

definition create ::
  "cstr \<Rightarrow> u16 \<Rightarrow> u16 \<Rightarrow> u16 \<Rightarrow> 'a fls_scheme \<Rightarrow> (nat option \<times> 'a fls_scheme) res" where
  "create path ty major minor s =
     rbind (nameiparent path s) (\<lambda>((dpo, name), s).
     case dpo of None \<Rightarrow> ret (None, s)
     | Some dp \<Rightarrow>
         rbind (ilock (Some dp) s) (\<lambda>s.
         rbind (dirlookup dp name s) (\<lambda>(found, s).
         case found of
           Some (ip, _) \<Rightarrow>
             rbind (iunlockput dp s) (\<lambda>s.
             rbind (ilock (Some ip) s) (\<lambda>s.
             if ty = T_FILE \<and> i_type (inodes s ip) = T_FILE then ret (Some ip, s)
             else rbind (iunlockput ip s) (\<lambda>s. ret (None, s))))
         | None \<Rightarrow> create_new dp name ty major minor s)))"

definition O_WRONLY :: u32 where "O_WRONLY = 1"
definition O_RDWR :: u32 where "O_RDWR = 2"
definition O_CREATE :: u32 where "O_CREATE = 0x200"

text \<open>The part of \<open>sys_open\<close> that finds the inode and locks it.\<close>

definition open_inode :: "cstr \<Rightarrow> u32 \<Rightarrow> 'a fls_scheme \<Rightarrow> (nat option \<times> 'a fls_scheme) res" where
  "open_inode path omode s =
     (if omode AND O_CREATE \<noteq> 0 then create path T_FILE 0 0 s
      else rbind (namei path s) (\<lambda>(ipo, s).
        case ipo of None \<Rightarrow> ret (None, s)
        | Some ip \<Rightarrow>
            rbind (ilock (Some ip) s) (\<lambda>s.
            if i_type (inodes s ip) = T_DIR \<and> omode \<noteq> 0
            then rbind (iunlockput ip s) (\<lambda>s. ret (None, s))
            else ret (Some ip, s))))"

definition sys_open :: "'a fls_scheme \<Rightarrow> (sysres \<times> 'a fls_scheme) res" where
  "sys_open s =
     fetched (argstr 0 s) (\<lambda>path s.
     fetched (argint 1 s) (\<lambda>omode s.
     rbind (begin_op s) (\<lambda>s.
     rbind (open_inode path omode s) (\<lambda>(ipo, s).
     case ipo of None \<Rightarrow> end_with (-1) s
     | Some ip \<Rightarrow>
         rbind (filealloc s) (\<lambda>(fo, s).
         rbind (case fo of None \<Rightarrow> ret (-1, s) | Some f \<Rightarrow> fdalloc f s) (\<lambda>(fd, s).
         case fo of
           None \<Rightarrow> rbind (iunlockput ip s) (end_with (-1))
         | Some f \<Rightarrow>
             if fd < 0 then
               rbind (fileclose f s) (\<lambda>s. rbind (iunlockput ip s) (end_with (-1)))
             else rbind (iunlock (Some ip) s) (\<lambda>s.
               rbind (end_op s) (\<lambda>s.
               ret (Rets fd, upd_file f (\<lambda>r. r\<lparr>f_type := FD_INODE, f_ip := ip, f_off := 0,
                 f_readable := (omode AND O_WRONLY = 0),
                 f_writable := (omode AND O_WRONLY \<noteq> 0 \<or> omode AND O_RDWR \<noteq> 0)\<rparr>) s)))))))))"

text \<open>The end of \<open>sys_mkdir\<close> and \<open>sys_mknod\<close>, on the result of \<open>create\<close>.\<close>

definition created :: "(nat option \<times> 'a fls_scheme) res \<Rightarrow> (sysres \<times> 'a fls_scheme) res" where
  "created m =
     rbind m (\<lambda>(ipo, s).
     case ipo of None \<Rightarrow> end_with (-1) s | Some ip \<Rightarrow> rbind (iunlockput ip s) (end_with 0))"

definition sys_mkdir :: "'a fls_scheme \<Rightarrow> (sysres \<times> 'a fls_scheme) res" where
  "sys_mkdir s =
     rbind (begin_op s) (\<lambda>s.
     created (rbind (argstr 0 s) (\<lambda>(po, s).
       case po of None \<Rightarrow> ret (None, s) | Some path \<Rightarrow> create path T_DIR 0 0 s)))"

definition sys_mknod :: "'a fls_scheme \<Rightarrow> (sysres \<times> 'a fls_scheme) res" where
  "sys_mknod s =
     rbind (begin_op s) (\<lambda>s.
     created (rbind (argstr 0 s) (\<lambda>(po, s).
       case po of None \<Rightarrow> ret (None, s)
       | Some path \<Rightarrow>
           rbind (argint 1 s) (\<lambda>(ma, s).
           case ma of None \<Rightarrow> ret (None, s)
           | Some major \<Rightarrow>
               rbind (argint 2 s) (\<lambda>(mi, s).
               case mi of None \<Rightarrow> ret (None, s)
               | Some minor \<Rightarrow> create path T_DEV (ucast major) (ucast minor) s)))))"

definition sys_chdir :: "'a fls_scheme \<Rightarrow> (sysres \<times> 'a fls_scheme) res" where
  "sys_chdir s =
     rbind (curproc s) (\<lambda>(cur, s).
     rbind (begin_op s) (\<lambda>s.
     rbind (rbind (argstr 0 s) (\<lambda>(po, s).
       case po of None \<Rightarrow> ret (None, s) | Some path \<Rightarrow> namei path s)) (\<lambda>(ipo, s).
     case ipo of None \<Rightarrow> end_with (-1) s
     | Some ip \<Rightarrow>
         rbind (ilock (Some ip) s) (\<lambda>s.
         if i_type (inodes s ip) \<noteq> T_DIR then rbind (iunlockput ip s) (end_with (-1))
         else rbind (iunlock (Some ip) s) (\<lambda>s.
           rbind (case p_cwd (procs s cur) of None \<Rightarrow> None | Some d \<Rightarrow> iput d s) (\<lambda>s.
           rbind (end_op s) (\<lambda>s.
           ret (Rets 0, upd_proc cur (\<lambda>r. r\<lparr>p_cwd := Some ip\<rparr>) s))))))))"

text \<open>The loop of \<open>sys_exec\<close>; \<open>n\<close> elements of \<open>argv\<close> are still unused.\<close>

fun fetch_argv :: "u32 \<Rightarrow> nat \<Rightarrow> 'a fls_scheme \<Rightarrow> (cstr list option \<times> 'a fls_scheme) res" where
  "fetch_argv uargv 0 s = ret (None, s)"
| "fetch_argv uargv (Suc n) s =
     rbind (fetchint uargv s) (\<lambda>(v, s).
     case v of None \<Rightarrow> ret (None, s)
     | Some uarg \<Rightarrow>
         if uarg = 0 then ret (Some [], s)
         else rbind (fetchstr uarg s) (\<lambda>(so, s).
           case so of None \<Rightarrow> ret (None, s)
           | Some str \<Rightarrow>
               rbind (fetch_argv (uargv + 4) n s) (\<lambda>(rest, s). ret (map_option (\<lambda>t. str # t) rest, s))))"

definition sys_exec :: "'a fls_scheme \<Rightarrow> (sysres \<times> 'a fls_scheme) res" where
  "sys_exec s =
     fetched (argstr 0 s) (\<lambda>path s.
     fetched (argint 1 s) (\<lambda>uargv s.
     fetched (fetch_argv uargv MAXARG s) (\<lambda>argv s. rets (exec path argv s))))"

definition sys_pipe :: "'a fls_scheme \<Rightarrow> (sysres \<times> 'a fls_scheme) res" where
  "sys_pipe s =
     fetched (argptr 0 8 s) (\<lambda>fd s.
     fetched (pipealloc s) (\<lambda>(rf, wf) s.
     rbind (fdalloc rf s) (\<lambda>(fd0, s).
     rbind (if fd0 < 0 then ret (-1, s) else fdalloc wf s) (\<lambda>(fd1, s).
     if fd0 < 0 \<or> fd1 < 0 then
       rbind (if 0 \<le> fd0 then rbind (curproc s) (\<lambda>(p, s). ret (set_ofile (nat fd0) None p s)) else ret s) (\<lambda>s.
       rbind (fileclose rf s) (\<lambda>s.
       rbind (fileclose wf s) (\<lambda>s. ret (Rets (-1), s))))
     else rbind (vstore fd (bytes32 (word_of_int fd0)) s) (\<lambda>s.
       rbind (vstore (fd + 4) (bytes32 (word_of_int fd1)) s) (\<lambda>s. ret (Rets 0, s)))))))"

section \<open>The dispatcher\<close>

text \<open>The table \<open>syscalls\<close>.\<close>

definition syscalls :: "int \<Rightarrow> ('a fls_scheme \<Rightarrow> (sysres \<times> 'a fls_scheme) res) option" where
  "syscalls num = map_of
     [(1, sys_fork), (2, sys_exit), (3, sys_wait), (4, sys_pipe), (5, sys_read), (6, sys_kill),
      (7, sys_exec), (8, sys_fstat), (9, sys_chdir), (10, sys_dup), (11, sys_getpid), (12, sys_sbrk),
      (13, sys_sleep), (14, sys_uptime), (15, sys_open), (16, sys_write), (17, sys_mknod),
      (18, sys_unlink), (19, sys_link), (20, sys_mkdir), (21, sys_close), (22, sys_yield),
      (23, sys_shutdown), (24, sys_nicefork), (25, sys_schedlog)] num"

text \<open>\<open>curproc->tf->eax = r\<close>.\<close>

definition set_eax :: "nat \<Rightarrow> int \<Rightarrow> 'a ptable_scheme \<Rightarrow> 'a ptable_scheme" where
  "set_eax p r s = put_mem32 (p_tf (procs s p) + TF_EAX) (word_of_int r) s"

text \<open>\<open>syscall\<close>: the result is \<open>False\<close> where the process has left the CPU inside the call.\<close>

definition syscall :: "'a fls_scheme \<Rightarrow> (bool \<times> 'a fls_scheme) res" where
  "syscall s =
     rbind (curproc s) (\<lambda>(p, s).
     let num = sint (read32 (mem s) (p_tf (procs s p) + TF_EAX)) in
     case syscalls num of
       Some f \<Rightarrow>
         rbind (f s) (\<lambda>(r, s).
         case r of Rets v \<Rightarrow> ret (True, set_eax p v s) | Parked \<Rightarrow> ret (False, s))
     | None \<Rightarrow>
         rbind (kprintf ''%d %s: unknown sys call %d\<newline>'' [W (word_of_int (p_pid (procs s p))),
           S (Some (p_name (procs s p))), W (word_of_int num)] s) (\<lambda>s.
         ret (True, set_eax p (-1) s)))"

section \<open>The unchecked nice value\<close>

text \<open>
  \<open>sys_nicefork\<close> compares what \<open>argint\<close> returns, and not the value it has fetched, with the bounds: a nice
  value outside them reaches \<open>nicefork\<close>, which panics.
\<close>

lemma sys_nicefork_unchecked:
  assumes "argint 0 s = ret (Some n, s1)" "argint 0 s1 = ret (Some n, s2)"
    and "sint n < NICE_FIRST_LEVEL \<or> NICE_LAST_LEVEL < sint n"
  shows "sys_nicefork s = panic ''invalid nice value''"
  using assms by (simp add: sys_nicefork_def nicefork_def rets_def NICE_FIRST_LEVEL_def NICE_LAST_LEVEL_def)

end
