(* ===== verification/Trap.thy ===== *)
theory Trap
  imports Sys
begin

unbundle bit_operations_syntax

text \<open>
  trap.c: the interrupt descriptor table and the handler of every trap; and main.c: the start of the
  kernel up to the scheduler. The kernel is the one linked with memide.c.
\<close>

section \<open>State\<close>

record gatedesc =
  off_15_0 :: u32
  g_cs :: u32
  g_args :: u32
  g_rsv1 :: u32
  g_type :: u32
  g_s :: u32
  g_dpl :: u32
  g_p :: u32
  off_31_16 :: u32

text \<open>
  \<open>vectors\<close> is the table of entry points of vectors.S; \<open>cr2\<close> the address of the last page fault;
  the remaining fields are symbols of the linker that main.c uses.
\<close>

record traps = lifes +
  idt :: "nat \<Rightarrow> gatedesc"
  idt_loaded :: bool
  vectors :: "nat \<Rightarrow> u32"
  cr2 :: u32
  entryother_start :: u32
  entryother_size :: u32
  mpenter_addr :: u32
  entrypgdir_addr :: u32
  fs_img :: "nat \<Rightarrow> block"
  fs_img_size :: u32

definition T_SYSCALL :: nat where "T_SYSCALL = 64"

definition SETGATE :: "bool \<Rightarrow> u32 \<Rightarrow> u32 \<Rightarrow> u32 \<Rightarrow> gatedesc" where
  "SETGATE istrap sel off d =
     \<lparr>off_15_0 = off AND 0xffff, g_cs = sel, g_args = 0, g_rsv1 = 0,
      g_type = (if istrap then 0xF else 0xE), g_s = 0, g_dpl = d, g_p = 1, off_31_16 = drop_bit 16 off\<rparr>"

definition tvinit :: "'a traps_scheme \<Rightarrow> 'a traps_scheme" where
  "tvinit s =
     (let kc = of_nat (SEG_KCODE * 8);
          gates = (\<lambda>i. if i < 256 then SETGATE False kc (vectors s i) 0 else idt s i)
      in initlock L_ticks ''time''
           (s\<lparr>idt := gates(T_SYSCALL := SETGATE True kc (vectors s T_SYSCALL) 3)\<rparr>))"

definition idtinit :: "'a traps_scheme \<Rightarrow> 'a traps_scheme" where
  "idtinit s = s\<lparr>idt_loaded := True\<rparr>"

section \<open>The trap handler\<close>

text \<open>The privilege level in the saved code segment: 3 is \<open>DPL_USER\<close>.\<close>

definition tf_cpl :: "u32 \<Rightarrow> 'a machine_scheme \<Rightarrow> u16" where
  "tf_cpl tf s = read16 (mem s) (tf + TF_CS) AND 3"

text \<open>The branch of the timer interrupt.\<close>

definition timer_intr :: "'a devs_scheme \<Rightarrow> 'a devs_scheme res" where
  "timer_intr s =
     rbind (cpuid s) (\<lambda>c.
     rbind (if c = 0 then
              rbind (acquire L_ticks s) (\<lambda>s.
              rbind (wakeup C_ticks (s\<lparr>ticks := ticks s + 1\<rparr>)) (release L_ticks))
            else ret s) (\<lambda>s. ret (lapiceoi s)))"

text \<open>The \<open>default\<close> branch: a trap of the kernel is fatal, one of a process kills it.\<close>

definition unexpected_trap :: "u32 \<Rightarrow> 'a traps_scheme \<Rightarrow> 'a traps_scheme res" where
  "unexpected_trap tf s =
     rbind (myproc s) (\<lambda>(po, s).
     rbind (cpuid s) (\<lambda>c.
     let trapno = read32 (mem s) (tf + TF_TRAPNO); eip = read32 (mem s) (tf + TF_EIP) in
     case (if tf_cpl tf s = 0 then None else po) of
       None \<Rightarrow>
         rbind (kprintf ''unexpected trap %d from cpu %d eip %x (cr2=0x%x)\<newline>''
           [W trapno, W (of_nat c), W eip, W (cr2 s)] s) (\<lambda>s. panic ''trap'')
     | Some p \<Rightarrow>
         rbind (kprintf (''pid %d %s: trap %d err %d on cpu %d '' @ ''eip 0x%x addr 0x%x--kill proc\<newline>'')
           [W (word_of_int (p_pid (procs s p))), S (Some (p_name (procs s p))), W trapno,
            W (read32 (mem s) (tf + TF_ERR)), W (of_nat c), W eip, W (cr2 s)] s) (\<lambda>s.
         ret (upd_proc p (\<lambda>r. r\<lparr>p_killed := 1\<rparr>) s))))"

text \<open>The \<open>switch\<close> on the trap number.\<close>

definition handle_trap :: "u32 \<Rightarrow> 'a traps_scheme \<Rightarrow> 'a traps_scheme res" where
  "handle_trap tf s =
     (let trapno = read32 (mem s) (tf + TF_TRAPNO) in
      if trapno = T_IRQ0 + IRQ_TIMER then timer_intr s
      else if trapno = T_IRQ0 + IRQ_IDE then ret (lapiceoi (ideintr s))
      else if trapno = T_IRQ0 + IRQ_IDE + 1 then ret s
      else if trapno = T_IRQ0 + IRQ_KBD then rbind (kbdintr s) (\<lambda>s. ret (lapiceoi s))
      else if trapno = T_IRQ0 + IRQ_COM1 then rbind (uartintr s) (\<lambda>s. ret (lapiceoi s))
      else if trapno = T_IRQ0 + 7 \<or> trapno = T_IRQ0 + IRQ_SPURIOUS then
        rbind (cpuid s) (\<lambda>c.
        rbind (kprintf ''cpu%d: spurious interrupt at %x:%x\<newline>''
          [W (of_nat c), W (ucast (read16 (mem s) (tf + TF_CS))), W (read32 (mem s) (tf + TF_EIP))] s)
          (\<lambda>s. ret (lapiceoi s)))
      else unexpected_trap tf s)"

text \<open>
  \<open>if(myproc() && myproc()->killed && (tf->cs&3) == DPL_USER) exit();\<close>. The result is \<open>False\<close> where the
  process has left the CPU.
\<close>

definition exit_if_killed :: "u32 \<Rightarrow> 'a fls_scheme \<Rightarrow> (bool \<times> 'a fls_scheme) res" where
  "exit_if_killed tf s =
     rbind (myproc s) (\<lambda>(po, s).
     case po of None \<Rightarrow> ret (True, s)
     | Some p \<Rightarrow>
         if p_killed (procs s p) \<noteq> 0 \<and> tf_cpl tf s = 3
         then rbind (exit_enter s) (\<lambda>s. ret (False, s))
         else ret (True, s))"

text \<open>The accounting of the time slice; \<open>True\<close> where the slice is used up.\<close>

definition count_tick :: "u32 \<Rightarrow> 'a ptable_scheme \<Rightarrow> (bool \<times> 'a ptable_scheme) res" where
  "count_tick tf s =
     rbind (myproc s) (\<lambda>(po, s).
     case po of None \<Rightarrow> ret (False, s)
     | Some p \<Rightarrow>
         if p_state (procs s p) = RUNNING \<and> read32 (mem s) (tf + TF_TRAPNO) = T_IRQ0 + IRQ_TIMER
         then let s = upd_proc p (\<lambda>r. r\<lparr>ticks_left := s32 (ticks_left r - 1)\<rparr>) s
           in ret (ticks_left (procs s p) = 0, s)
         else ret (False, s))"

definition trap_syscall :: "u32 \<Rightarrow> 'a traps_scheme \<Rightarrow> (bool \<times> 'a traps_scheme) res" where
  "trap_syscall tf s =
     rbind (curproc s) (\<lambda>(p, s).
     if p_killed (procs s p) \<noteq> 0 then rbind (exit_enter s) (\<lambda>s. ret (False, s))
     else rbind (syscall (upd_proc p (\<lambda>r. r\<lparr>p_tf := tf\<rparr>) s)) (\<lambda>(back, s).
       if \<not> back then ret (False, s)
       else rbind (curproc s) (\<lambda>(p, s).
         if p_killed (procs s p) \<noteq> 0 then rbind (exit_enter s) (\<lambda>s. ret (False, s))
         else ret (True, s))))"

text \<open>
  \<open>trap\<close>: \<open>True\<close> where it returns to the interrupted code, \<open>False\<close> where the process has left the CPU.
  After the switch back from \<open>yield\<close> what remains is the last test, \<open>exit_if_killed\<close>.
\<close>

definition trap :: "u32 \<Rightarrow> 'a traps_scheme \<Rightarrow> (bool \<times> 'a traps_scheme) res" where
  "trap tf s =
     (if read32 (mem s) (tf + TF_TRAPNO) = of_nat T_SYSCALL then trap_syscall tf s
      else rbind (handle_trap tf s) (\<lambda>s.
        rbind (exit_if_killed tf s) (\<lambda>(go, s).
        if \<not> go then ret (False, s)
        else rbind (count_tick tf s) (\<lambda>(used_up, s).
          if used_up then rbind (yield_enter s) (\<lambda>s. ret (False, s))
          else exit_if_killed tf s))))"

section \<open>main\<close>

text \<open>The end of \<open>mpmain\<close> calls \<open>scheduler\<close>, which does not return.\<close>

definition mpmain :: "'a traps_scheme \<Rightarrow> 'a traps_scheme res" where
  "mpmain s =
     rbind (cpuid s) (\<lambda>c.
     rbind (kprintf ''cpu%d: starting %d\<newline>'' [W (of_nat c), W (of_nat c)] s) (\<lambda>s.
     rbind (mycpu (idtinit s)) (\<lambda>c.
     let s = idtinit s in ret (set_cpu c ((cpus s c)\<lparr>started := 1\<rparr>) s))))"

definition mpenter :: "'a traps_scheme \<Rightarrow> 'a traps_scheme res" where
  "mpenter s =
     rbind (switchkvm s) (\<lambda>s.
     rbind (seginit s) (\<lambda>s.
     rbind (lapicinit s) mpmain))"

text \<open>
  The loop of \<open>startothers\<close>. It waits until the started processor reports in: where none does, it
  does not return.
\<close>

fun start_cpus :: "nat list \<Rightarrow> u32 \<Rightarrow> 'a traps_scheme \<Rightarrow> 'a traps_scheme res" where
  "start_cpus [] code s = ret s"
| "start_cpus (c # cs) code s =
     rbind (mycpu s) (\<lambda>me.
     if c = me then start_cpus cs code s
     else rbind (kalloc s) (\<lambda>(stack, s).
       let s = put_mem32 (code - 4) (stack + KSTACKSIZE) s;
           s = put_mem32 (code - 8) (mpenter_addr s) s in
       rbind (V2P (entrypgdir_addr s)) (\<lambda>pd.
       let s = put_mem32 (code - 12) pd s in
       rbind (V2P code) (\<lambda>pc.
       rbind (lapicstartap (apicid (cpus s c)) pc s) (\<lambda>s.
       if started (cpus s c) = 0 then None else start_cpus cs code s)))))"

definition startothers :: "'a traps_scheme \<Rightarrow> 'a traps_scheme res" where
  "startothers s =
     rbind (P2V 0x7000) (\<lambda>code.
     let s = s\<lparr>mem := memmove (mem s) code (entryother_start s) (entryother_size s)\<rparr>
     in start_cpus [0..<ncpu s] code s)"

definition main :: "'a traps_scheme \<Rightarrow> 'a traps_scheme res" where
  "main s =
     rbind (P2V (4 * 1024 * 1024)) (\<lambda>lim.
     rbind (kinit1 (kend s) lim s) (\<lambda>s.
     rbind (kvmalloc s) (\<lambda>s.
     rbind (mpinit s) (\<lambda>s.
     rbind (lapicinit s) (\<lambda>s.
     rbind (seginit s) (\<lambda>s.
     rbind (ioapicinit (picinit s)) (\<lambda>s.
     rbind (pinit (uartinit (consoleinit s))) (\<lambda>s.
     let s = fileinit (binit (tvinit s)); s = ideinit (fs_img s) (fs_img_size s) s in
     rbind (startothers s) (\<lambda>s.
     rbind (P2V PHYSTOP) (\<lambda>top.
     rbind (kinit2 lim top s) (\<lambda>s.
     rbind (userinit s) mpmain)))))))))))"

end
