(* ===== verification/ProcInv.thy ===== *)
theory ProcInv
  imports Proc
begin

text \<open>
  The invariant of the process table: the skip list holds exactly the processes that are RUNNABLE
  or RUNNING, in the order of their virtual deadlines, and every operation of proc.c keeps it.
\<close>

section \<open>The invariant\<close>

definition schedulable :: "procstate \<Rightarrow> bool" where
  "schedulable st \<longleftrightarrow> st = RUNNABLE \<or> st = RUNNING"

text \<open>
  The list of \<open>ptable.level\<close> is \<open>q\<close>, \<open>max_skiplist_level\<close> tells how many levels each process of
  it occupies, and no read in front of the array or through the null pointer yields a process
  (see \<open>delete\<close>, which reads both after its first loop).
\<close>

definition queue_inv :: "'a ptable_scheme \<Rightarrow> nat list \<Rightarrow> bool" where
  "queue_inv s q \<longleftrightarrow>
     skip_rep (level s) (deadline s) q (\<lambda>p. nat (max_skiplist_level (procs s p))) \<and>
     (\<forall>p\<in>set q. 1 \<le> max_skiplist_level (procs s p) \<and> max_skiplist_level (procs s p) \<le> LEVELS) \<and>
     (\<forall>p<NPROC. \<not> skip_stray (level s) p)"

definition ptable_ok :: "'a ptable_scheme \<Rightarrow> bool" where
  "ptable_ok s \<longleftrightarrow> (\<exists>q. queue_inv s q \<and> (\<forall>p<NPROC. p \<in> set q \<longleftrightarrow> schedulable (p_state (procs s p))))"

lemma queue_inv_set:
  assumes "queue_inv s q"
  shows "distinct q" "set q \<subseteq> {..<NPROC}" "sorted (map (\<lambda>p. virt_deadline (procs s p)) q)"
  using sl.rep_queue [of "level s" "deadline s" q] assms
  by (auto simp: queue_inv_def deadline_def)

text \<open>The invariant depends on the nodes and, for queued processes, on deadline and level only.\<close>

lemma queue_inv_cong:
  assumes "queue_inv s q" "level s' = level s"
    and "\<And>p. p \<in> set q \<Longrightarrow> virt_deadline (procs s' p) = virt_deadline (procs s p) \<and>
      max_skiplist_level (procs s' p) = max_skiplist_level (procs s p)"
  shows "queue_inv s' q"
proof -
  let ?L = "\<lambda>s p. nat (max_skiplist_level (procs s p))"
  have "skip_rep (level s) (deadline s) q (?L s)" using assms(1) by (simp add: queue_inv_def)
  then have "skip_rep (level s) (deadline s') q (?L s)"
    by (rule sl.rep_deadlines) (use assms(3) in \<open>simp add: deadline_def\<close>)
  then have "skip_rep (level s) (deadline s') q (?L s')"
    by (rule skip_rep_levels) (use assms(3) in simp)
  with assms show ?thesis by (simp add: queue_inv_def)
qed

section \<open>Insertion and deletion\<close>

lemma kprintf_out: "cprintf fmt args = Some out \<Longrightarrow> kprintf fmt args s = ret (s\<lparr>console := console s @ out\<rparr>)"
  by (simp add: kprintf_def)

lemma same_console: "s\<lparr>console := console s @ []\<rparr> = s"
  by simp

text \<open>The effect of the two operations on the whole state.\<close>

definition requeued :: "nat \<Rightarrow> int \<Rightarrow> nodes \<Rightarrow> u32 \<Rightarrow> string \<Rightarrow> 'a ptable_scheme \<Rightarrow> 'a ptable_scheme" where
  "requeued p m h sd out s = s\<lparr>
     level := h, seed := sd, procs := (procs s)(p := (procs s p)\<lparr>max_skiplist_level := m\<rparr>),
     console := console s @ out\<rparr>"

lemma requeued_simps [simp]:
  "level (requeued p m h sd out s) = h" "mem (requeued p m h sd out s) = mem s"
  "procs (requeued p m h sd out s) = (procs s)(p := (procs s p)\<lparr>max_skiplist_level := m\<rparr>)"
  "locks (requeued p m h sd out s) = locks s" "cpus (requeued p m h sd out s) = cpus s"
  "fl_if (requeued p m h sd out s) = fl_if s" "ncpu (requeued p m h sd out s) = ncpu s"
  "lapicid (requeued p m h sd out s) = lapicid s" "ticks (requeued p m h sd out s) = ticks s"
  "use_lock (requeued p m h sd out s) = use_lock s" "kpgdir (requeued p m h sd out s) = kpgdir s"
  "null_proc (requeued p m h sd out s) = null_proc s" "resume_at (requeued p m h sd out s) = resume_at s"
  "schedlog_active (requeued p m h sd out s) = schedlog_active s"
  by (simp_all add: requeued_def)

lemma insert_proc_ok:
  assumes "queue_inv s q" "p < NPROC" "p \<notin> set q"
  shows "\<exists>m h sd out. insert_proc p s = ret (int m, requeued p (int m) h sd out s) \<and>
    1 \<le> m \<and> int m \<le> LEVELS \<and>
    queue_inv (requeued p (int m) h sd out s) (enqueue (deadline s) p q)"
proof -
  let ?L = "\<lambda>p. nat (max_skiplist_level (procs s p))"
  have rep: "skip_rep (level s) (deadline s) q ?L"
    and lev: "\<forall>p\<in>set q. 1 \<le> max_skiplist_level (procs s p) \<and> max_skiplist_level (procs s p) \<le> LEVELS"
    and str: "\<forall>p<NPROC. \<not> skip_stray (level s) p"
    using assms(1) by (auto simp: queue_inv_def)
  have dp: "deadline s (Some p) = virt_deadline (procs s p)" by (simp add: deadline_def)
  obtain m h sd where i: "insert_heap (level s) (deadline s) (virt_deadline (procs s p)) p (seed s) = ret (m, h, sd)"
    "1 \<le> m" "int m \<le> LEVELS" "skip_rep h (deadline s) (enqueue (deadline s) p q) (?L(p := m))"
    "\<And>r. skip_stray h r = skip_stray (level s) r"
    using sl.ins_law [OF rep assms(2,3), of "seed s", unfolded dp] by blast
  have "\<exists>out. insert_proc p s = ret (int m, requeued p (int m) h sd out s)"
  proof (cases "ins_del_flag s = 0")
    case True
    then show ?thesis
      by (intro exI [of _ "[]"]) (simp add: insert_proc_def i(1) requeued_def upd_proc_def)
  next
    case False
    have "\<exists>out. cprintf ''inserted|[%d]%d\<newline>'' [W a, W b] = Some out" for a b by simp
    with False show ?thesis
      by (auto simp: insert_proc_def i(1) requeued_def upd_proc_def Let_def kprintf_def)
  qed
  then obtain out where r: "insert_proc p s = ret (int m, requeued p (int m) h sd out s)" ..
  let ?s = "requeued p (int m) h sd out s"
  have "(\<lambda>x. nat (max_skiplist_level (procs ?s x))) = ?L(p := m)" by (auto simp: fun_eq_iff)
  moreover have "skip_rep h (deadline ?s) (enqueue (deadline s) p q) (?L(p := m))"
    by (rule sl.rep_deadlines [OF i(4)]) (simp add: deadline_def)
  ultimately have "queue_inv ?s (enqueue (deadline s) p q)"
    using lev str i(2,3,5) by (auto simp: queue_inv_def)
  with r i(2,3) show ?thesis by blast
qed

lemma delete_proc_ok:
  assumes "queue_inv s q" "p \<in> set q"
  shows "\<exists>h out. delete_proc p s =
      ret (max_skiplist_level (procs s p), requeued p (-1) h (seed s) out s) \<and>
    queue_inv (requeued p (-1) h (seed s) out s) (remove1 p q)"
proof -
  let ?L = "\<lambda>p. nat (max_skiplist_level (procs s p))"
  have rep: "skip_rep (level s) (deadline s) q ?L"
    and lev: "\<forall>p\<in>set q. 1 \<le> max_skiplist_level (procs s p) \<and> max_skiplist_level (procs s p) \<le> LEVELS"
    and str: "\<forall>p<NPROC. \<not> skip_stray (level s) p"
    using assms(1) by (auto simp: queue_inv_def)
  have pN: "p < NPROC" and dq: "distinct q" using queue_inv_set [OF assms(1)] assms(2) by auto
  have dp: "deadline s (Some p) = virt_deadline (procs s p)" by (simp add: deadline_def)
  have np: "\<not> skip_stray (level s) p" using str pN by simp
  obtain h where d: "delete_heap (level s) (deadline s) (virt_deadline (procs s p)) p = ret h"
    "skip_rep h (deadline s) (remove1 p q) ?L" "\<And>r. skip_stray h r = skip_stray (level s) r"
    using sl.del_law [OF rep assms(2) np, unfolded dp] by blast
  have "\<exists>out. delete_proc p s =
      ret (max_skiplist_level (procs s p), requeued p (-1) h (seed s) out s)"
  proof (cases "ins_del_flag s = 0")
    case True
    then show ?thesis
      by (intro exI [of _ "[]"]) (simp add: delete_proc_def d(1) requeued_def upd_proc_def)
  next
    case False
    have "\<exists>out. cprintf ''removed|[%d]%d\<newline>'' [W a, W b] = Some out" for a b by simp
    then obtain out where o: "cprintf ''removed|[%d]%d\<newline>'' [W (word_of_int (p_pid (procs s p))),
        W (word_of_int (max_skiplist_level (procs s p)))] = Some out" by blast
    have dl: "deadline (s\<lparr>console := c\<rparr>) = deadline s" for c
      by (simp add: deadline_def fun_eq_iff split: option.split)
    from False o show ?thesis
      by (intro exI [of _ out], simp add: delete_proc_def kprintf_def dl d(1) requeued_def upd_proc_def)
  qed
  then obtain out where r: "delete_proc p s =
      ret (max_skiplist_level (procs s p), requeued p (-1) h (seed s) out s)" ..
  let ?s = "requeued p (-1) h (seed s) out s"
  have pq: "p \<notin> set (remove1 p q)" using dq by simp
  have "skip_rep h (deadline ?s) (remove1 p q) ?L"
    by (rule sl.rep_deadlines [OF d(2)]) (simp add: deadline_def)
  then have "skip_rep h (deadline ?s) (remove1 p q) (\<lambda>x. nat (max_skiplist_level (procs ?s x)))"
    by (rule skip_rep_levels) (use pq in auto)
  then have "queue_inv ?s (remove1 p q)"
    using lev str d(3) dq by (auto simp: queue_inv_def)
  with r show ?thesis by blast
qed

section \<open>Frames\<close>

text \<open>\<open>s'\<close> differs from \<open>s\<close> in the queue, the process records and the console output only.\<close>

definition only_queue :: "'a ptable_scheme \<Rightarrow> 'a ptable_scheme \<Rightarrow> bool" where
  "only_queue s s' \<longleftrightarrow>
     s' = s\<lparr>level := level s', seed := seed s', procs := procs s', console := console s'\<rparr>"

lemma only_queue_refl [simp]: "only_queue s s"
  by (simp add: only_queue_def)

lemma only_queue_iff:
  "only_queue s s' \<longleftrightarrow>
     mem s' = mem s \<and> fl_if s' = fl_if s \<and> lapicid s' = lapicid s \<and> ncpu s' = ncpu s \<and>
     cpus s' = cpus s \<and> locks s' = locks s \<and> use_lock s' = use_lock s \<and> freelist s' = freelist s \<and>
     kend s' = kend s \<and> gdt s' = gdt s \<and> tss s' = tss s \<and> tss_addr s' = tss_addr s \<and> kdata s' = kdata s \<and>
     kpgdir s' = kpgdir s \<and> cr3 s' = cr3 s \<and> gdtr s' = gdtr s \<and> task_register s' = task_register s \<and>
     null_proc s' = null_proc s \<and> schedlog_active s' = schedlog_active s \<and>
     schedlog_lasttick s' = schedlog_lasttick s \<and> ins_del_flag s' = ins_del_flag s \<and>
     initproc s' = initproc s \<and> nextpid s' = nextpid s \<and> ticks s' = ticks s \<and> resume_at s' = resume_at s \<and>
     trapret_addr s' = trapret_addr s \<and> forkret_addr s' = forkret_addr s \<and> ptable.more s' = ptable.more s"
  unfolding only_queue_def by (cases s; cases s') auto

lemma only_queue_trans: "only_queue s s' \<Longrightarrow> only_queue s' s'' \<Longrightarrow> only_queue s s''"
  by (simp add: only_queue_iff)

lemma only_queue_requeued: "only_queue s (requeued p m h sd out s)"
  by (simp add: only_queue_iff requeued_def)

lemma only_queue_upd: "only_queue s (upd_proc p f s)"
  by (simp add: only_queue_iff upd_proc_def)

lemma upd_proc_simps [simp]:
  "procs (upd_proc p f s) = (procs s)(p := f (procs s p))" "level (upd_proc p f s) = level s"
  "locks (upd_proc p f s) = locks s" "cpus (upd_proc p f s) = cpus s" "fl_if (upd_proc p f s) = fl_if s"
  "ncpu (upd_proc p f s) = ncpu s" "lapicid (upd_proc p f s) = lapicid s" "ticks (upd_proc p f s) = ticks s"
  by (simp_all add: upd_proc_def)

lemma ptable_fields_acquired [simp]:
  "procs (acquired l c s) = procs s" "level (acquired l c s) = level s" "ticks (acquired l c s) = ticks s"
  by (simp_all add: acquired_def)

lemma ptable_fields_released [simp]:
  "procs (released l c s) = procs s" "level (released l c s) = level s" "ticks (released l c s) = ticks s"
  by (simp_all add: released_def)

lemma ptable_fields_settle [simp]:
  "procs (settle c s) = procs s" "level (settle c s) = level s" "ticks (settle c s) = ticks s"
  by (simp_all add: settle_def)

lemma queue_inv_frame:
  "level s' = level s \<Longrightarrow> procs s' = procs s \<Longrightarrow> queue_inv s' q = queue_inv s q"
  using queue_inv_cong [of s q s'] queue_inv_cong [of s' q s] by auto

lemma ptable_ok_frame: "level s' = level s \<Longrightarrow> procs s' = procs s \<Longrightarrow> ptable_ok s' = ptable_ok s"
  using queue_inv_frame [of s' s] by (simp add: ptable_ok_def)

text \<open>A critical section under \<open>ptable.lock\<close> whose body changes the queue only.\<close>

lemma ptable_section:
  assumes "on_cpu c s" "free_lock L_ptable s" "only_queue (acquired L_ptable c s) s'"
  shows "release L_ptable s' = ret (released L_ptable c s')"
    and "only_queue (settle c s) (released L_ptable c s')"
proof -
  have f: "cpus s' = cpus (acquired L_ptable c s)" "locks s' = locks (acquired L_ptable c s)"
    "fl_if s' = fl_if (acquired L_ptable c s)" "ncpu s' = ncpu (acquired L_ptable c s)"
    "lapicid s' = lapicid (acquired L_ptable c s)"
    using assms(3) by (simp_all add: only_queue_iff)
  have on: "on_cpu c (acquired L_ptable c s)" by (rule on_cpu_acquired [OF assms(1)])
  have "on_cpu c s'" using on by (simp add: on_cpu_def f)
  moreover have "0 < ncli (cpus s' c)" using assms(1) by (simp add: f acquired_def on_cpu_def)
  moreover have "holds L_ptable c s'" by (simp add: holds_def f acquired_def)
  ultimately show "release L_ptable s' = ret (released L_ptable c s')" by (rule release_held)
  have "released L_ptable c (acquired L_ptable c s) = settle c s"
    by (rule released_acquired [OF assms(1,2)])
  then have e: "locks (released L_ptable c (acquired L_ptable c s)) = locks (settle c s)"
    "cpus (released L_ptable c (acquired L_ptable c s)) = cpus (settle c s)"
    "fl_if (released L_ptable c (acquired L_ptable c s)) = fl_if (settle c s)"
    by simp_all
  have g: "locks (released L_ptable c s') = locks (released L_ptable c (acquired L_ptable c s))"
    "cpus (released L_ptable c s') = cpus (released L_ptable c (acquired L_ptable c s))"
    "fl_if (released L_ptable c s') = fl_if (released L_ptable c (acquired L_ptable c s))"
    by (simp_all add: released_def f)
  show "only_queue (settle c s) (released L_ptable c s')"
    using assms(3) unfolding only_queue_iff g e
    by (simp add: released_def settle_def acquired_def)
qed

section \<open>Waking\<close>

lemma insert_woken:
  assumes "ptable_ok s" "p < NPROC" "p_state (procs s p) = SLEEPING"
  shows "\<exists>m s'. insert_proc p (upd_proc p (\<lambda>r. r\<lparr>p_state := RUNNABLE\<rparr>) s) = ret (m, s') \<and>
    ptable_ok s' \<and> only_queue s s' \<and>
    procs s' = (procs s)(p := (procs s p)\<lparr>p_state := RUNNABLE, max_skiplist_level := m\<rparr>)"
proof -
  obtain q where q: "queue_inv s q" "\<And>x. x < NPROC \<Longrightarrow> x \<in> set q \<longleftrightarrow> schedulable (p_state (procs s x))"
    using assms(1) by (auto simp: ptable_ok_def)
  let ?s = "upd_proc p (\<lambda>r. r\<lparr>p_state := RUNNABLE\<rparr>) s"
  have pq: "p \<notin> set q" using q(2) [OF assms(2)] assms(3) by (simp add: schedulable_def)
  have qi: "queue_inv ?s q" by (rule queue_inv_cong [OF q(1)]) auto
  obtain m h sd out where r: "insert_proc p ?s = ret (int m, requeued p (int m) h sd out ?s)"
    "queue_inv (requeued p (int m) h sd out ?s) (enqueue (deadline ?s) p q)"
    using insert_proc_ok [OF qi assms(2) pq] by blast
  let ?s' = "requeued p (int m) h sd out ?s"
  have "ptable_ok ?s'"
    unfolding ptable_ok_def using r(2) q(2)
    by (intro exI [of _ "enqueue (deadline ?s) p q"]) (auto simp: schedulable_def)
  moreover have "only_queue s ?s'"
    by (rule only_queue_trans [OF only_queue_upd only_queue_requeued])
  ultimately show ?thesis using r(1) by auto
qed

lemma wakeup_scan_ok:
  assumes "ptable_ok s" "set ps \<subseteq> {..<NPROC}" "distinct ps"
  shows "\<exists>s'. wakeup_scan ps ch s = ret s' \<and> ptable_ok s' \<and> only_queue s s' \<and>
    (\<forall>p. \<exists>m. procs s' p = (if p \<in> set ps \<and> p_state (procs s p) = SLEEPING \<and> p_chan (procs s p) = ch
      then (procs s p)\<lparr>p_state := RUNNABLE, max_skiplist_level := m\<rparr> else procs s p))"
  using assms
proof (induction ps arbitrary: s)
  case (Cons p ps)
  have p: "p < NPROC" "p \<notin> set ps" "set ps \<subseteq> {..<NPROC}" "distinct ps" using Cons.prems by auto
  show ?case
  proof (cases "p_state (procs s p) = SLEEPING \<and> p_chan (procs s p) = ch")
    case True
    obtain m s1 where s1: "insert_proc p (upd_proc p (\<lambda>r. r\<lparr>p_state := RUNNABLE\<rparr>) s) = ret (m, s1)"
      "ptable_ok s1" "only_queue s s1"
      "procs s1 = (procs s)(p := (procs s p)\<lparr>p_state := RUNNABLE, max_skiplist_level := m\<rparr>)"
      using insert_woken [OF Cons.prems(1) p(1)] True by blast
    obtain s' where s': "wakeup_scan ps ch s1 = ret s'" "ptable_ok s'" "only_queue s1 s'"
      "\<And>x. \<exists>m. procs s' x = (if x \<in> set ps \<and> p_state (procs s1 x) = SLEEPING \<and> p_chan (procs s1 x) = ch
        then (procs s1 x)\<lparr>p_state := RUNNABLE, max_skiplist_level := m\<rparr> else procs s1 x)"
      using Cons.IH [OF s1(2) p(3,4)] by blast
    have "\<exists>m. procs s' x = (if x \<in> set (p # ps) \<and> p_state (procs s x) = SLEEPING \<and> p_chan (procs s x) = ch
        then (procs s x)\<lparr>p_state := RUNNABLE, max_skiplist_level := m\<rparr> else procs s x)" for x
      using s'(4) [of x] p(2) True s1(4) by (cases "x = p") auto
    with True s1(1) s'(1,2) only_queue_trans [OF s1(3) s'(3)] show ?thesis by auto
  next
    case False
    obtain s' where s': "wakeup_scan ps ch s = ret s'" "ptable_ok s'" "only_queue s s'"
      "\<And>x. \<exists>m. procs s' x = (if x \<in> set ps \<and> p_state (procs s x) = SLEEPING \<and> p_chan (procs s x) = ch
        then (procs s x)\<lparr>p_state := RUNNABLE, max_skiplist_level := m\<rparr> else procs s x)"
      using Cons.IH [OF Cons.prems(1) p(3,4)] by blast
    have "\<exists>m. procs s' x = (if x \<in> set (p # ps) \<and> p_state (procs s x) = SLEEPING \<and> p_chan (procs s x) = ch
        then (procs s x)\<lparr>p_state := RUNNABLE, max_skiplist_level := m\<rparr> else procs s x)" for x
      using s'(4) [of x] False by (cases "x = p") auto
    with False s'(1,2,3) show ?thesis by auto
  qed
qed simp

lemma wakeup1_ok:
  assumes "ptable_ok s"
  shows "\<exists>s'. wakeup1 ch s = ret s' \<and> ptable_ok s' \<and> only_queue s s' \<and>
    (\<forall>p. \<exists>m. procs s' p = (if p < NPROC \<and> p_state (procs s p) = SLEEPING \<and> p_chan (procs s p) = ch
      then (procs s p)\<lparr>p_state := RUNNABLE, max_skiplist_level := m\<rparr> else procs s p))"
  using wakeup_scan_ok [OF assms, of "[0..<NPROC]" ch] by (simp add: wakeup1_def atLeast0LessThan lessThan_iff)

lemma acquire_ptable:
  "on_cpu c s \<Longrightarrow> free_lock l s \<Longrightarrow> acquire l s = ret (acquired l c s)"
  by (simp add: acquire_free free_lock_def)

lemma wakeup_ok:
  assumes "on_cpu c s" "free_lock L_ptable s" "ptable_ok s"
  shows "\<exists>s'. wakeup ch s = ret s' \<and> ptable_ok s' \<and> only_queue (settle c s) s' \<and>
    (\<forall>p. \<exists>m. procs s' p = (if p < NPROC \<and> p_state (procs s p) = SLEEPING \<and> p_chan (procs s p) = ch
      then (procs s p)\<lparr>p_state := RUNNABLE, max_skiplist_level := m\<rparr> else procs s p))"
proof -
  let ?a = "acquired L_ptable c s"
  have "ptable_ok ?a" using assms(3) ptable_ok_frame [of ?a s] by simp
  then obtain s1 where s1: "wakeup1 ch ?a = ret s1" "ptable_ok s1" "only_queue ?a s1"
    "\<forall>p. \<exists>m. procs s1 p = (if p < NPROC \<and> p_state (procs s p) = SLEEPING \<and> p_chan (procs s p) = ch
      then (procs s p)\<lparr>p_state := RUNNABLE, max_skiplist_level := m\<rparr> else procs s p)"
    using wakeup1_ok [of ?a ch] unfolding ptable_fields_acquired by blast
  note sec = ptable_section [OF assms(1,2) s1(3)]
  let ?s' = "released L_ptable c s1"
  have "wakeup ch s = ret ?s'"
    by (simp add: wakeup_def acquire_ptable [OF assms(1,2)] s1(1) sec(1))
  moreover have "ptable_ok ?s'" using s1(2) ptable_ok_frame [of ?s' s1] by simp
  ultimately show ?thesis using sec(2) s1(4) by auto
qed

lemma kill_ok:
  assumes "on_cpu c s" "free_lock L_ptable s" "ptable_ok s"
  shows "\<exists>r s'. kill pid s = ret (r, s') \<and> ptable_ok s' \<and> only_queue (settle c s) s' \<and>
    (case find (\<lambda>p. p_pid (procs s p) = pid) [0..<NPROC] of
       None \<Rightarrow> r = -1 \<and> procs s' = procs s
     | Some p \<Rightarrow> r = 0 \<and> p < NPROC \<and> (\<exists>m. procs s' = (procs s)(p := if p_state (procs s p) = SLEEPING
         then (procs s p)\<lparr>p_killed := 1, p_state := RUNNABLE, max_skiplist_level := m\<rparr>
         else (procs s p)\<lparr>p_killed := 1\<rparr>)))"
proof -
  let ?a = "acquired L_ptable c s"
  have ok: "ptable_ok ?a" using assms(3) ptable_ok_frame [of ?a s] by simp
  show ?thesis
  proof (cases "find (\<lambda>p. p_pid (procs s p) = pid) [0..<NPROC]")
    case None
    note sec = ptable_section [OF assms(1,2) only_queue_refl]
    have "kill pid s = ret (-1, released L_ptable c ?a)"
      by (simp add: kill_def acquire_ptable [OF assms(1,2)] None sec(1))
    moreover have "ptable_ok (released L_ptable c ?a)"
      using assms(3) ptable_ok_frame [of "released L_ptable c ?a" s] by simp
    ultimately show ?thesis using sec(2) None by auto
  next
    case (Some p)
    then have p: "p < NPROC" by (auto simp: find_Some_iff)
    let ?b = "upd_proc p (\<lambda>r. r\<lparr>p_killed := 1\<rparr>) ?a"
    have okb: "ptable_ok ?b"
    proof -
      obtain q where q: "queue_inv ?a q" "\<And>x. x < NPROC \<Longrightarrow> x \<in> set q \<longleftrightarrow> schedulable (p_state (procs ?a x))"
        using ok by (auto simp: ptable_ok_def)
      have "queue_inv ?b q" by (rule queue_inv_cong [OF q(1)]) auto
      with q(2) show ?thesis by (auto simp: ptable_ok_def)
    qed
    have ob: "only_queue ?a ?b" by (rule only_queue_upd)
    have "\<exists>s1 m. (if p_state (procs ?b p) = SLEEPING
        then rbind (insert_proc p (upd_proc p (\<lambda>r. r\<lparr>p_state := RUNNABLE\<rparr>) ?b)) (\<lambda>(_, s). ret s)
        else ret ?b) = ret s1 \<and> ptable_ok s1 \<and> only_queue ?a s1 \<and>
        procs s1 = (procs s)(p := if p_state (procs s p) = SLEEPING
         then (procs s p)\<lparr>p_killed := 1, p_state := RUNNABLE, max_skiplist_level := m\<rparr>
         else (procs s p)\<lparr>p_killed := 1\<rparr>)"
    proof (cases "p_state (procs s p) = SLEEPING")
      case True
      then have "p_state (procs ?b p) = SLEEPING" by simp
      from insert_woken [OF okb p this] obtain m s1 where
        "insert_proc p (upd_proc p (\<lambda>r. r\<lparr>p_state := RUNNABLE\<rparr>) ?b) = ret (m, s1)"
        "ptable_ok s1" "only_queue ?b s1"
        "procs s1 = (procs ?b)(p := (procs ?b p)\<lparr>p_state := RUNNABLE, max_skiplist_level := m\<rparr>)"
        by blast
      with True only_queue_trans [OF ob] show ?thesis
        by (intro exI [of _ s1] exI [of _ m]) auto
    next
      case False
      with okb ob show ?thesis by (intro exI [of _ ?b]) auto
    qed
    then obtain s1 m where s1: "(if p_state (procs ?b p) = SLEEPING
        then rbind (insert_proc p (upd_proc p (\<lambda>r. r\<lparr>p_state := RUNNABLE\<rparr>) ?b)) (\<lambda>(_, s). ret s)
        else ret ?b) = ret s1" "ptable_ok s1" "only_queue ?a s1"
      "procs s1 = (procs s)(p := if p_state (procs s p) = SLEEPING
         then (procs s p)\<lparr>p_killed := 1, p_state := RUNNABLE, max_skiplist_level := m\<rparr>
         else (procs s p)\<lparr>p_killed := 1\<rparr>)"
      by blast
    note sec = ptable_section [OF assms(1,2) s1(3)]
    have "kill pid s = ret (0, released L_ptable c s1)"
      unfolding kill_def acquire_ptable [OF assms(1,2)] by (simp add: Some s1(1) [simplified] sec(1) Let_def)
    moreover have "ptable_ok (released L_ptable c s1)"
      using s1(2) ptable_ok_frame [of "released L_ptable c s1" s1] by simp
    ultimately show ?thesis using sec(2) Some p s1(4) by auto
  qed
qed

section \<open>The current process\<close>

lemma myproc_eq:
  assumes "on_cpu c s"
  shows "myproc s = ret (cpu_proc (cpus s c), settle c s)"
proof -
  let ?s = "s\<lparr>fl_if := False, cpus := (cpus s)(c := (cpus s c)\<lparr>
       intena := (if ncli (cpus s c) = 0 then fl_if s else intena (cpus s c)),
       ncli := ncli (cpus s c) + 1\<rparr>)\<rparr>"
  have on: "on_cpu c ?s" by (rule on_cpu_push [OF assms])
  have nz: "0 < ncli (cpus ?s c)" using assms by (simp add: on_cpu_def)
  have "ncli (cpus s c) = 0 \<or> \<not> fl_if s" using assms by (auto simp: on_cpu_def)
  then have "?s\<lparr>fl_if := (ncli (cpus ?s c) = 1 \<and> intena (cpus ?s c)),
     cpus := (cpus ?s)(c := (cpus ?s c)\<lparr>ncli := ncli (cpus ?s c) - 1\<rparr>)\<rparr> = settle c s"
    by (cases s) (auto simp: settle_def)
  then show ?thesis
    unfolding myproc_def pushcli_on_cpu [OF assms] rbind_ret
    using mycpu_on_cpu [OF on] popcli_on_cpu [OF on nz] by (simp add: Let_def)
qed

lemma curproc_eq: "on_cpu c s \<Longrightarrow> cpu_proc (cpus s c) = Some p \<Longrightarrow> curproc s = ret (p, settle c s)"
  by (simp add: curproc_def myproc_eq)

lemma acquired_settle: "acquired l c (settle c s) = acquired l c s"
  by (simp add: acquired_def settle_def)

lemma sched_enter_eq:
  assumes "on_cpu c s" "ncli (cpus s c) = 1" "holds L_ptable c s" "cpu_proc (cpus s c) = Some p"
    and "p_state (procs s p) \<noteq> RUNNING"
  shows "sched_enter s = ret (intena (cpus s c), s)"
proof -
  have fl: "\<not> fl_if s" using assms(1,2) by (simp add: on_cpu_def)
  have "myproc s = ret (Some p, s)"
    using myproc_eq [OF assms(1)] settle_nested [of s c] assms(2,4) by simp
  then show ?thesis
    using holding_nested [OF assms(1), of L_ptable] mycpu_on_cpu [OF assms(1) fl] assms fl
    by (simp add: sched_enter_def)
qed

section \<open>Giving up the CPU\<close>

text \<open>Process \<open>p\<close> runs on CPU \<open>c\<close> outside every critical section.\<close>

definition running :: "nat \<Rightarrow> nat \<Rightarrow> 'a ptable_scheme \<Rightarrow> bool" where
  "running c p s \<longleftrightarrow> on_cpu c s \<and> ncli (cpus s c) = 0 \<and> cpu_proc (cpus s c) = Some p \<and>
     p < NPROC \<and> p_state (procs s p) = RUNNING \<and> free_lock L_ptable s"

text \<open>The CPU is on its way to the scheduler: it holds \<open>ptable.lock\<close> and nothing else.\<close>

definition switching :: "nat \<Rightarrow> 'a ptable_scheme \<Rightarrow> bool" where
  "switching c s \<longleftrightarrow> on_cpu c s \<and> ncli (cpus s c) = 1 \<and> holds L_ptable c s"

lemma switching_acquired:
  assumes "on_cpu c s" "ncli (cpus s c) = 0" "only_queue (acquired L_ptable c s) s'"
  shows "switching c s'" "cpu_proc (cpus s' c) = cpu_proc (cpus s c)" "intena (cpus s' c) = fl_if s"
proof -
  have "switching c (acquired L_ptable c s)"
    using on_cpu_acquired [OF assms(1)] assms(2) by (simp add: switching_def) (simp add: acquired_def)
  with assms(3) show "switching c s'"
    by (simp add: switching_def on_cpu_def holds_def only_queue_iff)
  show "cpu_proc (cpus s' c) = cpu_proc (cpus s c)" "intena (cpus s' c) = fl_if s"
    using assms(2,3) by (simp_all add: only_queue_iff acquired_def)
qed

lemma sched_enter_switching:
  assumes "switching c s" "cpu_proc (cpus s c) = Some p" "p_state (procs s p) \<noteq> RUNNING"
  shows "sched_enter s = ret (intena (cpus s c), s)"
  using assms by (intro sched_enter_eq) (auto simp: switching_def)

text \<open>Removing a process from the queue, and putting it back with another deadline.\<close>

lemma delete_queued:
  assumes "queue_inv s q" "p \<in> set q"
  shows "\<exists>r s'. delete_proc p s = ret (r, s') \<and> queue_inv s' (remove1 p q) \<and> only_queue s s' \<and>
    procs s' = (procs s)(p := (procs s p)\<lparr>max_skiplist_level := -1\<rparr>)"
  using delete_proc_ok [OF assms] only_queue_requeued by fastforce

lemma insert_queued:
  assumes "queue_inv s q" "p < NPROC" "p \<notin> set q"
  shows "\<exists>m s'. insert_proc p s = ret (m, s') \<and> queue_inv s' (enqueue (deadline s) p q) \<and>
    only_queue s s' \<and> procs s' = (procs s)(p := (procs s p)\<lparr>max_skiplist_level := m\<rparr>) \<and> 1 \<le> m \<and> m \<le> LEVELS"
  using insert_proc_ok [OF assms] only_queue_requeued by fastforce

lemma yield_enter_ok:
  assumes run: "running c p s" and ok: "ptable_ok s"
  shows "\<exists>s' m. yield_enter s = ret s' \<and> ptable_ok s' \<and> switching c s' \<and>
    only_queue (acquired L_ptable c s) (s'\<lparr>resume_at := resume_at s\<rparr>) \<and>
    resume_at s' = (resume_at s)(p := In_yield (fl_if s)) \<and>
    procs s' = (procs s)(p := (procs s p)\<lparr>p_state := RUNNABLE, max_skiplist_level := m,
      virt_deadline := computevd (nice (procs s p)) (sint (ticks s))\<rparr>)"
proof -
  have on: "on_cpu c s" and z: "ncli (cpus s c) = 0" and cp: "cpu_proc (cpus s c) = Some p"
    and p: "p < NPROC" and st: "p_state (procs s p) = RUNNING" and fr: "free_lock L_ptable s"
    using run by (auto simp: running_def)
  obtain q where q: "queue_inv s q" "\<And>x. x < NPROC \<Longrightarrow> x \<in> set q \<longleftrightarrow> schedulable (p_state (procs s x))"
    using ok by (auto simp: ptable_ok_def)
  let ?a = "acquired L_ptable c s"
  let ?b = "upd_proc p (\<lambda>r. r\<lparr>p_state := RUNNABLE\<rparr>) ?a"
  have acq: "acquire L_ptable (settle c s) = ret ?a"
    using acquire_ptable [of c "settle c s" L_ptable] on fr by (simp add: acquired_settle)
  have qb: "queue_inv ?b q" by (rule queue_inv_cong [OF q(1)]) auto
  have pq: "p \<in> set q" using q(2) [OF p] st by (simp add: schedulable_def)
  obtain r s1 where s1: "delete_proc p ?b = ret (r, s1)" "queue_inv s1 (remove1 p q)" "only_queue ?b s1"
    "procs s1 = (procs ?b)(p := (procs ?b p)\<lparr>max_skiplist_level := -1\<rparr>)"
    using delete_queued [OF qb pq] by blast
  let ?vd = "computevd (nice (procs s p)) (sint (ticks s))"
  let ?c = "upd_proc p (\<lambda>r. r\<lparr>virt_deadline := computevd (nice r) (sint (ticks s1))\<rparr>) s1"
  have dq: "p \<notin> set (remove1 p q)" using queue_inv_set(1) [OF q(1)] by simp
  have qc: "queue_inv ?c (remove1 p q)"
    by (rule queue_inv_cong [OF s1(2)]) (use dq in auto)
  obtain m s2 where s2: "insert_proc p ?c = ret (m, s2)" "queue_inv s2 (enqueue (deadline ?c) p (remove1 p q))"
    "only_queue ?c s2" "procs s2 = (procs ?c)(p := (procs ?c p)\<lparr>max_skiplist_level := m\<rparr>)"
    using insert_queued [OF qc p dq] by blast
  have tk: "ticks s1 = ticks s" using s1(3) by (simp add: only_queue_iff)
  have pr: "procs s2 = (procs s)(p := (procs s p)\<lparr>p_state := RUNNABLE, max_skiplist_level := m, virt_deadline := ?vd\<rparr>)"
    using s1(4) s2(4) tk by (simp add: fun_eq_iff)
  have oq: "only_queue ?a s2"
    by (rule only_queue_trans [OF only_queue_trans [OF only_queue_upd s1(3)]
        only_queue_trans [OF only_queue_upd s2(3)]])
  note sw = switching_acquired [OF on z oq]
  have se: "sched_enter s2 = ret (fl_if s, s2)"
    using sched_enter_switching [OF sw(1), of p] sw(2,3) cp pr by simp
  let ?s' = "s2\<lparr>resume_at := (resume_at s2)(p := In_yield (fl_if s))\<rparr>"
  have rs: "resume_at s2 = resume_at s" using oq by (simp add: only_queue_iff acquired_def)
  have "yield_enter s = ret ?s'"
    unfolding yield_enter_def curproc_eq [OF on cp] by (simp add: acq s1(1) s2(1) se Let_def)
  moreover have "ptable_ok ?s'"
    unfolding ptable_ok_def
  proof (intro exI conjI)
    show "queue_inv ?s' (enqueue (deadline ?c) p (remove1 p q))"
      using s2(2) queue_inv_frame [of ?s' s2] by simp
    show "\<forall>x<NPROC. x \<in> set (enqueue (deadline ?c) p (remove1 p q)) \<longleftrightarrow> schedulable (p_state (procs ?s' x))"
      using q(2) queue_inv_set(1) [OF q(1)] by (auto simp: pr schedulable_def)
  qed
  moreover have "switching c ?s'"
    using sw(1) by (simp add: switching_def on_cpu_def holds_def)
  moreover have "only_queue ?a (?s'\<lparr>resume_at := resume_at s\<rparr>)"
    using oq rs by (simp add: only_queue_iff acquired_def)
  ultimately show ?thesis using pr rs by (intro exI [of _ ?s'] exI [of _ m]) simp
qed

text \<open>The state in which \<open>sleep\<close> goes to sleep: \<open>ptable.lock\<close> is held and \<open>lk\<close> is not, unless they coincide.\<close>

definition lock_handed_over :: "nat \<Rightarrow> lockid \<Rightarrow> 'a ptable_scheme \<Rightarrow> 'a ptable_scheme" where
  "lock_handed_over c lk s = (if lk = L_ptable then s else released lk c (acquired L_ptable c s))"

definition ready_to_sleep :: "nat \<Rightarrow> nat \<Rightarrow> lockid \<Rightarrow> 'a ptable_scheme \<Rightarrow> bool" where
  "ready_to_sleep c p lk s \<longleftrightarrow> on_cpu c s \<and> ncli (cpus s c) = 1 \<and> holds lk c s \<and>
     (lk \<noteq> L_ptable \<longrightarrow> free_lock L_ptable s) \<and> cpu_proc (cpus s c) = Some p \<and> p < NPROC \<and>
     p_state (procs s p) = RUNNING"

lemma lock_handed_over_fields [simp]:
  "procs (lock_handed_over c lk s) = procs s" "level (lock_handed_over c lk s) = level s"
  "resume_at (lock_handed_over c lk s) = resume_at s"
  by (simp_all add: lock_handed_over_def acquired_def released_def)

lemma hand_over:
  assumes "ready_to_sleep c p lk s"
  shows "(if lk \<noteq> L_ptable then rbind (acquire L_ptable s) (release lk) else ret s) = ret (lock_handed_over c lk s)"
    and "switching c (lock_handed_over c lk s)"
    and "cpu_proc (cpus (lock_handed_over c lk s) c) = Some p"
    and "intena (cpus (lock_handed_over c lk s) c) = intena (cpus s c)"
proof -
  have on: "on_cpu c s" and one: "ncli (cpus s c) = 1" and h: "holds lk c s"
    and cp: "cpu_proc (cpus s c) = Some p" and fr: "lk \<noteq> L_ptable \<longrightarrow> free_lock L_ptable s"
    using assms by (auto simp: ready_to_sleep_def)
  let ?a = "acquired L_ptable c s"
  have rel: "release lk ?a = ret (released lk c ?a)" if "lk \<noteq> L_ptable"
  proof (rule release_held [OF on_cpu_acquired [OF on]])
    show "0 < ncli (cpus ?a c)" using one by (simp add: acquired_def)
    show "holds lk c ?a" using h that by (simp add: holds_acquired_other)
  qed
  then show "(if lk \<noteq> L_ptable then rbind (acquire L_ptable s) (release lk) else ret s) = ret (lock_handed_over c lk s)"
    using acquire_ptable [OF on, of L_ptable] fr by (simp add: lock_handed_over_def)
  show "switching c (lock_handed_over c lk s)"
  proof (cases "lk = L_ptable")
    case True
    with on one h show ?thesis by (simp add: lock_handed_over_def switching_def)
  next
    case False
    have "on_cpu c (released lk c ?a)"
      using on_cpu_released [OF on_cpu_acquired [OF on], of L_ptable lk] one by (simp add: acquired_def)
    with False one show ?thesis
      by (simp add: lock_handed_over_def switching_def holds_def) (simp add: released_def acquired_def)
  qed
  show "cpu_proc (cpus (lock_handed_over c lk s) c) = Some p"
    "intena (cpus (lock_handed_over c lk s) c) = intena (cpus s c)"
    using cp one by (simp_all add: lock_handed_over_def released_def acquired_def)
qed

lemma sleep_enter_ok:
  assumes rd: "ready_to_sleep c p lk s" and ok: "ptable_ok s"
  shows "\<exists>s'. sleep_enter ch (Some lk) s = ret s' \<and> ptable_ok s' \<and> switching c s' \<and>
    only_queue (lock_handed_over c lk s) (s'\<lparr>resume_at := resume_at s\<rparr>) \<and>
    resume_at s' = (resume_at s)(p := In_sleep lk (intena (cpus s c))) \<and>
    procs s' = (procs s)(p := (procs s p)\<lparr>p_chan := ch, max_skiplist_level := -1, p_state := SLEEPING\<rparr>)"
proof -
  have on: "on_cpu c s" and one: "ncli (cpus s c) = 1" and cp: "cpu_proc (cpus s c) = Some p"
    and p: "p < NPROC" and st: "p_state (procs s p) = RUNNING"
    using rd by (auto simp: ready_to_sleep_def)
  have my: "myproc s = ret (Some p, s)"
    using myproc_eq [OF on] settle_nested [of s c] one cp by simp
  note ho = hand_over [OF rd]
  let ?a = "lock_handed_over c lk s"
  obtain q where q: "queue_inv s q" "\<And>x. x < NPROC \<Longrightarrow> x \<in> set q \<longleftrightarrow> schedulable (p_state (procs s x))"
    using ok by (auto simp: ptable_ok_def)
  let ?b = "upd_proc p (\<lambda>r. r\<lparr>p_chan := ch\<rparr>) ?a"
  have qb: "queue_inv ?b q" by (rule queue_inv_cong [OF q(1)]) auto
  have pq: "p \<in> set q" using q(2) [OF p] st by (simp add: schedulable_def)
  have dq: "p \<notin> set (remove1 p q)" using queue_inv_set(1) [OF q(1)] by simp
  obtain r s1 where s1: "delete_proc p ?b = ret (r, s1)" "queue_inv s1 (remove1 p q)" "only_queue ?b s1"
    "procs s1 = (procs ?b)(p := (procs ?b p)\<lparr>max_skiplist_level := -1\<rparr>)"
    using delete_queued [OF qb pq] by blast
  let ?c = "upd_proc p (\<lambda>r. r\<lparr>p_state := SLEEPING\<rparr>) s1"
  have pr: "procs ?c = (procs s)(p := (procs s p)\<lparr>p_chan := ch, max_skiplist_level := -1, p_state := SLEEPING\<rparr>)"
    using s1(4) by (simp add: fun_eq_iff)
  have qc: "queue_inv ?c (remove1 p q)"
    by (rule queue_inv_cong [OF s1(2)]) (use dq in auto)
  have oq: "only_queue ?a ?c"
    by (rule only_queue_trans [OF only_queue_upd only_queue_trans [OF s1(3) only_queue_upd]])
  have sw: "switching c ?c" and cpc: "cpu_proc (cpus ?c c) = Some p"
    and ie: "intena (cpus ?c c) = intena (cpus s c)"
    using ho(2-4) oq by (simp_all add: switching_def on_cpu_def holds_def only_queue_iff)
  have se: "sched_enter ?c = ret (intena (cpus s c), ?c)"
    using sched_enter_switching [OF sw cpc] pr ie by simp
  let ?s' = "?c\<lparr>resume_at := (resume_at ?c)(p := In_sleep lk (intena (cpus s c)))\<rparr>"
  have rs: "resume_at ?c = resume_at s" using oq by (simp add: only_queue_iff)
  have stb: "p_state (procs ?b p) = RUNNING" using st by simp
  have "sleep_enter ch (Some lk) s = ret ?s'"
    unfolding sleep_enter_def my rbind_ret prod.case option.case ho(1) Let_def stb
    by (simp add: s1(1) se)
  moreover have "ptable_ok ?s'"
    unfolding ptable_ok_def
  proof (intro exI conjI)
    show "queue_inv ?s' (remove1 p q)" using qc queue_inv_frame [of ?s' ?c] by simp
    show "\<forall>x<NPROC. x \<in> set (remove1 p q) \<longleftrightarrow> schedulable (p_state (procs ?s' x))"
      using q(2) queue_inv_set(1) [OF q(1)] pr by (auto simp: schedulable_def)
  qed
  moreover have "switching c ?s'"
    using sw by (simp add: switching_def on_cpu_def holds_def)
  moreover have "only_queue ?a (?s'\<lparr>resume_at := resume_at s\<rparr>)"
    using oq rs by (simp add: only_queue_iff)
  ultimately show ?thesis using pr rs by (intro exI [of _ ?s']) simp
qed

section \<open>The scheduler\<close>

definition idle_cpu :: "nat \<Rightarrow> 'a ptable_scheme \<Rightarrow> bool" where
  "idle_cpu c s \<longleftrightarrow> on_cpu c s \<and> ncli (cpus s c) = 0 \<and> free_lock L_ptable s"

text \<open>Processes that may be switched to have a kernel stack and a page directory.\<close>

definition spaces_ok :: "'a ptable_scheme \<Rightarrow> bool" where
  "spaces_ok s \<longleftrightarrow> (\<forall>p<NPROC. p_state (procs s p) \<in> {SLEEPING, RUNNABLE, RUNNING} \<longrightarrow>
     p_kstack (procs s p) \<noteq> 0 \<and> KERNBASE \<le> p_pgdir (procs s p))"

lemma log_procs_out: "\<exists>out. log_procs ks s = ret (s\<lparr>console := console s @ out\<rparr>)"
proof (induction ks arbitrary: s)
  case (Cons k ks)
  obtain o1 where o1: "(if p_state (procs s k) = UNUSED then kprintf ''[-]---:0:-(-)(-)(-)'' [] s
      else kprintf ''[%d]%s:%d:%d(%d)(%d)(%d)''
        [W (word_of_int (p_pid (procs s k))), S (Some (p_name (procs s k))), W (procstate_num (p_state (procs s k))),
         W (word_of_int (nice (procs s k))), W (word_of_int (max_skiplist_level (procs s k))),
         W (word_of_int (virt_deadline (procs s k))), W (word_of_int (ticks_left (procs s k)))] s) =
      ret (s\<lparr>console := console s @ o1\<rparr>)"
    by (cases "p_state (procs s k) = UNUSED") (auto simp: kprintf_def)
  let ?s = "s\<lparr>console := console s @ o1\<rparr>"
  obtain o2 where o2: "(if ks \<noteq> [] then kprintf '','' [] ?s else ret ?s) = ret (?s\<lparr>console := console ?s @ o2\<rparr>)"
    using that [of "if ks = [] then [] else '',''"] by (cases "ks = []") (simp_all add: kprintf_def)
  obtain o3 where o3: "log_procs ks (?s\<lparr>console := console ?s @ o2\<rparr>) =
      ret (?s\<lparr>console := (console ?s @ o2) @ o3\<rparr>)"
    using Cons.IH [of "?s\<lparr>console := console ?s @ o2\<rparr>"] by auto
  show ?case
    unfolding log_procs.simps Let_def o1 rbind_ret o2 o3 by (intro exI [of _ "o1 @ o2 @ o3"]) simp
qed (auto intro!: exI [of _ "[]"])

lemma log_schedule_out:
  "\<exists>out act. log_schedule s = ret (s\<lparr>schedlog_active := act, console := console s @ out\<rparr>)"
proof -
  consider "schedlog_active s = 0" | "schedlog_active s \<noteq> 0" "word_of_int (schedlog_lasttick s) < ticks s"
    | "schedlog_active s \<noteq> 0" "\<not> word_of_int (schedlog_lasttick s) < ticks s" by blast
  then show ?thesis
  proof cases
    case 1
    then show ?thesis by (intro exI [of _ "[]"] exI [of _ 0]) (simp add: log_schedule_def)
  next
    case 2
    then show ?thesis by (intro exI [of _ "[]"] exI [of _ 0]) (simp add: log_schedule_def)
  next
    case 3
    have k: "\<exists>out. kprintf fmt args s = ret (s\<lparr>console := console s @ out\<rparr>)" if "cprintf fmt args \<noteq> None"
      for fmt args and s :: "'a ptable_scheme"
      using that by (auto simp: kprintf_def)
    obtain o1 where o1: "kprintf ''%d|'' [W (ticks s)] s = ret (s\<lparr>console := console s @ o1\<rparr>)"
      using k [of "''%d|''" "[W (ticks s)]" s] by auto
    let ?s = "s\<lparr>console := console s @ o1\<rparr>"
    let ?u = "filter (\<lambda>k. p_state (procs ?s k) \<noteq> UNUSED) [0..<NPROC]"
    obtain o2 where o2: "log_procs (if ?u = [] then [] else [0..<Suc (last ?u)]) ?s =
        ret (?s\<lparr>console := console ?s @ o2\<rparr>)"
      using log_procs_out by blast
    obtain o3 where o3: "kprintf ''\<newline>'' [] (?s\<lparr>console := console ?s @ o2\<rparr>) =
        ret (?s\<lparr>console := (console ?s @ o2) @ o3\<rparr>)"
      using k [of "''\<newline>''" "[]" "?s\<lparr>console := console ?s @ o2\<rparr>"] by auto
    have "log_schedule s = ret (?s\<lparr>console := (console ?s @ o2) @ o3\<rparr>)"
      using 3 unfolding log_schedule_def o1 rbind_ret Let_def o2 o3 by simp
    moreover have "?s\<lparr>console := (console ?s @ o2) @ o3\<rparr> =
        s\<lparr>schedlog_active := schedlog_active s, console := console s @ o1 @ o2 @ o3\<rparr>"
      by simp
    ultimately show ?thesis by metis
  qed
qed

lemma switchuvm_eq:
  assumes "on_cpu c s" "kstack \<noteq> 0" "KERNBASE \<le> pgdir"
  shows "\<exists>s'. switchuvm (Some (kstack, pgdir)) s = ret s' \<and> cr3 s' = pgdir - KERNBASE \<and>
    ts_esp0 (tss s' c) = kstack + KSTACKSIZE \<and>
    s' = (settle c s)\<lparr>gdt := gdt s', tss := tss s', task_register := task_register s', cr3 := cr3 s'\<rparr>"
proof -
  let ?s = "s\<lparr>fl_if := False, cpus := (cpus s)(c := (cpus s c)\<lparr>
       intena := (if ncli (cpus s c) = 0 then fl_if s else intena (cpus s c)),
       ncli := ncli (cpus s c) + 1\<rparr>)\<rparr>"
  have on: "on_cpu c ?s" by (rule on_cpu_push [OF assms(1)])
  let ?t = "?s\<lparr>gdt := (gdt ?s)(c := (gdt ?s c)(SEG_TSS := (SEG16 0x9 (tss_addr ?s c) 103 0)\<lparr>sd_s := 0\<rparr>)),
      tss := (tss ?s)(c := \<lparr>ts_esp0 = kstack + KSTACKSIZE, ts_ss0 = of_nat (SEG_KDATA * 8), ts_iomb = 0xFFFF\<rparr>),
      task_register := of_nat (SEG_TSS * 8), cr3 := pgdir - KERNBASE\<rparr>"
  have ont: "on_cpu c ?t" "0 < ncli (cpus ?t c)" using on assms(1) by (simp_all add: on_cpu_def)
  let ?u = "?t\<lparr>fl_if := (ncli (cpus ?t c) = 1 \<and> intena (cpus ?t c)),
     cpus := (cpus ?t)(c := (cpus ?t c)\<lparr>ncli := ncli (cpus ?t c) - 1\<rparr>)\<rparr>"
  have pg: "pgdir \<noteq> 0" "V2P pgdir = ret (pgdir - KERNBASE)"
    using assms(3) by (auto simp: V2P_def KERNBASE_def)
  have "switchuvm (Some (kstack, pgdir)) s = ret ?u"
    using assms(2) pg unfolding switchuvm_def pushcli_on_cpu [OF assms(1)]
    using mycpu_on_cpu [OF on] popcli_on_cpu [OF ont] by (simp add: Let_def)
  moreover have "ncli (cpus s c) = 0 \<or> \<not> fl_if s" using assms(1) by (auto simp: on_cpu_def)
  then have "?u = (settle c s)\<lparr>gdt := gdt ?u, tss := tss ?u, task_register := task_register ?u, cr3 := cr3 ?u\<rparr>"
    by (cases s) (auto simp: settle_def)
  ultimately show ?thesis by (intro exI [of _ ?u]) simp
qed

text \<open>What a round of the scheduler on CPU \<open>c\<close> leaves alone.\<close>

definition kept :: "nat \<Rightarrow> 'a ptable_scheme \<Rightarrow> 'a ptable_scheme \<Rightarrow> bool" where
  "kept c s s' \<longleftrightarrow> mem s' = mem s \<and> kpgdir s' = kpgdir s \<and> ticks s' = ticks s \<and> resume_at s' = resume_at s \<and>
     ptable.more s' = ptable.more s \<and> (\<forall>l. l \<noteq> L_ptable \<longrightarrow> locks s' l = locks s l) \<and>
     (\<forall>d. d \<noteq> c \<longrightarrow> cpus s' d = cpus s d)"

lemma scheduler_enter_ok:
  assumes id: "idle_cpu c s" and ok: "ptable_ok s" and sp: "spaces_ok s"
  shows "(\<exists>s'. scheduler_enter c s = ret (None, s') \<and> idle_cpu c s' \<and> ptable_ok s' \<and>
      procs s' = procs s \<and> (\<forall>p<NPROC. \<not> schedulable (p_state (procs s p))) \<and> kept c s s' \<and>
      cpu_proc (cpus s' c) = cpu_proc (cpus s c)) \<or>
    (\<exists>p s'. scheduler_enter c s = ret (Some p, s') \<and> p < NPROC \<and> schedulable (p_state (procs s p)) \<and>
      (\<forall>r<NPROC. schedulable (p_state (procs s r)) \<longrightarrow> virt_deadline (procs s p) \<le> virt_deadline (procs s r)) \<and>
      procs s' = (procs s)(p := (procs s p)\<lparr>p_state := RUNNING, ticks_left := BFS_DEFAULT_QUANTUM\<rparr>) \<and>
      ptable_ok s' \<and> switching c s' \<and> cpu_proc (cpus s' c) = Some p \<and> resume_at s' = resume_at s \<and>
      cr3 s' = p_pgdir (procs s p) - KERNBASE \<and> kept c s s')"
proof -
  have on: "on_cpu c s" and z: "ncli (cpus s c) = 0" and fr: "free_lock L_ptable s"
    using id by (auto simp: idle_cpu_def)
  obtain q where q: "queue_inv s q" "\<And>x. x < NPROC \<Longrightarrow> x \<in> set q \<longleftrightarrow> schedulable (p_state (procs s x))"
    using ok by (auto simp: ptable_ok_def)
  let ?s = "s\<lparr>fl_if := True\<rparr>"
  let ?a = "acquired L_ptable c ?s"
  have ons: "on_cpu c ?s" "free_lock L_ptable ?s" using on z fr by (simp_all add: on_cpu_def free_lock_def)
  have acq: "acquire L_ptable ?s = ret ?a" by (rule acquire_ptable [OF ons])
  have rep: "skip_rep (level s) (deadline s) q (\<lambda>p. nat (max_skiplist_level (procs s p)))"
    using q(1) by (simp add: queue_inv_def)
  have la: "level ?a = level s" by simp
  show ?thesis
  proof (cases q)
    case Nil
    then have nl: "n_next (level s (NodeAt 0 0)) = NULL"
      using q(1) skip_rep_head [OF rep] by simp
    note sec = ptable_section [OF ons only_queue_refl]
    let ?r = "released L_ptable c ?a"
    have "scheduler_enter c s = ret (None, ?r)"
      by (simp add: scheduler_enter_def acq nl sec(1))
    moreover have "ptable_ok ?r" using ok ptable_ok_frame [of ?r s] by simp
    moreover have "idle_cpu c ?r"
    proof -
      have "?r = settle c ?s" by (rule released_acquired [OF ons])
      then show ?thesis using ons z by (simp add: idle_cpu_def)
    qed
    moreover have "procs ?r = procs s" by simp
    moreover have "kept c s ?r" "cpu_proc (cpus ?r c) = cpu_proc (cpus s c)"
      by (simp_all add: kept_def released_def acquired_def)
    moreover have "\<forall>p<NPROC. \<not> schedulable (p_state (procs s p))" using q(2) Nil by auto
    ultimately show ?thesis by blast
  next
    case (Cons p qs)
    have hd: "n_next (level s (NodeAt 0 0)) \<noteq> NULL" "n_proc (level s (n_next (level s (NodeAt 0 0)))) = Some p"
      using skip_rep_head [OF rep] Cons by auto
    have p: "p < NPROC" "schedulable (p_state (procs s p))"
      using queue_inv_set(2) [OF q(1)] q(2) Cons by auto
    have dl: "\<forall>r<NPROC. schedulable (p_state (procs s r)) \<longrightarrow> virt_deadline (procs s p) \<le> virt_deadline (procs s r)"
      using queue_inv_set(3) [OF q(1)] q(2) Cons by auto
    let ?b = "set_cpu c ((cpus ?a c)\<lparr>cpu_proc := Some p\<rparr>) ?a"
    have onb: "on_cpu c ?b" "ncli (cpus ?b c) = 1" "holds L_ptable c ?b"
      using on_cpu_acquired [OF ons(1), of L_ptable] z
      by (simp_all add: set_cpu_def on_cpu_def holds_def) (simp_all add: acquired_def)
    have pb: "procs ?b = procs s" "level ?b = level s" by (simp_all add: set_cpu_def)
    have ks: "p_kstack (procs s p) \<noteq> 0" "KERNBASE \<le> p_pgdir (procs s p)"
      using sp p by (auto simp: spaces_ok_def schedulable_def)
    obtain s1 where s1: "switchuvm (Some (p_kstack (procs s p), p_pgdir (procs s p))) ?b = ret s1"
      "cr3 s1 = p_pgdir (procs s p) - KERNBASE"
      "s1 = (settle c ?b)\<lparr>gdt := gdt s1, tss := tss s1, task_register := task_register s1, cr3 := cr3 s1\<rparr>"
      using switchuvm_eq [OF onb(1) ks] by blast
    have f1: "procs s1 = procs s" "level s1 = level s" "cpus s1 = cpus ?b" "locks s1 = locks ?b"
      "fl_if s1 = fl_if ?b" "ncpu s1 = ncpu ?b" "lapicid s1 = lapicid ?b" "resume_at s1 = resume_at ?b"
      "kpgdir s1 = kpgdir ?b" "ticks s1 = ticks ?b" "ptable.more s1 = ptable.more ?b"
      "mem s1 = mem ?b"
      using settle_nested [of ?b c] onb(2) pb by (subst s1(3), simp)+
    let ?d = "upd_proc p (\<lambda>r. r\<lparr>p_state := RUNNING, ticks_left := BFS_DEFAULT_QUANTUM\<rparr>) s1"
    obtain out act where lg: "log_schedule ?d = ret (?d\<lparr>schedlog_active := act, console := console ?d @ out\<rparr>)"
      using log_schedule_out by blast
    let ?e = "?d\<lparr>schedlog_active := act, console := console ?d @ out\<rparr>"
    have "scheduler_enter c s = ret (Some p, ?e)"
      unfolding scheduler_enter_def Let_def acq rbind_ret la
      using hd s1(1) pb lg by simp
    moreover have pe: "procs ?e = (procs s)(p := (procs s p)\<lparr>p_state := RUNNING, ticks_left := BFS_DEFAULT_QUANTUM\<rparr>)"
      using f1 by simp
    moreover have "ptable_ok ?e"
    proof -
      have "queue_inv ?e q" by (rule queue_inv_cong [OF q(1)]) (use f1 in auto)
      with q(2) p(2) pe show ?thesis by (auto simp: ptable_ok_def schedulable_def)
    qed
    moreover have "switching c ?e" "cpu_proc (cpus ?e c) = Some p"
      using onb f1 by (simp_all add: switching_def on_cpu_def holds_def) (simp add: set_cpu_def)
    moreover have "resume_at ?e = resume_at s" "cr3 ?e = p_pgdir (procs s p) - KERNBASE"
      using f1 s1(2) by (simp_all add: set_cpu_def upd_proc_def acquired_def)
    moreover have "kept c s ?e"
      using f1 by (simp add: kept_def set_cpu_def upd_proc_def acquired_def)
    ultimately show ?thesis using p dl by blast
  qed
qed

section \<open>Returning from the scheduler and to it\<close>

lemma release_switching:
  assumes "switching c s"
  shows "release L_ptable s = ret (released L_ptable c s)" "idle_cpu c (released L_ptable c s)"
proof -
  show "release L_ptable s = ret (released L_ptable c s)"
    using assms by (intro release_held) (auto simp: switching_def)
  have "on_cpu c (released L_ptable c s)"
    using assms by (intro on_cpu_released) (auto simp: switching_def)
  with assms show "idle_cpu c (released L_ptable c s)"
    by (simp add: idle_cpu_def switching_def) (simp add: released_def free_lock_def)
qed

lemma scheduler_leave_ok:
  assumes "switching c s" "KERNBASE \<le> kpgdir s"
  shows "\<exists>s'. scheduler_leave c s = ret s' \<and> idle_cpu c s' \<and> procs s' = procs s \<and> level s' = level s \<and>
    cpu_proc (cpus s' c) = None \<and> cr3 s' = kpgdir s - KERNBASE \<and> kept c s s'"
proof -
  let ?s = "s\<lparr>cr3 := kpgdir s - KERNBASE\<rparr>"
  let ?t = "set_cpu c ((cpus ?s c)\<lparr>cpu_proc := None\<rparr>) ?s"
  have "switching c ?t" using assms(1) by (simp add: switching_def on_cpu_def holds_def set_cpu_def)
  note r = release_switching [OF this]
  have "V2P (kpgdir s) = ret (kpgdir s - KERNBASE)" using assms(2) by (simp add: V2P_def linorder_not_less)
  then have "scheduler_leave c s = ret (released L_ptable c ?t)"
    using r(1) by (simp add: scheduler_leave_def switchkvm_def)
  with r(2) show ?thesis
    by (intro exI [of _ "released L_ptable c ?t"]) (simp add: kept_def released_def set_cpu_def)
qed

lemma sched_leave_eq:
  assumes "switching c s"
  shows "sched_leave ie s = ret (set_cpu c ((cpus s c)\<lparr>intena := ie\<rparr>) s)"
  using assms mycpu_on_cpu [of c s] by (simp add: sched_leave_def switching_def on_cpu_def)

lemma switching_intena: "switching c s \<Longrightarrow> switching c (set_cpu c ((cpus s c)\<lparr>intena := ie\<rparr>) s)"
  by (simp add: switching_def on_cpu_def holds_def set_cpu_def)

text \<open>What a process that is switched to does first, by the point where it left.\<close>

lemma yield_leave_ok:
  assumes "switching c s" "cpu_proc (cpus s c) = Some p" "p < NPROC" "p_state (procs s p) = RUNNING"
  shows "\<exists>s'. yield_leave ie s = ret s' \<and> running c p s' \<and> procs s' = procs s \<and> level s' = level s \<and>
    fl_if s' = ie \<and> kept c s s'"
proof -
  let ?s = "set_cpu c ((cpus s c)\<lparr>intena := ie\<rparr>) s"
  note r = release_switching [OF switching_intena [OF assms(1), of ie]]
  have "yield_leave ie s = ret (released L_ptable c ?s)"
    by (simp add: yield_leave_def sched_leave_eq [OF assms(1)] r(1))
  moreover have "running c p (released L_ptable c ?s)"
    using r(2) assms(2-4) by (simp add: running_def idle_cpu_def) (simp add: released_def set_cpu_def)
  moreover have "fl_if (released L_ptable c ?s) = ie"
    using assms(1) by (simp add: released_def set_cpu_def switching_def)
  ultimately show ?thesis
    by (intro exI [of _ "released L_ptable c ?s"]) (simp add: kept_def released_def set_cpu_def)
qed

end
