(* ===== verification/ProcProps.thy ===== *)
theory ProcProps
  imports ProcInv
begin

text \<open>
  The properties of the process table: what each operation of proc.c does to the processes and to
  the queue, stated on the operations themselves, with a concrete process table on which they
  apply.
\<close>

section \<open>A process table\<close>

text \<open>
  Process 0 is \<open>init\<close>, running; process 1 sleeps on \<open>&ticks\<close>; all other slots are unused. Only level
  0 of the skip list has a node.
\<close>

definition blank_proc :: proc where
  "blank_proc = \<lparr>p_sz = 0, p_pgdir = 0, p_kstack = 0, p_state = UNUSED, p_pid = 0, p_parent = None,
     p_tf = 0, p_context = 0, p_chan = NoChan, p_killed = 0, p_ofile = (\<lambda>_. None), p_cwd = None,
     p_name = [], virt_deadline = 0, nice = 0, ticks_left = 0, max_skiplist_level = 0\<rparr>"

definition demo_procs :: "nat \<Rightarrow> proc" where
  "demo_procs = (\<lambda>_. blank_proc)
     (0 := blank_proc\<lparr>p_sz := 4096, p_pgdir := 0x80400000, p_kstack := 0x80401000, p_state := RUNNING,
             p_pid := 1, p_name := ''init'', virt_deadline := 1050, max_skiplist_level := 1\<rparr>,
      1 := blank_proc\<lparr>p_sz := 4096, p_pgdir := 0x80500000, p_kstack := 0x80501000, p_state := SLEEPING,
             p_pid := 2, p_parent := Some 0, p_chan := C_ticks, p_name := ''sh'',
             virt_deadline := 1060, max_skiplist_level := -1\<rparr>)"

definition demo_nodes :: nodes where
  "demo_nodes = no_nodes
     (NodeAt 0 0 := \<lparr>n_proc = None, n_prev = NULL, n_next = NodeAt 0 1, n_lower = NULL\<rparr>,
      NodeAt 0 1 := \<lparr>n_proc = Some 0, n_prev = NodeAt 0 0, n_next = NULL, n_lower = NULL\<rparr>)"

definition demo :: ptable where
  "demo = \<lparr>mem = (\<lambda>_. 0), console = [], fl_if = True, lapicid = 0, ncpu = 1,
     cpus = (\<lambda>_. \<lparr>apicid = 0, started = 1, ncli = 0, intena = False, cpu_proc = Some 0\<rparr>),
     locks = (\<lambda>_. \<lparr>locked = 0, lk_name = [], lk_cpu = None\<rparr>),
     use_lock = 1, freelist = 0, kend = 0x80100000,
     gdt = (\<lambda>_ _. SEG 0 0 0 0), tss = (\<lambda>_. \<lparr>ts_esp0 = 0, ts_ss0 = 0, ts_iomb = 0\<rparr>), tss_addr = (\<lambda>_. 0x80108000),
     kdata = 0x80107000, kpgdir = 0x803ff000, cr3 = 0x400000, gdtr = Some 0, task_register = 40,
     level = demo_nodes, procs = demo_procs, null_proc = blank_proc, seed = SEED,
     schedlog_active = 0, schedlog_lasttick = 0, ins_del_flag = 1, initproc = Some 0, nextpid = 3,
     ticks = 100, resume_at = (\<lambda>_. At_forkret), trapret_addr = 0x80105000, forkret_addr = 0x80103000\<rparr>"

lemma demo_skip_ok: "skip_ok demo_nodes dl (\<lambda>k. if k = 0 then [(1, 0)] else [])"
  by (auto simp: skip_ok_def level_ok_def lower_ok_def dll_def demo_nodes_def no_nodes_def NPROC_def)

lemma demo_queue_inv: "queue_inv demo [0]"
proof -
  have "skip_rep demo_nodes (deadline demo) [0] (\<lambda>p. nat (max_skiplist_level (demo_procs p)))"
    unfolding skip_rep_def using demo_skip_ok
    by (intro exI [of _ "\<lambda>k. if k = 0 then [(1, 0)] else []"])
      (auto simp: demo_procs_def LEVELS_def)
  then show ?thesis
    by (simp add: queue_inv_def demo_def LEVELS_def skip_stray_def demo_procs_def)
      (simp add: demo_nodes_def no_nodes_def)
qed

lemma demo_ptable_ok: "ptable_ok demo"
  unfolding ptable_ok_def using demo_queue_inv
  by (intro exI [of _ "[0]"]) (auto simp: demo_def demo_procs_def schedulable_def blank_proc_def)

lemma demo_running: "running 0 0 demo"
  by (simp add: running_def on_cpu_def demo_def cpu_index_def free_lock_def demo_procs_def NPROC_def)

lemma demo_spaces: "spaces_ok demo"
  by (auto simp: spaces_ok_def demo_def demo_procs_def blank_proc_def KERNBASE_def)

section \<open>Initialisation\<close>

text \<open>
  \<open>pinit\<close> leaves an empty queue on every level, whatever the array held before,
  so the process table satisfies its invariant as long as no slot is in use.
\<close>

lemma pinit_establishes:
  assumes "on_cpu c s" "\<forall>p<NPROC. \<not> schedulable (p_state (procs s p)) \<and> \<not> skip_stray (level s) p"
  shows "\<exists>s'. pinit s = ret s' \<and> ptable_ok s' \<and> queue_inv s' []"
proof -
  let ?s = "initlock L_ptable ''ptable'' s"
  have on: "on_cpu c ?s" "free_lock L_ptable ?s"
    using assms(1) by (simp_all add: initlock_def set_lock_def on_cpu_def free_lock_def)
  let ?a = "acquired L_ptable c ?s"
  obtain h where r: "pinit s = release L_ptable (?a\<lparr>level := h\<rparr>)"
    and h: "\<And>k i. 0 \<le> k \<Longrightarrow> k < LEVELS \<Longrightarrow> i \<le> NPROC \<Longrightarrow> n_proc (h (NodeAt k i)) = None"
      "\<And>k. 0 \<le> k \<Longrightarrow> k < LEVELS \<Longrightarrow> n_next (h (NodeAt k 0)) = NULL"
      "h NULL = level s NULL" "h (NodeAt (-1) 0) = level s (NodeAt (-1) 0)"
    by (simp add: pinit_def acquire_ptable [OF on] Let_def)
      (simp add: initlock_def set_lock_def)
  have oq: "only_queue ?a (?a\<lparr>level := h\<rparr>)" by (simp add: only_queue_iff)
  note sec = ptable_section [OF on oq]
  let ?r = "released L_ptable c (?a\<lparr>level := h\<rparr>)"
  have f: "level ?r = h" "procs ?r = procs s" by (simp_all add: initlock_def set_lock_def)
  have "skip_rep h (deadline ?r) [] L" for L
    by (rule skip_rep_empty) (use h in auto)
  then have qi: "queue_inv ?r []"
    using assms(2) h(3,4) by (simp add: queue_inv_def f skip_stray_def)
  moreover have "ptable_ok ?r" unfolding ptable_ok_def using qi assms(2) f by (intro exI [of _ "[]"]) simp
  ultimately show ?thesis using r sec(1) by metis
qed

lemma pinit_establishes_demo:
  "\<exists>s'. pinit (demo\<lparr>procs := (\<lambda>_. blank_proc)\<rparr>) = ret s' \<and> ptable_ok s' \<and> queue_inv s' []"
  by (rule pinit_establishes [of 0])
    (simp_all add: on_cpu_def demo_def cpu_index_def schedulable_def blank_proc_def skip_stray_def demo_nodes_def no_nodes_def)

section \<open>Operations on the queue\<close>

text \<open>
  C2: \<open>insert\<close> of a process that is not queued never panics (the array of nodes
  has room and no search fails), gives it between 1 and 4 levels, places it before the first process
  whose deadline is not earlier, and keeps the order of all others; \<open>delete\<close> then removes it from
  every level and restores the queue.
\<close>

theorem insert_delete_roundtrip:
  assumes "queue_inv s q" "p < NPROC" "p \<notin> set q"
  shows "\<exists>m s1 s2. insert_proc p s = ret (m, s1) \<and> 1 \<le> m \<and> m \<le> 4 \<and>
    queue_inv s1 (enqueue (deadline s) p q) \<and>
    delete_proc p s1 = ret (m, s2) \<and> queue_inv s2 q \<and> max_skiplist_level (procs s2 p) = -1"
proof -
  obtain m h sd out where i: "insert_proc p s = ret (int m, requeued p (int m) h sd out s)"
    "1 \<le> m" "int m \<le> LEVELS" "queue_inv (requeued p (int m) h sd out s) (enqueue (deadline s) p q)"
    using insert_proc_ok [OF assms] by blast
  let ?s = "requeued p (int m) h sd out s"
  have "p \<in> set (enqueue (deadline s) p q)" by simp
  then obtain h' out' where d: "delete_proc p ?s = ret (int m, requeued p (-1) h' (seed ?s) out' ?s)"
    "queue_inv (requeued p (-1) h' (seed ?s) out' ?s) (remove1 p (enqueue (deadline s) p q))"
    using delete_proc_ok [OF i(4)] by force
  with i sl.remove1_enqueue [OF assms(3)] show ?thesis
    by (intro exI conjI) (auto simp: LEVELS_def)
qed

theorem insert_delete_roundtrip_witness:
  "\<exists>m s1 s2. insert_proc 1 demo = ret (m, s1) \<and> 1 \<le> m \<and> m \<le> 4 \<and>
    queue_inv s1 (enqueue (deadline demo) 1 [0]) \<and>
    delete_proc 1 s1 = ret (m, s2) \<and> queue_inv s2 [0] \<and> max_skiplist_level (procs s2 1) = -1"
  by (rule insert_delete_roundtrip [OF demo_queue_inv]) (simp_all add: NPROC_def)

text \<open>
  C1: a round of the scheduler either finds no process that is RUNNABLE or
  RUNNING, or it switches to one whose virtual deadline is the earliest of all of them: this process
  becomes RUNNING with a full quantum of 50 ticks on its own page table, \<open>ptable.lock\<close> is held for
  it, no other process changes, and the process table stays consistent. It never panics.
\<close>

theorem scheduler_earliest_deadline:
  assumes "idle_cpu c s" "ptable_ok s" "spaces_ok s"
  shows "case scheduler_enter c s of
      Some (Inr (None, s')) \<Rightarrow> (\<forall>p<NPROC. \<not> schedulable (p_state (procs s p))) \<and> ptable_ok s' \<and> idle_cpu c s'
    | Some (Inr (Some p, s')) \<Rightarrow>
        p < NPROC \<and> schedulable (p_state (procs s p)) \<and>
        (\<forall>r<NPROC. schedulable (p_state (procs s r)) \<longrightarrow> virt_deadline (procs s p) \<le> virt_deadline (procs s r)) \<and>
        procs s' = (procs s)(p := (procs s p)\<lparr>p_state := RUNNING, ticks_left := 50\<rparr>) \<and>
        ptable_ok s' \<and> switching c s' \<and> cpu_proc (cpus s' c) = Some p \<and>
        cr3 s' = p_pgdir (procs s p) - KERNBASE
    | _ \<Rightarrow> False"
  using scheduler_enter_ok [OF assms] by (auto simp: BFS_DEFAULT_QUANTUM_def)

theorem scheduler_earliest_deadline_witness:
  "\<exists>p s'. scheduler_enter 0 demo = ret (Some p, s') \<and> virt_deadline (procs demo p) \<le> 1050"
proof -
  have id: "idle_cpu 0 demo" using demo_running by (simp add: idle_cpu_def running_def)
  have s0: "schedulable (p_state (procs demo 0))" "virt_deadline (procs demo 0) = 1050" "0 < NPROC"
    by (simp_all add: demo_def demo_procs_def schedulable_def NPROC_def)
  note e = scheduler_earliest_deadline [OF id demo_ptable_ok demo_spaces]
  obtain po s' where r: "scheduler_enter 0 demo = ret (po, s')"
    using e by (auto split: option.splits sum.splits)
  show ?thesis
  proof (cases po)
    case None
    with e r s0 show ?thesis by auto
  next
    case (Some p)
    with e r have "\<forall>x<NPROC. schedulable (p_state (procs demo x)) \<longrightarrow>
        virt_deadline (procs demo p) \<le> virt_deadline (procs demo x)" by simp
    with s0 have "virt_deadline (procs demo p) \<le> 1050" by metis
    with r Some show ?thesis by blast
  qed
qed

text \<open>
  C3: \<open>yield\<close> of a running process takes it out of the queue, sets its deadline from its
  nice value and the current tick, puts it back in the order of the new deadlines and enters the
  scheduler with \<open>ptable.lock\<close> as the only lock held; no other process changes.
\<close>

theorem yield_requeues:
  assumes "running c p s" "ptable_ok s"
  shows "\<exists>s' m. yield_enter s = ret s' \<and> ptable_ok s' \<and> switching c s' \<and>
    procs s' = (procs s)(p := (procs s p)\<lparr>p_state := RUNNABLE, max_skiplist_level := m,
      virt_deadline := computevd (nice (procs s p)) (sint (ticks s))\<rparr>) \<and>
    resume_at s' p = In_yield (fl_if s)"
  using yield_enter_ok [OF assms] by auto

theorem yield_requeues_witness:
  "\<exists>s' m. yield_enter demo = ret s' \<and> ptable_ok s' \<and> switching 0 s' \<and>
    procs s' = (procs demo)(0 := (procs demo 0)\<lparr>p_state := RUNNABLE, max_skiplist_level := m,
      virt_deadline := computevd (nice (procs demo 0)) (sint (ticks demo))\<rparr>) \<and>
    resume_at s' 0 = In_yield (fl_if demo)"
  by (rule yield_requeues [OF demo_running demo_ptable_ok])

text \<open>
  C4: \<open>sleep(chan, lk)\<close> of a running process that holds \<open>lk\<close> removes it from the queue,
  marks it SLEEPING on \<open>chan\<close>, has given up \<open>lk\<close> and holds \<open>ptable.lock\<close> when it enters the scheduler.
\<close>

theorem sleep_dequeues:
  assumes "ready_to_sleep c p lk s" "ptable_ok s" "lk \<noteq> L_ptable"
  shows "\<exists>s'. sleep_enter ch (Some lk) s = ret s' \<and> ptable_ok s' \<and> switching c s' \<and>
    locked (locks s' lk) = 0 \<and>
    procs s' = (procs s)(p := (procs s p)\<lparr>p_chan := ch, max_skiplist_level := -1, p_state := SLEEPING\<rparr>)"
proof -
  obtain s' where s': "sleep_enter ch (Some lk) s = ret s'" "ptable_ok s'" "switching c s'"
    "only_queue (lock_handed_over c lk s) (s'\<lparr>resume_at := resume_at s\<rparr>)"
    "procs s' = (procs s)(p := (procs s p)\<lparr>p_chan := ch, max_skiplist_level := -1, p_state := SLEEPING\<rparr>)"
    using sleep_enter_ok [OF assms(1,2)] by blast
  have "locks s' = locks (lock_handed_over c lk s)" using s'(4) by (simp add: only_queue_iff)
  then have "locked (locks s' lk) = 0"
    using assms(3) by (simp add: lock_handed_over_def released_def)
  with s' show ?thesis by blast
qed

definition demo_locked :: ptable where
  "demo_locked = acquired L_ticks 0 demo"

theorem sleep_dequeues_witness:
  "\<exists>s'. sleep_enter C_ticks (Some L_ticks) demo_locked = ret s' \<and> ptable_ok s'"
proof -
  have "ready_to_sleep 0 0 L_ticks demo_locked"
    using demo_running on_cpu_acquired [of 0 demo L_ticks]
    by (simp add: ready_to_sleep_def running_def demo_locked_def holds_def)
      (simp add: acquired_def free_lock_def)
  moreover have "ptable_ok demo_locked"
    using demo_ptable_ok ptable_ok_frame [of demo_locked demo] by (simp add: demo_locked_def)
  ultimately show ?thesis using sleep_dequeues [of 0 0 L_ticks demo_locked C_ticks] by auto
qed

text \<open>
  C5: \<open>wakeup(chan)\<close> makes every process that sleeps on \<open>chan\<close> RUNNABLE and queues it,
  changes no other process, and releases the lock it took.
\<close>

theorem wakeup_wakes_all:
  assumes "on_cpu c s" "free_lock L_ptable s" "ptable_ok s"
  shows "\<exists>s'. wakeup ch s = ret s' \<and> ptable_ok s' \<and> free_lock L_ptable s' \<and>
    (\<forall>p<NPROC. \<not> (p_state (procs s' p) = SLEEPING \<and> p_chan (procs s' p) = ch)) \<and>
    (\<forall>p<NPROC. p_state (procs s p) = SLEEPING \<and> p_chan (procs s p) = ch \<longrightarrow> p_state (procs s' p) = RUNNABLE) \<and>
    (\<forall>p<NPROC. \<not> (p_state (procs s p) = SLEEPING \<and> p_chan (procs s p) = ch) \<longrightarrow> procs s' p = procs s p)"
proof -
  obtain s' where s': "wakeup ch s = ret s'" "ptable_ok s'" "only_queue (settle c s) s'"
    "\<And>p. \<exists>m. procs s' p = (if p < NPROC \<and> p_state (procs s p) = SLEEPING \<and> p_chan (procs s p) = ch
      then (procs s p)\<lparr>p_state := RUNNABLE, max_skiplist_level := m\<rparr> else procs s p)"
    using wakeup_ok [OF assms] by blast
  have eq: "if p_state (procs s p) = SLEEPING \<and> p_chan (procs s p) = ch
      then p_state (procs s' p) = RUNNABLE else procs s' p = procs s p" if "p < NPROC" for p
    using s'(4) [of p] that by auto
  have "free_lock L_ptable s'" using s'(3) assms(2) by (simp add: only_queue_iff free_lock_def)
  moreover have "\<not> (p_state (procs s' p) = SLEEPING \<and> p_chan (procs s' p) = ch)" if "p < NPROC" for p
    using eq [OF that] by (auto split: if_splits)
  moreover have "p_state (procs s' p) = RUNNABLE" if "p < NPROC" "p_state (procs s p) = SLEEPING \<and> p_chan (procs s p) = ch" for p
    using eq [OF that(1)] that(2) by simp
  moreover have "procs s' p = procs s p" if "p < NPROC" "\<not> (p_state (procs s p) = SLEEPING \<and> p_chan (procs s p) = ch)" for p
    using eq [OF that(1)] that(2) by (simp split: if_splits)
  ultimately show ?thesis using s'(1,2) by blast
qed

theorem wakeup_wakes_all_witness:
  "\<exists>s'. wakeup C_ticks demo = ret s' \<and> p_state (procs s' 1) = RUNNABLE"
proof -
  have "on_cpu 0 demo" "free_lock L_ptable demo" using demo_running by (simp_all add: running_def)
  from wakeup_wakes_all [OF this demo_ptable_ok, of C_ticks] obtain s' where
    s': "wakeup C_ticks demo = ret s'"
    "\<forall>p<NPROC. p_state (procs demo p) = SLEEPING \<and> p_chan (procs demo p) = C_ticks \<longrightarrow> p_state (procs s' p) = RUNNABLE"
    by blast
  moreover have "p_state (procs demo 1) = SLEEPING" "p_chan (procs demo 1) = C_ticks" "1 < NPROC"
    by (simp_all add: demo_def demo_procs_def NPROC_def)
  ultimately show ?thesis by blast
qed

end
