(* ===== verification/Sections.thy ===== *)
theory Sections
  imports ProcProps
begin

text \<open>
  Critical sections of the locks other than \<open>ptable.lock\<close>: what holds inside, what releasing the lock
  restores, and sections that end by waking the sleepers on a channel.
\<close>

text \<open>The fields that interrupt nesting and locking depend on.\<close>

definition same_cpu :: "'a machine_scheme \<Rightarrow> 'b machine_scheme \<Rightarrow> bool" where
  "same_cpu s t \<longleftrightarrow> cpus t = cpus s \<and> locks t = locks s \<and> fl_if t = fl_if s \<and> ncpu t = ncpu s \<and> lapicid t = lapicid s"

lemma same_cpu_refl [simp]: "same_cpu s s"
  by (simp add: same_cpu_def)

lemma same_cpu_trans: "same_cpu s t \<Longrightarrow> same_cpu t u \<Longrightarrow> same_cpu s u"
  by (simp add: same_cpu_def)

lemma same_cpu_only_queue: "only_queue s t \<Longrightarrow> same_cpu s t"
  by (simp add: same_cpu_def only_queue_iff)

lemma same_cpu_on_cpu: "same_cpu s t \<Longrightarrow> on_cpu c t = on_cpu c s"
  by (simp add: same_cpu_def on_cpu_def)

lemma same_cpu_free_lock: "same_cpu s t \<Longrightarrow> free_lock l t = free_lock l s"
  by (simp add: same_cpu_def free_lock_def)

lemma running_settled:
  assumes "running c q s" "same_cpu (settle c s) t" "p_state (procs t q) = RUNNING"
  shows "running c q t"
proof -
  have "cpus t = cpus (settle c s)" using assms(2) by (simp add: same_cpu_def)
  with assms same_cpu_on_cpu [OF assms(2)] same_cpu_free_lock [OF assms(2)] show ?thesis
    by (simp add: running_def)
qed

text \<open>Inside a critical section of \<open>l\<close> that started in \<open>s\<close>.\<close>

lemma in_section:
  assumes "on_cpu c s" "same_cpu (acquired l c s) t"
  shows "on_cpu c t" "0 < ncli (cpus t c)" "holds l c t" "settle c t = t"
    "cpu_proc (cpus t c) = cpu_proc (cpus s c)"
proof -
  have e: "cpus t = cpus (acquired l c s)" "locks t = locks (acquired l c s)" "fl_if t = fl_if (acquired l c s)"
    "ncpu t = ncpu (acquired l c s)" "lapicid t = lapicid (acquired l c s)"
    using assms(2) by (simp_all add: same_cpu_def)
  show "on_cpu c t" using on_cpu_acquired [OF assms(1), of l] by (simp add: on_cpu_def e)
  show n: "0 < ncli (cpus t c)" using assms(1) by (simp add: e acquired_def on_cpu_def)
  show "holds l c t" using holds_acquired [of l c s] by (simp add: holds_def e)
  show "settle c t = t" using n by (intro settle_nested) simp
  show "cpu_proc (cpus t c) = cpu_proc (cpus s c)" by (simp add: e acquired_def)
qed

lemma leave_section:
  assumes "on_cpu c s" "free_lock l s" "same_cpu (acquired l c s) t"
  shows "release l t = ret (released l c t)" "same_cpu (settle c s) (released l c t)"
proof -
  note i = in_section [OF assms(1,3)]
  show "release l t = ret (released l c t)" by (rule release_held [OF i(1,2,3)])
  have e: "cpus t = cpus (acquired l c s)" "locks t = locks (acquired l c s)" "fl_if t = fl_if (acquired l c s)"
    "ncpu t = ncpu (acquired l c s)" "lapicid t = lapicid (acquired l c s)"
    using assms(3) by (simp_all add: same_cpu_def)
  have "same_cpu (released l c (acquired l c s)) (released l c t)"
    by (simp add: same_cpu_def released_def e)
  then show "same_cpu (settle c s) (released l c t)"
    by (simp only: released_acquired [OF assms(1,2)])
qed

lemma free_lock_section:
  "l \<noteq> l' \<Longrightarrow> same_cpu (acquired l c s) t \<Longrightarrow> free_lock l' s \<Longrightarrow> free_lock l' t"
  by (simp add: same_cpu_def free_lock_def acquired_def)

text \<open>All processes that slept on \<open>ch\<close> are awake.\<close>

definition woken :: "chan \<Rightarrow> 'a ptable_scheme \<Rightarrow> 'a ptable_scheme \<Rightarrow> bool" where
  "woken ch s s' \<longleftrightarrow> (\<forall>x<NPROC. p_state (procs s x) = SLEEPING \<longrightarrow> p_chan (procs s x) = ch \<longrightarrow>
     p_state (procs s' x) = RUNNABLE)"

text \<open>
  What a call into the kernel that takes locks and wakes processes may change besides the data of its
  component: the scheduling queue, the CPU and the locks.
\<close>

definition noise :: "'a ptable_scheme \<Rightarrow> 'a ptable_scheme \<Rightarrow> bool" where
  "noise s s' \<longleftrightarrow> s' = s\<lparr>console := console s', fl_if := fl_if s', cpus := cpus s', locks := locks s',
     level := level s', procs := procs s', seed := seed s'\<rparr>"

lemma noise_released: "noise s (released l c s)"
  by (simp add: noise_def released_def)

lemma noise_acquired: "noise s (acquired l c s)"
  by (simp add: noise_def acquired_def)

lemma noise_only_queue: "only_queue s s' \<Longrightarrow> noise s (released l c s')"
  by (simp add: noise_def only_queue_iff released_def)

lemma wake_release:
  assumes "running c q s" "ptable_ok s" "free_lock l s" "l \<noteq> L_ptable"
    and "same_cpu (acquired l c s) t" "procs t = procs s" "level t = level s"
  shows "\<exists>s'. rbind (wakeup ch t) (release l) = ret s' \<and> running c q s' \<and> ptable_ok s' \<and>
    same_cpu (settle c s) s' \<and> woken ch s s' \<and> noise t s' \<and> p_pid (procs s' q) = p_pid (procs s q)"
proof -
  have on: "on_cpu c s" and frp: "free_lock L_ptable s" and st: "p_state (procs s q) = RUNNING"
    using assms(1) by (auto simp: running_def)
  note i = in_section [OF on assms(5)]
  have "free_lock L_ptable t" by (rule free_lock_section [OF assms(4,5) frp])
  moreover have "ptable_ok t" using assms(2) ptable_ok_frame [of t s] assms(6,7) by simp
  ultimately obtain u where u: "wakeup ch t = ret u" "ptable_ok u" "only_queue t u"
    "\<forall>x. \<exists>m. procs u x = (if x < NPROC \<and> p_state (procs s x) = SLEEPING \<and> p_chan (procs s x) = ch
      then (procs s x)\<lparr>p_state := RUNNABLE, max_skiplist_level := m\<rparr> else procs s x)"
    using wakeup_ok [OF i(1), of ch, unfolded i(4) assms(6)] by blast
  have su: "same_cpu (acquired l c s) u"
    by (rule same_cpu_trans [OF assms(5) same_cpu_only_queue [OF u(3)]])
  note r = leave_section [OF on assms(3) su]
  let ?s' = "released l c u"
  have q: "p_state (procs ?s' q) = RUNNING \<and> p_pid (procs ?s' q) = p_pid (procs s q)"
    using u(4) [rule_format, of q] st by auto
  have "woken ch s ?s'"
    unfolding woken_def
  proof (intro allI impI)
    fix x assume "x < NPROC" "p_state (procs s x) = SLEEPING" "p_chan (procs s x) = ch"
    then show "p_state (procs ?s' x) = RUNNABLE" using u(4) [rule_format, of x] by auto
  qed
  then show ?thesis
    using u(1,2) r q running_settled [OF assms(1) r(2)] noise_only_queue [OF u(3)] ptable_ok_frame [of ?s' u]
    by (intro exI [of _ ?s']) simp
qed

end
