(* ===== verification/Demo.thy ===== *)
theory Demo
  imports Trap Sections
begin

text \<open>
  A concrete kernel state around the process table of the theory \<open>ProcProps\<close>, on which the
  properties of the upper components are applied: empty caches, no open files, no pending input.
\<close>

definition kernel_of :: "ptable \<Rightarrow> traps" where
  "kernel_of s =
     \<lparr>mem = mem s, console = console s, fl_if = fl_if s, lapicid = lapicid s, ncpu = ncpu s, cpus = cpus s,
      locks = locks s, use_lock = use_lock s, freelist = freelist s, kend = kend s, gdt = gdt s, tss = tss s,
      tss_addr = tss_addr s, kdata = kdata s, kpgdir = kpgdir s, cr3 = cr3 s, gdtr = gdtr s,
      task_register = task_register s, level = level s, procs = procs s, null_proc = null_proc s,
      seed = seed s, schedlog_active = schedlog_active s, schedlog_lasttick = schedlog_lasttick s,
      ins_del_flag = ins_del_flag s, initproc = initproc s, nextpid = nextpid s, ticks = ticks s,
      resume_at = resume_at s, trapret_addr = trapret_addr s, forkret_addr = forkret_addr s,
      slocks = (\<lambda>_. \<lparr>sl_locked = 0, sl_name = [], sl_pid = 0\<rparr>),
      bufs = (\<lambda>_. \<lparr>b_flags = 0, b_dev = 0, b_blockno = 0, b_refcnt = 0, b_data = replicate 512 0\<rparr>),
      bnext = (\<lambda>r. case r of BHead \<Rightarrow> Buf 0 | Buf i \<Rightarrow> if i < 29 then Buf (i + 1) else BHead),
      bprev = (\<lambda>r. case r of BHead \<Rightarrow> Buf 29 | Buf i \<Rightarrow> if i = 0 then BHead else Buf (i - 1)),
      disk = (\<lambda>_. replicate 512 0), disksize = 2000, disk_writes = [],
      log_start = 2, log_size = 30, log_outstanding = 0, log_committing = 0, log_dev = 1, lh_n = 0,
      lh_block = (\<lambda>_. 0),
      sb = \<lparr>sb_size = 2000, sb_nblocks = 1941, sb_ninodes = 200, sb_nlog = 30, sb_logstart = 2,
        sb_inodestart = 32, sb_bmapstart = 58\<rparr>,
      inodes = (\<lambda>_. \<lparr>i_dev = 0, i_inum = 0, i_ref = 0, i_valid = 0, i_type = 0, i_major = 0, i_minor = 0,
        i_nlink = 0, i_size = 0, i_addrs = (\<lambda>_. 0)\<rparr>),
      dev_in = (\<lambda>_ _. 0), dev_pos = (\<lambda>_. 0), dev_out = [], kbd_shift = 0, uart = 0, lapic = 0, ioapicid = 0,
      idequeue = None, qnext = (\<lambda>_. None), havedisk1 = 1,
      pipes = (\<lambda>_. \<lparr>pdata = (\<lambda>_. 0), nread = 0, nwrite = 0, readopen = 1, writeopen = 1\<rparr>),
      inp = \<lparr>ibuf = (\<lambda>_. 0), ir = 0, iw = 0, ie = 0\<rparr>, devsw_read = (\<lambda>_. None), devsw_write = (\<lambda>_. None),
      cons_locking = 1,
      files = (\<lambda>_. \<lparr>f_type = FD_NONE, f_ref = 0, f_readable = False, f_writable = False, f_pipe = 0,
        f_ip = 0, f_off = 0\<rparr>),
      forkret_first = 0, initcode_start = 0x8010b4e0, initcode_size = 44,
      idt = (\<lambda>_. SETGATE False 8 0 0), idt_loaded = True, vectors = (\<lambda>_. 0x80105600), cr2 = 0,
      entryother_start = 0x8010b48c, entryother_size = 84, mpenter_addr = 0x80102f00,
      entrypgdir_addr = 0x80109000, fs_img = (\<lambda>_. replicate 512 0), fs_img_size = 1024000\<rparr>"

lemma kernel_of_machine [simp]:
  "mem (kernel_of s) = mem s" "fl_if (kernel_of s) = fl_if s" "lapicid (kernel_of s) = lapicid s"
  "ncpu (kernel_of s) = ncpu s" "cpus (kernel_of s) = cpus s" "locks (kernel_of s) = locks s"
  "cr3 (kernel_of s) = cr3 s" "level (kernel_of s) = level s" "procs (kernel_of s) = procs s"
  "ticks (kernel_of s) = ticks s" "initproc (kernel_of s) = initproc s"
  by (simp_all add: kernel_of_def)

lemma kernel_of_free [simp]: "free_lock l (kernel_of s) = free_lock l s"
  by (simp add: free_lock_def)

lemma kernel_of_running: "running c p (kernel_of s) = running c p s"
  by (simp add: running_def on_cpu_def)

lemma kernel_of_ptable_ok:
  assumes "ptable_ok s"
  shows "ptable_ok (kernel_of s)"
proof -
  obtain q where q: "queue_inv s q" "\<forall>p<NPROC. p \<in> set q \<longleftrightarrow> schedulable (p_state (procs s p))"
    using assms by (auto simp: ptable_ok_def)
  have "queue_inv (kernel_of s) q" by (rule queue_inv_cong [OF q(1)]) simp_all
  with q(2) show ?thesis by (auto simp: ptable_ok_def)
qed

definition kdemo :: traps where "kdemo = kernel_of demo"

lemma kdemo_free [simp]: "free_lock l kdemo"
  by (simp add: kdemo_def free_lock_def demo_def)

lemma kdemo_running: "running 0 0 kdemo"
  by (simp add: kdemo_def kernel_of_running demo_running)

lemma kdemo_ptable_ok: "ptable_ok kdemo"
  by (simp add: kdemo_def kernel_of_ptable_ok demo_ptable_ok)

end
