(* ===== verification/PipeProps.thy ===== *)
theory PipeProps
  imports Demo
begin

unbundle bit_operations_syntax

text \<open>
  Properties of the pipes: a pipe is a first-in first-out queue of at most PIPESIZE bytes, and
  \<open>pipewrite\<close> and \<open>piperead\<close> move the bytes of the callers through it, in order, and wake the other end.
\<close>

section \<open>A pipe is a queue\<close>

definition pipe_contents :: "pipe \<Rightarrow> u8 list" where
  "pipe_contents p = ring_contents PIPESIZE (pdata p) (nread p) (nwrite p)"

definition pipe_ok :: "pipe \<Rightarrow> bool" where
  "pipe_ok p \<longleftrightarrow> unat (nwrite p - nread p) \<le> 512"

lemma pipe_len: "length (pipe_contents p) = unat (nwrite p - nread p)"
  by (simp add: pipe_contents_def)

lemma pipe_ok_iff: "pipe_ok p \<longleftrightarrow> length (pipe_contents p) \<le> 512"
  by (simp add: pipe_ok_def pipe_len)

lemma pipe_full_iff: "pipe_full p \<longleftrightarrow> length (pipe_contents p) = 512"
  using pq.full_iff [of p] by (simp add: pipe_full_def pipe_len PIPESIZE_def)

lemma pipe_empty_iff: "pipe_empty p \<longleftrightarrow> pipe_contents p = []"
  using pipe_len [of p] by (auto simp: pipe_empty_def pipe_contents_def ring_contents_def unat_eq_0)

lemma pipe_put_contents:
  assumes "length (pipe_contents p) < 512"
  shows "pipe_contents (pipe_put c p) = pipe_contents p @ [c]"
  using pq.put_appends [of p c] assms by (simp add: pipe_contents_def PIPESIZE_def)

lemma pipe_get_contents:
  assumes "pipe_contents p \<noteq> []"
  shows "pipe_contents p = fst (pipe_get p) # pipe_contents (snd (pipe_get p))"
proof -
  have "0 < unat (nwrite p - nread p)" using assms pipe_len [of p] by (metis length_greater_0_conv)
  then show ?thesis using pq.get_takes [of p] by (simp add: pipe_contents_def)
qed

text \<open>
  C24: the ring of a pipe, with its indices that wrap around at $2^{32}$, implements a bounded
  first-in first-out queue: the tests for a full and an empty pipe, storing and fetching a byte are the
  operations of the queue on its contents.
\<close>

theorem pipe_refines_fifo:
  assumes "pipe_ok p"
  shows "(pipe_full p \<longleftrightarrow> length (pipe_contents p) = 512) \<and> (pipe_empty p \<longleftrightarrow> pipe_contents p = []) \<and>
    (\<not> pipe_full p \<longrightarrow> pipe_contents (pipe_put c p) = pipe_contents p @ [c] \<and> pipe_ok (pipe_put c p)) \<and>
    (\<not> pipe_empty p \<longrightarrow>
      pipe_contents p = fst (pipe_get p) # pipe_contents (snd (pipe_get p)) \<and> pipe_ok (snd (pipe_get p)))"
proof (intro conjI impI)
  show "pipe_full p \<longleftrightarrow> length (pipe_contents p) = 512" by (rule pipe_full_iff)
  show "pipe_empty p \<longleftrightarrow> pipe_contents p = []" by (rule pipe_empty_iff)
  have le: "length (pipe_contents p) \<le> 512" using assms by (simp add: pipe_ok_iff)
  {
    assume "\<not> pipe_full p"
    with le have lt: "length (pipe_contents p) < 512" by (simp add: pipe_full_iff)
    from pipe_put_contents [OF lt] show e: "pipe_contents (pipe_put c p) = pipe_contents p @ [c]" .
    with lt have "length (pipe_contents (pipe_put c p)) \<le> 512" by simp
    then show "pipe_ok (pipe_put c p)" unfolding pipe_ok_iff .
  }
  assume "\<not> pipe_empty p"
  then show e: "pipe_contents p = fst (pipe_get p) # pipe_contents (snd (pipe_get p))"
    by (intro pipe_get_contents) (simp add: pipe_empty_iff)
  with le have "length (pipe_contents (snd (pipe_get p))) \<le> 512" by (metis Suc_leD length_Cons)
  then show "pipe_ok (snd (pipe_get p))" unfolding pipe_ok_iff .
qed

section \<open>Writing\<close>

lemma upd_pipe_simps [simp]:
  "pipes (upd_pipe p f s) = (pipes s)(p := f (pipes s p))" "mem (upd_pipe p f s) = mem s"
  "cr3 (upd_pipe p f s) = cr3 s" "procs (upd_pipe p f s) = procs s" "level (upd_pipe p f s) = level s"
  by (simp_all add: upd_pipe_def)

lemma same_cpu_upd_pipe [simp]: "same_cpu s (upd_pipe p f s)"
  by (simp add: same_cpu_def upd_pipe_def)

lemma pipewrite_loop_ok:
  assumes "vfetch addr n s = ret bs" "length (pipe_contents (pipes s p)) + n \<le> 512"
  shows "\<exists>q. pipewrite_loop p addr n s = ret (True, upd_pipe p (\<lambda>_. q) s) \<and>
    pipe_contents q = pipe_contents (pipes s p) @ bs \<and> readopen q = readopen (pipes s p) \<and> writeopen q = writeopen (pipes s p)"
  using assms
proof (induction n arbitrary: addr s bs)
  case 0
  then show ?case by (intro exI [of _ "pipes s p"]) (simp add: upd_pipe_def)
next
  case (Suc n)
  then obtain k cs where k: "translate False addr s = ret k" "vfetch (addr + 1) n s = ret cs" "bs = mem s k # cs"
    by (auto simp: rbind_eq_ret)
  let ?s = "upd_pipe p (pipe_put (mem s k)) s"
  have lt: "length (pipe_contents (pipes s p)) < 512" using Suc.prems(2) by simp
  note put = pipe_put_contents [OF lt, of "mem s k"]
  have "vfetch (addr + 1) n ?s = ret cs" using k(2) vfetch_cong [of s ?s "addr + 1" n] by simp
  moreover have "length (pipe_contents (pipes ?s p)) + n \<le> 512" using Suc.prems(2) put by simp
  ultimately obtain q where q: "pipewrite_loop p (addr + 1) n ?s = ret (True, upd_pipe p (\<lambda>_. q) ?s)"
    "pipe_contents q = pipe_contents (pipes ?s p) @ cs" "readopen q = readopen (pipes ?s p)" "writeopen q = writeopen (pipes ?s p)"
    using Suc.IH by blast
  have "vfetch addr 1 s = ret [mem s k]" using k(1) by simp
  moreover have "\<not> pipe_full (pipes s p)" using lt by (simp add: pipe_full_iff)
  ultimately have "pipewrite_loop p addr (Suc n) s = ret (True, upd_pipe p (\<lambda>_. q) ?s)"
    using q(1) by simp
  moreover have "upd_pipe p (\<lambda>_. q) ?s = upd_pipe p (\<lambda>_. q) s" by (simp add: upd_pipe_def)
  ultimately show ?case using q(2-4) put k(3) by (intro exI [of _ q]) (simp add: pipe_put_def)
qed


text \<open>What a process needs to call into pipe \<open>p\<close>: it runs on CPU \<open>c\<close>, and nobody holds the locks.\<close>

definition pipe_caller :: "nat \<Rightarrow> nat \<Rightarrow> u32 \<Rightarrow> 'a pcs_scheme \<Rightarrow> bool" where
  "pipe_caller c q p s \<longleftrightarrow> running c q s \<and> free_lock (L_pipe p) s \<and> ptable_ok s"

lemma pipes_noise: "noise s s' \<Longrightarrow> pipes s' = pipes s"
  unfolding noise_def by (drule arg_cong [of _ _ pipes]) simp

lemma wake_and_release:
  assumes "pipe_caller c q p s" "same_cpu (acquired (L_pipe p) c s) t" "procs t = procs s" "level t = level s"
  shows "\<exists>s'. rbind (wakeup ch t) (release (L_pipe p)) = ret s' \<and> pipe_caller c q p s' \<and> woken ch s s' \<and>
    pipes s' = pipes t \<and> mem s' = mem t"
proof -
  have r: "running c q s" "ptable_ok s" "free_lock (L_pipe p) s" using assms(1) by (auto simp: pipe_caller_def)
  from wake_release [OF r _ assms(2-4), of ch] obtain s' where s': "rbind (wakeup ch t) (release (L_pipe p)) = ret s'"
    "running c q s'" "ptable_ok s'" "same_cpu (settle c s) s'" "woken ch s s'" "noise t s'" by auto
  moreover have "free_lock (L_pipe p) s'" using same_cpu_free_lock [OF s'(4)] r(3) by simp
  moreover have "mem s' = mem t" using s'(6) unfolding noise_def by (rule arg_cong [of _ _ mem, THEN trans]) simp
  ultimately show ?thesis using pipes_noise by (auto simp: pipe_caller_def)
qed

text \<open>
  C26: \<open>pipewrite\<close> with room for its bytes appends exactly the bytes at \<open>addr\<close> to the pipe, returns their
  number, wakes all readers and keeps the process table consistent.
\<close>

theorem pipewrite_fifo:
  assumes "pipe_caller c q p s" "0 \<le> n" "vfetch addr (nat n) s = ret bs"
    and "length (pipe_contents (pipes s p)) + nat n \<le> 512"
  shows "\<exists>s'. pipewrite p addr n s = ret (n, s') \<and> pipe_contents (pipes s' p) = pipe_contents (pipes s p) @ bs \<and>
    woken (C_nread p) s s' \<and> pipe_caller c q p s' \<and> mem s' = mem s"
proof -
  have on: "on_cpu c s" and fr: "free_lock (L_pipe p) s"
    using assms(1) by (auto simp: pipe_caller_def running_def)
  let ?a = "acquired (L_pipe p) c s"
  have "vfetch addr (nat n) ?a = ret bs"
    using assms(3) vfetch_cong [of s ?a addr "nat n"] by (simp add: acquired_def)
  moreover have pa: "pipes ?a = pipes s" by (simp add: acquired_def)
  ultimately obtain r where r: "pipewrite_loop p addr (nat n) ?a = ret (True, upd_pipe p (\<lambda>_. r) ?a)"
    "pipe_contents r = pipe_contents (pipes s p) @ bs"
    using pipewrite_loop_ok [of addr "nat n" ?a bs p] assms(4) by auto
  let ?t = "upd_pipe p (\<lambda>_. r) ?a"
  have "same_cpu ?a ?t" by simp
  from wake_and_release [OF assms(1) this, of "C_nread p"] obtain s' where s':
    "rbind (wakeup (C_nread p) ?t) (release (L_pipe p)) = ret s'" "pipe_caller c q p s'"
    "woken (C_nread p) s s'" "pipes s' = pipes ?t" "mem s' = mem ?t" by auto
  have "rbind (wakeup (C_nread p) ?t) (\<lambda>s. rbind (release (L_pipe p) s) (\<lambda>s. ret (n, s))) = ret (n, s')"
    using s'(1) by (simp add: rbind_assoc [symmetric])
  then have "pipewrite p addr n s = ret (n, s')"
    using acquire_ptable [OF on fr] r(1) by (simp add: pipewrite_def)
  moreover have "mem s' = mem s" using s'(5) by (simp add: acquired_def)
  ultimately show ?thesis using s' r(2) by auto
qed

section \<open>Reading\<close>

lemma piperead_loop_ok:
  assumes "vstore addr (take n (pipe_contents (pipes s p))) s = ret t"
  shows "\<exists>r. piperead_loop p addr n s =
      ret (int (min n (length (pipe_contents (pipes s p)))), (upd_pipe p (\<lambda>_. r) s)\<lparr>mem := mem t\<rparr>) \<and>
    pipe_contents r = drop n (pipe_contents (pipes s p))"
  using assms
proof (induction n arbitrary: addr s t)
  case 0
  then show ?case by (intro exI [of _ "pipes s p"]) (simp add: upd_pipe_def)
next
  case (Suc n)
  show ?case
  proof (cases "pipe_contents (pipes s p) = []")
    case True
    with Suc.prems show ?thesis
      by (intro exI [of _ "pipes s p"]) (simp add: pipe_empty_iff upd_pipe_def)
  next
    case False
    define c q where "c = fst (pipe_get (pipes s p))" and "q = snd (pipe_get (pipes s p))"
    have g: "pipe_get (pipes s p) = (c, q)" by (simp add: c_def q_def)
    have cq: "pipe_contents (pipes s p) = c # pipe_contents q"
      using pipe_get_contents [OF False] by (simp add: c_def q_def)
    obtain k where k: "translate True addr s = ret k"
      "vstore (addr + 1) (take n (pipe_contents q)) (s\<lparr>mem := (mem s)(k := c)\<rparr>) = ret t"
      using Suc.prems by (auto simp: cq rbind_eq_ret)
    let ?s = "(upd_pipe p (\<lambda>_. q) s)\<lparr>mem := (mem s)(k := c)\<rparr>"
    have "vstore addr [c] (upd_pipe p (\<lambda>_. q) s) = ret ?s"
      using k(1) translate_cong [of s "upd_pipe p (\<lambda>_. q) s" True addr] by simp
    moreover have "vstore (addr + 1) (take n (pipe_contents (pipes ?s p))) ?s = ret (?s\<lparr>mem := mem t\<rparr>)"
      using vstore_cong [OF k(2), of ?s] by simp
    note Suc.IH [OF this]
    then obtain r where "piperead_loop p (addr + 1) n ?s =
        ret (int (min n (length (pipe_contents q))), (upd_pipe p (\<lambda>_. r) ?s)\<lparr>mem := mem t\<rparr>)"
      "pipe_contents r = drop n (pipe_contents q)" by auto
    moreover have "(upd_pipe p (\<lambda>_. r) ?s)\<lparr>mem := mem t\<rparr> = (upd_pipe p (\<lambda>_. r) s)\<lparr>mem := mem t\<rparr>"
      by (simp add: upd_pipe_def)
    ultimately show ?thesis
      using False cq by (intro exI [of _ r]) (simp add: g pipe_empty_iff)
  qed
qed

text \<open>
  C27: \<open>piperead\<close> on a pipe with data, or with its write end closed, moves the oldest bytes, as many as fit, to
  \<open>addr\<close>, returns their number, leaves the rest in order, wakes all writers and keeps the process table
  consistent. On an empty pipe without writers it returns 0.
\<close>

theorem piperead_fifo:
  assumes "pipe_caller c q p s" "pipe_contents (pipes s p) \<noteq> [] \<or> writeopen (pipes s p) = 0" "0 \<le> n"
    and "vstore addr (take (nat n) (pipe_contents (pipes s p))) s = ret t"
  shows "\<exists>s'. piperead p addr n s = ret (int (min (nat n) (length (pipe_contents (pipes s p)))), s') \<and>
    pipe_contents (pipes s' p) = drop (nat n) (pipe_contents (pipes s p)) \<and>
    mem s' = mem t \<and> woken (C_nwrite p) s s' \<and> pipe_caller c q p s'"
proof -
  have on: "on_cpu c s" and fr: "free_lock (L_pipe p) s"
    using assms(1) by (auto simp: pipe_caller_def running_def)
  let ?a = "acquired (L_pipe p) c s" and ?k = "int (min (nat n) (length (pipe_contents (pipes s p))))"
  have pa: "pipes ?a = pipes s" by (simp add: acquired_def)
  have "vstore addr (take (nat n) (pipe_contents (pipes ?a p))) ?a = ret (?a\<lparr>mem := mem t\<rparr>)"
    using vstore_cong [OF assms(4), of ?a] pa by (simp add: acquired_def)
  from piperead_loop_ok [OF this] obtain r where r:
    "piperead_loop p addr (nat n) ?a = ret (?k, (upd_pipe p (\<lambda>_. r) ?a)\<lparr>mem := mem t\<rparr>)"
    "pipe_contents r = drop (nat n) (pipe_contents (pipes s p))" using pa by auto
  let ?t = "(upd_pipe p (\<lambda>_. r) ?a)\<lparr>mem := mem t\<rparr>"
  have "same_cpu ?a ?t" by (simp add: same_cpu_def upd_pipe_def)
  from wake_and_release [OF assms(1) this, of "C_nwrite p"] obtain s' where s':
    "rbind (wakeup (C_nwrite p) ?t) (release (L_pipe p)) = ret s'" "pipe_caller c q p s'"
    "woken (C_nwrite p) s s'" "pipes s' = pipes ?t" "mem s' = mem ?t" by auto
  have "rbind (wakeup (C_nwrite p) ?t) (\<lambda>s. rbind (release (L_pipe p) s) (\<lambda>s. ret (?k, s))) = ret (?k, s')"
    using s'(1) by (simp add: rbind_assoc [symmetric])
  then have "piperead p addr n s = ret (?k, s')"
    using acquire_ptable [OF on fr] r(1) assms(2) pa by (auto simp: piperead_def pipe_empty_iff)
  then show ?thesis using s' r(2) by auto
qed

section \<open>An empty pipe\<close>

lemma kdemo_pipe: "pipe_caller 0 0 p kdemo" "pipe_contents (pipes kdemo p) = []" "writeopen (pipes kdemo p) = 1"
  by (simp add: pipe_caller_def kdemo_running kdemo_ptable_ok)
    (simp_all add: kdemo_def kernel_of_def pipe_contents_def ring_contents_def)

theorem pipe_refines_fifo_witness:
  "pipe_contents (pipe_put 7 (pipes kdemo 0)) = pipe_contents (pipes kdemo 0) @ [7] \<and> pipe_ok (pipe_put 7 (pipes kdemo 0))"
proof -
  have e: "pipe_contents (pipes kdemo 0) = []" by (rule kdemo_pipe(2))
  have ok: "pipe_ok (pipes kdemo 0)" by (simp add: pipe_ok_iff e)
  have "\<not> pipe_full (pipes kdemo 0)" by (simp add: pipe_full_iff e)
  with pipe_refines_fifo [OF ok, of 7] show ?thesis by blast
qed

theorem pipewrite_fifo_witness:
  "\<exists>s'. pipewrite 0x80200000 0x80300000 3 kdemo = ret (3, s') \<and>
    pipe_contents (pipes s' 0x80200000) = pipe_contents (pipes kdemo 0x80200000) @ [0, 0, 0] \<and>
    woken (C_nread 0x80200000) kdemo s' \<and> pipe_caller 0 0 0x80200000 s' \<and> mem s' = mem kdemo"
proof (rule pipewrite_fifo [OF kdemo_pipe(1)])
  show "vfetch 0x80300000 (nat 3) kdemo = ret [0, 0, 0]"
    by (simp add: numeral_3_eq_3 translate_def KERNBASE_def) (simp add: kdemo_def demo_def)
  show "length (pipe_contents (pipes kdemo 0x80200000)) + nat 3 \<le> 512"
    using kdemo_pipe(2) by simp
qed simp

theorem piperead_fifo_witness:
  "\<exists>s'. piperead 0x80200000 0x80300000 5 (upd_pipe 0x80200000 (\<lambda>r. r\<lparr>writeopen := 0\<rparr>) kdemo) =
      ret (int (min (nat 5) (length (pipe_contents (pipes (upd_pipe 0x80200000 (\<lambda>r. r\<lparr>writeopen := 0\<rparr>) kdemo) 0x80200000)))), s') \<and>
    pipe_contents (pipes s' 0x80200000) =
      drop (nat 5) (pipe_contents (pipes (upd_pipe 0x80200000 (\<lambda>r. r\<lparr>writeopen := 0\<rparr>) kdemo) 0x80200000)) \<and>
    mem s' = mem (upd_pipe 0x80200000 (\<lambda>r. r\<lparr>writeopen := 0\<rparr>) kdemo) \<and>
    woken (C_nwrite 0x80200000) (upd_pipe 0x80200000 (\<lambda>r. r\<lparr>writeopen := 0\<rparr>) kdemo) s' \<and> pipe_caller 0 0 0x80200000 s'"
proof (rule piperead_fifo)
  let ?s = "upd_pipe 0x80200000 (\<lambda>r. r\<lparr>writeopen := 0\<rparr>) kdemo"
  have e: "pipe_contents (pipes ?s 0x80200000) = []"
    using kdemo_pipe(2) [of "0x80200000"] by (simp add: pipe_contents_def)
  have "same_cpu kdemo ?s" by simp
  then have "running 0 0 ?s" "free_lock (L_pipe 0x80200000) ?s"
    using kdemo_running same_cpu_on_cpu [of kdemo ?s] same_cpu_free_lock [of kdemo ?s]
    by (simp_all add: running_def same_cpu_def)
  moreover have "ptable_ok ?s" using kdemo_ptable_ok ptable_ok_frame [of ?s kdemo] by simp
  ultimately show "pipe_caller 0 0 0x80200000 ?s" by (simp add: pipe_caller_def)
  show "vstore 0x80300000 (take (nat 5) (pipe_contents (pipes ?s 0x80200000))) ?s = ret ?s"
    unfolding e by simp
qed simp_all

end
