(* ===== verification/ConsProps.thy ===== *)
theory ConsProps
  imports PipeProps
begin

unbundle bit_operations_syntax

text \<open>
  The line discipline of the console: the input buffer of console.c, with its three running indices,
  implements an editor of lines. Completed lines wait for \<open>consoleread\<close>; the line that is being typed can
  be edited.
\<close>

section \<open>The abstract editor\<close>

text \<open>The text completed so far and the line being typed.\<close>

type_synonym editor = "u8 list \<times> u8 list"

definition edit :: "int \<Rightarrow> editor \<Rightarrow> editor" where
  "edit c ed = (case ed of (text, line) \<Rightarrow>
     if c = 16 \<or> c = 0 then (text, line)
     else if c = 21 then (text, [])
     else if c = 8 \<or> c = 127 then (text, butlast line)
     else if length text + length line < 128 then
       let c = (if c = 13 then 10 else c); line = line @ [word_of_int c] in
       if c = 10 \<or> c = 4 \<or> length text + length line = 128 then (text @ line, []) else (text, line)
     else (text, line))"

definition editor_of :: "input \<Rightarrow> editor" where
  "editor_of i = (ring_contents INPUT_BUF (ibuf i) (ir i) (iw i), ring_contents INPUT_BUF (ibuf i) (iw i) (ie i))"

text \<open>The indices are in order, the buffer does not overflow, and the line being typed has no newline.\<close>

definition input_ok :: "input \<Rightarrow> bool" where
  "input_ok i \<longleftrightarrow> unat (iw i - ir i) + unat (ie i - iw i) \<le> 128 \<and> 10 \<notin> set (snd (editor_of i))"

lemma input_split:
  assumes "input_ok i"
  shows "unat (ie i - ir i) = unat (iw i - ir i) + unat (ie i - iw i)"
    and "ring_contents INPUT_BUF (ibuf i) (ir i) (ie i) = fst (editor_of i) @ snd (editor_of i)"
  using assms unat_diff_add [of "iw i" "ir i" "ie i"] ring_split [of "iw i" "ir i" "ie i" INPUT_BUF "ibuf i"]
  by (simp_all add: input_ok_def editor_of_def)

lemma editor_lengths: "length (fst (editor_of i)) = unat (iw i - ir i)" "length (snd (editor_of i)) = unat (ie i - iw i)"
  by (simp_all add: editor_of_def)

text \<open>Erasing the last character of the line.\<close>

lemma erase_char:
  assumes "input_ok i" "ie i \<noteq> iw i"
  shows "editor_of (i\<lparr>ie := ie i - 1\<rparr>) = (fst (editor_of i), butlast (snd (editor_of i)))"
    and "input_ok (i\<lparr>ie := ie i - 1\<rparr>)" "ibuf i ((ie i - 1) mod INPUT_BUF) \<noteq> 10"
    and "unat (ie i - 1 - iw i) < unat (ie i - iw i)"
proof -
  have z: "0 < unat (ie i - iw i)" using assms(2) by (simp add: unat_gt_0)
  note u = ring_unput(1) [OF z] and c = ring_unput(2) [OF z, of INPUT_BUF "ibuf i"]
  show e: "editor_of (i\<lparr>ie := ie i - 1\<rparr>) = (fst (editor_of i), butlast (snd (editor_of i)))"
    by (simp add: editor_of_def c)
  show "unat (ie i - 1 - iw i) < unat (ie i - iw i)" using u z by linarith
  show "ibuf i ((ie i - 1) mod INPUT_BUF) \<noteq> 10"
    using assms(1) c by (auto simp: input_ok_def editor_of_def)
  have "set (butlast (snd (editor_of i))) \<subseteq> set (snd (editor_of i))" by (auto dest: in_set_butlastD)
  then show "input_ok (i\<lparr>ie := ie i - 1\<rparr>)"
    using assms(1) u unfolding input_ok_def e by auto
qed

text \<open>Control-U erases the whole line.\<close>

lemma kill_line_ok:
  assumes "input_ok (inp s)"
  shows "\<exists>out i. kill_line s = ret (s\<lparr>inp := i, console := console s @ out\<rparr>) \<and> input_ok i \<and>
    editor_of i = (fst (editor_of (inp s)), []) \<and> iw i = iw (inp s)"
  using assms
proof (induction "unat (ie (inp s) - iw (inp s))" arbitrary: s rule: less_induct)
  case less
  show ?case
  proof (cases "ie (inp s) = iw (inp s)")
    case True
    then have "kill_line s = ret s" by (subst kill_line.simps) simp
    moreover have "editor_of (inp s) = (fst (editor_of (inp s)), [])"
      using True by (simp add: editor_of_def ring_contents_def)
    ultimately show ?thesis
      using less.prems by (intro exI [of _ "[]"] exI [of _ "inp s"]) simp
  next
    case False
    let ?i = "(inp s)\<lparr>ie := ie (inp s) - 1\<rparr>"
    let ?s = "consputc BACKSPACE (s\<lparr>inp := ?i\<rparr>)"
    note er = erase_char [OF less.prems False]
    have si: "inp ?s = ?i" by (simp add: consputc_def)
    have "kill_line s = kill_line ?s"
      using False er(3) by (subst kill_line.simps) simp
    moreover have "\<exists>out i. kill_line ?s = ret (?s\<lparr>inp := i, console := console ?s @ out\<rparr>) \<and> input_ok i \<and>
        editor_of i = (fst (editor_of (inp ?s)), []) \<and> iw i = iw (inp ?s)"
      by (rule less.hyps) (use er si in auto)
    then obtain out i where o: "kill_line ?s = ret (?s\<lparr>inp := i, console := console ?s @ out\<rparr>)" "input_ok i"
        "editor_of i = (fst (editor_of ?i), [])" "iw i = iw (inp s)" by (auto simp: si)
    ultimately have "kill_line s = ret (s\<lparr>inp := i, console := console s @ ([CHR 0x08, CHR 0x20, CHR 0x08] @ out)\<rparr>)"
      by (simp add: consputc_def)
    moreover have "editor_of i = (fst (editor_of (inp s)), [])" using o(3) er(1) by simp
    ultimately show ?thesis using o(2,4) by blast
  qed
qed

lemma in_put_iw [simp]: "iw (in_put c i) = iw i"
  by (simp add: in_put_def)

text \<open>Typing a character appends it to the line.\<close>

lemma type_char:
  assumes "input_ok i" "unat (ie i - ir i) < 128"
  shows "editor_of (in_put c i) = (fst (editor_of i), snd (editor_of i) @ [c])"
    and "unat (ie i + 1 - iw i) = unat (ie i - iw i) + 1"
    and "unat (ie i + 1 - ir i) = unat (ie i - ir i) + 1"
proof -
  let ?j = "in_put c i"
  have f: "ir ?j = ir i" "iw ?j = iw i" "ie ?j = ie i + 1" by (simp_all add: in_put_def)
  have all: "ring_contents INPUT_BUF (ibuf ?j) (ir ?j) (ie ?j) = fst (editor_of i) @ (snd (editor_of i) @ [c])"
    using iq.put_appends [of i c] assms(2) input_split(2) [OF assms(1)] by (simp add: INPUT_BUF_def)
  have le: "unat (ie i - iw i) < 128" using assms input_split(1) [OF assms(1)] by simp
  show w: "unat (ie i + 1 - iw i) = unat (ie i - iw i) + 1"
  proof -
    have "ie i + 1 - iw i = (ie i - iw i) + of_nat 1" by simp
    moreover have "unat (ie i - iw i) + 1 < 2 ^ 32" using le by simp
    ultimately show ?thesis using unat_add_nat [of "ie i - iw i" 1] by (simp only:)
  qed
  show "unat (ie i + 1 - ir i) = unat (ie i - ir i) + 1"
  proof -
    have "ie i + 1 - ir i = (ie i - ir i) + of_nat 1" by simp
    moreover have "unat (ie i - ir i) + 1 < 2 ^ 32" using assms(2) by simp
    ultimately show ?thesis using unat_add_nat [of "ie i - ir i" 1] by (simp only:)
  qed
  have "unat (iw ?j - ir ?j) + unat (ie ?j - iw ?j) < 2 ^ 32"
    using assms(1) w f by (simp add: input_ok_def)
  from ring_split [OF this, of INPUT_BUF "ibuf ?j"] all
  have "fst (editor_of ?j) @ snd (editor_of ?j) = fst (editor_of i) @ (snd (editor_of i) @ [c])"
    by (simp add: editor_of_def)
  moreover have "length (fst (editor_of ?j)) = length (fst (editor_of i))"
    by (simp add: editor_lengths f)
  ultimately show "editor_of ?j = (fst (editor_of i), snd (editor_of i) @ [c])"
    by (metis append_eq_append_conv prod.collapse)
qed

lemma type_char_ok:
  assumes "input_ok i" "unat (ie i - ir i) < 128" "c \<noteq> 10"
  shows "input_ok (in_put c i)"
proof -
  note t = type_char(1) [OF assms(1,2), of c] type_char(2,3) [OF assms(1,2)]
  have "unat (iw i - ir i) + unat (ie i - iw i) < 128" using assms(2) input_split(1) [OF assms(1)] by simp
  moreover have "ir (in_put c i) = ir i" "iw (in_put c i) = iw i" "ie (in_put c i) = ie i + 1"
    by (simp_all add: in_put_def)
  ultimately show ?thesis
    using assms(1,3) t(2) unfolding input_ok_def t(1) by auto
qed

text \<open>Completing the line makes it available to \<open>consoleread\<close>.\<close>

lemma commit_line:
  fixes i :: input and c :: u8
  assumes "input_ok i" "unat (ie i - ir i) < 128"
  defines "j \<equiv> in_put c i"
  shows "editor_of (j\<lparr>iw := ie j\<rparr>) = (fst (editor_of i) @ snd (editor_of i) @ [c], [])"
    and "input_ok (j\<lparr>iw := ie j\<rparr>)"
proof -
  note t = type_char(1) [OF assms(1,2), of c] type_char(2,3) [OF assms(1,2)]
  have f: "ir j = ir i" "iw j = iw i" "ie j = ie i + 1" by (simp_all add: j_def in_put_def)
  have "unat (iw j - ir j) + unat (ie j - iw j) < 2 ^ 32"
    using assms(1) t(2) f by (simp add: input_ok_def)
  from ring_split [OF this, of INPUT_BUF "ibuf j"]
  show e: "editor_of (j\<lparr>iw := ie j\<rparr>) = (fst (editor_of i) @ snd (editor_of i) @ [c], [])"
    using t(1) by (simp add: editor_of_def j_def [symmetric]) (simp add: ring_contents_def)
  show "input_ok (j\<lparr>iw := ie j\<rparr>)"
    unfolding input_ok_def e using f t(3) assms(2) by simp
qed

section \<open>The interrupt handler implements the editor\<close>

lemma inp_only_queue: "only_queue s s' \<Longrightarrow> inp s' = inp s"
  unfolding only_queue_def by (drule arg_cong [of _ _ inp]) simp

lemma consoleintr_char_type:
  assumes "input_ok (inp s)" "on_cpu c s" "free_lock L_ptable s" "ptable_ok s"
    and "ch \<notin> {0, 8, 16, 21, 127}" "unat (ie (inp s) - ir (inp s)) < 128" "0 \<le> ch" "ch < 256"
  shows "\<exists>s'. consoleintr_char ch s = ret (False, s') \<and> editor_of (inp s') = edit ch (editor_of (inp s)) \<and>
    input_ok (inp s') \<and> ptable_ok s' \<and> (iw (inp s') \<noteq> iw (inp s) \<longrightarrow> woken C_input s s')"
proof -
  let ?d = "if ch = 13 then 10 else ch"
  let ?i = "in_put (word_of_int ?d) (inp s)"
  let ?s = "consputc ?d (s\<lparr>inp := ?i\<rparr>)"
  have i: "inp ?s = ?i" "procs ?s = procs s" "level ?s = level s" by (simp_all add: consputc_def)
  have len: "length (fst (editor_of (inp s))) + length (snd (editor_of (inp s))) = unat (ie (inp s) - ir (inp s))"
    using input_split(1) [OF assms(1)] by (simp add: editor_lengths)
  have nf: "\<not> in_full (inp s)" using assms(6) by (simp add: in_full_def INPUT_BUF_def word_less_nat_alt)
  have full: "ie ?i = ir ?i + INPUT_BUF \<longleftrightarrow> Suc (unat (ie (inp s) - ir (inp s))) = 128"
  proof -
    have "ie ?i = ir ?i + INPUT_BUF \<longleftrightarrow> unat (ie ?i - ir ?i) = 128"
      using iq.full_iff [of ?i] by (simp add: INPUT_BUF_def)
    then show ?thesis using type_char(3) [OF assms(1,6)] by (simp add: in_put_def)
  qed
  define fin where "fin \<longleftrightarrow> ?d = 10 \<or> ?d = 4 \<or> ie ?i = ir ?i + INPUT_BUF"
  have ok: "ptable_ok ?s" using assms(4) ptable_ok_frame [of ?s s] i by simp
  show ?thesis
  proof (cases fin)
    case False
    then have "consoleintr_char ch s = ret (False, ?s)"
      using assms(5) nf i(1) by (simp add: consoleintr_char_def fin_def Let_def)
    moreover have "word_of_int ?d \<noteq> (10 :: u8)"
    proof
      assume "word_of_int ?d = (10 :: u8)"
      then have "uint (word_of_int ?d :: u8) = 10" by simp
      moreover have "uint (word_of_int ?d :: u8) = ?d"
        using assms(7,8) by (simp add: uint_word_of_int)
      ultimately show False using False by (simp add: fin_def)
    qed
    ultimately show ?thesis
      using type_char(1) [OF assms(1,6)] type_char_ok [OF assms(1,6)] i ok False assms(5,6) len full
      by (intro exI [of _ ?s]) (auto simp: edit_def fin_def split: prod.splits)
  next
    case True
    let ?t = "?s\<lparr>inp := ?i\<lparr>iw := ie ?i\<rparr>\<rparr>"
    have "on_cpu c ?t" "free_lock L_ptable ?t" "ptable_ok ?t"
      using assms(2,3) ok ptable_ok_frame [of ?t ?s] by (simp_all add: consputc_def on_cpu_def free_lock_def)
    from wakeup_ok [OF this, of C_input] obtain s' where s': "wakeup C_input ?t = ret s'" "ptable_ok s'"
      "only_queue (settle c ?t) s'"
      "\<forall>p. \<exists>m. procs s' p = (if p < NPROC \<and> p_state (procs ?t p) = SLEEPING \<and> p_chan (procs ?t p) = C_input
        then (procs ?t p)\<lparr>p_state := RUNNABLE, max_skiplist_level := m\<rparr> else procs ?t p)" by blast
    have "consoleintr_char ch s = ret (False, s')"
      using True assms(5) nf i(1) s'(1) by (simp add: consoleintr_char_def fin_def Let_def)
    moreover have "inp s' = ?i\<lparr>iw := ie ?i\<rparr>"
      using inp_only_queue [OF s'(3)] by (simp add: settle_def)
    moreover have "woken C_input s s'"
      unfolding woken_def
    proof (intro allI impI)
      fix x assume "x < NPROC" "p_state (procs s x) = SLEEPING" "p_chan (procs s x) = C_input"
      then show "p_state (procs s' x) = RUNNABLE" using s'(4) [rule_format, of x] i(2) by auto
    qed
    ultimately show ?thesis
      using commit_line [OF assms(1,6), of "word_of_int ?d"] s'(2) True assms(5,6) len full
      by (intro exI [of _ s']) (auto simp: edit_def fin_def split: prod.splits)
  qed
qed



section \<open>Reading a line\<close>

lemma in_get_text:
  assumes "fst (editor_of i) = c # cs"
  shows "fst (in_get i) = c" "fst (editor_of (snd (in_get i))) = cs" "snd (editor_of (snd (in_get i))) = snd (editor_of i)"
    and "ir i \<noteq> iw i"
proof -
  have z: "0 < unat (iw i - ir i)" using arg_cong [OF assms, of length] by (simp add: editor_lengths)
  then show "ir i \<noteq> iw i" by auto
  show "fst (in_get i) = c" "fst (editor_of (snd (in_get i))) = cs" "snd (editor_of (snd (in_get i))) = snd (editor_of i)"
    using ring_get [OF z, of INPUT_BUF "ibuf i"] assms by (simp_all add: editor_of_def in_get_def)
qed



end
