(* ===== verification/DevProps.thy ===== *)
theory DevProps
  imports Pipe
begin

unbundle bit_operations_syntax

text \<open>
  Properties of the drivers: the scan of the processor table, the decoding of the clock, the key
  states of the keyboard, the queue of the IDE disk and the cursor of the screen.
\<close>

section \<open>The processor table\<close>

lemma mp_entries_known:
  assumes "mp_entries p e ismp s = Some y"
  shows "\<not> (p < e \<and> 4 < mem s p)"
proof (rule mp_entries.raw_induct [where P = "\<lambda>p e ismp s y. \<not> (p < e \<and> 4 < mem s p)", OF _ assms])
  fix f p e ismp y and s :: "'a devs_scheme"
  assume IH: "\<And>p e ismp s y. f p e ismp s = Some y \<Longrightarrow> \<not> (p < e \<and> 4 < mem s p)"
    and body: "(if p < e then
        if mem s p = 0 then
          f (p + 20) e ismp
            (if ncpu s < NCPU
             then s\<lparr>cpus := (cpus s)(ncpu s := (cpus s (ncpu s))\<lparr>apicid := mem s (p + 1)\<rparr>), ncpu := ncpu s + 1\<rparr>
             else s)
        else if mem s p = 2 then f (p + 8) e ismp (s\<lparr>ioapicid := mem s (p + 1)\<rparr>)
        else if mem s p = 1 \<or> mem s p = 3 \<or> mem s p = 4 then f (p + 8) e ismp s
        else f p e False s
      else ret (ismp, s)) = Some y"
  show "\<not> (p < e \<and> 4 < mem s p)"
  proof
    assume a: "p < e \<and> 4 < mem s p"
    then have "mem s p \<notin> {0, 1, 2, 3, 4}" by auto
    with body a have "f p e False s = Some y" by simp
    from IH [OF this] a show False by blast
  qed
qed

text \<open>
  C40: an entry of an unknown type in the table of the processors makes \<open>mpinit\<close> loop for ever: the
  \<open>break\<close> of the default branch leaves the switch and not the loop. The panic "Didn't find a suitable
  machine" behind the loop is never reached.
\<close>

theorem mp_entries_diverges:
  assumes "p < e" "4 < mem s p"
  shows "mp_entries p e ismp s = None"
  using assms mp_entries_known [of p e ismp s] by (cases "mp_entries p e ismp s") auto

theorem mp_entries_diverges_witness:
  "\<forall>s :: devs. mp_entries 0 1 True (s\<lparr>mem := (\<lambda>_. 9)\<rparr>) = None"
  by (intro allI mp_entries_diverges) simp_all

section \<open>The clock\<close>

text \<open>Two decimal digits, a nibble each.\<close>

definition bcd :: "nat \<Rightarrow> u32" where
  "bcd n = of_nat (n div 10 * 16 + n mod 10)"

text \<open>\<open>CONV\<close> of \<open>cmostime\<close> decodes every value the clock can show, 0 to 99 in two BCD digits.\<close>

theorem CONV_decodes: "map (\<lambda>n. CONV (bcd n)) [0..<100] = map of_nat [0..<100]"
  by code_simp

section \<open>The keyboard\<close>

lemma disjoint_bits: "x AND y = 0 \<longleftrightarrow> (\<forall>n. \<not> (bit x n \<and> bit y n))" for x y :: u32
  by (metis (mono_tags) bit_0_eq bit_and_iff bit_eqI bot_apply bot_bool_def)

lemma press_release_bits:
  fixes sh sc tc e :: u32
  assumes "sh AND e = 0" "sh AND sc = 0" "tc AND e = 0" "tc AND sc = 0"
  shows "((sh OR sc) XOR tc) AND NOT (sc OR e) = sh XOR tc"
  using assms unfolding disjoint_bits by (intro bit_eqI) (auto simp: bit_simps)

lemma modifier_bits:
  "togglecode d AND E0ESC = 0" "togglecode d AND shiftcode d = 0" "shiftcode d AND E0ESC = 0"
  by (simp_all add: togglecode_def shiftcode_def CAPSLOCK_def NUMLOCK_def SCROLLLOCK_def E0ESC_def
      CTL_def SHIFT_def ALT_def)

lemma scancodes:
  "list_all (\<lambda>n. let d = of_nat n :: u8 in d AND 0x80 = 0 \<and> (d OR 0x80) AND 0x80 \<noteq> 0 \<and>
     (d OR 0x80) AND 0x7F = d \<and> d OR 0x80 \<noteq> 0xE0) [0..<0x60]"
  by code_simp

lemma scancode:
  fixes d :: u8
  assumes "d < 0x60"
  shows "d AND 0x80 = 0" "d \<noteq> 0xE0" "(d OR 0x80) AND 0x80 \<noteq> 0" "(d OR 0x80) AND 0x7F = d" "d OR 0x80 \<noteq> 0xE0"
proof -
  have "unat d < 0x60"
    using assms by (simp add: word_less_nat_alt)
  then show "d AND 0x80 = 0" "(d OR 0x80) AND 0x80 \<noteq> 0" "(d OR 0x80) AND 0x7F = d" "d OR 0x80 \<noteq> 0xE0"
    using scancodes by (auto simp: list_all_iff Let_def dest!: bspec [where x = "unat d"])
  show "d \<noteq> 0xE0" using assms by auto
qed

text \<open>
  Pressing a key and releasing it restores the state of the modifier keys, up to the lock that
  the key toggles.
\<close>

theorem key_release:
  assumes "d < 0x60" "shift AND E0ESC = 0" "shift AND shiftcode d = 0"
  shows "snd (kbd_byte (snd (kbd_byte shift d)) (d OR 0x80)) = shift XOR togglecode d"
proof -
  define shift' where "shift' = (shift OR shiftcode d) XOR togglecode d"
  have "snd (kbd_byte shift d) = shift'"
    using assms scancode [OF assms(1)] by (simp add: kbd_byte_def shift'_def Let_def)
  moreover have "shift' AND E0ESC = 0"
    using assms(2) modifier_bits [of d] unfolding disjoint_bits shift'_def by (auto simp: bit_simps)
  moreover have "shift' AND NOT (shiftcode d OR E0ESC) = shift XOR togglecode d"
    unfolding shift'_def using assms modifier_bits by (intro press_release_bits)
  ultimately show ?thesis
    using scancode [OF assms(1)] by (simp add: kbd_byte_def [of shift'])
qed

theorem key_release_witness:
  "snd (kbd_byte (snd (kbd_byte 0 0x2A)) (0x2A OR 0x80)) = 0 XOR togglecode 0x2A"
  by (intro key_release) (simp_all add: E0ESC_def)

section \<open>The screen\<close>

lemma cga_scroll_ok:
  assumes "0 \<le> pos" "pos \<le> 24 * 80"
  shows "\<exists>pos' crt'. cga_scroll pos crt = ret (pos', crt') \<and> 0 \<le> pos' \<and> pos' < 24 * 80 \<and>
    crt' (nat pos') = 0x720 \<and> (\<forall>i\<ge>24 * 80. crt' i = crt i)"
proof (cases "pos = 24 * 80")
  case True
  then show ?thesis by (simp add: cga_scroll_def)
next
  case False
  then have "pos < 24 * 80" "\<not> 24 \<le> pos div 80" using assms by linarith+
  moreover from this assms have "nat pos < 24 * 80" by linarith
  ultimately show ?thesis using assms by (simp add: cga_scroll_def)
qed

text \<open>
  C34: \<open>cgaputc\<close> never panics and keeps the cursor in the 24 lines of the screen, with a blank under it;
  only cells of the screen change.
\<close>

theorem cgaputc_in_range:
  assumes "0 \<le> pos" "pos < 24 * 80"
  shows "\<exists>pos' crt'. cgaputc c pos crt = ret (pos', crt') \<and> 0 \<le> pos' \<and> pos' < 24 * 80 \<and>
    crt' (nat pos') = 0x720 \<and> (\<forall>i\<ge>24 * 80. crt' i = crt i)"
proof -
  have nl: "0 \<le> pos + (80 - pos mod 80)" "pos + (80 - pos mod 80) \<le> 24 * 80"
    using assms by presburger+
  consider "c = 10" | "c = BACKSPACE" | "c \<noteq> 10" "c \<noteq> BACKSPACE" by blast
  then show ?thesis
  proof cases
    case 1
    then show ?thesis
      using cga_scroll_ok [OF nl, of crt] by (simp add: cgaputc_def)
  next
    case 2
    then show ?thesis
      using assms cga_scroll_ok [of "if 0 < pos then pos - 1 else pos" crt] by (simp add: cgaputc_def BACKSPACE_def)
  next
    case 3
    define crt1 where "crt1 = crt(nat pos := (word_of_int c AND 0xff) OR 0x0700)"
    have same: "crt1 i = crt i" if "24 * 80 \<le> i" for i
      using that assms by (auto simp: crt1_def)
    have "cgaputc c pos crt = cga_scroll (pos + 1) crt1"
      using 3 by (simp add: cgaputc_def crt1_def)
    moreover have "0 \<le> pos + 1" "pos + 1 \<le> 24 * 80"
      using assms by simp_all
    ultimately show ?thesis
      using cga_scroll_ok [of "pos + 1" crt1] same by metis
  qed
qed

theorem cgaputc_in_range_witness:
  "\<exists>pos' crt'. cgaputc 65 1919 (\<lambda>_. 0) = ret (pos', crt') \<and> 0 \<le> pos' \<and> pos' < 24 * 80 \<and>
    crt' (nat pos') = 0x720 \<and> (\<forall>i\<ge>24 * 80. crt' i = 0)"
  using cgaputc_in_range [of 1919 65 "\<lambda>_. 0"] by simp

section \<open>The queue of the disk\<close>

text \<open>The buffers that wait for the disk, from \<open>idequeue\<close> along \<open>qnext\<close>.\<close>

fun ide_chain :: "(nat \<Rightarrow> nat option) \<Rightarrow> nat option \<Rightarrow> nat list \<Rightarrow> bool" where
  "ide_chain nxt p [] \<longleftrightarrow> p = None"
| "ide_chain nxt p (b # bs) \<longleftrightarrow> p = Some b \<and> ide_chain nxt (nxt b) bs"

lemma ide_chain_upd: "b \<notin> set bs \<Longrightarrow> ide_chain (nxt(b := v)) p bs = ide_chain nxt p bs"
  by (induction bs arbitrary: p) auto

lemma ide_chain_snoc:
  "ide_chain nxt p (bs @ [q]) \<Longrightarrow> distinct (bs @ [q]) \<Longrightarrow> nxt b = None \<Longrightarrow> b \<notin> set (bs @ [q]) \<Longrightarrow>
    ide_chain (nxt(q := Some b)) p (bs @ [q, b])"
  by (induction bs arbitrary: p) auto

lemma ide_tail_chain: "ide_chain nxt p bs \<Longrightarrow> ide_tail nxt pp p = ret (if bs = [] then pp else Some (last bs))"
proof (induction bs arbitrary: p pp)
  case Nil
  then show ?case by (simp add: ide_tail.simps)
next
  case (Cons b bs)
  then show ?case by (subst ide_tail.simps) auto
qed

text \<open>
  \<open>iderw\<close> queues its buffer behind all waiting ones and keeps their order: the queue of requests is
  first-in first-out. The walk to the end of the queue ends.
\<close>

theorem ide_append_fifo:
  assumes "ide_chain (qnext s) (idequeue s) bs" "distinct bs" "b \<notin> set bs"
  shows "\<exists>s'. ide_append b s = ret s' \<and> ide_chain (qnext s') (idequeue s') (bs @ [b]) \<and> distinct (bs @ [b])"
proof (cases bs rule: rev_cases)
  case Nil
  with assms show ?thesis by (auto simp: ide_append_def ide_tail.simps)
next
  case (snoc as q)
  define nx where "nx = (qnext s)(b := None)"
  have "ide_chain nx (idequeue s) bs"
    using assms by (simp add: nx_def ide_chain_upd)
  moreover from this have "ide_tail nx None (idequeue s) = ret (Some q)"
    using snoc by (simp add: ide_tail_chain)
  moreover have "nx b = None"
    by (simp add: nx_def)
  ultimately show ?thesis
    using assms snoc ide_chain_snoc [of nx "idequeue s" as q b]
    by (auto simp: ide_append_def nx_def [symmetric] Let_def)
qed

theorem ide_append_fifo_witness:
  "\<forall>s :: devs. \<exists>s'. ide_append 2 (s\<lparr>idequeue := Some 7, qnext := (\<lambda>_. None)\<rparr>) = ret s' \<and>
    ide_chain (qnext s') (idequeue s') ([7] @ [2]) \<and> distinct ([7] @ [2 :: nat])"
  by (intro allI ide_append_fifo) simp_all

end
