(* ===== verification/BioList.thy ===== *)
theory BioList
  imports Bio
begin

unbundle bit_operations_syntax

text \<open>
  The list of the buffer cache: the buffers in the order of their last use, linked in both directions
  through \<open>bcache.head\<close>. What the scans of \<open>bget\<close> find in it, and how \<open>brelse\<close> moves a buffer to its front.
\<close>

section \<open>Chains of pointers\<close>

fun links :: "('a \<Rightarrow> 'a) \<Rightarrow> 'a \<Rightarrow> 'a list \<Rightarrow> 'a \<Rightarrow> bool" where
  "links f a [] z \<longleftrightarrow> f a = z"
| "links f a (x # xs) z \<longleftrightarrow> f a = x \<and> links f x xs z"

lemma chain_append: "links f a (xs @ y # ys) z \<longleftrightarrow> links f a xs y \<and> links f y ys z"
  by (induction xs arbitrary: a) auto

lemma chain_first: "links f a xs z \<Longrightarrow> f a = hd (xs @ [z])"
  by (cases xs) auto

lemma chain_last: "links f a xs z \<Longrightarrow> f (last (a # xs)) = z"
  by (induction xs arbitrary: a) auto

lemma chain_upd: "x \<notin> set (a # xs) \<Longrightarrow> links (f(x := v)) a xs z = links f a xs z"
  by (induction xs arbitrary: a) auto

text \<open>Taking \<open>y\<close> out, putting it in front, and appending it.\<close>

lemma chain_cut:
  "links f a (xs @ y # ys) z \<Longrightarrow> distinct (a # xs @ y # ys) \<Longrightarrow> links (f(last (a # xs) := f y)) a (xs @ ys) z"
proof (induction xs arbitrary: a)
  case Nil
  then have "links f y ys z" "a \<notin> set ys" by auto
  moreover have "links (f(a := f y)) w ws z" if "ys = w # ws" for w ws
    using that calculation by (intro chain_upd [THEN iffD2]) auto
  ultimately show ?case by (cases ys) (auto simp del: fun_upd_apply, simp_all)
next
  case (Cons x xs)
  then show ?case by auto
qed

lemma chain_push:
  "links f a xs z \<Longrightarrow> y \<notin> set (a # xs) \<Longrightarrow> a \<notin> set xs \<Longrightarrow> links (f(y := f a, a := y)) a (y # xs) z"
  by (cases xs) (auto simp: chain_upd)

lemma chain_snoc:
  "links f a xs z \<Longrightarrow> y \<notin> set (a # xs) \<Longrightarrow> distinct (a # xs) \<Longrightarrow> links (f(y := z, last (a # xs) := y)) a (xs @ [y]) z"
proof (induction xs arbitrary: a)
  case (Cons x xs)
  define g where "g = f(y := z, last (x # xs) := y)"
  have "links g x (xs @ [y]) z" unfolding g_def using Cons.prems by (intro Cons.IH) auto
  moreover have "a \<noteq> last (x # xs)" using Cons.prems(3) last_in_set [of "x # xs"] by auto
  then have "g a = x" using Cons.prems by (auto simp: g_def)
  ultimately have "links g a ((x # xs) @ [y]) z" by simp
  then show ?case by (simp only: g_def last_ConsR list.distinct not_False_eq_True)
qed auto

section \<open>The list of buffers\<close>

definition bdll :: "(bref \<Rightarrow> bref) \<Rightarrow> (bref \<Rightarrow> bref) \<Rightarrow> nat list \<Rightarrow> bool" where
  "bdll nx pv xs \<longleftrightarrow> links nx BHead (map Buf xs) BHead \<and> links pv BHead (map Buf (rev xs)) BHead"

definition all_buffers :: "nat list \<Rightarrow> bool" where
  "all_buffers xs \<longleftrightarrow> distinct xs \<and> set xs = {..<NBUF}"

lemma scan_cached_chain:
  "links nx a (map Buf xs) BHead \<Longrightarrow>
   scan_cached nx bf dev n (nx a) = ret (find (\<lambda>i. b_dev (bf i) = dev \<and> b_blockno (bf i) = n) xs)"
proof (induction xs arbitrary: a)
  case Nil
  then show ?case by (simp add: scan_cached.simps)
next
  case (Cons x xs)
  then have "nx a = Buf x" "scan_cached nx bf dev n (nx (Buf x)) = ret (find (\<lambda>i. b_dev (bf i) = dev \<and> b_blockno (bf i) = n) xs)"
    by auto
  then show ?case by (subst scan_cached.simps) simp
qed

lemma scan_unused_chain:
  "links pv a (map Buf xs) BHead \<Longrightarrow>
   scan_unused pv bf (pv a) = ret (find (\<lambda>i. b_refcnt (bf i) = 0 \<and> b_flags (bf i) AND B_DIRTY = 0) xs)"
proof (induction xs arbitrary: a)
  case Nil
  then show ?case by (simp add: scan_unused.simps)
next
  case (Cons x xs)
  then have "pv a = Buf x"
    "scan_unused pv bf (pv (Buf x)) = ret (find (\<lambda>i. b_refcnt (bf i) = 0 \<and> b_flags (bf i) AND B_DIRTY = 0) xs)"
    by auto
  then show ?case by (subst scan_unused.simps) simp
qed

lemma inj_Buf: "distinct (BHead # map Buf xs) = distinct xs"
  by (auto simp: distinct_map inj_on_def)

lemma link_ptrs:
  "bnext (set_bnext a v s) = (bnext s)(a := v)" "bprev (set_bnext a v s) = bprev s"
  "bprev (set_bprev a v s) = (bprev s)(a := v)" "bnext (set_bprev a v s) = bnext s"
  by (simp_all add: set_bnext_def set_bprev_def)

text \<open>\<open>brelse\<close> makes the buffer the most recently used one and keeps the order of the others.\<close>

lemma dll_move_to_front:
  assumes "bdll (bnext s) (bprev s) xs" "distinct xs" "b \<in> set xs"
  shows "bdll (bnext (move_to_front b s)) (bprev (move_to_front b s)) (b # remove1 b xs)"
proof -
  obtain as cs where xs: "xs = as @ b # cs" "b \<notin> set as" using assms(3) by (meson split_list_first)
  let ?A = "map Buf as" and ?C = "map Buf cs" and ?b = "Buf b"
  let ?nx = "bnext s" and ?pv = "bprev s"
  have d: "distinct (BHead # ?A @ ?b # ?C)" "distinct (BHead # rev ?C @ ?b # rev ?A)"
    using assms(2) by (auto simp: xs distinct_map inj_on_def)
  have cn: "links ?nx BHead (?A @ ?b # ?C) BHead" and cp: "links ?pv BHead (rev ?C @ ?b # rev ?A) BHead"
    using assms(1) by (simp_all add: bdll_def xs rev_map)
  have nb: "?nx ?b = last (BHead # rev ?C)"
    using cn chain_first [of ?nx ?b ?C BHead] by (cases cs) (auto simp: chain_append)
  have pb: "?pv ?b = last (BHead # ?A)"
    using cp chain_first [of ?pv ?b "rev ?A" BHead] by (cases as rule: rev_cases) (auto simp: chain_append)
  define n1 where "n1 = ?nx(last (BHead # ?A) := ?nx ?b)"
  define p1 where "p1 = ?pv(last (BHead # rev ?C) := ?pv ?b)"
  have c1: "links n1 BHead (?A @ ?C) BHead" unfolding n1_def by (rule chain_cut [OF cn d(1)])
  have c2: "links p1 BHead (rev ?C @ rev ?A) BHead" unfolding p1_def by (rule chain_cut [OF cp d(2)])
  have fs: "n1 BHead = last (BHead # rev ?C @ rev ?A)"
    using chain_first [OF c1] by (cases as; cases cs) auto
  have "last (BHead # rev ?C) \<noteq> ?b" using d(2) by (cases cs) auto
  then have pb1: "p1 ?b = last (BHead # ?A)" by (simp add: p1_def pb)
  have m: "bnext (move_to_front b s) = n1(?b := n1 BHead, BHead := ?b)"
    "bprev (move_to_front b s) = p1(?b := BHead, last (BHead # rev ?C @ rev ?A) := ?b)"
  proof -
    have nb1: "n1 ?b = ?nx ?b" using d(1) by (cases as rule: rev_cases) (auto simp: n1_def)
    have e: "(bprev s)(?nx ?b := ?pv ?b) = p1" by (simp add: p1_def nb)
    have e2: "(bnext s)(p1 ?b := ?nx ?b) = n1" by (simp add: n1_def pb1)
    have "bnext (move_to_front b s) = n1(?b := n1 BHead, BHead := ?b)"
      "bprev (move_to_front b s) = p1(?b := BHead, (n1(?b := n1 BHead)) BHead := ?b)"
      by (simp_all only: move_to_front_def Let_def link_ptrs e e2)
    then show "bnext (move_to_front b s) = n1(?b := n1 BHead, BHead := ?b)"
      "bprev (move_to_front b s) = p1(?b := BHead, last (BHead # rev ?C @ rev ?A) := ?b)"
      by (simp_all add: fs)
  qed
  have "links (n1(?b := n1 BHead, BHead := ?b)) BHead (?b # ?A @ ?C) BHead"
    by (rule chain_push [OF c1]) (use d in auto)
  moreover have "links (p1(?b := BHead, last (BHead # rev ?C @ rev ?A) := ?b)) BHead ((rev ?C @ rev ?A) @ [?b]) BHead"
    by (rule chain_snoc [OF c2]) (use d in auto)
  ultimately show ?thesis using xs(2) unfolding bdll_def m by (simp add: xs(1) remove1_append rev_map)
qed

lemma move_to_front_fields [simp]:
  "bufs (move_to_front b s) = bufs s" "slocks (move_to_front b s) = slocks s" "disk (move_to_front b s) = disk s"
  "disk_writes (move_to_front b s) = disk_writes s" "procs (move_to_front b s) = procs s"
  "level (move_to_front b s) = level s"
  by (simp_all add: move_to_front_def Let_def set_bprev_def set_bnext_def)

lemma all_buffers_front: "all_buffers xs \<Longrightarrow> b < NBUF \<Longrightarrow> all_buffers (b # remove1 b xs)"
  by (auto simp: all_buffers_def)

text \<open>\<open>binit\<close> links all buffers, the last one first.\<close>

lemma binit_link_dll:
  "bdll (bnext s) (bprev s) xs \<Longrightarrow> distinct (bs @ xs) \<Longrightarrow>
   bdll (bnext (binit_link bs s)) (bprev (binit_link bs s)) (rev bs @ xs)"
proof (induction bs arbitrary: s xs)
  case (Cons b bs)
  define s1 where "s1 = set_bnext BHead (Buf b) (set_bprev (bnext s BHead) (Buf b)
      (initsleeplock (SL_buf b) ''buffer'' (set_bprev (Buf b) BHead (set_bnext (Buf b) (bnext s BHead) s))))"
  have e: "binit_link (b # bs) s = binit_link bs s1"
    by (simp add: Let_def s1_def set_bnext_def set_bprev_def initsleeplock_def upd_slock_def initlock_def set_lock_def)
  have cn: "links (bnext s) BHead (map Buf xs) BHead" and cp: "links (bprev s) BHead (map Buf (rev xs)) BHead"
    using Cons.prems(1) by (simp_all add: bdll_def)
  have f: "bnext s1 = (bnext s)(Buf b := bnext s BHead, BHead := Buf b)"
    "bprev s1 = (bprev s)(Buf b := BHead, last (BHead # map Buf (rev xs)) := Buf b)"
    using chain_first [OF cn] by (cases xs;
      simp add: s1_def set_bnext_def set_bprev_def initsleeplock_def upd_slock_def initlock_def set_lock_def)+
  have nb: "b \<notin> set xs" "distinct xs" using Cons.prems(2) by auto
  have "links (bnext s1) BHead (Buf b # map Buf xs) BHead"
    unfolding f by (rule chain_push [OF cn]) (use nb in auto)
  moreover have "links (bprev s1) BHead (map Buf (rev xs) @ [Buf b]) BHead"
    unfolding f by (rule chain_snoc [OF cp]) (use nb in \<open>auto simp: distinct_map inj_on_def\<close>)
  ultimately have "bdll (bnext s1) (bprev s1) (b # xs)" by (simp add: bdll_def)
  from Cons.IH [OF this] Cons.prems(2) show ?case by (simp only: e) auto
qed simp

end
