(* ===== verification/BioOps.thy ===== *)
theory BioOps
  imports BioList Demo
begin

unbundle bit_operations_syntax

text \<open>
  What the operations of the sleep locks, of the disk and of the buffer cache do to the fields of the
  cache when no other process holds a lock: equations on a view of these fields, from which the
  interrupt flag, the scheduling queue and the state of the CPU are left out.
\<close>

section \<open>The fields of the cache\<close>

record bview =
  v_slocks :: "slid \<Rightarrow> sleeplock"
  v_bufs :: "nat \<Rightarrow> buf"
  v_next :: "bref \<Rightarrow> bref"
  v_prev :: "bref \<Rightarrow> bref"
  v_disk :: "nat \<Rightarrow> block"
  v_writes :: "(nat \<times> block) list"

definition bview_of :: "'a bcache_scheme \<Rightarrow> bview" where
  "bview_of s = \<lparr>v_slocks = slocks s, v_bufs = bufs s, v_next = bnext s, v_prev = bprev s, v_disk = disk s,
     v_writes = disk_writes s\<rparr>"

lemma bview_of_sel [simp]:
  "v_slocks (bview_of s) = slocks s" "v_bufs (bview_of s) = bufs s" "v_next (bview_of s) = bnext s"
  "v_prev (bview_of s) = bprev s" "v_disk (bview_of s) = disk s" "v_writes (bview_of s) = disk_writes s"
  by (simp_all add: bview_of_def)

lemma bview_of_machine [simp]:
  "bview_of (released l c s) = bview_of s" "bview_of (acquired l c s) = bview_of s" "bview_of (settle c s) = bview_of s"
  by (simp_all add: bview_of_def released_def acquired_def settle_def)

lemma bview_of_upd [simp]:
  "bview_of (upd_slock lk f s) = (bview_of s)\<lparr>v_slocks := (slocks s)(lk := f (slocks s lk))\<rparr>"
  "bview_of (upd_buf b g s) = (bview_of s)\<lparr>v_bufs := (bufs s)(b := g (bufs s b))\<rparr>"
  by (simp_all add: bview_of_def upd_slock_def upd_buf_def)

text \<open>Nothing but the cache, the scheduling queue and the CPU has changed.\<close>

definition bframe :: "'a bcache_scheme \<Rightarrow> 'a bcache_scheme \<Rightarrow> bool" where
  "bframe s s' \<longleftrightarrow> s' = s\<lparr>console := console s', fl_if := fl_if s', cpus := cpus s', locks := locks s',
     level := level s', procs := procs s', seed := seed s', slocks := slocks s', bufs := bufs s', bnext := bnext s',
     bprev := bprev s', disk := disk s', disk_writes := disk_writes s'\<rparr>"

lemma bframe_refl [simp]: "bframe s s"
  by (simp add: bframe_def)

lemma bframe_trans:
  assumes "bframe s t" "bframe t u"
  shows "bframe s u"
  using assms unfolding bframe_def by (cases s; cases t; cases u) simp

lemma bframe_noise: "noise s s' \<Longrightarrow> bframe s s'"
  unfolding bframe_def noise_def by (cases s; cases s') simp

lemma bframe_upd [simp]:
  "bframe s (upd_slock lk f s)" "bframe s (upd_buf b g s)" "bframe s (released l c s)" "bframe s (acquired l c s)"
  "bframe s (settle c s)" "bframe s (move_to_front b s)" "bframe s (set_data b d s)"
  by (simp_all add: bframe_def upd_slock_def upd_buf_def released_def acquired_def settle_def move_to_front_def Let_def
    set_bnext_def set_bprev_def set_data_def)

lemma bframe_disksize: "bframe s s' \<Longrightarrow> disksize s' = disksize s"
  unfolding bframe_def by (drule arg_cong [of _ _ disksize]) simp

lemma noise_bview: "noise s s' \<Longrightarrow> bview_of s' = bview_of s"
  unfolding noise_def by (drule arg_cong [of _ _ bview_of]) (simp add: bview_of_def)

section \<open>A process alone in the kernel\<close>

text \<open>Process \<open>p\<close> with identifier \<open>k\<close> runs on CPU \<open>c\<close>, and nobody holds a spin lock.\<close>

definition calm :: "nat \<Rightarrow> nat \<Rightarrow> int \<Rightarrow> 'a ptable_scheme \<Rightarrow> bool" where
  "calm c p k s \<longleftrightarrow> running c p s \<and> ptable_ok s \<and> p_pid (procs s p) = k \<and> (\<forall>l. free_lock l s)"

lemma same_cpu_upd [simp]:
  "same_cpu s (upd_slock lk f t) = same_cpu s t" "same_cpu s (upd_buf b g t) = same_cpu s t"
  "same_cpu s (move_to_front b t) = same_cpu s t"
  by (simp_all add: same_cpu_def upd_slock_def upd_buf_def move_to_front_def Let_def set_bnext_def set_bprev_def)

lemma upd_procs [simp]:
  "procs (upd_slock lk f t) = procs t" "level (upd_slock lk f t) = level t"
  "procs (upd_buf b g t) = procs t" "level (upd_buf b g t) = level t"
  by (simp_all add: upd_slock_def upd_buf_def)

lemma upd_sel [simp]:
  "slocks (upd_slock lk f t) = (slocks t)(lk := f (slocks t lk))" "bufs (upd_buf b g t) = (bufs t)(b := g (bufs t b))"
  "bufs (upd_slock lk f t) = bufs t" "slocks (upd_buf b g t) = slocks t"
  "disk (upd_buf b g t) = disk t" "disk_writes (upd_buf b g t) = disk_writes t"
  by (simp_all add: upd_slock_def upd_buf_def)

lemma calm_frame:
  assumes "calm c p k s" "same_cpu s t" "procs t = procs s" "level t = level s"
  shows "calm c p k t"
proof -
  have "running c p t"
    using assms same_cpu_on_cpu [OF assms(2), of c] by (simp add: calm_def running_def free_lock_def same_cpu_def)
  then show ?thesis
    using assms same_cpu_free_lock [OF assms(2)] ptable_ok_frame [of t s] by (simp add: calm_def)
qed

lemma calm_settled:
  assumes "calm c p k s" "same_cpu (settle c s) t" "p_state (procs t p) = RUNNING" "p_pid (procs t p) = k" "ptable_ok t"
  shows "calm c p k t"
  using assms running_settled [OF _ assms(2,3)] same_cpu_free_lock [OF assms(2)] by (simp add: calm_def)

lemma calm_acquire:
  assumes "calm c p k s"
  shows "acquire l s = ret (acquired l c s)"
  using assms acquire_free [of c s l] by (simp add: calm_def running_def free_lock_def)

text \<open>Leaving a section whose body has left the processes alone.\<close>

lemma calm_release:
  assumes "calm c p k s" "same_cpu (acquired l c s) t" "procs t = procs s" "level t = level s"
  shows "release l t = ret (released l c t)" "calm c p k (released l c t)"
proof -
  have s: "on_cpu c s" "free_lock l s" "p_state (procs s p) = RUNNING" "p_pid (procs s p) = k" "ptable_ok s"
    using assms(1) by (auto simp: calm_def running_def)
  note l = leave_section [OF s(1,2) assms(2)]
  show "release l t = ret (released l c t)" by (rule l(1))
  show "calm c p k (released l c t)"
    by (rule calm_settled [OF assms(1) l(2)]) (use s(3-5) assms(3,4) ptable_ok_frame [of "released l c t" s] in simp_all)
qed

lemma calm_curproc:
  assumes "calm c p k s" "same_cpu (acquired l c s) t"
  shows "curproc t = ret (p, t)"
proof -
  have s: "on_cpu c s" "cpu_proc (cpus s c) = Some p" using assms(1) by (auto simp: calm_def running_def)
  note i = in_section [OF s(1) assms(2)]
  show ?thesis using curproc_eq [OF i(1)] i(4,5) s(2) by simp
qed

lemma calm_wake:
  fixes s t :: "'a ptable_scheme"
  assumes "calm c p k s" "l \<noteq> L_ptable" "same_cpu (acquired l c s) t" "procs t = procs s" "level t = level s"
  shows "\<exists>s'. rbind (wakeup ch t) (release l) = ret s' \<and> calm c p k s' \<and> noise t s'"
proof -
  have s: "running c p s" "ptable_ok s" "free_lock l s" "p_pid (procs s p) = k"
    using assms(1) by (auto simp: calm_def)
  from wake_release [OF s(1-3) assms(2-5), of ch] obtain s' where s': "rbind (wakeup ch t) (release l) = ret s'"
    "running c p s'" "ptable_ok s'" "same_cpu (settle c s) s'" "noise t s'" "p_pid (procs s' p) = k"
    using s(4) by auto
  have "calm c p k s'"
    by (rule calm_settled [OF assms(1) s'(4)]) (use s' in \<open>simp_all add: running_def\<close>)
  with s' show ?thesis by auto
qed

section \<open>Sleep locks\<close>

lemma sl_lk_ptable [simp]: "sl_lk lk \<noteq> L_ptable"
  by (cases lk) (simp_all add: sl_lk_def)

lemma acquiresleep_calm:
  assumes "calm c p k s" "sl_locked (slocks s lk) = 0"
  shows "\<exists>s'. acquiresleep lk s = ret s' \<and> calm c p k s' \<and> bframe s s' \<and>
    bview_of s' = (bview_of s)\<lparr>v_slocks := (slocks s)(lk := (slocks s lk)\<lparr>sl_locked := 1, sl_pid := k\<rparr>)\<rparr>"
proof -
  let ?a = "acquired (sl_lk lk) c s"
  let ?t = "upd_slock lk (\<lambda>r. r\<lparr>sl_locked := 1\<rparr>) ?a"
  let ?u = "upd_slock lk (\<lambda>r. r\<lparr>sl_pid := k\<rparr>) ?t"
  have k: "p_pid (procs s p) = k" using assms(1) by (simp add: calm_def)
  have a: "slocks ?a = slocks s" by (simp add: acquired_def)
  have "curproc ?t = ret (p, ?t)" by (rule calm_curproc [OF assms(1), of "sl_lk lk"]) simp
  then have "acquiresleep lk s = release (sl_lk lk) ?u"
    using assms(2) a k by (simp add: acquiresleep_def calm_acquire [OF assms(1)] Let_def)
  moreover note calm_release [OF assms(1), of "sl_lk lk" ?u]
  moreover have "bframe s (released (sl_lk lk) c ?u)"
    by (meson bframe_trans bframe_upd)
  ultimately show ?thesis by (simp add: a)
qed

lemma holdingsleep_calm:
  assumes "calm c p k s"
  shows "\<exists>s'. holdingsleep lk s = ret (sl_locked (slocks s lk) \<noteq> 0 \<and> sl_pid (slocks s lk) = k, s') \<and>
    calm c p k s' \<and> bframe s s' \<and> bview_of s' = bview_of s"
proof -
  let ?a = "acquired (sl_lk lk) c s"
  have k: "p_pid (procs s p) = k" using assms(1) by (simp add: calm_def)
  have a: "slocks ?a = slocks s" by (simp add: acquired_def)
  note r = calm_release [OF assms, of "sl_lk lk" ?a]
  have "curproc ?a = ret (p, ?a)" by (rule calm_curproc [OF assms, of "sl_lk lk"]) simp
  then have "holdingsleep lk s = ret (sl_locked (slocks s lk) \<noteq> 0 \<and> sl_pid (slocks s lk) = k, released (sl_lk lk) c ?a)"
    using a k r by (simp add: holdingsleep_def calm_acquire [OF assms])
  moreover have "bframe s (released (sl_lk lk) c ?a)"
    by (meson bframe_trans bframe_upd)
  ultimately show ?thesis using r by simp
qed

lemma releasesleep_calm:
  assumes "calm c p k s"
  shows "\<exists>s'. releasesleep lk s = ret s' \<and> calm c p k s' \<and> bframe s s' \<and>
    bview_of s' = (bview_of s)\<lparr>v_slocks := (slocks s)(lk := (slocks s lk)\<lparr>sl_locked := 0, sl_pid := 0\<rparr>)\<rparr>"
proof -
  let ?a = "acquired (sl_lk lk) c s"
  let ?t = "upd_slock lk (\<lambda>r. r\<lparr>sl_locked := 0, sl_pid := 0\<rparr>) ?a"
  have a: "slocks ?a = slocks s" by (simp add: acquired_def)
  from calm_wake [OF assms, of "sl_lk lk" ?t "sl_chan lk"] obtain s' where s':
    "rbind (wakeup (sl_chan lk) ?t) (release (sl_lk lk)) = ret s'" "calm c p k s'" "noise ?t s'" by auto
  have "releasesleep lk s = ret s'"
    using s'(1) by (simp add: releasesleep_def calm_acquire [OF assms] Let_def)
  moreover have "bframe s s'"
    using bframe_noise [OF s'(3)] by (meson bframe_trans bframe_upd)
  ultimately show ?thesis using s'(2) noise_bview [OF s'(3)] by (simp add: a)
qed

section \<open>The disk\<close>

text \<open>The transfer of \<open>iderw\<close> between buffer \<open>b\<close> and the disk.\<close>

definition transfer :: "nat \<Rightarrow> bview \<Rightarrow> bview" where
  "transfer b v = (let r = v_bufs v b; n = unat (b_blockno r) in
     if b_flags r AND B_DIRTY \<noteq> 0
     then v\<lparr>v_bufs := (v_bufs v)(b := r\<lparr>b_flags := b_flags r AND NOT B_DIRTY OR B_VALID\<rparr>),
            v_disk := (v_disk v)(n := b_data r), v_writes := (n, b_data r) # v_writes v\<rparr>
     else v\<lparr>v_bufs := (v_bufs v)(b := r\<lparr>b_data := v_disk v n, b_flags := b_flags r OR B_VALID\<rparr>)\<rparr>)"

lemma iderw_calm:
  assumes "calm c p k s" "sl_locked (slocks s (SL_buf b)) \<noteq> 0" "sl_pid (slocks s (SL_buf b)) = k"
    and "b_flags (bufs s b) AND (B_VALID OR B_DIRTY) \<noteq> B_VALID" "b_dev (bufs s b) = 1" "b_blockno (bufs s b) < disksize s"
  shows "\<exists>s'. iderw b s = ret s' \<and> calm c p k s' \<and> bframe s s' \<and> bview_of s' = transfer b (bview_of s)"
proof -
  from holdingsleep_calm [OF assms(1), of "SL_buf b"] obtain t where t: "holdingsleep (SL_buf b) s = ret (True, t)"
    "calm c p k t" "bframe s t" "bview_of t = bview_of s" using assms(2,3) by auto
  have e: "bufs t = bufs s" "disk t = disk s" "disk_writes t = disk_writes s" "disksize t = disksize s"
    using bframe_disksize [OF t(3)] t(4) by (simp_all add: bview_of_def)
  let ?n = "unat (b_blockno (bufs s b))"
  let ?u = "if b_flags (bufs s b) AND B_DIRTY \<noteq> 0
    then (upd_buf b (\<lambda>r. r\<lparr>b_flags := b_flags r AND NOT B_DIRTY\<rparr>) t)
      \<lparr>disk := (disk s)(?n := b_data (bufs s b)), disk_writes := (?n, b_data (bufs s b)) # disk_writes s\<rparr>
    else upd_buf b (\<lambda>r. r\<lparr>b_data := disk s ?n\<rparr>) t"
  let ?s' = "upd_buf b (\<lambda>r. r\<lparr>b_flags := b_flags r OR B_VALID\<rparr>) ?u"
  have "iderw b s = ret ?s'"
    using assms(4-6) e by (simp add: iderw_def t(1) Let_def not_le [symmetric])
  moreover have "calm c p k ?s'"
    by (rule calm_frame [OF t(2)]) (simp_all add: upd_buf_def same_cpu_def)
  moreover have "bframe t ?s'"
    by (simp add: bframe_def upd_buf_def)
  then have "bframe s ?s'"
    by (rule bframe_trans [OF t(3)])
  moreover have "bview_of ?s' = transfer b (bview_of s)"
    using t(4) e by (simp add: transfer_def Let_def bview_of_def upd_buf_def)
  ultimately show ?thesis by blast
qed

end
