(* ===== verification/BlockStore.thy ===== *)
theory BlockStore
  imports Bio
begin

text \<open>
  A store of blocks with a limited number of buffers, as the clients of the buffer cache see it: the
  abstract operations, the interface of an implementation, and what its clients can do with it.
\<close>

section \<open>A store of blocks\<close>

record bstore =
  st_disk :: "nat \<Rightarrow> block"
  st_writes :: "(nat \<times> block) list"
  st_pending :: "u32 \<rightharpoonup> block"
  st_held :: "nat \<rightharpoonup> u32 \<times> block"

definition st_content :: "bstore \<Rightarrow> u32 \<Rightarrow> block" where
  "st_content A n = (case st_pending A n of Some d \<Rightarrow> d | None \<Rightarrow> st_disk A (unat n))"

text \<open>Holding a block, changing the held copy, writing it to the disk, marking it as pending, giving it back.\<close>

definition st_hold :: "nat \<Rightarrow> u32 \<Rightarrow> bstore \<Rightarrow> bstore" where
  "st_hold b n A = A\<lparr>st_held := (st_held A)(b \<mapsto> (n, st_content A n))\<rparr>"

definition st_edit :: "nat \<Rightarrow> u32 \<Rightarrow> block \<Rightarrow> bstore \<Rightarrow> bstore" where
  "st_edit b n d A = A\<lparr>st_held := (st_held A)(b \<mapsto> (n, d))\<rparr>"

definition st_write :: "u32 \<Rightarrow> block \<Rightarrow> bstore \<Rightarrow> bstore" where
  "st_write n d A = A\<lparr>st_disk := (st_disk A)(unat n := d), st_writes := (unat n, d) # st_writes A,
     st_pending := (st_pending A)(n := None)\<rparr>"

definition st_pend :: "u32 \<Rightarrow> block \<Rightarrow> bstore \<Rightarrow> bstore" where
  "st_pend n d A = A\<lparr>st_pending := (st_pending A)(n \<mapsto> d)\<rparr>"

definition st_drop :: "nat \<Rightarrow> bstore \<Rightarrow> bstore" where
  "st_drop b A = A\<lparr>st_held := (st_held A)(b := None)\<rparr>"

lemma st_content_held [simp]:
  "st_content (st_hold b n A) m = st_content A m" "st_content (st_edit b n d A) m = st_content A m"
  "st_content (st_drop b A) m = st_content A m"
  by (simp_all add: st_content_def st_hold_def st_edit_def st_drop_def split: option.split)

lemma st_content_write [simp]: "st_content (st_write n d A) m = (if m = n then d else st_content A m)"
  by (simp add: st_content_def st_write_def word_unat_eq_iff split: option.split)

lemma st_content_pend [simp]: "st_content (st_pend n d A) m = (if m = n then d else st_content A m)"
  by (simp add: st_content_def st_pend_def split: option.split)

text \<open>A free buffer exists while fewer than NBUF blocks are held or pending.\<close>

definition has_room :: "bstore \<Rightarrow> bool" where
  "has_room A \<longleftrightarrow> card (dom (st_pending A)) + card (dom (st_held A)) < NBUF"

section \<open>An interface for stores of blocks\<close>

text \<open>
  What the log relies on: four operations that behave as those of the abstract store. \<open>frame\<close> says that
  nothing outside the store has changed.
\<close>

locale block_store =
  fixes rel :: "'s \<Rightarrow> bstore \<Rightarrow> bool" and frame :: "'s \<Rightarrow> 's \<Rightarrow> bool" and limit :: "'s \<Rightarrow> u32"
    and content_of :: "'s \<Rightarrow> nat \<Rightarrow> block" and rd :: "u32 \<Rightarrow> 's \<Rightarrow> (nat \<times> 's) res"
    and edit :: "nat \<Rightarrow> block \<Rightarrow> 's \<Rightarrow> 's" and wr :: "nat \<Rightarrow> 's \<Rightarrow> 's res" and rl :: "nat \<Rightarrow> 's \<Rightarrow> 's res"
  assumes frame_refl: "frame s s"
    and frame_trans: "frame s t \<Longrightarrow> frame t u \<Longrightarrow> frame s u"
    and frame_limit: "frame s t \<Longrightarrow> limit t = limit s"
    and held_content: "rel s A \<Longrightarrow> st_held A b = Some (n, d) \<Longrightarrow> content_of s b = d"
    and reads: "rel s A \<Longrightarrow> \<forall>b d. st_held A b \<noteq> Some (n, d) \<Longrightarrow> n \<in> dom (st_pending A) \<or> has_room A \<Longrightarrow> n < limit s \<Longrightarrow>
      \<exists>b t. rd n s = ret (b, t) \<and> rel t (st_hold b n A) \<and> frame s t \<and> st_held A b = None"
    and edits: "rel s A \<Longrightarrow> st_held A b = Some (n, d) \<Longrightarrow> rel (edit b d' s) (st_edit b n d' A) \<and> frame s (edit b d' s)"
    and writes: "rel s A \<Longrightarrow> st_held A b = Some (n, d) \<Longrightarrow> n < limit s \<Longrightarrow>
      \<exists>t. wr b s = ret t \<and> rel t (st_write n d A) \<and> frame s t"
    and releases: "rel s A \<Longrightarrow> st_held A b = Some (n, st_content A n) \<Longrightarrow>
      \<exists>t. rl b s = ret t \<and> rel t (st_drop b A) \<and> frame s t"
begin

lemma read_one:
  assumes "rel s A" "st_held A = Map.empty" "n \<in> dom (st_pending A) \<or> has_room A" "n < limit s"
  shows "\<exists>b t. rd n s = ret (b, t) \<and> rel t (A\<lparr>st_held := [b \<mapsto> (n, st_content A n)]\<rparr>) \<and> frame s t"
  using reads [OF assms(1) _ assms(3,4)] assms(2) by (auto simp: st_hold_def)

text \<open>Reading two different blocks.\<close>

lemma read_two:
  assumes "rel s A" "st_held A = Map.empty" "has_room A" "a < limit s" "b < limit s" "a \<noteq> b"
    and "b \<in> dom (st_pending A) \<or> card (dom (st_pending A)) + 1 < NBUF"
  shows "\<exists>x t y u. rd a s = ret (x, t) \<and> rd b t = ret (y, u) \<and> x \<noteq> y \<and> frame s t \<and> frame t u \<and>
    rel u (A\<lparr>st_held := [x \<mapsto> (a, st_content A a), y \<mapsto> (b, st_content A b)]\<rparr>)"
proof -
  obtain x t where t: "rd a s = ret (x, t)" "rel t (A\<lparr>st_held := [x \<mapsto> (a, st_content A a)]\<rparr>)" "frame s t"
    using read_one [OF assms(1,2) _ assms(4)] assms(3) by blast
  let ?A = "A\<lparr>st_held := [x \<mapsto> (a, st_content A a)]\<rparr>"
  have c: "st_content ?A = st_content A" by (simp add: st_content_def fun_eq_iff split: option.split)
  have "\<forall>z d. st_held ?A z \<noteq> Some (b, d)" using assms(6) by simp
  moreover have "b \<in> dom (st_pending ?A) \<or> has_room ?A" using assms(7) by (simp add: has_room_def)
  moreover have "b < limit t" using assms(5) frame_limit [OF t(3)] by simp
  ultimately obtain y u where u: "rd b t = ret (y, u)" "rel u (st_hold y b ?A)" "frame t u" "st_held ?A y = None"
    using reads [OF t(2)] by blast
  then have "x \<noteq> y" by auto
  with t u c show ?thesis by (intro exI [of _ x] exI [of _ t] exI [of _ y] exI [of _ u]) (simp add: st_hold_def)
qed

text \<open>Writing new contents to one of two held blocks and giving both back.\<close>

lemma write_and_release:
  assumes "rel s A" "st_held A = [x \<mapsto> (a, st_content A a), y \<mapsto> (b, st_content A b)]" "x \<noteq> y" "a \<noteq> b"
    and "(z, n) = (x, a) \<or> (z, n) = (y, b)" "n < limit s" "{u, v} = {x, y}"
  shows "\<exists>t. rbind (wr z (edit z d s)) (\<lambda>s. rbind (rl u s) (rl v)) = ret t \<and> frame s t \<and>
    rel t ((st_write n d A)\<lparr>st_held := Map.empty\<rparr>)"
proof -
  have h: "st_held A z = Some (n, st_content A n)" using assms(2,3,5) by auto
  note e = edits [OF assms(1) h, of d]
  have "n < limit (edit z d s)" using assms(6) e frame_limit by force
  with e obtain t where t: "wr z (edit z d s) = ret t" "rel t (st_write n d (st_edit z n d A))" "frame (edit z d s) t"
    using writes [of "edit z d s" "st_edit z n d A" z n d] by (auto simp: st_edit_def)
  let ?B = "st_write n d (st_edit z n d A)"
  have hb: "st_held ?B = (st_held A)(z \<mapsto> (n, d))" by (simp add: st_write_def st_edit_def)
  have "u \<noteq> v" using assms(3,7) by auto
  have uv: "(u = x \<and> v = y) \<or> (u = y \<and> v = x)" using assms(7) by (auto simp: doubleton_eq_iff)
  define m where "m w = (if w = x then a else b)" for w
  have held: "st_held ?B w = Some (m w, st_content ?B (m w))" if "w = x \<or> w = y" for w
    using that assms(2-5) by (auto simp: hb m_def)
  obtain t1 where t1: "rl u t = ret t1" "rel t1 (st_drop u ?B)" "frame t t1"
    using releases [OF t(2) held [of u]] uv by blast
  have "st_held (st_drop u ?B) v = st_held ?B v" using \<open>u \<noteq> v\<close> by (simp add: st_drop_def)
  then have "st_held (st_drop u ?B) v = Some (m v, st_content (st_drop u ?B) (m v))"
    using held [of v] uv by (simp only: st_content_held) blast
  then obtain t2 where t2: "rl v t1 = ret t2" "rel t2 (st_drop v (st_drop u ?B))" "frame t1 t2"
    using releases [OF t1(2)] by blast
  have hn: "(st_held A)(z \<mapsto> (n, d), u := None, v := None) = Map.empty"
    using assms(2,5) uv by (auto simp: fun_eq_iff)
  have "st_drop v (st_drop u ?B) = (st_write n d A)\<lparr>st_held := Map.empty\<rparr>"
    using hn by (simp add: st_drop_def st_write_def st_edit_def)
  moreover have "frame s t2" using e t(3) t1(3) t2(3) frame_trans by blast
  ultimately show ?thesis using t(1) t1(1) t2 by (intro exI [of _ t2]) simp
qed

text \<open>Copying between two blocks, as \<open>install_trans\<close> (to the second) and \<open>write_log\<close> (to the first) do.\<close>

lemma copy_to_second:
  assumes "rel s A" "st_held A = Map.empty" "has_room A" "a < limit s" "b < limit s" "a \<noteq> b"
    and "b \<in> dom (st_pending A) \<or> card (dom (st_pending A)) + 1 < NBUF"
  shows "\<exists>t x y u. rd a s = ret (x, t) \<and> rd b t = ret (y, u) \<and> frame s t \<and> (\<exists>w.
    rbind (wr y (edit y (content_of u x) u)) (\<lambda>s. rbind (rl x s) (rl y)) = ret w \<and>
    frame s w \<and> rel w (st_write b (st_content A a) A))"
proof -
  obtain x t y u where u: "rd a s = ret (x, t)" "rd b t = ret (y, u)" "x \<noteq> y" "frame s t" "frame t u"
    "rel u (A\<lparr>st_held := [x \<mapsto> (a, st_content A a), y \<mapsto> (b, st_content A b)]\<rparr>)"
    using read_two [OF assms] by blast
  let ?A = "A\<lparr>st_held := [x \<mapsto> (a, st_content A a), y \<mapsto> (b, st_content A b)]\<rparr>"
  have c: "st_content ?A m = st_content A m" for m by (simp add: st_content_def split: option.split)
  have held: "st_held ?A = [x \<mapsto> (a, st_content ?A a), y \<mapsto> (b, st_content ?A b)]" by (simp add: c)
  have f: "frame s u" by (rule frame_trans [OF u(4,5)])
  have "content_of u x = st_content A a" using held_content [OF u(6), of x a] u(3) by simp
  moreover have "b < limit u" using assms(5) frame_limit [OF f] by simp
  ultimately obtain w where w: "rbind (wr y (edit y (content_of u x) u)) (\<lambda>s. rbind (rl x s) (rl y)) = ret w" "frame u w"
    "rel w ((st_write b (st_content A a) ?A)\<lparr>st_held := Map.empty\<rparr>)"
    using write_and_release [OF u(6) held u(3) assms(6), of y b x y "st_content A a"] by auto
  have "(st_write b (st_content A a) ?A)\<lparr>st_held := Map.empty\<rparr> = st_write b (st_content A a) A"
    using assms(2) by (cases A) (simp add: st_write_def)
  then show ?thesis
    using w u(1,2,4) frame_trans [OF f w(2)]
    by (intro exI [of _ t] exI [of _ x] exI [of _ y] exI [of _ u] conjI exI [of _ w]) simp_all
qed

lemma copy_to_first:
  assumes "rel s A" "st_held A = Map.empty" "has_room A" "a < limit s" "b < limit s" "a \<noteq> b"
    and "b \<in> dom (st_pending A) \<or> card (dom (st_pending A)) + 1 < NBUF"
  shows "\<exists>t x y u. rd a s = ret (x, t) \<and> rd b t = ret (y, u) \<and> frame s t \<and> (\<exists>w.
    rbind (wr x (edit x (content_of u y) u)) (\<lambda>s. rbind (rl y s) (rl x)) = ret w \<and>
    frame s w \<and> rel w (st_write a (st_content A b) A))"
proof -
  obtain x t y u where u: "rd a s = ret (x, t)" "rd b t = ret (y, u)" "x \<noteq> y" "frame s t" "frame t u"
    "rel u (A\<lparr>st_held := [x \<mapsto> (a, st_content A a), y \<mapsto> (b, st_content A b)]\<rparr>)"
    using read_two [OF assms] by blast
  let ?A = "A\<lparr>st_held := [x \<mapsto> (a, st_content A a), y \<mapsto> (b, st_content A b)]\<rparr>"
  have c: "st_content ?A m = st_content A m" for m by (simp add: st_content_def split: option.split)
  have held: "st_held ?A = [x \<mapsto> (a, st_content ?A a), y \<mapsto> (b, st_content ?A b)]" by (simp add: c)
  have f: "frame s u" by (rule frame_trans [OF u(4,5)])
  have "content_of u y = st_content A b" using held_content [OF u(6), of y b] u(3) by simp
  moreover have "a < limit u" using assms(4) frame_limit [OF f] by simp
  ultimately obtain w where w: "rbind (wr x (edit x (content_of u y) u)) (\<lambda>s. rbind (rl y s) (rl x)) = ret w" "frame u w"
    "rel w ((st_write a (st_content A b) ?A)\<lparr>st_held := Map.empty\<rparr>)"
    using write_and_release [OF u(6) held u(3) assms(6), of x a y x "st_content A b"] by auto
  have "(st_write a (st_content A b) ?A)\<lparr>st_held := Map.empty\<rparr> = st_write a (st_content A b) A"
    using assms(2) by (cases A) (simp add: st_write_def)
  then show ?thesis
    using w u(1,2,4) frame_trans [OF f w(2)]
    by (intro exI [of _ t] exI [of _ x] exI [of _ y] exI [of _ u] conjI exI [of _ w]) simp_all
qed

text \<open>Updating one block in place, as \<open>write_head\<close> does.\<close>

lemma update_block:
  assumes "rel s A" "st_held A = Map.empty" "has_room A" "a < limit s"
  shows "\<exists>t x. rd a s = ret (x, t) \<and> content_of t x = st_content A a \<and> frame s t \<and> (\<forall>d. \<exists>w.
    rbind (wr x (edit x d t)) (rl x) = ret w \<and> frame s w \<and> rel w (st_write a d A))"
proof -
  obtain x t where t: "rd a s = ret (x, t)" "rel t (A\<lparr>st_held := [x \<mapsto> (a, st_content A a)]\<rparr>)" "frame s t"
    using read_one [OF assms(1,2) _ assms(4)] assms(3) by blast
  let ?A = "A\<lparr>st_held := [x \<mapsto> (a, st_content A a)]\<rparr>"
  have "content_of t x = st_content A a" using held_content [OF t(2), of x a] by simp
  moreover have "\<exists>w. rbind (wr x (edit x d t)) (rl x) = ret w \<and> frame s w \<and> rel w (st_write a d A)" for d
  proof -
    have h: "st_held ?A x = Some (a, st_content A a)" by simp
    note e = edits [OF t(2) h, of d]
    have ft: "frame s (edit x d t)" using frame_trans [OF t(3)] e by blast
    have lim: "a < limit (edit x d t)" using frame_limit [OF ft] assms(4) by simp
    have h2: "st_held (st_edit x a d ?A) x = Some (a, d)" by (simp add: st_edit_def)
    obtain u where u: "wr x (edit x d t) = ret u" "rel u (st_write a d (st_edit x a d ?A))" "frame (edit x d t) u"
      using writes [OF conjunct1 [OF e] h2 lim] by blast
    have "st_held (st_write a d (st_edit x a d ?A)) x = Some (a, st_content (st_write a d (st_edit x a d ?A)) a)"
      by (simp add: st_write_def st_edit_def) (simp add: st_content_def)
    then obtain w where w: "rl x u = ret w" "rel w (st_drop x (st_write a d (st_edit x a d ?A)))" "frame u w"
      using releases [OF u(2)] by blast
    have "st_drop x (st_write a d (st_edit x a d ?A)) = st_write a d A"
      using assms(2) by (cases A) (simp add: st_write_def st_drop_def st_edit_def)
    moreover have "frame s w" using frame_trans [OF frame_trans [OF ft u(3)] w(3)] .
    ultimately show ?thesis using w(1,2) u(1) by (intro exI [of _ w]) simp
  qed
  ultimately show ?thesis using t by blast
qed

end

end
