(* ===== verification/BioProps.thy ===== *)
theory BioProps
  imports BioOps BlockStore
begin

unbundle bit_operations_syntax

text \<open>
  The buffer cache implements a store of blocks: a disk, updates that are pending in dirty buffers, and
  the blocks that the caller holds. Every operation of the cache is an operation of this store.
\<close>

section \<open>The flags of a buffer\<close>

definition valid :: "buf \<Rightarrow> bool" where "valid r \<longleftrightarrow> b_flags r AND B_VALID \<noteq> 0"
definition dirty :: "buf \<Rightarrow> bool" where "dirty r \<longleftrightarrow> b_flags r AND B_DIRTY \<noteq> 0"

lemma flag_exp: "B_VALID = 2 ^ 1" "B_DIRTY = 2 ^ 2"
  by (simp_all add: B_VALID_def B_DIRTY_def)

lemma and_flag: "(x :: u32) AND 2 ^ n \<noteq> 0 \<longleftrightarrow> bit x n"
  unfolding and_exp_eq_0_iff_not_bit by simp

lemma valid_bit: "valid r \<longleftrightarrow> bit (b_flags r) 1"
  unfolding valid_def flag_exp by (rule and_flag)

lemma dirty_bit: "dirty r \<longleftrightarrow> bit (b_flags r) 2"
  unfolding dirty_def flag_exp by (rule and_flag)

lemma flag_bits: "bit B_VALID i \<longleftrightarrow> i = 1" "bit B_DIRTY i \<longleftrightarrow> i = 2"
  unfolding flag_exp bit_exp_iff by auto

lemma flags_zero [simp]: "b_flags r = 0 \<Longrightarrow> \<not> valid r" "b_flags r = 0 \<Longrightarrow> \<not> dirty r"
  by (simp_all add: valid_def dirty_def)

lemma nothing_to_do: "b_flags r AND (B_VALID OR B_DIRTY) = B_VALID \<longleftrightarrow> valid r \<and> \<not> dirty r"
proof
  assume e: "b_flags r AND (B_VALID OR B_DIRTY) = B_VALID"
  have "bit (b_flags r AND (B_VALID OR B_DIRTY)) 1" "\<not> bit (b_flags r AND (B_VALID OR B_DIRTY)) 2"
    unfolding e by (simp_all add: flag_bits)
  then show "valid r \<and> \<not> dirty r" by (auto simp: valid_bit dirty_bit bit_and_iff bit_or_iff flag_bits)
next
  assume a: "valid r \<and> \<not> dirty r"
  then have "bit (b_flags r AND (B_VALID OR B_DIRTY)) i = bit B_VALID i" for i
    by (auto simp: valid_bit dirty_bit bit_and_iff bit_or_iff flag_bits)
  then show "b_flags r AND (B_VALID OR B_DIRTY) = B_VALID" by (intro bit_eqI) simp
qed

lemma flags_or [simp]:
  "valid (r\<lparr>b_flags := f OR B_VALID\<rparr>)" "dirty (r\<lparr>b_flags := f OR B_VALID\<rparr>) = dirty (r\<lparr>b_flags := f\<rparr>)"
  "dirty (r\<lparr>b_flags := f OR B_DIRTY\<rparr>)" "valid (r\<lparr>b_flags := f OR B_DIRTY\<rparr>) = valid (r\<lparr>b_flags := f\<rparr>)"
  "\<not> dirty (r\<lparr>b_flags := f AND NOT B_DIRTY\<rparr>)"
  by (simp_all add: valid_bit dirty_bit bit_and_iff bit_or_iff bit_not_iff flag_bits)

lemma flags_same [simp]:
  "valid (r\<lparr>b_refcnt := x\<rparr>) = valid r" "dirty (r\<lparr>b_refcnt := x\<rparr>) = dirty r" "valid (r\<lparr>b_data := d\<rparr>) = valid r"
  "dirty (r\<lparr>b_data := d\<rparr>) = dirty r" "dirty (r\<lparr>b_flags := b_flags r\<rparr>) = dirty r" "valid (r\<lparr>b_flags := b_flags r\<rparr>) = valid r"
  by (simp_all add: valid_def dirty_def)

section \<open>The cache represents a store\<close>

definition cached :: "bview \<Rightarrow> u32 \<Rightarrow> nat \<Rightarrow> bool" where
  "cached v n i \<longleftrightarrow> i < NBUF \<and> b_dev (v_bufs v i) = 1 \<and> b_blockno (v_bufs v i) = n"

definition buf_ok :: "int \<Rightarrow> bstore \<Rightarrow> nat \<Rightarrow> sleeplock \<Rightarrow> buf \<Rightarrow> bool" where
  "buf_ok k A i l r \<longleftrightarrow> (case st_held A i of
     Some (n, d) \<Rightarrow> sl_locked l \<noteq> 0 \<and> sl_pid l = k \<and> b_refcnt r = 1 \<and> b_dev r = 1 \<and> b_blockno r = n \<and> b_data r = d \<and>
       valid r \<and> (dirty r \<longleftrightarrow> n \<in> dom (st_pending A))
   | None \<Rightarrow> sl_locked l = 0 \<and> b_refcnt r = 0 \<and>
       (dirty r \<longrightarrow> valid r \<and> b_dev r = 1 \<and> b_blockno r \<in> dom (st_pending A)) \<and>
       (b_dev r = 1 \<longrightarrow> valid r \<longrightarrow> b_data r = st_content A (b_blockno r)))"

definition linked :: "bview \<Rightarrow> bool" where
  "linked v \<longleftrightarrow> (\<exists>xs. all_buffers xs \<and> bdll (v_next v) (v_prev v) xs)"

definition bstore_rel :: "int \<Rightarrow> bview \<Rightarrow> bstore \<Rightarrow> bool" where
  "bstore_rel k v A \<longleftrightarrow> linked v \<and> v_disk v = st_disk A \<and> v_writes v = st_writes A \<and> dom (st_held A) \<subseteq> {..<NBUF} \<and>
     (\<forall>i<NBUF. buf_ok k A i (v_slocks v (SL_buf i)) (v_bufs v i)) \<and>
     (\<forall>n i j. cached v n i \<longrightarrow> cached v n j \<longrightarrow> i = j) \<and>
     (\<forall>n\<in>dom (st_pending A). \<exists>i. cached v n i \<and> dirty (v_bufs v i))"

lemma rel_pending: "bstore_rel k v A \<Longrightarrow> n \<in> dom (st_pending A) \<Longrightarrow> \<exists>i. cached v n i \<and> dirty (v_bufs v i)"
  unfolding bstore_rel_def by blast

lemma dirty_iff:
  assumes "bstore_rel k v A" "cached v n i"
  shows "dirty (v_bufs v i) \<longleftrightarrow> n \<in> dom (st_pending A)"
proof
  have ok: "buf_ok k A i (v_slocks v (SL_buf i)) (v_bufs v i)" and n: "b_blockno (v_bufs v i) = n"
    using assms by (auto simp: bstore_rel_def cached_def)
  assume "dirty (v_bufs v i)"
  then show "n \<in> dom (st_pending A)" using ok n unfolding buf_ok_def by (auto split: option.splits prod.splits)
next
  assume "n \<in> dom (st_pending A)"
  then obtain j where "cached v n j" "dirty (v_bufs v j)" using rel_pending [OF assms(1)] by blast
  moreover have "i = j" using assms calculation(1) unfolding bstore_rel_def by blast
  ultimately show "dirty (v_bufs v i)" by simp
qed

lemma rel_held:
  assumes "bstore_rel k v A" "st_held A b = Some (n, d)"
  shows "b < NBUF" "sl_locked (v_slocks v (SL_buf b)) \<noteq> 0" "sl_pid (v_slocks v (SL_buf b)) = k"
    "b_refcnt (v_bufs v b) = 1" "b_dev (v_bufs v b) = 1" "b_blockno (v_bufs v b) = n" "b_data (v_bufs v b) = d"
    "valid (v_bufs v b)" "dirty (v_bufs v b) \<longleftrightarrow> n \<in> dom (st_pending A)" "cached v n b"
proof -
  show "b < NBUF" using assms by (auto simp: bstore_rel_def)
  moreover from this have "buf_ok k A b (v_slocks v (SL_buf b)) (v_bufs v b)" using assms(1) by (simp add: bstore_rel_def)
  ultimately show "sl_locked (v_slocks v (SL_buf b)) \<noteq> 0" "sl_pid (v_slocks v (SL_buf b)) = k"
    "b_refcnt (v_bufs v b) = 1" "b_dev (v_bufs v b) = 1" "b_blockno (v_bufs v b) = n" "b_data (v_bufs v b) = d"
    "valid (v_bufs v b)" "dirty (v_bufs v b) \<longleftrightarrow> n \<in> dom (st_pending A)" "cached v n b"
    using assms(2) by (simp_all add: buf_ok_def cached_def)
qed

lemma rel_free:
  assumes "bstore_rel k v A" "i < NBUF" "st_held A i = None"
  shows "sl_locked (v_slocks v (SL_buf i)) = 0" "b_refcnt (v_bufs v i) = 0"
    "dirty (v_bufs v i) \<Longrightarrow> cached v (b_blockno (v_bufs v i)) i \<and> b_blockno (v_bufs v i) \<in> dom (st_pending A)"
    "cached v n i \<Longrightarrow> valid (v_bufs v i) \<Longrightarrow> b_data (v_bufs v i) = st_content A n"
    "dirty (v_bufs v i) \<Longrightarrow> valid (v_bufs v i)"
proof -
  have "buf_ok k A i (v_slocks v (SL_buf i)) (v_bufs v i)" using assms(1,2) by (simp add: bstore_rel_def)
  then show "sl_locked (v_slocks v (SL_buf i)) = 0" "b_refcnt (v_bufs v i) = 0"
    "dirty (v_bufs v i) \<Longrightarrow> cached v (b_blockno (v_bufs v i)) i \<and> b_blockno (v_bufs v i) \<in> dom (st_pending A)"
    "cached v n i \<Longrightarrow> valid (v_bufs v i) \<Longrightarrow> b_data (v_bufs v i) = st_content A n"
    "dirty (v_bufs v i) \<Longrightarrow> valid (v_bufs v i)"
    using assms(2,3) by (auto simp: buf_ok_def cached_def)
qed

section \<open>Taking a block\<close>

text \<open>Slot \<open>i\<close> gets a new lock and a new buffer.\<close>

definition slot_upd :: "nat \<Rightarrow> sleeplock \<Rightarrow> buf \<Rightarrow> bview \<Rightarrow> bview" where
  "slot_upd i l r v = v\<lparr>v_slocks := (v_slocks v)(SL_buf i := l), v_bufs := (v_bufs v)(i := r)\<rparr>"

lemma slot_upd_sel [simp]:
  "v_slocks (slot_upd i l r v) = (v_slocks v)(SL_buf i := l)" "v_bufs (slot_upd i l r v) = (v_bufs v)(i := r)"
  "v_next (slot_upd i l r v) = v_next v" "v_prev (slot_upd i l r v) = v_prev v"
  "v_disk (slot_upd i l r v) = v_disk v" "v_writes (slot_upd i l r v) = v_writes v"
  "linked (slot_upd i l r v) = linked v"
  by (simp_all add: slot_upd_def linked_def)

lemma cached_slot_upd:
  "cached (slot_upd i l r v) n j \<longleftrightarrow>
     (if j = i then i < NBUF \<and> b_dev r = 1 \<and> b_blockno r = n else cached v n j)"
  by (simp add: cached_def)

text \<open>
  The general step: slot \<open>i\<close> changes, and with it the held blocks, the pending updates and the disk; every other
  slot stays as it was.
\<close>

lemma rel_slot:
  assumes rel: "bstore_rel k v A" and i: "i < NBUF"
    and A': "\<And>j. j \<noteq> i \<Longrightarrow> st_held A' j = st_held A j" "\<And>m. m \<noteq> n \<Longrightarrow> st_pending A' m = st_pending A m"
      "\<And>m. m \<noteq> n \<Longrightarrow> st_disk A' (unat m) = st_disk A (unat m)"
    and only: "\<And>j. cached v n j \<Longrightarrow> j = i" and r: "b_dev r = 1" "b_blockno r = n"
    and old: "cached v n i \<or> \<not> dirty (v_bufs v i)"
    and ok: "buf_ok k A' i l r" "dirty r \<longleftrightarrow> n \<in> dom (st_pending A')"
    and v': "v_bufs v' = (v_bufs v)(i := r)" "v_slocks v' = (v_slocks v)(SL_buf i := l)" "linked v'"
      "v_disk v' = st_disk A'" "v_writes v' = st_writes A'"
  shows "bstore_rel k v' A'"
proof -
  have cu: "cached v' m j \<longleftrightarrow> (if j = i then m = n else cached v m j)" for m j
    using i r by (auto simp: cached_def v')
  have others: "buf_ok k A' j (v_slocks v' (SL_buf j)) (v_bufs v' j)" if "j < NBUF" for j
  proof (cases "j = i")
    case False
    have b: "buf_ok k A j (v_slocks v (SL_buf j)) (v_bufs v j)" using rel that by (simp add: bstore_rel_def)
    have "b_dev (v_bufs v j) = 1 \<longrightarrow> b_blockno (v_bufs v j) \<noteq> n" using only [of j] False that by (auto simp: cached_def)
    then show ?thesis using b False A'(1) [OF False] A'(2,3) [of "b_blockno (v_bufs v j)"]
      by (auto simp: v' buf_ok_def st_content_def dom_def split: option.splits prod.splits)
  qed (use ok(1) v' in simp)
  have uniq: "\<forall>m i j. cached v' m i \<longrightarrow> cached v' m j \<longrightarrow> i = j"
    using rel only unfolding cu by (auto simp: bstore_rel_def)
  have pend: "\<exists>j. cached v' m j \<and> dirty (v_bufs v' j)" if "m \<in> dom (st_pending A')" for m
  proof (cases "m = n")
    case True
    then show ?thesis using that ok(2) i r v'(1) by (intro exI [of _ i]) (simp add: cached_def)
  next
    case False
    then have "m \<in> dom (st_pending A)" using that A'(2) by (simp add: dom_def)
    then obtain j where j: "cached v m j" "dirty (v_bufs v j)" using rel_pending [OF rel] by blast
    then have "j \<noteq> i" using old False by (auto simp: cached_def)
    then show ?thesis using j by (intro exI [of _ j]) (simp add: cu v')
  qed
  have "dom (st_held A') \<subseteq> {..<NBUF}"
  proof
    fix j assume "j \<in> dom (st_held A')"
    then show "j \<in> {..<NBUF}" using A'(1) [of j] i rel by (cases "j = i") (auto simp: bstore_rel_def dom_def)
  qed
  then show ?thesis unfolding bstore_rel_def using others uniq pend v'(3-5) by blast
qed

lemma rel_uniq: "bstore_rel k v A \<Longrightarrow> cached v n i \<Longrightarrow> cached v n j \<Longrightarrow> i = j"
  unfolding bstore_rel_def by blast

lemma unused_exists:
  assumes "bstore_rel k v A" "has_room A"
  shows "\<exists>i<NBUF. st_held A i = None \<and> \<not> dirty (v_bufs v i)"
proof (rule ccontr)
  let ?D = "{i. i < NBUF \<and> st_held A i = None \<and> dirty (v_bufs v i)}"
  let ?f = "\<lambda>i. b_blockno (v_bufs v i)"
  assume "\<not> ?thesis"
  then have "i \<in> dom (st_held A) \<union> ?D" if "i < NBUF" for i using that by (cases "st_held A i") auto
  then have sub: "{..<NBUF} \<subseteq> dom (st_held A) \<union> ?D" by blast
  have D: "cached v (?f i) i \<and> ?f i \<in> dom (st_pending A)" if "i \<in> ?D" for i
    using rel_free(3) [OF assms(1)] that by blast
  have inj: "inj_on ?f ?D"
  proof (rule inj_onI)
    fix i j assume "i \<in> ?D" "j \<in> ?D" "?f i = ?f j"
    then have "cached v (?f i) i" "cached v (?f i) j" using D [of i] D [of j] by simp_all
    then show "i = j" by (rule rel_uniq [OF assms(1)])
  qed
  have fin: "finite (dom (st_held A))" using assms(1) finite_subset by (auto simp: bstore_rel_def)
  have "dom (st_pending A) \<subseteq> ?f ` {..<NBUF}" using rel_pending [OF assms(1)] by (fastforce simp: cached_def)
  then have finp: "finite (dom (st_pending A))" by (meson finite_imageI finite_lessThan finite_subset)
  have "?f ` ?D \<subseteq> dom (st_pending A)" using D by auto
  then have "card ?D \<le> card (dom (st_pending A))" using card_inj_on_le [OF inj _ finp] by blast
  moreover have "card {..<NBUF} \<le> card (dom (st_held A) \<union> ?D)" by (rule card_mono [OF _ sub]) (use fin in simp)
  then have "NBUF \<le> card (dom (st_held A)) + card ?D"
    using card_Un_le [of "dom (st_held A)" ?D] by simp
  ultimately show False using assms(2) by (simp add: has_room_def)
qed

lemma find_SomeD: "find P xs = Some i \<Longrightarrow> i \<in> set xs \<and> P i"
  by (auto simp: find_Some_iff)

text \<open>Which slot \<open>bget\<close> takes, and what it leaves there.\<close>

definition slot_taken :: "bview \<Rightarrow> u32 \<Rightarrow> nat \<Rightarrow> buf \<Rightarrow> bool" where
  "slot_taken v n i r \<longleftrightarrow>
     cached v n i \<and> r = (v_bufs v i)\<lparr>b_refcnt := 1\<rparr> \<or>
     (\<forall>j. \<not> cached v n j) \<and> \<not> dirty (v_bufs v i) \<and>
       r = (v_bufs v i)\<lparr>b_dev := 1, b_blockno := n, b_flags := 0, b_refcnt := 1\<rparr>"

lemma bget_take:
  assumes "calm c p k s" "sl_locked (slocks s (SL_buf i)) = 0"
    and "\<And>a. a = acquired L_bcache c s \<Longrightarrow>
      bget 1 n s = rbind (release L_bcache (upd_buf i f a)) (\<lambda>s. rbind (acquiresleep (SL_buf i) s) (\<lambda>s. ret (i, s)))"
  shows "\<exists>s' l. bget 1 n s = ret (i, s') \<and> calm c p k s' \<and> bframe s s' \<and> sl_locked l \<noteq> 0 \<and> sl_pid l = k \<and>
    bview_of s' = slot_upd i l (f (bufs s i)) (bview_of s)"
proof -
  let ?a = "acquired L_bcache c s"
  let ?t = "released L_bcache c (upd_buf i f ?a)"
  have r: "release L_bcache (upd_buf i f ?a) = ret ?t" "calm c p k ?t"
    using calm_release [OF assms(1), of L_bcache "upd_buf i f ?a"] by simp_all
  have e: "slocks ?t = slocks s" "bufs ?t = (bufs s)(i := f (bufs s i))"
    by (simp_all add: released_def acquired_def upd_buf_def)
  from acquiresleep_calm [OF r(2), of "SL_buf i"] assms(2) e(1) obtain s' where s': "acquiresleep (SL_buf i) ?t = ret s'"
    "calm c p k s'" "bframe ?t s'"
    "bview_of s' = (bview_of ?t)\<lparr>v_slocks := (slocks s)(SL_buf i := (slocks s (SL_buf i))\<lparr>sl_locked := 1, sl_pid := k\<rparr>)\<rparr>"
    by auto
  have "bframe s ?t" by (meson bframe_trans bframe_upd)
  with s'(3) have "bframe s s'" using bframe_trans by blast
  moreover have "bget 1 n s = ret (i, s')" using assms(3) [OF refl] r(1) s'(1) by simp
  moreover have "bview_of s' = slot_upd i ((slocks s (SL_buf i))\<lparr>sl_locked := 1, sl_pid := k\<rparr>) (f (bufs s i)) (bview_of s)"
    unfolding s'(4) by (simp add: slot_upd_def) (simp add: bview_of_def acquired_def)
  ultimately show ?thesis using s'(2) by (intro exI [of _ s'] exI) auto
qed

lemma bget_calm:
  assumes "calm c p k s" "bstore_rel k (bview_of s) A" "\<forall>b d. st_held A b \<noteq> Some (n, d)"
    and "n \<in> dom (st_pending A) \<or> has_room A"
  shows "\<exists>i s' l r. bget 1 n s = ret (i, s') \<and> i < NBUF \<and> st_held A i = None \<and> calm c p k s' \<and> bframe s s' \<and>
    sl_locked l \<noteq> 0 \<and> sl_pid l = k \<and> slot_taken (bview_of s) n i r \<and> bview_of s' = slot_upd i l r (bview_of s)"
proof -
  let ?v = "bview_of s" and ?a = "acquired L_bcache c s"
  let ?c = "\<lambda>i. b_dev (bufs s i) = 1 \<and> b_blockno (bufs s i) = n"
  let ?u = "\<lambda>i. b_refcnt (bufs s i) = 0 \<and> b_flags (bufs s i) AND B_DIRTY = 0"
  obtain xs where xs: "all_buffers xs" "bdll (bnext s) (bprev s) xs"
    using assms(2) by (auto simp: bstore_rel_def linked_def)
  have a: "bnext ?a = bnext s" "bprev ?a = bprev s" "bufs ?a = bufs s" by (simp_all add: acquired_def)
  have sc: "scan_cached (bnext s) (bufs s) 1 n (bnext s BHead) = ret (find ?c xs)"
    by (rule scan_cached_chain) (use xs(2) in \<open>simp add: bdll_def\<close>)
  have su: "scan_unused (bprev s) (bufs s) (bprev s BHead) = ret (find ?u (rev xs))"
    by (rule scan_unused_chain) (use xs(2) in \<open>simp add: bdll_def\<close>)
  have cc: "cached ?v n i \<longleftrightarrow> i \<in> set xs \<and> ?c i" for i
    using xs(1) by (auto simp: cached_def all_buffers_def)
  show ?thesis
  proof (cases "find ?c xs")
    case (Some i)
    then have i: "cached ?v n i" unfolding cc by (rule find_SomeD)
    then have lt: "i < NBUF" by (simp add: cached_def)
    have h: "st_held A i = None"
    proof (cases "st_held A i")
      case (Some z)
      then obtain m d where "st_held A i = Some (m, d)" by (cases z) simp
      with rel_held(6) [OF assms(2) this] i assms(3) show ?thesis by (auto simp: cached_def)
    qed
    note f = rel_free [OF assms(2) lt h]
    let ?f = "\<lambda>r. r\<lparr>b_refcnt := b_refcnt r + 1\<rparr>"
    have "bget 1 n s = rbind (release L_bcache (upd_buf i ?f a')) (\<lambda>s. rbind (acquiresleep (SL_buf i) s) (\<lambda>s. ret (i, s)))"
      if "a' = ?a" for a'
      using Some sc that by (simp add: bget_def calm_acquire [OF assms(1)] a)
    from bget_take [OF assms(1) f(1) [unfolded bview_of_sel] this] obtain s' l where s': "bget 1 n s = ret (i, s')"
      "calm c p k s'" "bframe s s'" "sl_locked l \<noteq> 0" "sl_pid l = k" "bview_of s' = slot_upd i l (?f (bufs s i)) ?v"
      by blast
    moreover have "slot_taken ?v n i (?f (bufs s i))" using i f(2) by (simp add: slot_taken_def)
    ultimately show ?thesis using lt h by blast
  next
    case None
    then have nc: "\<not> cached ?v n j" for j using cc by (auto simp: find_None_iff)
    then have "n \<notin> dom (st_pending A)" using rel_pending [OF assms(2)] by blast
    then have "has_room A" using assms(4) by simp
    from unused_exists [OF assms(2) this] obtain j where j: "j < NBUF" "st_held A j = None" "\<not> dirty (bufs s j)" by auto
    then have "?u j" using rel_free(2) [OF assms(2)] by (simp add: dirty_def)
    moreover have "j \<in> set (rev xs)" using j(1) xs(1) by (simp add: all_buffers_def)
    ultimately obtain i where i: "find ?u (rev xs) = Some i" by (cases "find ?u (rev xs)") (auto simp: find_None_iff)
    then have u: "?u i" "i \<in> set (rev xs)" using find_SomeD [OF i] by simp_all
    then have lt: "i < NBUF" using xs(1) by (simp add: all_buffers_def)
    have h: "st_held A i = None"
    proof (cases "st_held A i")
      case (Some z)
      then obtain m d where "st_held A i = Some (m, d)" by (cases z) simp
      with rel_held(4) [OF assms(2) this] u(1) show ?thesis by simp
    qed
    note f = rel_free [OF assms(2) lt h]
    let ?f = "\<lambda>r. r\<lparr>b_dev := 1, b_blockno := n, b_flags := 0, b_refcnt := 1\<rparr>"
    have "bget 1 n s = rbind (release L_bcache (upd_buf i ?f a')) (\<lambda>s. rbind (acquiresleep (SL_buf i) s) (\<lambda>s. ret (i, s)))"
      if "a' = ?a" for a'
      using None sc su i that by (simp add: bget_def calm_acquire [OF assms(1)] a)
    from bget_take [OF assms(1) f(1) [unfolded bview_of_sel] this] obtain s' l where s': "bget 1 n s = ret (i, s')"
      "calm c p k s'" "bframe s s'" "sl_locked l \<noteq> 0" "sl_pid l = k" "bview_of s' = slot_upd i l (?f (bufs s i)) ?v"
      by blast
    moreover have "slot_taken ?v n i (?f (bufs s i))" using nc u(1) by (simp add: slot_taken_def dirty_def)
    ultimately show ?thesis using lt h by blast
  qed
qed

section \<open>The operations of the cache\<close>

text \<open>The cache of state \<open>s\<close>, used by process \<open>p\<close> with identifier \<open>k\<close> on CPU \<open>c\<close>, represents the store \<open>A\<close>.\<close>

definition bcache_rel :: "nat \<Rightarrow> nat \<Rightarrow> int \<Rightarrow> 'a bcache_scheme \<Rightarrow> bstore \<Rightarrow> bool" where
  "bcache_rel c p k s A \<longleftrightarrow> calm c p k s \<and> bstore_rel k (bview_of s) A"

lemma rel_hold:
  assumes "bstore_rel k v A" "i < NBUF" "st_held A i = None" "slot_taken v n i r0"
    and "sl_locked l \<noteq> 0" "sl_pid l = k" "b_refcnt r = 1" "b_dev r = 1" "b_blockno r = n" "b_data r = st_content A n"
    "valid r" "dirty r \<longleftrightarrow> n \<in> dom (st_pending A)"
  shows "bstore_rel k (slot_upd i l r v) (st_hold i n A)"
proof (rule rel_slot [OF assms(1,2), where n = n and r = r and l = l])
  show "j = i" if "cached v n j" for j
    using that assms(4) rel_uniq [OF assms(1)] by (auto simp: slot_taken_def)
  show "cached v n i \<or> \<not> dirty (v_bufs v i)" using assms(4) by (auto simp: slot_taken_def)
  show "buf_ok k (st_hold i n A) i l r" using assms(5-12) by (simp add: buf_ok_def st_hold_def)
qed (use assms in \<open>auto simp: st_hold_def bstore_rel_def\<close>)

lemma taken_fields:
  assumes "slot_taken v n i r"
  shows "b_refcnt r = 1" "b_dev r = 1" "b_blockno r = n"
  using assms by (auto simp: slot_taken_def cached_def)

lemma taken_flags:
  assumes "bstore_rel k v A" "st_held A i = None" "i < NBUF" "slot_taken v n i r"
  shows "dirty r \<longleftrightarrow> n \<in> dom (st_pending A)" "dirty r \<Longrightarrow> valid r" "valid r \<Longrightarrow> b_data r = st_content A n"
proof -
  have c: "dirty (v_bufs v i) \<longleftrightarrow> n \<in> dom (st_pending A)" if "cached v n i" by (rule dirty_iff [OF assms(1) that])
  have nc: "n \<notin> dom (st_pending A)" if "\<forall>j. \<not> cached v n j" using rel_pending [OF assms(1)] that by blast
  show d: "dirty r \<longleftrightarrow> n \<in> dom (st_pending A)"
    using assms(4) c nc by (auto simp: slot_taken_def)
  show "dirty r \<Longrightarrow> valid r"
    using assms(4) rel_free(5) [OF assms(1,3,2)] by (auto simp: slot_taken_def)
  show "valid r \<Longrightarrow> b_data r = st_content A n"
    using assms(4) rel_free(4) [OF assms(1,3,2)] by (auto simp: slot_taken_def)
qed

lemma bread_ok:
  assumes "bcache_rel c p k s A" "\<forall>b d. st_held A b \<noteq> Some (n, d)" "n \<in> dom (st_pending A) \<or> has_room A" "n < disksize s"
  shows "\<exists>b s'. bread 1 n s = ret (b, s') \<and> bcache_rel c p k s' (st_hold b n A) \<and> bframe s s' \<and> st_held A b = None \<and>
    b_data (bufs s' b) = st_content A n"
proof -
  let ?v = "bview_of s"
  have calm: "calm c p k s" and rel: "bstore_rel k ?v A" using assms(1) by (simp_all add: bcache_rel_def)
  from bget_calm [OF calm rel assms(2,3)] obtain i t l r where t: "bget 1 n s = ret (i, t)" "i < NBUF" "st_held A i = None"
    "calm c p k t" "bframe s t" "sl_locked l \<noteq> 0" "sl_pid l = k" "slot_taken ?v n i r" "bview_of t = slot_upd i l r ?v"
    by blast
  note tf = taken_fields [OF t(8)] and fl = taken_flags [OF rel t(3,2,8)]
  have vt: "bufs t i = r" "slocks t (SL_buf i) = l" "disk t = disk s"
    using arg_cong [OF t(9), of v_bufs] arg_cong [OF t(9), of v_slocks] arg_cong [OF t(9), of v_disk] by simp_all
  show ?thesis
  proof (cases "valid r")
    case True
    then have "bread 1 n s = ret (i, t)" using t(1) vt by (simp add: bread_def valid_def)
    moreover have "bstore_rel k (bview_of t) (st_hold i n A)"
      unfolding t(9) using rel_hold [OF rel t(2,3,8,6,7) tf fl(3) [OF True] True fl(1)] .
    ultimately show ?thesis using t vt fl(3) [OF True] by (auto simp: bcache_rel_def)
  next
    case False
    then have nd: "\<not> dirty r" "n \<notin> dom (st_pending A)" using fl(1,2) by blast+
    have "b_flags (bufs t i) AND (B_VALID OR B_DIRTY) \<noteq> B_VALID" using False nothing_to_do [of r] vt by simp
    moreover have "n < disksize t" using assms(4) bframe_disksize [OF t(5)] by simp
    ultimately obtain u where u: "iderw i t = ret u" "calm c p k u" "bframe t u" "bview_of u = transfer i (bview_of t)"
      using iderw_calm [OF t(4), of i] t(6,7) vt tf by auto
    let ?r = "r\<lparr>b_data := disk s (unat n), b_flags := b_flags r OR B_VALID\<rparr>"
    have vu: "bview_of u = slot_upd i l ?r ?v"
      unfolding u(4) t(9) using nd(1) tf(3) by (simp add: transfer_def Let_def dirty_def slot_upd_def)
    have con: "disk s (unat n) = st_content A n"
      using rel nd(2) by (auto simp: bstore_rel_def st_content_def dom_def split: option.splits)
    have "bstore_rel k (bview_of u) (st_hold i n A)"
      unfolding vu by (rule rel_hold [OF rel t(2,3,8,6,7)]) (use tf con nd fl(1) in simp_all)
    moreover have "bread 1 n s = ret (i, u)" using t(1) u(1) vt False by (simp add: bread_def valid_def)
    moreover have "b_data (bufs u i) = st_content A n" using arg_cong [OF vu, of v_bufs] con by simp
    ultimately show ?thesis using t(3) u(2,3) bframe_trans [OF t(5)] by (auto simp: bcache_rel_def)
  qed
qed

lemma set_data_ok:
  assumes "bcache_rel c p k s A" "st_held A b = Some (n, d0)"
  shows "bcache_rel c p k (set_data b d s) (st_edit b n d A)" "bframe s (set_data b d s)"
proof -
  let ?v = "bview_of s" and ?r = "(bufs s b)\<lparr>b_data := d\<rparr>"
  have rel: "bstore_rel k ?v A" using assms(1) by (simp add: bcache_rel_def)
  note h = rel_held [OF rel assms(2), simplified]
  have "bstore_rel k (bview_of (set_data b d s)) (st_edit b n d A)"
  proof (rule rel_slot [OF rel h(1), where n = n and r = ?r and l = "slocks s (SL_buf b)"])
    show "j = b" if "cached ?v n j" for j using rel_uniq [OF rel that h(10)] .
    show "buf_ok k (st_edit b n d A) b (slocks s (SL_buf b)) ?r"
      using h by (simp add: buf_ok_def st_edit_def)
  qed (use h rel in \<open>auto simp: st_edit_def set_data_def bstore_rel_def linked_def\<close>)
  moreover have "calm c p k (set_data b d s)"
    by (rule calm_frame [of c p k s]) (use assms(1) in \<open>simp_all add: bcache_rel_def set_data_def\<close>)
  ultimately show "bcache_rel c p k (set_data b d s) (st_edit b n d A)" by (simp add: bcache_rel_def)
  show "bframe s (set_data b d s)" by simp
qed

lemma bwrite_ok:
  assumes "bcache_rel c p k s A" "st_held A b = Some (n, d)" "n < disksize s"
  shows "\<exists>s'. bwrite b s = ret s' \<and> bcache_rel c p k s' (st_write n d A) \<and> bframe s s'"
proof -
  let ?v = "bview_of s"
  have calm: "calm c p k s" and rel: "bstore_rel k ?v A" using assms(1) by (simp_all add: bcache_rel_def)
  note h = rel_held [OF rel assms(2), simplified]
  from holdingsleep_calm [OF calm, of "SL_buf b"] obtain t where t: "holdingsleep (SL_buf b) s = ret (True, t)"
    "calm c p k t" "bframe s t" "bview_of t = ?v" using h(2,3) by auto
  let ?f = "\<lambda>r. r\<lparr>b_flags := b_flags r OR B_DIRTY\<rparr>"
  let ?t = "upd_buf b ?f t"
  have e: "bufs t = bufs s" "slocks t = slocks s"
    using arg_cong [OF t(4), of v_bufs] arg_cong [OF t(4), of v_slocks] by simp_all
  have dt: "dirty (bufs ?t b)" using e(1) by simp
  have ct: "calm c p k ?t" by (rule calm_frame [OF t(2)]) simp_all
  have ft: "bframe s ?t" using bframe_trans [OF t(3)] bframe_upd(2) by blast
  have "b_flags (bufs ?t b) AND (B_VALID OR B_DIRTY) \<noteq> B_VALID" using dt nothing_to_do [of "bufs ?t b"] by simp
  moreover have "n < disksize ?t" using assms(3) bframe_disksize [OF ft] by simp
  moreover have "sl_locked (slocks ?t (SL_buf b)) \<noteq> 0" "sl_pid (slocks ?t (SL_buf b)) = k" using h(2,3) e by simp_all
  moreover have "b_dev (bufs ?t b) = 1" "b_blockno (bufs ?t b) = n" using h e by simp_all
  ultimately obtain u where u: "iderw b ?t = ret u" "calm c p k u" "bframe ?t u" "bview_of u = transfer b (bview_of ?t)"
    using iderw_calm [OF ct, of b] by auto
  let ?r = "(bufs s b)\<lparr>b_flags := (b_flags (bufs s b) OR B_DIRTY) AND NOT B_DIRTY OR B_VALID\<rparr>"
  have vt: "bview_of ?t = ?v\<lparr>v_bufs := (bufs s)(b := ?f (bufs s b))\<rparr>" using t(4) e by simp
  have vu: "bview_of u = ?v\<lparr>v_bufs := (bufs s)(b := ?r), v_disk := (disk s)(unat n := d), v_writes := (unat n, d) # disk_writes s\<rparr>"
    unfolding u(4) vt using h dt e by (simp add: transfer_def Let_def dirty_def)
  have "bstore_rel k (bview_of u) (st_write n d A)"
  proof (rule rel_slot [OF rel h(1), where n = n and r = ?r and l = "slocks s (SL_buf b)"])
    show "j = b" if "cached ?v n j" for j using rel_uniq [OF rel that h(10)] .
    show "buf_ok k (st_write n d A) b (slocks s (SL_buf b)) ?r"
      using h assms(2) by (simp add: buf_ok_def st_write_def)
    show "dirty ?r \<longleftrightarrow> n \<in> dom (st_pending (st_write n d A))" by (simp add: st_write_def)
    show "st_disk (st_write n d A) (unat m) = st_disk A (unat m)" if "m \<noteq> n" for m
      using that by (simp add: st_write_def word_unat_eq_iff)
  qed (use h rel vu in \<open>auto simp: st_write_def bstore_rel_def linked_def\<close>)
  moreover have "bwrite b s = ret u" using t(1) u(1) by (simp add: bwrite_def)
  moreover have "bframe s u" using ft u(3) bframe_trans by blast
  ultimately show ?thesis using u(2) by (auto simp: bcache_rel_def)
qed

lemma brelse_ok:
  assumes "bcache_rel c p k s A" "st_held A b = Some (n, st_content A n)"
  shows "\<exists>s'. brelse b s = ret s' \<and> bcache_rel c p k s' (st_drop b A) \<and> bframe s s'"
proof -
  let ?v = "bview_of s"
  have calm: "calm c p k s" and rel: "bstore_rel k ?v A" using assms(1) by (simp_all add: bcache_rel_def)
  note h = rel_held [OF rel assms(2), simplified]
  from holdingsleep_calm [OF calm, of "SL_buf b"] obtain t where t: "holdingsleep (SL_buf b) s = ret (True, t)"
    "calm c p k t" "bframe s t" "bview_of t = ?v" using h(2,3) by auto
  let ?l = "(slocks s (SL_buf b))\<lparr>sl_locked := 0, sl_pid := 0\<rparr>"
  have "slocks t = slocks s" using arg_cong [OF t(4), of v_slocks] by simp
  with releasesleep_calm [OF t(2), of "SL_buf b"] t(4) obtain u where u: "releasesleep (SL_buf b) t = ret u" "calm c p k u"
    "bframe t u" "bview_of u = ?v\<lparr>v_slocks := (slocks s)(SL_buf b := ?l)\<rparr>" by auto
  let ?a = "acquired L_bcache c u"
  let ?w = "upd_buf b (\<lambda>r. r\<lparr>b_refcnt := b_refcnt r - 1\<rparr>) ?a"
  let ?m = "move_to_front b ?w"
  let ?s' = "released L_bcache c ?m"
  let ?r = "(bufs s b)\<lparr>b_refcnt := 0\<rparr>"
  have e: "bufs u = bufs s" "bnext u = bnext s" "bprev u = bprev s" "disk u = disk s" "disk_writes u = disk_writes s"
    "slocks u = (slocks s)(SL_buf b := ?l)"
    using arg_cong [OF u(4), of v_bufs] arg_cong [OF u(4), of v_next] arg_cong [OF u(4), of v_prev]
      arg_cong [OF u(4), of v_disk] arg_cong [OF u(4), of v_writes] arg_cong [OF u(4), of v_slocks] by simp_all
  have a: "bufs ?a = bufs s" using e by (simp add: acquired_def)
  have w: "bufs ?w = (bufs s)(b := ?r)" "bnext ?w = bnext s" "bprev ?w = bprev s"
    using h(4) e by (simp_all add: upd_buf_def acquired_def)
  note rl = calm_release [OF u(2), of L_bcache ?m]
  have "brelse b s = ret ?s'"
    using t(1) u(1) a h(4) rl(1) by (simp add: brelse_def calm_acquire [OF u(2)] Let_def)
  moreover have "calm c p k ?s'" using rl(2) by simp
  moreover have "bframe s ?s'" using t(3) u(3) by (meson bframe_trans bframe_upd)
  moreover have "linked (bview_of ?s')"
  proof -
    obtain xs where xs: "all_buffers xs" "bdll (bnext ?w) (bprev ?w) xs"
      using rel w by (auto simp: bstore_rel_def linked_def)
    then have d: "distinct xs" "b \<in> set xs" using h(1) by (simp_all add: all_buffers_def)
    from dll_move_to_front [OF xs(2) d] all_buffers_front [OF xs(1) h(1)] show ?thesis
      by (auto simp: linked_def released_def)
  qed
  then have "bstore_rel k (bview_of ?s') (st_drop b A)"
  proof (intro rel_slot [OF rel h(1), where n = n and r = ?r and l = ?l])
    show "j = b" if "cached ?v n j" for j using rel_uniq [OF rel that h(10)] .
    show "buf_ok k (st_drop b A) b ?l ?r"
      using h st_content_held(3) [of b A n] by (auto simp: buf_ok_def st_drop_def)
    show "v_bufs (bview_of ?s') = (v_bufs ?v)(b := ?r)" using w(1) by (simp add: released_def)
    show "v_slocks (bview_of ?s') = (v_slocks ?v)(SL_buf b := ?l)" using e(6) by (simp add: released_def acquired_def)
    show "v_disk (bview_of ?s') = st_disk (st_drop b A)" "v_writes (bview_of ?s') = st_writes (st_drop b A)"
      using e rel by (simp_all add: released_def acquired_def bstore_rel_def st_drop_def)
  qed (use h rel in \<open>auto simp: st_drop_def\<close>)
  ultimately show ?thesis by (auto simp: bcache_rel_def)
qed

interpretation bc: block_store "bcache_rel c p k" bframe disksize "\<lambda>s b. b_data (bufs s b)" "bread 1" set_data bwrite brelse
  for c p k
proof (unfold_locales, goal_cases)
  case 1
  then show ?case by simp
next
  case 2
  then show ?case by (rule bframe_trans)
next
  case 3
  then show ?case by (rule bframe_disksize)
next
  case (4 s A b n d)
  then show ?case using rel_held(7) [of k "bview_of s" A b n d] by (simp add: bcache_rel_def)
next
  case 5
  from bread_ok [OF this] show ?case by blast
next
  case 6
  from set_data_ok [OF this] show ?case by blast
next
  case 7
  then show ?case by (rule bwrite_ok)
next
  case 8
  then show ?case by (rule brelse_ok)
qed

section \<open>Initialisation\<close>

lemma binit_link_fields:
  "bufs (binit_link bs s) = bufs s" "disk (binit_link bs s) = disk s" "disk_writes (binit_link bs s) = disk_writes s"
  "disksize (binit_link bs s) = disksize s" "procs (binit_link bs s) = procs s" "level (binit_link bs s) = level s"
  "cpus (binit_link bs s) = cpus s" "fl_if (binit_link bs s) = fl_if s" "ncpu (binit_link bs s) = ncpu s"
  "lapicid (binit_link bs s) = lapicid s"
  by (induction bs arbitrary: s)
    (simp_all add: Let_def set_bnext_def set_bprev_def initsleeplock_def upd_slock_def initlock_def set_lock_def)

lemma binit_link_free: "\<forall>l. free_lock l s \<Longrightarrow> free_lock l (binit_link bs s)"
proof (induction bs arbitrary: s)
  case (Cons b bs)
  let ?s = "set_bnext BHead (Buf b) (set_bprev (bnext s BHead) (Buf b)
      (initsleeplock (SL_buf b) ''buffer'' (set_bprev (Buf b) BHead (set_bnext (Buf b) (bnext s BHead) s))))"
  have "\<forall>l. free_lock l ?s" using Cons.prems
    by (simp add: free_lock_def set_bnext_def set_bprev_def initsleeplock_def upd_slock_def initlock_def set_lock_def)
  from Cons.IH [OF this] show ?case
    by (simp add: Let_def) (simp add: set_bnext_def set_bprev_def initsleeplock_def upd_slock_def initlock_def set_lock_def)
qed simp

lemma binit_link_slocks:
  "slocks (binit_link bs s) lk = (if lk \<in> SL_buf ` set bs then \<lparr>sl_locked = 0, sl_name = ''buffer'', sl_pid = 0\<rparr> else slocks s lk)"
  by (induction bs arbitrary: s)
    (auto simp: Let_def set_bnext_def set_bprev_def initsleeplock_def upd_slock_def initlock_def set_lock_def)

definition fresh_store :: "'a bcache_scheme \<Rightarrow> bstore" where
  "fresh_store s = \<lparr>st_disk = disk s, st_writes = disk_writes s, st_pending = Map.empty, st_held = Map.empty\<rparr>"

lemma binit_rel:
  assumes "\<forall>i<NBUF. b_flags (bufs s i) = 0 \<and> b_refcnt (bufs s i) = 0 \<and> b_dev (bufs s i) = 0"
  shows "bstore_rel k (bview_of (binit s)) (fresh_store s)"
proof -
  let ?s = "set_bnext BHead BHead (set_bprev BHead BHead (initlock L_bcache ''bcache'' s))"
  have e: "binit s = binit_link [0..<NBUF] ?s" by (simp add: binit_def Let_def)
  have "bdll (bnext ?s) (bprev ?s) []" by (simp add: bdll_def set_bnext_def set_bprev_def)
  from binit_link_dll [OF this, of "[0..<NBUF]"] have "bdll (bnext (binit s)) (bprev (binit s)) (rev [0..<NBUF])"
    by (simp add: e)
  then have "linked (bview_of (binit s))"
    unfolding linked_def by (intro exI [of _ "rev [0..<NBUF]"]) (auto simp: all_buffers_def)
  then show ?thesis
    using assms unfolding bstore_rel_def e
    by (auto simp: fresh_store_def binit_link_fields binit_link_slocks buf_ok_def cached_def)
      (simp_all add: set_bnext_def set_bprev_def initlock_def set_lock_def)
qed

text \<open>
  C23: after \<open>binit\<close> on zeroed memory the cache represents the contents of the disk: all buffers are on
  the list, none is in use, nothing is pending.
\<close>

theorem binit_represents_disk:
  assumes "\<forall>i<NBUF. b_flags (bufs s i) = 0 \<and> b_refcnt (bufs s i) = 0 \<and> b_dev (bufs s i) = 0"
  shows "bstore_rel k (bview_of (binit s)) (fresh_store s)"
  using assms by (rule binit_rel)

definition bdemo :: traps where "bdemo = binit kdemo"

theorem binit_represents_disk_witness: "bstore_rel 1 (bview_of (binit kdemo)) (fresh_store kdemo)"
  by (rule binit_represents_disk) (simp add: kdemo_def kernel_of_def)

lemma bdemo_calm: "calm 0 0 1 bdemo"
proof -
  let ?s = "set_bnext BHead BHead (set_bprev BHead BHead (initlock L_bcache ''bcache'' kdemo))"
  have e: "bdemo = binit_link [0..<NBUF] ?s" by (simp add: bdemo_def binit_def Let_def)
  have m: "procs bdemo = procs kdemo" "level bdemo = level kdemo" "cpus bdemo = cpus kdemo" "fl_if bdemo = fl_if kdemo"
    "ncpu bdemo = ncpu kdemo" "lapicid bdemo = lapicid kdemo"
    unfolding e binit_link_fields by (simp_all add: set_bnext_def set_bprev_def initlock_def set_lock_def)
  have "\<forall>l. free_lock l ?s"
    using kdemo_free by (simp add: free_lock_def set_bnext_def set_bprev_def initlock_def set_lock_def)
  then have fr: "free_lock l bdemo" for l unfolding e by (rule binit_link_free)
  have "running 0 0 bdemo" using kdemo_running fr m by (simp add: running_def on_cpu_def)
  moreover have "ptable_ok bdemo" using kdemo_ptable_ok ptable_ok_frame [of bdemo kdemo] m by simp
  moreover have "p_pid (procs kdemo 0) = 1" by (simp add: kdemo_def demo_def demo_procs_def)
  ultimately show ?thesis using fr m by (simp add: calm_def)
qed

lemma bdemo_rel: "bcache_rel 0 0 1 bdemo (fresh_store kdemo)"
  unfolding bcache_rel_def bdemo_def
  using bdemo_calm binit_rel [of kdemo 1] by (simp add: bdemo_def kdemo_def kernel_of_def)

section \<open>The refinement\<close>

text \<open>
  C21: the buffer cache implements the store of blocks: \<open>bread\<close> holds a block with its current contents, without a
  panic while fewer than NBUF blocks are held or pending; changing the data of a held buffer, \<open>bwrite\<close> and
  \<open>brelse\<close> are the operations of the store. Every operation returns.
\<close>

theorem bcache_refines_store:
  assumes "bcache_rel c p k s A"
  shows "((\<forall>b d. st_held A b \<noteq> Some (n, d)) \<and> (n \<in> dom (st_pending A) \<or> has_room A) \<and> n < disksize s \<longrightarrow>
      (\<exists>b s'. bread 1 n s = ret (b, s') \<and> st_held A b = None \<and> b_data (bufs s' b) = st_content A n \<and>
        bcache_rel c p k s' (st_hold b n A))) \<and>
    (st_held A b = Some (n, d) \<longrightarrow> bcache_rel c p k (set_data b d' s) (st_edit b n d' A)) \<and>
    (st_held A b = Some (n, d) \<and> n < disksize s \<longrightarrow> (\<exists>s'. bwrite b s = ret s' \<and> bcache_rel c p k s' (st_write n d A))) \<and>
    (st_held A b = Some (n, st_content A n) \<longrightarrow> (\<exists>s'. brelse b s = ret s' \<and> bcache_rel c p k s' (st_drop b A)))"
  using bread_ok [OF assms, of n] set_data_ok(1) [OF assms] bwrite_ok [OF assms] brelse_ok [OF assms] by blast

theorem bcache_refines_store_witness:
  "\<exists>b s'. bread 1 5 bdemo = ret (b, s') \<and> b_data (bufs s' b) = replicate 512 0 \<and>
     bcache_rel 0 0 1 s' (st_hold b 5 (fresh_store kdemo))"
proof -
  have d: "disksize bdemo = 2000" "st_content (fresh_store kdemo) 5 = replicate 512 0" "has_room (fresh_store kdemo)"
    by (simp_all add: bdemo_def binit_def Let_def binit_link_fields fresh_store_def st_content_def has_room_def NBUF_def)
      (simp_all add: set_bnext_def set_bprev_def initlock_def set_lock_def kdemo_def kernel_of_def)
  have "(5 :: u32) < 2000" by simp
  with bcache_refines_store [OF bdemo_rel, of 5] d show ?thesis by (auto simp: fresh_store_def)
qed

end
