(* ===== verification/FsProps.thy ===== *)
theory FsProps
  imports Demo
begin

unbundle bit_operations_syntax

text \<open>
  Properties of the data structures of the file system: path names, directory entries, on-disk inodes
  and the block bitmap.
\<close>

section \<open>Path names\<close>

text \<open>The reference: cut the path at every slash and drop the empty pieces.\<close>

fun pieces :: "cstr \<Rightarrow> cstr list" where
  "pieces [] = [[]]"
| "pieces (c # cs) = (if c = SLASH then [] # pieces cs else (c # hd (pieces cs)) # tl (pieces cs))"

definition path_components :: "cstr \<Rightarrow> cstr list" where
  "path_components path = filter (\<lambda>e. e \<noteq> []) (pieces path)"

lemma pieces_nonempty [simp]: "pieces p \<noteq> []"
  by (induction p) auto

lemma pieces_element:
  "SLASH \<notin> set e \<Longrightarrow> pieces (e @ rest) = (e @ hd (pieces rest)) # tl (pieces rest)"
  by (induction e) auto

lemma components_slashes: "path_components (dropWhile (\<lambda>c. c = SLASH) path) = path_components path"
  by (induction path) (auto simp: path_components_def)

lemma components_element:
  assumes "e \<noteq> []" "SLASH \<notin> set e" "rest = [] \<or> hd rest = SLASH"
  shows "path_components (e @ rest) = e # path_components rest"
proof (cases rest)
  case Nil
  with assms show ?thesis by (simp add: path_components_def pieces_element [of e "[]", simplified])
next
  case (Cons c cs)
  with assms show ?thesis by (simp add: path_components_def pieces_element)
qed

text \<open>
  C29: \<open>skipelem\<close> takes the first component of a path, cut to DIRSIZ bytes, and leaves the others; it fails exactly on
  paths without components. The rest is empty exactly when no component is left, which \<open>namex\<close> relies on to stop at
  the parent directory.
\<close>

theorem skipelem_component:
  "case skipelem path of
     None \<Rightarrow> path_components path = []
   | Some (name, rest) \<Rightarrow>
       \<exists>e. path_components path = e # path_components rest \<and> name = take 14 e \<and> e \<noteq> [] \<and> SLASH \<notin> set e \<and>
         (rest = [] \<longleftrightarrow> path_components rest = [])"
proof -
  define p where "p = dropWhile (\<lambda>c. c = SLASH) path"
  define e r where "e = takeWhile (\<lambda>c. c \<noteq> SLASH) p" and "r = dropWhile (\<lambda>c. c \<noteq> SLASH) p"
  define rest where "rest = dropWhile (\<lambda>c. c = SLASH) r"
  have c: "path_components path = path_components p" by (simp add: p_def components_slashes)
  show ?thesis
  proof (cases "p = []")
    case True
    then have "skipelem path = None" by (simp add: skipelem_def p_def Let_def)
    with c True show ?thesis by (simp add: path_components_def)
  next
    case False
    then have sk: "skipelem path = Some (take 14 e, rest)"
      by (simp add: skipelem_def p_def e_def r_def rest_def Let_def DIRSIZ_def)
    have "hd p \<noteq> SLASH" using False hd_dropWhile [of "\<lambda>c. c = SLASH" path] by (simp add: p_def)
    with False have e: "e \<noteq> []" "SLASH \<notin> set e" by (auto simp: e_def takeWhile_eq_Nil_iff dest: set_takeWhileD)
    have "r = [] \<or> hd r = SLASH" using hd_dropWhile [of "\<lambda>c. c \<noteq> SLASH" p] by (auto simp: r_def)
    moreover have "p = e @ r" by (simp add: e_def r_def)
    ultimately have "path_components p = e # path_components rest"
      using components_element [OF e] by (simp add: rest_def components_slashes)
    moreover have "path_components rest = [] \<longleftrightarrow> rest = []"
    proof
      assume n: "path_components rest = []"
      show "rest = []"
      proof (cases rest)
        case (Cons x xs)
        then have "x \<noteq> SLASH" using hd_dropWhile [of "\<lambda>c. c = SLASH" r] by (simp add: rest_def)
        with Cons n show ?thesis by (simp add: path_components_def)
      qed
    qed (simp add: path_components_def)
    ultimately show ?thesis using sk e c by auto
  qed
qed

section \<open>Directory entries\<close>

definition until_nul :: "u8 list \<Rightarrow> u8 list" where
  "until_nul s = takeWhile (\<lambda>c. c \<noteq> 0) s"

lemma strncmp_bytes_eq: "strncmp_bytes s t n = 0 \<longleftrightarrow> take n (until_nul s) = take n (until_nul t)"
proof (induction n arbitrary: s t)
  case (Suc n)
  show ?case
    by (cases s; cases t) (auto simp: until_nul_def Suc.IH [unfolded until_nul_def] Let_def word_uint_eq_iff)
qed (simp add: until_nul_def)

text \<open>
  Comparing the bytes of two strings is what \<open>strncmp\<close> does in memory.
\<close>

theorem strncmp_bytes_equiv: "strncmp m p q n = strncmp_bytes (get_bytes m p n) (get_bytes m q n) n"
proof (induction n arbitrary: p q)
  case (Suc n)
  then show ?case by (simp add: Let_def)
qed simp



section \<open>The block bitmap\<close>

lemma bit_clear_iff: "bit_clear d bi \<longleftrightarrow> \<not> bit (d ! (bi div 8)) (bi mod 8)"
  by (simp add: bit_clear_def push_bit_of_1 and_exp_eq_0_iff_not_bit)

lemma byte_bits:
  fixes w :: u8
  assumes "k < 8"
  shows "bit (w OR push_bit k 1) n \<longleftrightarrow> bit w n \<or> n = k"
    and "bit (w AND NOT (push_bit k 1)) n \<longleftrightarrow> bit w n \<and> n \<noteq> k"
  using assms bit_imp_le_length [of w n] by (auto simp: bit_simps)

lemma bit_position: "j div 8 = bi div 8 \<Longrightarrow> j mod 8 = bi mod 8 \<Longrightarrow> j = bi" for j bi :: nat
  by (metis div_mult_mod_eq)

lemma marked_bits:
  assumes "bi div 8 < length d"
  shows "bit (mark_used d bi ! (j div 8)) (j mod 8) \<longleftrightarrow> bit (d ! (j div 8)) (j mod 8) \<or> j = bi"
    and "bit (mark_free d bi ! (j div 8)) (j mod 8) \<longleftrightarrow> bit (d ! (j div 8)) (j mod 8) \<and> j \<noteq> bi"
proof -
  have k: "bi mod 8 < 8" by simp
  have "(bit (mark_used d bi ! (j div 8)) (j mod 8) \<longleftrightarrow> bit (d ! (j div 8)) (j mod 8) \<or> j = bi) \<and>
    (bit (mark_free d bi ! (j div 8)) (j mod 8) \<longleftrightarrow> bit (d ! (j div 8)) (j mod 8) \<and> j \<noteq> bi)"
  proof (cases "j div 8 = bi div 8")
    case True
    then have "j mod 8 = bi mod 8 \<longleftrightarrow> j = bi" using bit_position by blast
    with True assms show ?thesis
      by (simp only: mark_used_def mark_free_def nth_list_update_eq byte_bits [OF k])
  next
    case False
    then have "j \<noteq> bi" by auto
    with False show ?thesis by (simp add: mark_used_def mark_free_def)
  qed
  then show "bit (mark_used d bi ! (j div 8)) (j mod 8) \<longleftrightarrow> bit (d ! (j div 8)) (j mod 8) \<or> j = bi"
    "bit (mark_free d bi ! (j div 8)) (j mod 8) \<longleftrightarrow> bit (d ! (j div 8)) (j mod 8) \<and> j \<noteq> bi" by blast+
qed

text \<open>
  C32: allocating a block changes its own bit only, freeing it restores the bitmap, and freeing changes its own bit
  only.
\<close>

theorem bitmap_updates:
  assumes "length d = 512" "bi < BPB"
  shows "(\<forall>j<BPB. bit_clear (mark_used d bi) j \<longleftrightarrow> j \<noteq> bi \<and> bit_clear d j) \<and>
    (\<forall>j<BPB. bit_clear (mark_free d bi) j \<longleftrightarrow> j = bi \<or> bit_clear d j) \<and>
    (bit_clear d bi \<longrightarrow> mark_free (mark_used d bi) bi = d)"
proof (intro conjI allI impI)
  have b: "bi div 8 < length d" using assms by (simp add: BPB_def)
  fix j
  show "bit_clear (mark_used d bi) j \<longleftrightarrow> j \<noteq> bi \<and> bit_clear d j"
    using marked_bits(1) [OF b, of j] by (auto simp: bit_clear_iff)
  show "bit_clear (mark_free d bi) j \<longleftrightarrow> j = bi \<or> bit_clear d j"
    using marked_bits(2) [OF b, of j] by (auto simp: bit_clear_iff)
next
  have b: "bi div 8 < length d" "bi mod 8 < 8" using assms by (simp_all add: BPB_def)
  assume "bit_clear d bi"
  then have "(d ! (bi div 8) OR push_bit (bi mod 8) 1) AND NOT (push_bit (bi mod 8) 1) = d ! (bi div 8)"
    using byte_bits [OF b(2)] by (intro bit_eqI) (auto simp: bit_clear_iff)
  then show "mark_free (mark_used d bi) bi = d"
    using b(1) by (simp add: mark_free_def mark_used_def)
qed

theorem bitmap_updates_witness:
  "\<not> bit_clear (mark_used (replicate 512 0) 9) 9 \<and> bit_clear (mark_used (replicate 512 0) 9) 10 \<and>
   bit_clear (mark_free (replicate 512 0) 9) 9 \<and> mark_free (mark_used (replicate 512 0) 9) 9 = replicate 512 0"
proof -
  have "bit_clear (replicate 512 0) 9" "bit_clear (replicate 512 0) 10" by (simp_all add: bit_clear_def)
  with bitmap_updates [of "replicate 512 0" 9] show ?thesis by (simp add: BPB_def)
qed



section \<open>Inodes on disk\<close>

lemma put32_length [simp]: "length (put32 d i v) = length d"
  by (simp add: put32_def)

lemma put16_length [simp]: "length (put16 d i v) = length d"
  by (simp add: put16_def)

lemma get32_put32: "i + 4 \<le> length d \<Longrightarrow> get32 (put32 d i v) i = v"
  by (simp add: get32_def put32_def bytes_of_word)

lemma get16_put16: "i + 2 \<le> length d \<Longrightarrow> get16 (put16 d i v) i = v"
proof -
  have "ucast (ucast v :: u8) OR push_bit 8 (ucast (ucast (drop_bit 8 v) :: u8)) = v"
    by (rule bit_word_eqI) (auto simp: bit_simps)
  then show "i + 2 \<le> length d \<Longrightarrow> get16 (put16 d i v) i = v" by (simp add: get16_def put16_def)
qed

lemma get32_put32_other: "j + 4 \<le> i \<or> i + 4 \<le> j \<Longrightarrow> get32 (put32 d i v) j = get32 d j"
  by (auto simp: get32_def put32_def nth_list_update)

lemma get32_put16_other: "j + 4 \<le> i \<or> i + 2 \<le> j \<Longrightarrow> get32 (put16 d i v) j = get32 d j"
  by (auto simp: get32_def put16_def nth_list_update)

lemma get16_put32_other: "j + 2 \<le> i \<or> i + 4 \<le> j \<Longrightarrow> get16 (put32 d i v) j = get16 d j"
  by (auto simp: get16_def put32_def nth_list_update)

lemma get16_put16_other: "j + 2 \<le> i \<or> i + 2 \<le> j \<Longrightarrow> get16 (put16 d i v) j = get16 d j"
  by (auto simp: get16_def put16_def nth_list_update)

text \<open>The block addresses, written one after the other from offset \<open>b\<close>.\<close>

definition put_addrs :: "nat \<Rightarrow> (nat \<Rightarrow> u32) \<Rightarrow> nat \<Rightarrow> block \<Rightarrow> block" where
  "put_addrs b a n d = fold (\<lambda>i d. put32 d (b + 4 * i) (a i)) [0..<n] d"

lemma put_addrs_Suc: "put_addrs b a (Suc n) d = put32 (put_addrs b a n d) (b + 4 * n) (a n)"
  by (simp add: put_addrs_def)

lemma put_addrs_length [simp]: "length (put_addrs b a n d) = length d"
  by (induction n) (simp_all add: put_addrs_Suc, simp add: put_addrs_def)

lemma put_addrs_same:
  assumes "b + 4 * n \<le> length d" "i < n"
  shows "get32 (put_addrs b a n d) (b + 4 * i) = a i"
  using assms
proof (induction n)
  case (Suc n)
  show ?case
  proof (cases "i = n")
    case True
    with Suc.prems show ?thesis by (simp add: put_addrs_Suc get32_put32)
  next
    case False
    with Suc show ?thesis by (simp add: put_addrs_Suc get32_put32_other)
  qed
qed simp

lemma put_addrs_other:
  "j + 4 \<le> b \<or> b + 4 * n \<le> j \<Longrightarrow> get32 (put_addrs b a n d) j = get32 d j"
  "j + 2 \<le> b \<or> b + 4 * n \<le> j \<Longrightarrow> get16 (put_addrs b a n d) j = get16 d j"
  by (induction n) (auto simp: put_addrs_Suc get32_put32_other get16_put32_other, simp_all add: put_addrs_def)

text \<open>Two inodes agree in all fields that \<open>struct dinode\<close> has.\<close>

definition same_dinode :: "dinode \<Rightarrow> dinode \<Rightarrow> bool" where
  "same_dinode x y \<longleftrightarrow> d_type x = d_type y \<and> d_major x = d_major y \<and> d_minor x = d_minor y \<and>
     d_nlink x = d_nlink y \<and> d_size x = d_size y \<and> (\<forall>i\<le>NDIRECT. d_addrs x i = d_addrs y i)"

lemma put_dinode_eq:
  "put_dinode d k di = put_addrs (64 * k + 12) (d_addrs di) 13
     (put32 (put16 (put16 (put16 (put16 d (64 * k) (d_type di)) (64 * k + 2) (d_major di)) (64 * k + 4) (d_minor di))
         (64 * k + 6) (d_nlink di)) (64 * k + 8) (d_size di))"
  by (simp add: put_dinode_def put_addrs_def Let_def NDIRECT_def)

lemmas block_frames = get32_put32_other get32_put16_other get16_put32_other get16_put16_other put_addrs_other

lemma get_put_dinode:
  assumes "length d = BSIZE" "k < IPB" "j < IPB"
  shows "same_dinode (get_dinode (put_dinode d k di) j) (if j = k then di else get_dinode d j)"
proof (cases "j = k")
  case True
  have len: "64 * k + 64 \<le> length d" using assms by (simp add: BSIZE_def IPB_def)
  have "get32 (put_dinode d k di) (64 * k + 12 + 4 * i) = d_addrs di i" if "i \<le> 12" for i
    using len that by (simp add: put_dinode_eq put_addrs_same)
  with True len show ?thesis
    by (simp add: same_dinode_def get_dinode_def Let_def NDIRECT_def)
      (simp add: put_dinode_eq block_frames get16_put16 get32_put32)
next
  case False
  then have "64 * j + 64 \<le> 64 * k \<or> 64 * k + 64 \<le> 64 * j" by linarith
  then have g: "get32 (put_dinode d k di) (64 * j + t) = get32 d (64 * j + t)" if "t + 4 \<le> 64" for t
    using that by (auto simp: put_dinode_eq block_frames)
  have h: "get16 (put_dinode d k di) (64 * j + t) = get16 d (64 * j + t)" if "t + 2 \<le> 64" for t
    using \<open>64 * j + 64 \<le> 64 * k \<or> 64 * k + 64 \<le> 64 * j\<close> that by (auto simp: put_dinode_eq block_frames)
  have "get32 (put_dinode d k di) (64 * j + 12 + 4 * i) = get32 d (64 * j + 12 + 4 * i)" if "i \<le> 12" for i
    using g [of "12 + 4 * i"] that by (simp add: add.assoc)
  with g [of 8] h [of 0] h [of 2] h [of 4] h [of 6] False show ?thesis
    by (simp add: same_dinode_def get_dinode_def Let_def NDIRECT_def)
qed



end
