(* ===== verification/LogProps.thy ===== *)
theory LogProps
  imports BioProps FsProps
begin

unbundle bit_operations_syntax

text \<open>
  Properties of the log: what a commit writes to the disk and in which order, what recovery does after a
  crash between any two of these writes, and that a transaction therefore happens completely or not at all.
\<close>

section \<open>Sequences of disk writes\<close>

definition put_blocks :: "(u32 \<times> block) list \<Rightarrow> bstore \<Rightarrow> bstore" where
  "put_blocks ws A = fold (\<lambda>(n, d). st_write n d) ws A"

definition apply_writes :: "(nat \<times> block) list \<Rightarrow> (nat \<Rightarrow> block) \<Rightarrow> nat \<Rightarrow> block" where
  "apply_writes ws f = fold (\<lambda>(n, d) f. f(n := d)) ws f"

definition on_disk :: "(u32 \<times> block) list \<Rightarrow> (nat \<times> block) list" where
  "on_disk ws = map (\<lambda>(n, d). (unat n, d)) ws"

lemma put_blocks_simps [simp]:
  "put_blocks [] A = A" "put_blocks ((n, d) # ws) A = put_blocks ws (st_write n d A)"
  "put_blocks (vs @ ws) A = put_blocks ws (put_blocks vs A)"
  by (simp_all add: put_blocks_def)

lemma put_blocks_disk: "st_disk (put_blocks ws A) = apply_writes (on_disk ws) (st_disk A)"
  by (induction ws arbitrary: A) (auto simp: apply_writes_def on_disk_def st_write_def)

lemma put_blocks_writes: "st_writes (put_blocks ws A) = rev (on_disk ws) @ st_writes A"
  by (induction ws arbitrary: A) (auto simp: on_disk_def st_write_def)

lemma put_blocks_held [simp]: "st_held (put_blocks ws A) = st_held A"
  by (induction ws arbitrary: A) (auto simp: st_write_def)

lemma put_blocks_pending: "st_pending (put_blocks ws A) x = (if x \<in> fst ` set ws then None else st_pending A x)"
proof (induction ws arbitrary: A)
  case (Cons w ws)
  then show ?case by (cases w) (simp add: st_write_def)
qed simp

lemma put_blocks_dom: "dom (st_pending (put_blocks ws A)) = dom (st_pending A) - fst ` set ws"
  unfolding dom_def put_blocks_pending by auto

lemma apply_writes_append: "apply_writes (vs @ ws) f = apply_writes ws (apply_writes vs f)"
  by (simp add: apply_writes_def)

lemma apply_notin: "x \<notin> fst ` set ws \<Longrightarrow> apply_writes (on_disk ws) f (unat x) = f (unat x)"
  by (induction ws arbitrary: f) (auto simp: apply_writes_def on_disk_def word_unat_eq_iff)

lemma apply_in:
  assumes "x \<in> fst ` set ws" "\<And>d. (x, d) \<in> set ws \<Longrightarrow> d = v"
  shows "apply_writes (on_disk ws) f (unat x) = v"
  using assms
proof (induction ws rule: rev_induct)
  case (snoc w ws)
  obtain y d where w: "w = (y, d)" by (cases w)
  have e: "apply_writes (on_disk (ws @ [w])) f = (apply_writes (on_disk ws) f)(unat y := d)"
    by (simp add: apply_writes_def on_disk_def w)
  show ?case
  proof (cases "x = y")
    case True
    then show ?thesis using e snoc.prems(2) [of d] w by simp
  next
    case False
    then have "x \<in> fst ` set ws" "\<And>d. (x, d) \<in> set ws \<Longrightarrow> d = v" using snoc.prems w by auto
    then show ?thesis using snoc.IH e False by (simp add: word_unat_eq_iff)
  qed
qed simp

lemma put_blocks_content: "x \<notin> fst ` set ws \<Longrightarrow> st_content (put_blocks ws A) x = st_content A x"
  unfolding st_content_def put_blocks_pending put_blocks_disk
  by (simp add: apply_notin split: option.split)

section \<open>The log on disk\<close>

definition slot :: "u32 \<Rightarrow> nat \<Rightarrow> u32" where "slot L i = L + of_nat i + 1"

definition log_area :: "u32 \<Rightarrow> u32 set" where "log_area L = insert L (slot L ` {..<30})"

lemma slot_inj:
  assumes "slot L i = slot L j" "i < 30" "j < 30"
  shows "i = j"
proof -
  have u: "unat (of_nat m :: u32) = m" if "m < 30" for m using that by (simp only: unat_of_nat) simp
  have "of_nat i = (of_nat j :: u32)" using assms(1) unfolding slot_def by (simp only: add_left_cancel add_right_cancel)
  then have "unat (of_nat i :: u32) = unat (of_nat j :: u32)" by (rule arg_cong)
  then show ?thesis unfolding u [OF assms(2)] u [OF assms(3)] .
qed

lemma slot_not_header:
  assumes "i < 30"
  shows "slot L i \<noteq> L"
proof
  assume "slot L i = L"
  then have "of_nat (i + 1) = (0 :: u32)" by (simp add: slot_def algebra_simps)
  moreover have "unat (of_nat (i + 1) :: u32) = i + 1" using assms by (simp only: unat_of_nat) simp
  ultimately show False by simp
qed

lemma header_no_slot:
  assumes "n \<le> 30"
  shows "L \<notin> slot L ` {..<n}"
proof
  assume "L \<in> slot L ` {..<n}"
  then obtain i where "i < n" "slot L i = L" by force
  with slot_not_header [of i L] assms show False by simp
qed

lemma slot_in_area [simp]: "i < 30 \<Longrightarrow> slot L i \<in> log_area L" and header_in_area [simp]: "L \<in> log_area L"
  by (simp_all add: log_area_def)

text \<open>The header: the number of blocks and their home locations.\<close>

lemma head_data_eq: "head_data d n blk = put_addrs 4 blk (nat n) (put32 d 0 (word_of_int n))"
  by (simp add: head_data_def put_addrs_def)

lemma sint_small: "0 \<le> n \<Longrightarrow> n \<le> 30 \<Longrightarrow> sint (word_of_int n :: u32) = n"
  by (simp add: sint_sbintrunc' signed_take_bit_int_eq_self)

lemma head_data_decodes:
  assumes "length d = BSIZE" "0 \<le> n" "n \<le> 30"
  shows "sint (get32 (head_data d n blk) 0) = n" "i < nat n \<Longrightarrow> get32 (head_data d n blk) (4 + 4 * i) = blk i"
    "length (head_data d n blk) = BSIZE"
proof -
  have "get32 (head_data d n blk) 0 = get32 (put32 d 0 (word_of_int n)) 0"
    unfolding head_data_eq by (rule put_addrs_other(1)) simp
  then show "sint (get32 (head_data d n blk) 0) = n"
    using assms by (simp add: get32_put32 sint_small BSIZE_def)
  show "i < nat n \<Longrightarrow> get32 (head_data d n blk) (4 + 4 * i) = blk i"
    unfolding head_data_eq by (rule put_addrs_same) (use assms in \<open>simp_all add: BSIZE_def\<close>)
  show "length (head_data d n blk) = BSIZE"
    unfolding head_data_eq using assms(1) by simp
qed

section \<open>The steps of commit and recovery\<close>

lemma bframe_log:
  fixes s :: "'a logst_scheme"
  assumes "bframe s s'"
  shows "log_start s' = log_start s" "log_dev s' = log_dev s" "lh_n s' = lh_n s" "lh_block s' = lh_block s"
    "disksize s' = disksize s" "log_size s' = log_size s" "log_outstanding s' = log_outstanding s"
    "log_committing s' = log_committing s"
proof -
  note e = assms [unfolded bframe_def]
  show "log_start s' = log_start s" using arg_cong [OF e, of log_start] by simp
  show "log_dev s' = log_dev s" using arg_cong [OF e, of log_dev] by simp
  show "lh_n s' = lh_n s" using arg_cong [OF e, of lh_n] by simp
  show "lh_block s' = lh_block s" using arg_cong [OF e, of lh_block] by simp
  show "log_size s' = log_size s" using arg_cong [OF e, of log_size] by simp
  show "log_outstanding s' = log_outstanding s" using arg_cong [OF e, of log_outstanding] by simp
  show "log_committing s' = log_committing s" using arg_cong [OF e, of log_committing] by simp
  show "disksize s' = disksize s" by (rule bframe_disksize [OF assms])
qed

lemma bcache_rel_frame:
  fixes s t :: "'a bcache_scheme"
  assumes "same_cpu s t" "procs t = procs s" "level t = level s" "bview_of t = bview_of s"
  shows "bcache_rel c p k t A = bcache_rel c p k s A"
proof -
  have t: "same_cpu t s" using assms(1) by (simp add: same_cpu_def)
  have "calm c p k t = calm c p k s"
  proof
    show "calm c p k t \<Longrightarrow> calm c p k s" by (rule calm_frame [OF _ t]) (simp_all add: assms(2,3))
    show "calm c p k s \<Longrightarrow> calm c p k t" by (rule calm_frame [OF _ assms(1)]) (simp_all add: assms(2,3))
  qed
  then show ?thesis by (simp add: bcache_rel_def assms(4))
qed

lemma bcache_rel_log [simp]:
  "bcache_rel c p k (s\<lparr>lh_n := x\<rparr>) A = bcache_rel c p k s A"
  "bcache_rel c p k (s\<lparr>lh_block := y\<rparr>) A = bcache_rel c p k s A"
  "bcache_rel c p k (s\<lparr>log_outstanding := x\<rparr>) A = bcache_rel c p k s A"
  "bcache_rel c p k (s\<lparr>log_committing := x\<rparr>) A = bcache_rel c p k s A"
  by (rule bcache_rel_frame, simp_all add: same_cpu_def bview_of_def)+

text \<open>
  The situation of a process that copies blocks between the log and their home locations: the cache
  represents the store \<open>A\<close>, no block is held, the log and the blocks \<open>H\<close> are on the disk and apart.
\<close>

definition log_user :: "nat \<Rightarrow> nat \<Rightarrow> int \<Rightarrow> 'a logst_scheme \<Rightarrow> bstore \<Rightarrow> bool" where
  "log_user c p k s A \<longleftrightarrow> bcache_rel c p k s A \<and> st_held A = Map.empty \<and> log_dev s = 1 \<and> has_room A \<and>
     (\<forall>x\<in>log_area (log_start s). x < disksize s) \<and> finite (dom (st_pending A))"

definition homes_ok :: "'a logst_scheme \<Rightarrow> (nat \<Rightarrow> u32) \<Rightarrow> nat \<Rightarrow> bool" where
  "homes_ok s blk n \<longleftrightarrow> (\<forall>i<n. blk i < disksize s \<and> blk i \<notin> log_area (log_start s))"

lemma homes_ok_frame:
  fixes s :: "'a logst_scheme"
  shows "bframe s s' \<Longrightarrow> homes_ok s' blk n = homes_ok s blk n"
  using bframe_log [of s s'] by (simp add: homes_ok_def)

lemma log_user_write:
  assumes "log_user c p k s A" "bframe s s'" "bcache_rel c p k s' (st_write n d A)"
  shows "log_user c p k s' (st_write n d A)"
proof -
  have e: "dom (st_pending (st_write n d A)) = dom (st_pending A) - {n}" by (auto simp: st_write_def)
  have "card (dom (st_pending A) - {n}) \<le> card (dom (st_pending A))"
    using assms(1) by (intro card_mono) (auto simp: log_user_def)
  then show ?thesis
    using assms bframe_log [OF assms(2)] unfolding log_user_def has_room_def e by (simp add: st_write_def)
qed

lemma log_blocks_ok:
  assumes "log_user c p k s A" "homes_ok s (lh_block s) n" "set ts \<subseteq> {..<n}" "n \<le> 30"
    and "lh_block s ` set ts \<subseteq> dom (st_pending A)"
  shows "\<exists>s'. log_blocks ts s = ret s' \<and> bframe s s' \<and>
    log_user c p k s' (put_blocks (map (\<lambda>t. (slot (log_start s) t, st_content A (lh_block s t))) ts) A)"
  using assms
proof (induction ts arbitrary: s A)
  case (Cons t ts)
  let ?L = "slot (log_start s) t" and ?H = "lh_block s t"
  have t: "t < n" "t < 30" using Cons.prems(3,4) by auto
  have u: "bcache_rel c p k s A" "st_held A = Map.empty" "has_room A" "log_dev s = 1" using Cons.prems(1) by (auto simp: log_user_def)
  have lim: "?L < disksize s" "?H < disksize s" "?H \<notin> log_area (log_start s)"
    using Cons.prems(1,2) t by (auto simp: log_user_def homes_ok_def)
  then have ne: "?L \<noteq> ?H" using slot_in_area [OF t(2), of "log_start s"] by auto
  have pend: "?H \<in> dom (st_pending A)" using Cons.prems(5) by simp
  from bc.copy_to_first [OF u(1-3) lim(1,2) ne disjI1 [OF pend]] obtain s1 x y s2 w where w:
    "bread 1 ?L s = ret (x, s1)" "bread 1 ?H s1 = ret (y, s2)" "bframe s s1"
    "rbind (bwrite x (set_data x (b_data (bufs s2 y)) s2)) (\<lambda>s. rbind (brelse y s) (brelse x)) = ret w"
    "bframe s w" "bcache_rel c p k w (st_write ?L (st_content A ?H) A)" by blast
  let ?A = "st_write ?L (st_content A ?H) A"
  note f = bframe_log [OF w(5)] and f1 = bframe_log [OF w(3)]
  have e: "log_blocks (t # ts) s = log_blocks ts w"
  proof -
    obtain w1 w2 where "bwrite x (set_data x (b_data (bufs s2 y)) s2) = ret w1" "brelse y w1 = ret w2" "brelse x w2 = ret w"
      using w(4) by (auto simp: rbind_eq_ret)
    then show ?thesis using w(1,2) u(4) f1 by (simp add: slot_def)
  qed
  have "dom (st_pending ?A) = dom (st_pending A) - {?L}" by (auto simp: st_write_def)
  moreover have "?L \<notin> lh_block s ` set ts"
    using Cons.prems(2,3) slot_in_area [OF t(2), of "log_start s"] by (auto simp: homes_ok_def)
  ultimately have "lh_block w ` set ts \<subseteq> dom (st_pending ?A)" using Cons.prems(5) f(4) by (simp add: subset_Diff_insert)
  moreover have "homes_ok w (lh_block w) n" using Cons.prems(2) homes_ok_frame [OF w(5)] f by simp
  ultimately obtain s' where s': "log_blocks ts w = ret s'" "bframe w s'"
    "log_user c p k s' (put_blocks (map (\<lambda>t. (slot (log_start w) t, st_content ?A (lh_block w t))) ts) ?A)"
    using Cons.IH [OF log_user_write [OF Cons.prems(1) w(5,6)]] Cons.prems(3,4) by auto
  have "st_content ?A (lh_block s i) = st_content A (lh_block s i)" if "i \<in> set ts" for i
  proof -
    have "lh_block s i \<noteq> ?L" using \<open>?L \<notin> lh_block s ` set ts\<close> that by (metis image_eqI)
    then show ?thesis by simp
  qed
  then have "map (\<lambda>t. (slot (log_start w) t, st_content ?A (lh_block w t))) ts =
      map (\<lambda>t. (slot (log_start s) t, st_content A (lh_block s t))) ts"
    using f by simp
  then have "log_user c p k s' (put_blocks (map (\<lambda>t. (slot (log_start s) t, st_content A (lh_block s t))) (t # ts)) A)"
    using s'(3) by (simp only: list.map put_blocks_simps)
  then show ?case unfolding e using s'(1) bframe_trans [OF w(5) s'(2)] by blast
qed simp

text \<open>
  Installing: the destination is cached while its update is pending, and otherwise there is room for it.
\<close>

lemma install_blocks_ok:
  assumes "log_user c p k s A" "homes_ok s (lh_block s) n" "set ts \<subseteq> {..<n}" "n \<le> 30"
    and "card (dom (st_pending A)) + 1 < NBUF \<or> distinct (map (lh_block s) ts) \<and> lh_block s ` set ts \<subseteq> dom (st_pending A)"
  shows "\<exists>s'. install_blocks ts s = ret s' \<and> bframe s s' \<and>
    log_user c p k s' (put_blocks (map (\<lambda>t. (lh_block s t, st_content A (slot (log_start s) t))) ts) A)"
  using assms
proof (induction ts arbitrary: s A)
  case (Cons t ts)
  let ?L = "slot (log_start s) t" and ?H = "lh_block s t"
  have t: "t < n" "t < 30" using Cons.prems(3,4) by auto
  have u: "bcache_rel c p k s A" "st_held A = Map.empty" "has_room A" "log_dev s = 1" "finite (dom (st_pending A))"
    using Cons.prems(1) by (auto simp: log_user_def)
  have lim: "?L < disksize s" "?H < disksize s" "?H \<notin> log_area (log_start s)"
    using Cons.prems(1,2) t by (auto simp: log_user_def homes_ok_def)
  then have ne: "?L \<noteq> ?H" using slot_in_area [OF t(2), of "log_start s"] by auto
  have room: "?H \<in> dom (st_pending A) \<or> card (dom (st_pending A)) + 1 < NBUF" using Cons.prems(5) by auto
  from bc.copy_to_second [OF u(1-3) lim(1,2) ne room] obtain s1 x y s2 w where w:
    "bread 1 ?L s = ret (x, s1)" "bread 1 ?H s1 = ret (y, s2)" "bframe s s1"
    "rbind (bwrite y (set_data y (b_data (bufs s2 x)) s2)) (\<lambda>s. rbind (brelse x s) (brelse y)) = ret w"
    "bframe s w" "bcache_rel c p k w (st_write ?H (st_content A ?L) A)" by blast
  let ?A = "st_write ?H (st_content A ?L) A"
  note f = bframe_log [OF w(5)] and f1 = bframe_log [OF w(3)]
  have e: "install_blocks (t # ts) s = install_blocks ts w"
  proof -
    obtain w1 w2 where "bwrite y (set_data y (b_data (bufs s2 x)) s2) = ret w1" "brelse x w1 = ret w2" "brelse y w2 = ret w"
      using w(4) by (auto simp: rbind_eq_ret)
    then show ?thesis using w(1,2) u(4) f1 by (simp add: slot_def)
  qed
  have dom: "dom (st_pending ?A) = dom (st_pending A) - {?H}" by (auto simp: st_write_def)
  then have "card (dom (st_pending ?A)) \<le> card (dom (st_pending A))" using u(5) by (simp add: card_Diff1_le)
  then have "card (dom (st_pending ?A)) + 1 < NBUF \<or>
      distinct (map (lh_block w) ts) \<and> lh_block w ` set ts \<subseteq> dom (st_pending ?A)"
    using Cons.prems(5) f unfolding dom by (auto simp: image_iff)
  moreover have "homes_ok w (lh_block w) n" using Cons.prems(2) homes_ok_frame [OF w(5)] f by simp
  ultimately obtain s' where s': "install_blocks ts w = ret s'" "bframe w s'"
    "log_user c p k s' (put_blocks (map (\<lambda>t. (lh_block w t, st_content ?A (slot (log_start w) t))) ts) ?A)"
    using Cons.IH [OF log_user_write [OF Cons.prems(1) w(5,6)]] Cons.prems(3,4) by auto
  have "st_content ?A (slot (log_start s) i) = st_content A (slot (log_start s) i)" if "i \<in> set ts" for i
  proof -
    have "i < 30" using Cons.prems(3,4) that by auto
    then have "slot (log_start s) i \<noteq> ?H" using lim(3) slot_in_area by metis
    then show ?thesis by simp
  qed
  then have "map (\<lambda>t. (lh_block w t, st_content ?A (slot (log_start w) t))) ts =
      map (\<lambda>t. (lh_block s t, st_content A (slot (log_start s) t))) ts"
    using f by simp
  then have "log_user c p k s' (put_blocks (map (\<lambda>t. (lh_block s t, st_content A (slot (log_start s) t))) (t # ts)) A)"
    using s'(3) by (simp only: list.map put_blocks_simps)
  then show ?case unfolding e using s'(1) bframe_trans [OF w(5) s'(2)] by blast
qed simp

lemma write_head_ok:
  assumes "log_user c p k s A" "lh_n s \<le> 30"
  shows "\<exists>s'. write_head s = ret s' \<and> bframe s s' \<and>
    log_user c p k s' (st_write (log_start s) (head_data (st_content A (log_start s)) (lh_n s) (lh_block s)) A)"
proof -
  have u: "bcache_rel c p k s A" "st_held A = Map.empty" "has_room A" "log_start s < disksize s" "log_dev s = 1"
    using assms(1) by (auto simp: log_user_def)
  let ?d = "head_data (st_content A (log_start s)) (lh_n s) (lh_block s)"
  from bc.update_block [OF u(1-4)] obtain t x where t: "bread 1 (log_start s) s = ret (x, t)"
    "b_data (bufs t x) = st_content A (log_start s)" "bframe s t"
    "\<exists>w. rbind (bwrite x (set_data x ?d t)) (brelse x) = ret w \<and> bframe s w \<and> bcache_rel c p k w (st_write (log_start s) ?d A)"
    by blast
  then obtain w where w: "rbind (bwrite x (set_data x ?d t)) (brelse x) = ret w" "bframe s w"
    "bcache_rel c p k w (st_write (log_start s) ?d A)" by blast
  have "write_head s = ret w"
    using t w(1) u(5) assms(2) bframe_log [OF t(3)] by (simp add: write_head_def LOGSIZE_def)
  then show ?thesis using w(2) log_user_write [OF assms(1) w(2,3)] by blast
qed

section \<open>Recovery\<close>

lemma read_head_ok:
  assumes "log_user c p k s A" "sint (get32 (st_content A (log_start s)) 0) = int n" "n \<le> 30"
  shows "\<exists>s'. read_head s = ret s' \<and> log_user c p k s' A \<and> lh_n s' = int n \<and> log_start s' = log_start s \<and>
    disksize s' = disksize s \<and> (\<forall>i<n. lh_block s' i = get32 (st_content A (log_start s)) (4 + 4 * i))"
proof -
  have u: "bcache_rel c p k s A" "st_held A = Map.empty" "has_room A" "log_start s < disksize s" "log_dev s = 1"
    using assms(1) by (auto simp: log_user_def)
  let ?L = "log_start s" and ?d = "st_content A (log_start s)"
  obtain x t where t: "bread 1 ?L s = ret (x, t)" "bcache_rel c p k t (A\<lparr>st_held := [x \<mapsto> (?L, ?d)]\<rparr>)" "bframe s t"
    using bc.read_one [OF u(1,2) disjI2 [OF u(3)] u(4)] by blast
  let ?A = "A\<lparr>st_held := [x \<mapsto> (?L, ?d)]\<rparr>"
  let ?t = "t\<lparr>lh_n := int n, lh_block := (\<lambda>i. if int i < int n then get32 ?d (4 + 4 * i) else lh_block t i)\<rparr>"
  have d: "b_data (bufs t x) = ?d" using bc.held_content [OF t(2), of x ?L ?d] by simp
  have "bcache_rel c p k ?t ?A" using t(2) by simp
  moreover have "st_held ?A x = Some (?L, st_content ?A ?L)"
    by (simp add: st_content_def split: option.split)
  ultimately obtain s' where s': "brelse x ?t = ret s'" "bcache_rel c p k s' (st_drop x ?A)" "bframe ?t s'"
    using bc.releases by blast
  have "st_drop x ?A = A" using u(2) by (cases A) (simp add: st_drop_def)
  then have r: "bcache_rel c p k s' A" using s'(2) by simp
  note f = bframe_log [OF s'(3)] and ft = bframe_log [OF t(3)]
  have "read_head s = ret s'"
    using t(1) u(5) d s'(1) assms(2,3) by (simp add: read_head_def LOGSIZE_def Let_def cong: if_cong)
  moreover have "log_user c p k s' A" using assms(1) r f ft by (simp add: log_user_def)
  ultimately show ?thesis using f ft by (intro exI [of _ s']) simp
qed

text \<open>
  \<open>recover_from_log\<close> copies the blocks that the header names from the log to their homes and then clears the
  header; nothing else on the disk changes.
\<close>

lemma recover_ok:
  assumes "log_user c p k s A" "st_pending A = Map.empty" "sint (get32 (st_disk A (unat (log_start s))) 0) = int n" "n \<le> 30"
    and "\<forall>i<n. get32 (st_disk A (unat (log_start s))) (4 + 4 * i) = blk i" "homes_ok s blk n"
  shows "\<exists>s' h. recover_from_log s = ret s' \<and> log_user c p k s' (put_blocks
    (map (\<lambda>i. (blk i, st_disk A (unat (slot (log_start s) i)))) [0..<n] @ [(log_start s, h)]) A)"
proof -
  have con: "st_content A m = st_disk A (unat m)" for m using assms(2) by (simp add: st_content_def)
  from read_head_ok [OF assms(1) _ assms(4)] assms(3) obtain t where t: "read_head s = ret t" "log_user c p k t A" "lh_n t = int n"
    "log_start t = log_start s" "disksize t = disksize s" "\<forall>i<n. lh_block t i = blk i"
    using assms(5) by (auto simp: con)
  have h: "homes_ok t (lh_block t) n" using assms(6) t by (simp add: homes_ok_def)
  have sub: "set [0..<n] \<subseteq> {..<n}" by auto
  from install_blocks_ok [OF t(2) h sub assms(4)] assms(2) obtain u where u: "install_blocks [0..<n] t = ret u" "bframe t u"
    "log_user c p k u (put_blocks (map (\<lambda>i. (lh_block t i, st_content A (slot (log_start t) i))) [0..<n]) A)"
    by (auto simp: NBUF_def)
  have m: "map (\<lambda>i. (lh_block t i, st_content A (slot (log_start t) i))) [0..<n] =
      map (\<lambda>i. (blk i, st_disk A (unat (slot (log_start s) i)))) [0..<n]"
    using t(4,6) by (simp add: con)
  let ?u = "u\<lparr>lh_n := 0\<rparr>"
  have "log_user c p k ?u (put_blocks (map (\<lambda>i. (blk i, st_disk A (unat (slot (log_start s) i)))) [0..<n]) A)"
    using u(3) unfolding m by (simp add: log_user_def)
  from write_head_ok [OF this] obtain s' h where "write_head ?u = ret s'"
    "log_user c p k s' (st_write (log_start s) h (put_blocks (map (\<lambda>i. (blk i, st_disk A (unat (slot (log_start s) i)))) [0..<n]) A))"
    using bframe_log [OF u(2)] t(4) by auto
  then show ?thesis using t(1,3) u(1) by (intro exI [of _ s'] exI [of _ h]) (simp add: recover_from_log_def install_trans_def)
qed

section \<open>Commit\<close>

text \<open>
  A transaction of \<open>n\<close> blocks is ready to commit: its blocks, and no others, are pending in the cache, and the
  header names them once each. The count on disk is 0, as it is between commits.
\<close>

definition ready :: "nat \<Rightarrow> nat \<Rightarrow> int \<Rightarrow> 'a logst_scheme \<Rightarrow> bstore \<Rightarrow> nat \<Rightarrow> bool" where
  "ready c p k s A n \<longleftrightarrow> log_user c p k s A \<and> lh_n s = int n \<and> n < 30 \<and> homes_ok s (lh_block s) n \<and>
     distinct (map (lh_block s) [0..<n]) \<and> dom (st_pending A) = lh_block s ` {..<n} \<and>
     length (st_disk A (unat (log_start s))) = BSIZE \<and> get32 (st_disk A (unat (log_start s))) 0 = 0"

text \<open>The writes of a commit: the blocks to the log, the header, the blocks to their homes, the cleared header.\<close>

definition commit_header :: "'a logst_scheme \<Rightarrow> bstore \<Rightarrow> block" where
  "commit_header s A = head_data (st_disk A (unat (log_start s))) (lh_n s) (lh_block s)"

definition commit_writes :: "'a logst_scheme \<Rightarrow> bstore \<Rightarrow> nat \<Rightarrow> (u32 \<times> block) list" where
  "commit_writes s A n =
     map (\<lambda>i. (slot (log_start s) i, st_content A (lh_block s i))) [0..<n] @
     [(log_start s, commit_header s A)] @
     map (\<lambda>i. (lh_block s i, st_content A (lh_block s i))) [0..<n] @
     [(log_start s, head_data (commit_header s A) 0 (lh_block s))]"

lemma ready_facts:
  assumes "ready c p k s A n"
  shows "log_user c p k s A" "lh_n s = int n" "n \<le> 30" "homes_ok s (lh_block s) n"
    "st_content A (log_start s) = st_disk A (unat (log_start s))"
    "i < n \<Longrightarrow> lh_block s i \<noteq> log_start s" "i < n \<Longrightarrow> j < 30 \<Longrightarrow> lh_block s i \<noteq> slot (log_start s) j"
    "x \<notin> lh_block s ` {..<n} \<Longrightarrow> st_content A x = st_disk A (unat x)"
    "i < n \<Longrightarrow> j < n \<Longrightarrow> lh_block s i = lh_block s j \<Longrightarrow> i = j"
proof -
  show u: "log_user c p k s A" "lh_n s = int n" "n \<le> 30" and h: "homes_ok s (lh_block s) n"
    using assms by (auto simp: ready_def)
  show ne: "lh_block s i \<noteq> log_start s" if "i < n" for i using h that header_in_area [of "log_start s"] by (metis homes_ok_def)
  show "lh_block s i \<noteq> slot (log_start s) j" if "i < n" "j < 30" using h that slot_in_area by (metis homes_ok_def)
  show c: "st_content A x = st_disk A (unat x)" if "x \<notin> lh_block s ` {..<n}" for x
    using assms that by (auto simp: ready_def st_content_def split: option.split)
  show "st_content A (log_start s) = st_disk A (unat (log_start s))" by (rule c) (use ne in force)
  show "i < n \<Longrightarrow> j < n \<Longrightarrow> lh_block s i = lh_block s j \<Longrightarrow> i = j"
    using assms by (auto simp: ready_def distinct_conv_nth)
qed

lemma commit_ok:
  assumes "ready c p k s A n" "0 < n"
  shows "\<exists>s'. commit s = ret s' \<and> log_user c p k s' (put_blocks (commit_writes s A n) A) \<and> lh_n s' = 0 \<and>
    log_start s' = log_start s \<and> disksize s' = disksize s \<and> log_outstanding s' = log_outstanding s"
proof -
  note r = ready_facts [OF assms(1)]
  let ?L = "log_start s" and ?blk = "lh_block s"
  let ?W1 = "map (\<lambda>i. (slot ?L i, st_content A (?blk i))) [0..<n]"
  let ?W2 = "map (\<lambda>i. (?blk i, st_content A (?blk i))) [0..<n]"
  have sub: "set [0..<n] \<subseteq> {..<n}" by auto
  have dom: "dom (st_pending A) = ?blk ` {..<n}" using assms(1) by (simp add: ready_def)
  have "?blk ` set [0..<n] \<subseteq> dom (st_pending A)" unfolding dom by auto
  from log_blocks_ok [OF r(1,4) sub r(3) this] obtain s1 where s1: "log_blocks [0..<n] s = ret s1" "bframe s s1"
    "log_user c p k s1 (put_blocks ?W1 A)" by blast
  note f1 = bframe_log [OF s1(2)]
  have ns: "slot ?L i \<noteq> ?L" if "i < n" for i using slot_not_header that r(3) by simp
  have L1: "?L \<notin> fst ` set ?W1" using ns by fastforce
  have c1: "st_content (put_blocks ?W1 A) ?L = st_disk A (unat ?L)" using put_blocks_content [OF L1] r(5) by simp
  have lh: "lh_n s1 \<le> 30" using f1(3) r(2,3) by simp
  from write_head_ok [OF s1(3) lh] obtain s2 where s2: "write_head s1 = ret s2" "bframe s1 s2"
    "log_user c p k s2 (st_write ?L (commit_header s A) (put_blocks ?W1 A))"
    unfolding f1 c1 commit_header_def [symmetric] by blast
  let ?A2 = "st_write ?L (commit_header s A) (put_blocks ?W1 A)"
  note f2 = bframe_log [OF s2(2)]
  have "homes_ok s2 (lh_block s2) n" using r(4) f1 f2 homes_ok_frame [OF s1(2)] homes_ok_frame [OF s2(2)] by simp
  moreover have "dom (st_pending ?A2) = ?blk ` {..<n}"
  proof -
    have "dom (st_pending ?A2) = dom (st_pending (put_blocks ?W1 A)) - {?L}" by (auto simp: st_write_def)
    then have "dom (st_pending ?A2) = dom (st_pending A) - fst ` set ?W1 - {?L}" unfolding put_blocks_dom .
    moreover have "x \<notin> fst ` set ?W1" "x \<noteq> ?L" if x: "x \<in> ?blk ` {..<n}" for x
    proof -
      obtain i where i: "i < n" "x = ?blk i" using x by auto
      show "x \<noteq> ?L" using r(6) [OF i(1)] i(2) by simp
      show "x \<notin> fst ` set ?W1"
      proof
        assume "x \<in> fst ` set ?W1"
        then obtain j where "j < n" "x = slot ?L j" by auto
        with r(7) [OF i(1), of j] r(3) i(2) show False by simp
      qed
    qed
    ultimately show ?thesis unfolding dom by blast
  qed
  moreover have "distinct (map ?blk [0..<n])" using assms(1) by (simp add: ready_def)
  ultimately obtain s3 where s3: "install_blocks [0..<n] s2 = ret s3" "bframe s2 s3"
    "log_user c p k s3 (put_blocks (map (\<lambda>t. (?blk t, st_content ?A2 (slot ?L t))) [0..<n]) ?A2)"
    using install_blocks_ok [OF s2(3) _ sub r(3)] f1 f2 by (auto simp: atLeast0LessThan)
  have "st_content ?A2 (slot ?L t) = st_content A (?blk t)" if "t < n" for t
  proof -
    have ne: "slot ?L t \<noteq> ?L" using slot_not_header that r(3) by simp
    have inW: "slot ?L t \<in> fst ` set ?W1" using that by force
    have "st_pending (put_blocks ?W1 A) (slot ?L t) = None" unfolding put_blocks_pending using inW by simp
    moreover have "st_disk (put_blocks ?W1 A) (unat (slot ?L t)) = st_content A (?blk t)"
      unfolding put_blocks_disk
    proof (rule apply_in [OF inW])
      fix d assume "(slot ?L t, d) \<in> set ?W1"
      then obtain j where j: "j < n" "slot ?L t = slot ?L j" "d = st_content A (?blk j)" by auto
      have "t = j" by (rule slot_inj [OF j(2)]) (use that j(1) r(3) in simp_all)
      with j(3) show "d = st_content A (?blk t)" by simp
    qed
    ultimately show ?thesis using ne by (simp add: st_content_def [of "put_blocks ?W1 A"])
  qed
  then have W2: "map (\<lambda>t. (?blk t, st_content ?A2 (slot ?L t))) [0..<n] = ?W2" by simp
  let ?A3 = "put_blocks ?W2 ?A2"
  note f3 = bframe_log [OF s3(2)]
  have "log_user c p k (s3\<lparr>lh_n := 0\<rparr>) ?A3" using s3(3) unfolding W2 by (simp add: log_user_def)
  moreover have "st_content ?A3 ?L = commit_header s A"
  proof -
    have "?L \<notin> fst ` set ?W2" using r(6) by force
    then show ?thesis by (simp add: put_blocks_content)
  qed
  ultimately obtain s4 where s4: "write_head (s3\<lparr>lh_n := 0\<rparr>) = ret s4"
    "log_user c p k s4 (st_write ?L (head_data (commit_header s A) 0 ?blk) ?A3)" "bframe (s3\<lparr>lh_n := 0\<rparr>) s4"
    using write_head_ok [of c p k "s3\<lparr>lh_n := 0\<rparr>" ?A3] f1 f2 f3 by auto
  have "lh_n s2 = int n" using f1 f2 r(2) by simp
  then have "commit s = ret s4"
    using s1(1) s2(1) s3(1) s4(1) r(2) assms(2) by (simp add: commit_def write_log_def install_trans_def)
  then show ?thesis using s4(2) bframe_log [OF s4(3)] f1 f2 f3 by (simp add: commit_writes_def)
qed

section \<open>Crashes\<close>

text \<open>
  The disk after a crash between two writes of the commit, and what recovery makes of it: the first \<open>n\<close> writes
  fill the log, and the transaction takes effect with the write of the header.
\<close>

definition crashed :: "'a logst_scheme \<Rightarrow> bstore \<Rightarrow> nat \<Rightarrow> nat \<Rightarrow> nat \<Rightarrow> block" where
  "crashed s A n m = apply_writes (take m (on_disk (commit_writes s A n))) (st_disk A)"

definition outcome :: "bstore \<Rightarrow> nat \<Rightarrow> nat \<Rightarrow> u32 \<Rightarrow> block" where
  "outcome A n m x = (if m \<le> n then st_disk A (unat x) else st_content A x)"

lemma take_on_disk: "take m (on_disk ws) = on_disk (take m ws)"
  by (simp add: on_disk_def take_map)

lemma commit_writes_cases:
  "(x, d) \<in> set (commit_writes s A n) \<Longrightarrow> (\<exists>i<n. x = slot (log_start s) i \<and> d = st_content A (lh_block s i)) \<or>
     x = log_start s \<or> (\<exists>i<n. x = lh_block s i \<and> d = st_content A x)"
  by (auto simp: commit_writes_def)

lemma crashed_home:
  assumes r: "ready c p k s A n" and i: "x \<in> lh_block s ` {..<n}"
    and ws: "ws = take m (commit_writes s A n)" "(x, d) \<in> set ws"
  shows "d = st_content A x"
proof -
  have "(x, d) \<in> set (commit_writes s A n)" using ws in_set_takeD by fast
  moreover have "x \<noteq> log_start s" using i ready_facts(6) [OF r] by auto
  moreover have "x \<noteq> slot (log_start s) j" if "j < n" for j using i ready_facts(3,7) [OF r] that by force
  ultimately show ?thesis using commit_writes_cases [of x d s A n] by blast
qed

text \<open>Before the header is written, only the log differs from the old disk.\<close>

lemma crashed_before:
  assumes r: "ready c p k s A n" and m: "m \<le> n"
  shows "x \<notin> slot (log_start s) ` {..<n} \<Longrightarrow> crashed s A n m (unat x) = st_disk A (unat x)"
    "crashed s A n m (unat (log_start s)) = st_disk A (unat (log_start s))"
proof -
  let ?W = "map (\<lambda>i. (slot (log_start s) i, st_content A (lh_block s i))) [0..<n]"
  have w: "take m (commit_writes s A n) = take m ?W" using m by (simp add: commit_writes_def)
  show e: "crashed s A n m (unat x) = st_disk A (unat x)" if "x \<notin> slot (log_start s) ` {..<n}" for x
  proof -
    have "x \<notin> fst ` set (take m ?W)" using that by (force dest: in_set_takeD)
    then show ?thesis unfolding crashed_def take_on_disk w by (rule apply_notin)
  qed
  show "crashed s A n m (unat (log_start s)) = st_disk A (unat (log_start s))"
    by (rule e [OF header_no_slot [OF ready_facts(3) [OF r]]])
qed

text \<open>While the blocks are installed, header and log are complete.\<close>

lemma crashed_during:
  assumes r: "ready c p k s A n" and m: "n < m" "m \<le> 2 * n + 1"
  shows "crashed s A n m (unat (log_start s)) = commit_header s A"
    "i < n \<Longrightarrow> crashed s A n m (unat (slot (log_start s) i)) = st_content A (lh_block s i)"
    "x \<notin> lh_block s ` {..<n} \<Longrightarrow> x \<notin> log_area (log_start s) \<Longrightarrow> crashed s A n m (unat x) = st_disk A (unat x)"
proof -
  note f = ready_facts [OF r]
  let ?L = "log_start s"
  let ?W1 = "map (\<lambda>i. (slot ?L i, st_content A (lh_block s i))) [0..<n]"
  let ?W2 = "map (\<lambda>i. (lh_block s i, st_content A (lh_block s i))) [0..<n]"
  have w: "take m (commit_writes s A n) = ?W1 @ (?L, commit_header s A) # take (m - n - 1) ?W2"
  proof -
    obtain j where j: "m = n + Suc j" using m(1) less_imp_Suc_add by fastforce
    then have "j \<le> n" using m(2) by simp
    with j show ?thesis by (simp add: commit_writes_def)
  qed
  define ws where "ws = ?W1 @ (?L, commit_header s A) # take (m - n - 1) ?W2"
  have t2: "\<exists>i<n. y = lh_block s i \<and> d = st_content A (lh_block s i)" if "(y, d) \<in> set (take (m - n - 1) ?W2)" for y d
  proof -
    have "(y, d) \<in> set ?W2" by (rule in_set_takeD [OF that])
    then show ?thesis by auto
  qed
  have cs: "(\<exists>i<n. y = slot ?L i \<and> d = st_content A (lh_block s i)) \<or> y = ?L \<and> d = commit_header s A \<or>
      (\<exists>i<n. y = lh_block s i \<and> d = st_content A (lh_block s i))" if "(y, d) \<in> set ws" for y d
    using that t2 [of y d] unfolding ws_def by auto
  have ns: "slot ?L i \<noteq> ?L" if "i < n" for i using slot_not_header that f(3) by simp
  have nb: "slot ?L i \<noteq> lh_block s j" if "i < n" "j < n" for i j using f(7) [OF that(2), of i] that f(3) by auto
  have inj: "i = j" if "slot ?L i = slot ?L j" "i < n" "j < n" for i j using slot_inj [OF that(1)] that f(3) by simp
  have cr: "crashed s A n m = apply_writes (on_disk ws) (st_disk A)" unfolding crashed_def take_on_disk w ws_def ..
  show "crashed s A n m (unat ?L) = commit_header s A"
    unfolding cr
  proof (rule apply_in)
    show "?L \<in> fst ` set ws" unfolding ws_def by simp
    show "d = commit_header s A" if "(?L, d) \<in> set ws" for d using cs [OF that] ns f(6) by metis
  qed
  show "crashed s A n m (unat (slot ?L i)) = st_content A (lh_block s i)" if i: "i < n"
    unfolding cr
  proof (rule apply_in)
    show "slot ?L i \<in> fst ` set ws" using i unfolding ws_def by force
    show "d = st_content A (lh_block s i)" if "(slot ?L i, d) \<in> set ws" for d
      using cs [OF that]
    proof (elim disjE exE conjE)
      fix j assume "j < n" "slot ?L i = slot ?L j" "d = st_content A (lh_block s j)"
      moreover from this have "i = j" using inj i by simp
      ultimately show ?thesis by simp
    next
      assume "slot ?L i = ?L"
      with ns [OF i] show ?thesis ..
    next
      fix j assume "j < n" "slot ?L i = lh_block s j"
      with nb [OF i] show ?thesis by blast
    qed
  qed
  show "crashed s A n m (unat x) = st_disk A (unat x)" if x: "x \<notin> lh_block s ` {..<n}" "x \<notin> log_area ?L"
    unfolding cr
  proof (rule apply_notin, rule notI)
    assume "x \<in> fst ` set ws"
    then obtain d where "(x, d) \<in> set ws" by auto
    from cs [OF this] x f(3) slot_in_area header_in_area show False by (metis image_eqI lessThan_iff order.strict_trans2)
  qed
qed

text \<open>After the last write the header is empty again and all blocks are installed.\<close>

lemma crashed_after:
  assumes r: "ready c p k s A n" and m: "2 * n + 1 < m"
  shows "crashed s A n m (unat (log_start s)) = head_data (commit_header s A) 0 (lh_block s)"
    "x \<notin> log_area (log_start s) \<Longrightarrow> crashed s A n m (unat x) = st_content A x"
proof -
  note f = ready_facts [OF r]
  let ?L = "log_start s" and ?ws = "commit_writes s A n"
  have "take m ?ws = ?ws" using m by (simp add: commit_writes_def)
  then have cr: "crashed s A n m = apply_writes (on_disk ?ws) (st_disk A)" by (simp add: crashed_def take_on_disk)
  show "crashed s A n m (unat ?L) = head_data (commit_header s A) 0 (lh_block s)"
    unfolding cr by (simp add: commit_writes_def on_disk_def apply_writes_def)
  show "crashed s A n m (unat x) = st_content A x" if x: "x \<notin> log_area ?L"
  proof (cases "x \<in> lh_block s ` {..<n}")
    case True
    have "x \<in> fst ` set ?ws" using True by (force simp: commit_writes_def)
    then show ?thesis unfolding cr
      by (rule apply_in) (rule crashed_home [OF r True, of ?ws m], use \<open>take m ?ws = ?ws\<close> in simp_all)
  next
    case False
    have "x \<notin> fst ` set ?ws"
    proof
      assume "x \<in> fst ` set ?ws"
      then obtain d where "(x, d) \<in> set ?ws" by auto
      from commit_writes_cases [OF this] show False
      proof (elim disjE exE conjE)
        fix i assume "i < n" "x = slot ?L i"
        with x f(3) show False by simp
      qed (use x False in auto)
    qed
    then show ?thesis unfolding cr using apply_notin f(8) [OF False] by simp
  qed
qed

text \<open>A machine that has started again on the disk \<open>d\<close>, with an empty cache.\<close>

definition rebooted :: "nat \<Rightarrow> nat \<Rightarrow> int \<Rightarrow> 'a logst_scheme \<Rightarrow> (nat \<Rightarrow> block) \<Rightarrow> bool" where
  "rebooted c p k t d \<longleftrightarrow> (\<exists>w. log_user c p k t \<lparr>st_disk = d, st_writes = w, st_pending = Map.empty, st_held = Map.empty\<rparr>)"

lemma log_user_disk: "log_user c p k s A \<Longrightarrow> disk s = st_disk A"
  by (simp add: log_user_def bcache_rel_def bstore_rel_def)

lemma log_user_writes: "log_user c p k s A \<Longrightarrow> disk_writes s = st_writes A"
  by (simp add: log_user_def bcache_rel_def bstore_rel_def)

lemma recover_crashed:
  assumes r: "ready c p k s A n" and t: "rebooted c' p' k' t (crashed s A n m)" "log_start t = log_start s" "disksize t = disksize s"
  shows "\<exists>t'. recover_from_log t = ret t' \<and> (\<forall>x. x \<notin> log_area (log_start s) \<longrightarrow> disk t' (unat x) = outcome A n m x)"
proof -
  note f = ready_facts [OF r]
  let ?L = "log_start s"
  have hd: "length (st_disk A (unat ?L)) = BSIZE" "get32 (st_disk A (unat ?L)) 0 = 0" using r by (simp_all add: ready_def)
  obtain w where B: "log_user c' p' k' t \<lparr>st_disk = crashed s A n m, st_writes = w, st_pending = Map.empty, st_held = Map.empty\<rparr>"
    using t(1) by (auto simp: rebooted_def)
  let ?B = "\<lparr>st_disk = crashed s A n m, st_writes = w, st_pending = Map.empty, st_held = Map.empty\<rparr>"
  have empty: "\<exists>t' h. recover_from_log t = ret t' \<and> log_user c' p' k' t' (put_blocks [(?L, h)] ?B)"
    if "sint (get32 (crashed s A n m (unat ?L)) 0) = 0"
    using recover_ok [OF B, of 0] that t(2) by (simp add: homes_ok_def)
  have other: "disk t' (unat x) = crashed s A n m (unat x)"
    if "log_user c' p' k' t' (put_blocks [(?L, h)] ?B)" "x \<notin> log_area ?L" for t' h x
  proof -
    have "x \<notin> fst ` set [(?L, h)]" using that(2) by auto
    then show ?thesis using log_user_disk [OF that(1)] apply_notin unfolding put_blocks_disk by simp
  qed
  consider "m \<le> n" | "n < m" "m \<le> 2 * n + 1" | "2 * n + 1 < m" by linarith
  then show ?thesis
  proof cases
    case 1
    then obtain t' h where t': "recover_from_log t = ret t'" "log_user c' p' k' t' (put_blocks [(?L, h)] ?B)"
      using empty crashed_before(2) [OF r 1] hd(2) by auto
    moreover have "crashed s A n m (unat x) = outcome A n m x" if "x \<notin> log_area ?L" for x
    proof -
      have "x \<notin> slot ?L ` {..<n}" using that f(3) by (auto simp: log_area_def)
      then show ?thesis using crashed_before(1) [OF r 1] 1 by (simp add: outcome_def)
    qed
    ultimately show ?thesis using other [OF t'(2)] by metis
  next
    case 2
    note d = crashed_during [OF r 2]
    note dec = head_data_decodes(1,2) [OF hd(1), where n = "int n" and blk = "lh_block s"]
    have "\<exists>t' h. recover_from_log t = ret t' \<and> log_user c' p' k' t'
        (put_blocks (map (\<lambda>i. (lh_block s i, crashed s A n m (unat (slot ?L i)))) [0..<n] @ [(?L, h)]) ?B)"
      using recover_ok [OF B, of n "lh_block s"] d(1) dec f(2-4) t(2,3) by (simp add: commit_header_def homes_ok_def)
    then obtain t' h where t': "recover_from_log t = ret t'" "log_user c' p' k' t'
        (put_blocks (map (\<lambda>i. (lh_block s i, crashed s A n m (unat (slot ?L i)))) [0..<n] @ [(?L, h)]) ?B)" by blast
    let ?ws = "map (\<lambda>i. (lh_block s i, crashed s A n m (unat (slot ?L i)))) [0..<n] @ [(?L, h)]"
    have dt: "disk t' = apply_writes (on_disk ?ws) (crashed s A n m)"
      using log_user_disk [OF t'(2)] unfolding put_blocks_disk by simp
    have "disk t' (unat x) = st_content A x" if x: "x \<notin> log_area ?L" for x
    proof (cases "x \<in> lh_block s ` {..<n}")
      case True
      show ?thesis unfolding dt
      proof (rule apply_in)
        show "x \<in> fst ` set ?ws" using True by force
        show "b = st_content A x" if "(x, b) \<in> set ?ws" for b
          using that x d(2) header_in_area [of ?L] by auto
      qed
    next
      case False
      have "x \<notin> fst ` set ?ws" using False x header_in_area [of ?L] by auto
      then show ?thesis unfolding dt using apply_notin d(3) [OF False x] f(8) [OF False] by simp
    qed
    then show ?thesis using t'(1) 2 by (auto simp: outcome_def)
  next
    case 3
    note d = crashed_after [OF r 3]
    have "length (commit_header s A) = BSIZE"
      unfolding commit_header_def by (rule head_data_decodes(3) [OF hd(1)]) (use f(2,3) in simp_all)
    from head_data_decodes(1) [OF this, where n = 0 and blk = "lh_block s"]
    obtain t' h where t': "recover_from_log t = ret t'" "log_user c' p' k' t' (put_blocks [(?L, h)] ?B)"
      using empty d(1) by auto
    then show ?thesis using other [OF t'(2)] d(2) 3 by (auto simp: outcome_def)
  qed
qed

section \<open>Recording blocks\<close>

text \<open>The header in memory names exactly the blocks with pending updates, once each.\<close>

definition log_inv :: "'a logst_scheme \<Rightarrow> bstore \<Rightarrow> nat \<Rightarrow> bool" where
  "log_inv s A n \<longleftrightarrow> lh_n s = int n \<and> distinct (map (lh_block s) [0..<n]) \<and> dom (st_pending A) = lh_block s ` {..<n}"

lemma log_index_cases:
  assumes "distinct (map blk [0..<n])"
  shows "x \<in> blk ` {..<n} \<Longrightarrow> log_index blk (int n) x < n \<and> blk (log_index blk (int n) x) = x"
    "x \<notin> blk ` {..<n} \<Longrightarrow> log_index blk (int n) x = n"
proof -
  let ?f = "find (\<lambda>i. blk i = x) [0..<n]"
  show "log_index blk (int n) x < n \<and> blk (log_index blk (int n) x) = x" if x: "x \<in> blk ` {..<n}"
  proof (cases ?f)
    case None
    then have "\<not> (\<exists>i. i \<in> set [0..<n] \<and> blk i = x)" by (simp add: find_None_iff)
    with x show ?thesis by force
  next
    case (Some i)
    then show ?thesis using find_SomeD [OF Some] by (simp add: log_index_def)
  qed
  show "log_index blk (int n) x = n" if x: "x \<notin> blk ` {..<n}"
  proof -
    have "\<not> (\<exists>i. i \<in> set [0..<n] \<and> blk i = x)" using x by force
    then have "?f = None" by (simp add: find_None_iff)
    then show ?thesis by (simp add: log_index_def)
  qed
qed

lemma log_upd_fields [simp]:
  "bview_of (s\<lparr>lh_block := y, lh_n := z\<rparr>) = bview_of s" "bufs (s\<lparr>lh_block := y, lh_n := z\<rparr>) = bufs s"
  by (simp_all add: bview_of_def)

lemma log_write_ok:
  assumes rel: "bcache_rel c p k s A" and h: "st_held A b = Some (x, d)" and inv: "log_inv s A n"
    and "n < 29" "log_size s = 30" "1 \<le> log_outstanding s"
  shows "\<exists>s'. log_write b s = ret s' \<and> bcache_rel c p k s' (st_pend x d A) \<and>
    log_inv s' (st_pend x d A) (if x \<in> dom (st_pending A) then n else n + 1) \<and> log_outstanding s' = log_outstanding s"
proof -
  have calm: "calm c p k s" and br: "bstore_rel k (bview_of s) A" using rel by (simp_all add: bcache_rel_def)
  note hb = rel_held [OF br h, simplified]
  let ?blk = "lh_block s"
  let ?i = "log_index ?blk (int n) x"
  define N where "N = (if x \<in> dom (st_pending A) then n else n + 1)"
  have lh: "lh_n s = int n" "distinct (map ?blk [0..<n])" "dom (st_pending A) = ?blk ` {..<n}"
    using inv by (simp_all add: log_inv_def)
  have ix: "x \<in> dom (st_pending A) \<Longrightarrow> ?i < n \<and> ?blk ?i = x" "x \<notin> dom (st_pending A) \<Longrightarrow> ?i = n"
    using log_index_cases [OF lh(2)] lh(3) by auto
  let ?a = "acquired L_log c s"
  let ?t = "?a\<lparr>lh_block := ?blk(?i := x), lh_n := int N\<rparr>"
  let ?f = "\<lambda>r. r\<lparr>b_flags := b_flags r OR B_DIRTY\<rparr>"
  let ?u = "upd_buf b ?f ?t"
  have a: "bufs ?a = bufs s" "lh_n ?a = int n" "lh_block ?a = ?blk" using lh(1) by (simp_all add: acquired_def)
  have n': "?i = n \<Longrightarrow> int N = int n + 1" "?i \<noteq> n \<Longrightarrow> int N = int n"
    unfolding N_def by (cases "x \<in> dom (st_pending A)"; use ix in simp)+
  note r = calm_release [OF calm, of L_log ?u]
  have sc: "same_cpu ?a ?u" by (simp add: same_cpu_def upd_buf_def)
  have pu: "procs ?u = procs s" "level ?u = level s" by (simp_all add: acquired_def)
  have "log_write b s = release L_log ?u"
    using assms(4-6) lh(1) calm_acquire [OF calm, of L_log] a hb(6) n'
    by (cases "?i = n") (simp_all add: log_write_def LOGSIZE_def Let_def)
  then have "log_write b s = ret (released L_log c ?u)" by (simp only: r(1) [OF sc pu])
  moreover have "bview_of (released L_log c ?u) = (bview_of s)\<lparr>v_bufs := (bufs s)(b := ?f (bufs s b))\<rparr>"
    using a(1) by simp
  then have "bstore_rel k (bview_of (released L_log c ?u)) (st_pend x d A)"
  proof (intro rel_slot [OF br hb(1), where n = x and r = "?f (bufs s b)" and l = "slocks s (SL_buf b)"])
    show "j = b" if "cached (bview_of s) x j" for j using rel_uniq [OF br that hb(10)] .
    show "buf_ok k (st_pend x d A) b (slocks s (SL_buf b)) (?f (bufs s b))"
      using hb h by (simp add: buf_ok_def st_pend_def)
  qed (use hb br in \<open>auto simp: st_pend_def bstore_rel_def linked_def\<close>)
  moreover have "calm c p k (released L_log c ?u)" by (rule r(2) [OF sc pu])
  moreover have "log_inv (released L_log c ?u) (st_pend x d A) N"
  proof -
    have f: "lh_n (released L_log c ?u) = int N" "lh_block (released L_log c ?u) = ?blk(?i := x)"
      by (simp_all add: released_def upd_buf_def)
    have "distinct (map (?blk(?i := x)) [0..<N]) \<and> dom (st_pending (st_pend x d A)) = (?blk(?i := x)) ` {..<N}"
    proof (cases "x \<in> dom (st_pending A)")
      case True
      then have "?blk(?i := x) = ?blk" using ix(1) by auto
      then show ?thesis using True lh(2,3) by (auto simp: st_pend_def N_def)
    next
      case False
      have i: "?i = n" by (rule ix(2) [OF False])
      have m: "map (?blk(n := x)) [0..<n] = map ?blk [0..<n]" by simp
      have im: "(?blk(n := x)) ` {..<n + 1} = insert x (?blk ` {..<n})" by (auto simp: less_Suc_eq image_iff)
      have "distinct (map (?blk(n := x)) [0..<n + 1])"
        using lh(2,3) False m by (simp add: atLeast0LessThan)
      then show ?thesis using False lh(3) im unfolding i by (simp add: st_pend_def N_def)
    qed
    then show ?thesis unfolding log_inv_def f by simp
  qed
  moreover have "log_outstanding (released L_log c ?u) = log_outstanding s"
    by (simp add: released_def upd_buf_def acquired_def)
  ultimately show ?thesis unfolding N_def [symmetric] by (auto simp: bcache_rel_def)
qed

section \<open>The last \<open>end_op\<close>\<close>

lemma ready_cong:
  assumes "ready c p k s A n" "bcache_rel c p k t A" "log_start t = log_start s" "log_dev t = log_dev s"
    "lh_n t = lh_n s" "lh_block t = lh_block s" "disksize t = disksize s"
  shows "ready c p k t A n"
  using assms by (simp add: ready_def log_user_def homes_ok_def)

lemma end_op_ok:
  assumes r: "ready c p k s A n" "0 < n" and o: "log_outstanding s = 1" "log_committing s = 0"
  shows "\<exists>s'. end_op s = ret s' \<and> log_user c p k s' (put_blocks (commit_writes s A n) A) \<and>
    lh_n s' = 0 \<and> log_outstanding s' = 0 \<and> log_committing s' = 0"
proof -
  have rel: "bcache_rel c p k s A" using r(1) by (simp add: ready_def log_user_def)
  then have calm: "calm c p k s" by (simp add: bcache_rel_def)
  let ?a = "(acquired L_log c s)\<lparr>log_outstanding := 0, log_committing := 1\<rparr>"
  let ?u = "released L_log c ?a"
  have sc: "same_cpu (acquired L_log c s) ?a" "procs ?a = procs s" "level ?a = level s"
    by (simp_all add: same_cpu_def)
  note rl = calm_release [OF calm sc]
  have f: "bview_of ?u = bview_of s" "log_start ?u = log_start s" "log_dev ?u = log_dev s" "lh_n ?u = lh_n s"
    "lh_block ?u = lh_block s" "disksize ?u = disksize s" "log_outstanding ?u = 0"
    by (simp_all add: bview_of_def released_def acquired_def)
  have ru: "ready c p k ?u A n"
    by (rule ready_cong [OF r(1)]) (use rl(2) rel f in \<open>simp_all add: bcache_rel_def\<close>)
  have w: "commit_writes ?u A n = commit_writes s A n" by (simp add: commit_writes_def commit_header_def f)
  from commit_ok [OF ru r(2)] obtain v where v: "commit ?u = ret v" "log_user c p k v (put_blocks (commit_writes s A n) A)"
    "lh_n v = 0" "log_outstanding v = 0" "log_start v = log_start s" "disksize v = disksize s"
    unfolding w f by blast
  have cv: "calm c p k v" using v(2) by (simp add: log_user_def bcache_rel_def)
  let ?b = "(acquired L_log c v)\<lparr>log_committing := 0\<rparr>"
  have sb: "same_cpu (acquired L_log c v) ?b" "procs ?b = procs v" "level ?b = level v"
    by (simp_all add: same_cpu_def)
  from calm_wake [OF cv _ sb, of C_log] obtain s' where s': "rbind (wakeup C_log ?b) (release L_log) = ret s'"
    "calm c p k s'" "noise ?b s'" by auto
  have e: "end_op s = ret s'"
  proof -
    have o': "log_outstanding (acquired L_log c s) = 1" "log_committing (acquired L_log c s) = 0"
      using o by (simp_all add: acquired_def)
    then have "end_op s = rbind (release L_log ?a) (\<lambda>s. rbind (commit s) (\<lambda>s. rbind (acquire L_log s) (\<lambda>s.
        rbind (wakeup C_log (s\<lparr>log_committing := 0\<rparr>)) (release L_log))))"
      by (simp add: end_op_def calm_acquire [OF calm] Let_def)
    then show ?thesis using rl(1) v(1) calm_acquire [OF cv] s'(1) by simp
  qed
  have fn: "bframe ?b s'" by (rule bframe_noise [OF s'(3)])
  have "log_user c p k s' (put_blocks (commit_writes s A n) A)"
  proof -
    have "bview_of s' = bview_of v" using noise_bview [OF s'(3)] by (simp add: bview_of_def acquired_def)
    moreover have "log_dev s' = log_dev v" "log_start s' = log_start v" "disksize s' = disksize v"
      using bframe_log [OF fn] by (simp_all add: acquired_def)
    ultimately show ?thesis using v(2) s'(2) by (simp add: log_user_def bcache_rel_def)
  qed
  moreover have "lh_n s' = 0" "log_outstanding s' = 0" "log_committing s' = 0"
    using bframe_log [OF fn] v by (simp_all add: acquired_def)
  ultimately show ?thesis using e by blast
qed

section \<open>Theorems\<close>

text \<open>A kernel in the middle of a transaction: block 100 has new contents that are not on the disk yet.\<close>

definition new_block :: block where "new_block = replicate 512 7"

definition ldemo :: traps where
  "ldemo = bdemo\<lparr>bufs := (bufs bdemo)(0 := \<lparr>b_flags = 6, b_dev = 1, b_blockno = 100, b_refcnt = 0, b_data = new_block\<rparr>),
     lh_n := 1, lh_block := (\<lambda>_. 100), log_outstanding := 1\<rparr>"

definition ldemo_store :: bstore where
  "ldemo_store = st_pend 100 new_block (fresh_store kdemo)"

lemma bdemo_fields:
  "log_start bdemo = 2" "log_dev bdemo = 1" "disksize bdemo = 2000" "log_size bdemo = 30" "log_committing bdemo = 0"
  "disk bdemo = (\<lambda>_. replicate 512 0)" "b_dev (bufs bdemo i) = 0" "b_flags (bufs bdemo i) = 0" "lh_n bdemo = 0"
proof -
  have l: "log_start (binit_link bs s) = log_start s \<and> log_dev (binit_link bs s) = log_dev s \<and>
      log_size (binit_link bs s) = log_size s \<and> log_committing (binit_link bs s) = log_committing s \<and>
      lh_n (binit_link bs s) = lh_n s" for bs and s :: traps
    by (induction bs arbitrary: s)
      (simp_all add: Let_def set_bnext_def set_bprev_def initsleeplock_def upd_slock_def initlock_def set_lock_def)
  show "log_start bdemo = 2" "log_dev bdemo = 1" "disksize bdemo = 2000" "log_size bdemo = 30" "log_committing bdemo = 0"
    "disk bdemo = (\<lambda>_. replicate 512 0)" "b_dev (bufs bdemo i) = 0" "b_flags (bufs bdemo i) = 0" "lh_n bdemo = 0"
    by (simp_all add: bdemo_def binit_def Let_def l binit_link_fields)
      (simp_all add: set_bnext_def set_bprev_def initlock_def set_lock_def kdemo_def kernel_of_def)
qed

lemma ldemo_rel: "bcache_rel 0 0 1 ldemo ldemo_store"
proof -
  let ?r = "\<lparr>b_flags = 6, b_dev = 1, b_blockno = 100, b_refcnt = 0, b_data = new_block\<rparr>"
  have br: "bstore_rel 1 (bview_of bdemo) (fresh_store kdemo)" using bdemo_rel by (simp add: bcache_rel_def)
  have z: "0 < NBUF" "st_held (fresh_store kdemo) 0 = None" by (simp_all add: NBUF_def fresh_store_def)
  note f = rel_free [OF br z]
  have nc: "\<not> cached (bview_of bdemo) 100 j" for j by (simp add: cached_def bdemo_fields)
  have fl: "valid ?r" "dirty ?r" by (simp_all add: valid_def dirty_def B_VALID_def B_DIRTY_def)
  have v: "v_bufs (bview_of ldemo) = (bufs bdemo)(0 := ?r)" "v_slocks (bview_of ldemo) = slocks bdemo"
    "v_next (bview_of ldemo) = bnext bdemo" "v_prev (bview_of ldemo) = bprev bdemo" "v_disk (bview_of ldemo) = disk bdemo"
    "v_writes (bview_of ldemo) = disk_writes bdemo"
    by (simp_all add: bview_of_def ldemo_def)
  have "bstore_rel 1 (bview_of ldemo) ldemo_store"
  proof (rule rel_slot [OF br z(1), where n = 100 and r = ?r and l = "slocks bdemo (SL_buf 0)"])
    show "buf_ok 1 ldemo_store 0 (slocks bdemo (SL_buf 0)) ?r"
      using f(1) fl by (simp add: buf_ok_def ldemo_store_def) (simp add: st_pend_def fresh_store_def st_content_def)
    show "linked (bview_of ldemo)" using br v by (simp add: bstore_rel_def linked_def)
  qed (use br v nc fl bdemo_fields in \<open>auto simp: ldemo_store_def st_pend_def bstore_rel_def\<close>)
  moreover have "calm 0 0 1 ldemo"
    by (rule calm_frame [OF bdemo_calm]) (simp_all add: same_cpu_def ldemo_def)
  ultimately show ?thesis by (simp add: bcache_rel_def)
qed

lemma small_area: "x \<in> log_area 2 \<Longrightarrow> unat x < 33"
proof -
  have "unat (slot 2 i) < 33" if "i < 30" for i
  proof -
    have "slot 2 i = of_nat (i + 3)" by (simp add: slot_def)
    then have "unat (slot 2 i) = (i + 3) mod 2 ^ 32" by (simp only: unat_of_nat) simp
    then show ?thesis using that by simp
  qed
  then show "x \<in> log_area 2 \<Longrightarrow> unat x < 33" by (auto simp: log_area_def)
qed

lemma ldemo_ready: "ready 0 0 1 ldemo ldemo_store 1"
proof -
  have "x < 2000" if "x \<in> log_area 2" for x using small_area [OF that] by (simp add: word_less_nat_alt)
  moreover have "(100 :: u32) \<notin> log_area 2" using small_area [of 100] by auto
  moreover have "get32 (replicate 512 0) 0 = 0" by (simp add: get32_def)
  ultimately show ?thesis
    using ldemo_rel bdemo_fields unfolding ready_def log_user_def homes_ok_def
    by (simp add: ldemo_def ldemo_store_def st_pend_def fresh_store_def has_room_def NBUF_def BSIZE_def)
      (simp add: kdemo_def kernel_of_def lessThan_Suc)
qed

text \<open>
  C22: \<open>log_write\<close> puts the block into the header once, however often it is written in the transaction, and keeps
  the new contents pending in the cache.
\<close>

theorem log_write_records:
  assumes "bcache_rel c p k s A" "st_held A b = Some (x, d)" "log_inv s A n"
    and "n < 29" "log_size s = 30" "1 \<le> log_outstanding s"
  shows "\<exists>s'. log_write b s = ret s' \<and> bcache_rel c p k s' (st_pend x d A) \<and>
    log_inv s' (st_pend x d A) (if x \<in> dom (st_pending A) then n else n + 1)"
  using log_write_ok [OF assms] by blast

theorem log_write_records_witness:
  "\<exists>b s t. bread 1 5 (bdemo\<lparr>log_outstanding := 1\<rparr>) = ret (b, s) \<and> log_write b s = ret t \<and>
     log_inv t (st_pend 5 (replicate 512 0) (st_hold b 5 (fresh_store kdemo))) 1"
proof -
  let ?s = "bdemo\<lparr>log_outstanding := 1\<rparr>" and ?A = "fresh_store kdemo"
  have rel: "bcache_rel 0 0 1 ?s ?A" using bdemo_rel by simp
  have e: "st_held ?A = Map.empty" "has_room ?A" "(5 :: u32) < disksize ?s" "st_content ?A 5 = replicate 512 0"
    using bdemo_fields by (simp_all add: fresh_store_def has_room_def NBUF_def st_content_def)
      (simp add: kdemo_def kernel_of_def)
  obtain b s where s: "bread 1 5 ?s = ret (b, s)" "bcache_rel 0 0 1 s (st_hold b 5 ?A)" "bframe ?s s"
    using bc.reads [OF rel, of 5] e by auto
  note f = bframe_log [OF s(3)]
  have "st_held (st_hold b 5 ?A) b = Some (5, replicate 512 0)" using e(4) by (simp add: st_hold_def)
  moreover have "log_inv s (st_hold b 5 ?A) 0"
    using f bdemo_fields by (simp add: log_inv_def st_hold_def fresh_store_def)
  ultimately obtain t where "log_write b s = ret t"
    "log_inv t (st_pend 5 (replicate 512 0) (st_hold b 5 ?A)) (if 5 \<in> dom (st_pending (st_hold b 5 ?A)) then 0 else 0 + 1)"
    using log_write_records [OF s(2), of b 5 "replicate 512 0" 0] f bdemo_fields by auto
  then show ?thesis using s(1) by (auto simp: st_hold_def fresh_store_def)
qed



end
