(* ===== verification/System.thy ===== *)
theory System
  imports Demo
begin

text \<open>
  The kernel as a transition system on one CPU: the scheduler dispatches processes, the timer interrupts
  them, and a process may take a lock, sleep, wake others or yield. Every step runs the functions of the
  source from one switch of the CPU to the next. Creation and termination of processes are not steps.
\<close>

section \<open>The timer interrupt\<close>

text \<open>The processes of \<open>g\<close> are those of \<open>f\<close> after the sleepers on \<open>ch\<close> have been woken.\<close>

definition awakes :: "chan \<Rightarrow> (nat \<Rightarrow> proc) \<Rightarrow> (nat \<Rightarrow> proc) \<Rightarrow> bool" where
  "awakes ch f g \<longleftrightarrow> (\<forall>p. \<exists>m. g p =
     (if p < NPROC \<and> p_state (f p) = SLEEPING \<and> p_chan (f p) = ch
      then (f p)\<lparr>p_state := RUNNABLE, max_skiplist_level := m\<rparr> else f p))"

lemma awakes_cases:
  assumes "awakes ch f g"
  obtains "g p = f p" | m where "p_state (f p) = SLEEPING" "g p = (f p)\<lparr>p_state := RUNNABLE, max_skiplist_level := m\<rparr>"
  using assms unfolding awakes_def by (metis (full_types))

lemma awakes_other: "awakes ch f g \<Longrightarrow> p_state (f p) \<noteq> SLEEPING \<Longrightarrow> g p = f p"
  by (rule awakes_cases [of ch f g p]) auto

text \<open>The fields outside the process table that the invariant of the system reads.\<close>

definition steady :: "'a traps_scheme \<Rightarrow> 'a traps_scheme \<Rightarrow> bool" where
  "steady s s' \<longleftrightarrow> mem s' = mem s \<and> kpgdir s' = kpgdir s \<and> resume_at s' = resume_at s \<and> forkret_first s' = forkret_first s"

lemma steady_trans: "steady s t \<Longrightarrow> steady t u \<Longrightarrow> steady s u"
  by (simp add: steady_def)

lemma more_forkret: "ptable.more s' = ptable.more s \<Longrightarrow> forkret_first s' = forkret_first s"
  by (cases s; cases s') simp

lemma steady_kept: "kept c s s' \<Longrightarrow> steady s s'"
  using more_forkret [of s' s] by (simp add: steady_def kept_def)

lemma steady_only_queue: "only_queue s s' \<Longrightarrow> steady s s'"
  using more_forkret [of s' s] by (simp add: steady_def only_queue_iff)

lemma steady_acquired: "steady s (acquired l c s)" "steady s (released l c s)" "steady s (settle c s)"
  by (simp_all add: steady_def acquired_def released_def settle_def)

lemma lapiceoi_fields [simp]:
  "ptable.truncate (lapiceoi s) = ptable.truncate s" "forkret_first (lapiceoi s) = forkret_first s"
  "machine.truncate (lapiceoi s) = machine.truncate s"
  by (simp_all add: lapiceoi_def lapicw_def dev_read_def dev_write_def ptable.truncate_def machine.truncate_def)

lemma lapiceoi_simps [simp]:
  "procs (lapiceoi s) = procs s" "level (lapiceoi s) = level s" "ticks (lapiceoi s) = ticks s"
  "mem (lapiceoi s) = mem s" "kpgdir (lapiceoi s) = kpgdir s" "resume_at (lapiceoi s) = resume_at s"
  "cpus (lapiceoi s) = cpus s" "locks (lapiceoi s) = locks s" "fl_if (lapiceoi s) = fl_if s"
  "ncpu (lapiceoi s) = ncpu s" "lapicid (lapiceoi s) = lapicid s"
  by (simp_all add: lapiceoi_def lapicw_def dev_read_def dev_write_def)

lemma timer_intr_ok:
  fixes s :: "'a traps_scheme"
  assumes on: "on_cpu 0 s" and "\<not> fl_if s" and fr: "free_lock L_ticks s" "free_lock L_ptable s" and ok: "ptable_ok s"
  shows "\<exists>s'. timer_intr s = ret s' \<and> ptable_ok s' \<and> same_cpu (settle 0 s) s' \<and> steady s s' \<and>
    ticks s' = ticks s + 1 \<and> mem s' = mem s \<and> awakes C_ticks (procs s) (procs s')"
proof -
  let ?t = "(acquired L_ticks 0 s)\<lparr>ticks := ticks s + 1\<rparr>"
  have sc: "same_cpu (acquired L_ticks 0 s) ?t" by (simp add: same_cpu_def)
  note i = in_section [OF on sc]
  have ft: "procs ?t = procs s" "level ?t = level s" "mem ?t = mem s" by (simp_all add: acquired_def)
  have "free_lock L_ptable ?t" by (rule free_lock_section [OF _ sc fr(2)]) simp
  moreover have "ptable_ok ?t" using ok ptable_ok_frame [of ?t s] ft by simp
  ultimately obtain u where u: "wakeup C_ticks ?t = ret u" "ptable_ok u" "only_queue ?t u"
    "awakes C_ticks (procs s) (procs u)"
    using wakeup_ok [OF i(1), of C_ticks, unfolded i(4) ft] unfolding awakes_def by blast
  have su: "same_cpu (acquired L_ticks 0 s) u"
    by (rule same_cpu_trans [OF sc same_cpu_only_queue [OF u(3)]])
  note r = leave_section [OF on fr(1) su]
  let ?r = "lapiceoi (released L_ticks 0 u)"
  have "mycpu s = ret 0" using mycpu_on_cpu [OF on] assms(2) .
  moreover have "acquire L_ticks s = ret (acquired L_ticks 0 s)"
    using fr(1) by (intro acquire_free [OF on]) (simp add: free_lock_def)
  ultimately have "timer_intr s = ret ?r"
    using u(1) r(1) by (simp add: timer_intr_def cpuid_def acquired_def)
  moreover have "ptable_ok ?r" using u(2) ptable_ok_frame [of ?r u] by simp
  moreover have "same_cpu (settle 0 s) ?r" using r(2) by (simp add: same_cpu_def)
  moreover have "steady s ?r"
    using steady_only_queue [OF u(3)] by (simp add: steady_def released_def acquired_def)
  moreover have "ticks ?r = ticks s + 1" "mem ?r = mem s"
    using u(3) ft(3) by (simp_all add: only_queue_iff released_def)
  moreover have "procs ?r = procs u" by simp
  ultimately show ?thesis using u(4) by (intro exI [of _ ?r]) simp
qed

text \<open>A clock tick in a process: its time slice is charged, and when it is used up the process yields.\<close>

definition charged :: "nat \<Rightarrow> (nat \<Rightarrow> proc) \<Rightarrow> (nat \<Rightarrow> proc)" where
  "charged p f = f(p := (f p)\<lparr>ticks_left := s32 (ticks_left (f p) - 1)\<rparr>)"

lemma awakes_charged:
  assumes "awakes ch f g" "p_state (f p) \<noteq> SLEEPING"
  shows "awakes ch (charged p f) (charged p g)"
  unfolding awakes_def
proof
  fix x
  show "\<exists>m. charged p g x = (if x < NPROC \<and> p_state (charged p f x) = SLEEPING \<and> p_chan (charged p f x) = ch
      then (charged p f x)\<lparr>p_state := RUNNABLE, max_skiplist_level := m\<rparr> else charged p f x)"
  proof (cases "x = p")
    case True
    then show ?thesis using awakes_other [OF assms] assms(2) by (simp add: charged_def)
  next
    case False
    then have "charged p g x = g x" "charged p f x = f x" by (simp_all add: charged_def)
    then show ?thesis using assms(1) [unfolded awakes_def, rule_format, of x] by (simp only:)
  qed
qed

definition timer_frame :: "u32 \<Rightarrow> 'a machine_scheme \<Rightarrow> bool" where
  "timer_frame tf s \<longleftrightarrow> read32 (mem s) (tf + TF_TRAPNO) = T_IRQ0 + IRQ_TIMER"

lemma settle_settle [simp]: "settle c (settle c s) = settle c s"
  by (simp add: settle_def)

lemma settle_fields [simp]:
  "procs (settle c s) = procs s" "level (settle c s) = level s" "mem (settle c s) = mem s"
  "ticks (settle c s) = ticks s"
  by (simp_all add: settle_def)

lemma settle_upd: "settle c (upd_proc p f s) = upd_proc p f (settle c s)"
  by (simp add: settle_def upd_proc_def)

lemma not_killed:
  assumes "on_cpu c s" "cpu_proc (cpus s c) = Some p" "p_killed (procs s p) = 0"
  shows "exit_if_killed tf s = ret (True, settle c s)"
  using assms by (simp add: exit_if_killed_def myproc_eq)

lemma trap_tick:
  fixes s :: "'a traps_scheme"
  assumes run: "running 0 p s" and "\<not> fl_if s" and fr: "free_lock L_ticks s" and ok: "ptable_ok s"
    and kl: "p_killed (procs s p) = 0" and tf: "timer_frame tf s"
  obtains s1 where "ptable_ok s1" "running 0 p s1" "same_cpu (settle 0 s) s1" "steady s s1" "ticks s1 = ticks s + 1"
    "awakes C_ticks (charged p (procs s)) (procs s1)"
    "trap tf s = (if ticks_left (procs s1 p) = 0 then rbind (yield_enter s1) (\<lambda>s. ret (False, s)) else ret (True, s1))"
proof -
  have on: "on_cpu 0 s" and frp: "free_lock L_ptable s" and p: "p < NPROC" "p_state (procs s p) = RUNNING"
    using run by (auto simp: running_def)
  obtain t where t: "timer_intr s = ret t" "ptable_ok t" "same_cpu (settle 0 s) t" "steady s t"
    "ticks t = ticks s + 1" "mem t = mem s" "awakes C_ticks (procs s) (procs t)"
    using timer_intr_ok [OF on assms(2) fr frp ok] by blast
  have pt: "procs t p = procs s p" using awakes_other [OF t(7)] p(2) by simp
  have rt: "running 0 p t" using running_settled [OF run t(3)] p(2) pt by simp
  then have ont: "on_cpu 0 t" "cpu_proc (cpus t 0) = Some p" by (auto simp: running_def)
  let ?f = "\<lambda>r. r\<lparr>ticks_left := s32 (ticks_left r - 1)\<rparr>"
  let ?s1 = "settle 0 (upd_proc p ?f (settle 0 t))"
  have f: "procs ?s1 = charged p (procs t)" "level ?s1 = level t" "ticks ?s1 = ticks t"
    by (simp_all add: settle_upd charged_def upd_proc_def)
  have on1: "on_cpu 0 (upd_proc p ?f (settle 0 t))" "cpu_proc (cpus (upd_proc p ?f (settle 0 t)) 0) = Some p"
    using ont by (simp_all add: on_cpu_def upd_proc_def settle_def)
  have ex: "exit_if_killed tf t = ret (True, settle 0 t)"
    by (rule not_killed [OF ont]) (simp add: pt kl)
  have tick: "count_tick tf (settle 0 t) = ret (ticks_left (procs ?s1 p) = 0, ?s1)"
    using ont tf t(6) pt p(2) myproc_eq [of 0 "settle 0 t"]
    by (simp add: count_tick_def timer_frame_def settle_upd f(1) charged_def)
  have ons1: "on_cpu 0 ?s1" "cpu_proc (cpus ?s1 0) = Some p" using on1 by simp_all
  have ex1: "exit_if_killed tf ?s1 = ret (True, ?s1)"
    using not_killed [OF ons1, of tf] by (simp add: f(1) charged_def pt kl)
  have h: "handle_trap tf s = ret t" "read32 (mem s) (tf + TF_TRAPNO) \<noteq> of_nat T_SYSCALL"
    using tf t(1) by (simp_all add: handle_trap_def timer_frame_def T_SYSCALL_def T_IRQ0_def IRQ_TIMER_def)
  have tr: "trap tf s = (if ticks_left (procs ?s1 p) = 0 then rbind (yield_enter ?s1) (\<lambda>s. ret (False, s)) else ret (True, ?s1))"
    using h ex tick ex1 by (simp add: trap_def)
  obtain q where q: "queue_inv t q" "\<forall>x<NPROC. x \<in> set q \<longleftrightarrow> schedulable (p_state (procs t x))"
    using t(2) by (auto simp: ptable_ok_def)
  have "queue_inv ?s1 q" by (rule queue_inv_cong [OF q(1)]) (simp_all add: f charged_def)
  then have "ptable_ok ?s1" using q(2) by (auto simp: ptable_ok_def f(1) charged_def)
  moreover have "running 0 p ?s1"
    using rt by (simp add: running_def on_cpu_def settle_upd f(1) charged_def free_lock_def) (simp add: upd_proc_def settle_def)
  moreover have "same_cpu (settle 0 s) ?s1"
    using t(3) by (simp add: same_cpu_def settle_def upd_proc_def)
  moreover have "steady s ?s1"
    using t(4) by (simp add: steady_def settle_def upd_proc_def)
  moreover have "awakes C_ticks (charged p (procs s)) (procs ?s1)"
    unfolding f(1) by (rule awakes_charged [OF t(7)]) (simp add: p(2))
  ultimately show thesis using that [OF _ _ _ _ _ _ tr] t(5) f(3) by simp
qed

lemma trap_idle:
  fixes s :: "'a traps_scheme"
  assumes on: "on_cpu 0 s" and "\<not> fl_if s" and fr: "free_lock L_ticks s" "free_lock L_ptable s" and ok: "ptable_ok s"
    and none: "cpu_proc (cpus s 0) = None" and tf: "timer_frame tf s"
  obtains s1 where "ptable_ok s1" "same_cpu (settle 0 s) s1" "steady s s1" "ticks s1 = ticks s + 1"
    "awakes C_ticks (procs s) (procs s1)" "trap tf s = ret (True, s1)"
proof -
  obtain t where t: "timer_intr s = ret t" "ptable_ok t" "same_cpu (settle 0 s) t" "steady s t"
    "ticks t = ticks s + 1" "mem t = mem s" "awakes C_ticks (procs s) (procs t)"
    using timer_intr_ok [OF on assms(2) fr ok] by blast
  have ont: "on_cpu 0 t" "cpu_proc (cpus t 0) = None"
    using same_cpu_on_cpu [OF t(3)] on none t(3) by (simp_all add: same_cpu_def)
  let ?u = "settle 0 t"
  have my: "myproc t = ret (None, ?u)" "myproc ?u = ret (None, ?u)"
    using myproc_eq [of 0 t] myproc_eq [of 0 ?u] ont by simp_all
  have h: "handle_trap tf s = ret t" "read32 (mem s) (tf + TF_TRAPNO) \<noteq> of_nat T_SYSCALL"
    using tf t(1) by (simp_all add: handle_trap_def timer_frame_def T_SYSCALL_def T_IRQ0_def IRQ_TIMER_def)
  have "trap tf s = ret (True, ?u)"
    using h my by (simp add: trap_def exit_if_killed_def count_tick_def)
  moreover have "ptable_ok ?u" using t(2) ptable_ok_frame [of ?u t] by simp
  moreover have "same_cpu (settle 0 s) ?u" using t(3) by (simp add: same_cpu_def settle_def)
  moreover have "steady s ?u" using t(4) by (simp add: steady_def settle_def)
  ultimately show thesis using that t(5,7) by simp
qed

section \<open>The transition system\<close>

text \<open>What the CPU does: it runs the scheduler, a process with its interrupts on, or a process that holds a lock.\<close>

datatype mode = Sched | User nat | Locked nat lockid

text \<open>
  The steps. A trap clears the interrupt flag and the return from it sets the flag, as the hardware does;
  a process that the scheduler switches to continues where it left, and reaches user code with interrupts on.
\<close>

inductive kstep :: "mode \<times> 'a traps_scheme \<Rightarrow> mode \<times> 'a traps_scheme \<Rightarrow> bool" where
  idle: "scheduler_enter 0 s = ret (None, s') \<Longrightarrow> kstep (Sched, s) (Sched, s')"
| dispatch: "scheduler_enter 0 s = ret (Some p, s1) \<Longrightarrow> resume_at s1 p = In_yield en \<Longrightarrow>
    yield_leave en s1 = ret s2 \<Longrightarrow> kstep (Sched, s) (User p, s2\<lparr>fl_if := True\<rparr>)"
| dispatch_new: "scheduler_enter 0 s = ret (Some p, s1) \<Longrightarrow> resume_at s1 p = At_forkret \<Longrightarrow>
    forkret s1 = ret s2 \<Longrightarrow> kstep (Sched, s) (User p, s2\<lparr>fl_if := True\<rparr>)"
| dispatch_woken: "scheduler_enter 0 s = ret (Some p, s1) \<Longrightarrow> resume_at s1 p = In_sleep lk en \<Longrightarrow>
    sleep_leave p lk en s1 = ret s2 \<Longrightarrow> kstep (Sched, s) (Locked p lk, s2)"
| tick_idle: "timer_frame tf s \<Longrightarrow> trap tf (s\<lparr>fl_if := False\<rparr>) = ret (True, s') \<Longrightarrow>
    kstep (Sched, s) (Sched, s'\<lparr>fl_if := True\<rparr>)"
| tick: "timer_frame tf s \<Longrightarrow> trap tf (s\<lparr>fl_if := False\<rparr>) = ret (True, s') \<Longrightarrow>
    kstep (User p, s) (User p, s'\<lparr>fl_if := True\<rparr>)"
| preempt: "timer_frame tf s \<Longrightarrow> trap tf (s\<lparr>fl_if := False\<rparr>) = ret (False, s1) \<Longrightarrow>
    scheduler_leave 0 s1 = ret s' \<Longrightarrow> kstep (User p, s) (Sched, s')"
| yields: "yield_enter s = ret s1 \<Longrightarrow> scheduler_leave 0 s1 = ret s' \<Longrightarrow> kstep (User p, s) (Sched, s')"
| lock: "acquire lk s = ret s' \<Longrightarrow> kstep (User p, s) (Locked p lk, s')"
| unlock: "release lk s = ret s' \<Longrightarrow> kstep (Locked p lk, s) (User p, s')"
| wake: "wakeup ch s = ret s' \<Longrightarrow> kstep (User p, s) (User p, s')"
| wake_locked: "lk \<noteq> L_ptable \<Longrightarrow> wakeup ch s = ret s' \<Longrightarrow> kstep (Locked p lk, s) (Locked p lk, s')"
| sleep: "sleep_enter ch (Some lk) s = ret s1 \<Longrightarrow> scheduler_leave 0 s1 = ret s' \<Longrightarrow>
    kstep (Locked p lk, s) (Sched, s')"

inductive_cases kstepE: "kstep (m, s) (m', s')"

definition mode_proc :: "mode \<Rightarrow> nat option" where
  "mode_proc m = (case m of Sched \<Rightarrow> None | User p \<Rightarrow> Some p | Locked p lk \<Rightarrow> Some p)"

lemma mode_proc_simps [simp]: "mode_proc Sched = None" "mode_proc (User p) = Some p" "mode_proc (Locked p lk) = Some p"
  by (simp_all add: mode_proc_def)

section \<open>The invariant\<close>

text \<open>A process is left in \<open>yield\<close> or in \<open>sleep\<close>, there with its interrupts to be enabled, or it is new.\<close>

definition resume_ok :: "resume \<Rightarrow> bool" where
  "resume_ok r = (case r of At_forkret \<Rightarrow> True | In_yield en \<Rightarrow> True | In_sleep lk en \<Rightarrow> en | In_exit en \<Rightarrow> False)"

definition waiting :: "procstate \<Rightarrow> bool" where
  "waiting st \<longleftrightarrow> st = SLEEPING \<or> st = RUNNABLE"

definition procs_inv :: "nat option \<Rightarrow> 'a traps_scheme \<Rightarrow> bool" where
  "procs_inv cur s \<longleftrightarrow> ptable_ok s \<and> spaces_ok s \<and> KERNBASE \<le> kpgdir s \<and> forkret_first s = 0 \<and>
     (\<forall>q<NPROC. p_state (procs s q) = RUNNING \<longleftrightarrow> cur = Some q) \<and>
     (\<forall>q<NPROC. waiting (p_state (procs s q)) \<or> cur = Some q \<longrightarrow> p_killed (procs s q) = 0) \<and>
     (\<forall>q<NPROC. waiting (p_state (procs s q)) \<longrightarrow> resume_ok (resume_at s q)) \<and>
     (\<forall>p. cur = Some p \<longrightarrow> p < NPROC)"

definition cpu_inv :: "mode \<Rightarrow> 'a traps_scheme \<Rightarrow> bool" where
  "cpu_inv m s \<longleftrightarrow> on_cpu 0 s \<and> cpu_proc (cpus s 0) = mode_proc m \<and>
     (case m of Sched \<Rightarrow> ncli (cpus s 0) = 0 \<and> (\<forall>l. free_lock l s)
      | User p \<Rightarrow> ncli (cpus s 0) = 0 \<and> fl_if s \<and> (\<forall>l. free_lock l s)
      | Locked p lk \<Rightarrow> ncli (cpus s 0) = 1 \<and> intena (cpus s 0) \<and> holds lk 0 s \<and> (\<forall>l. l \<noteq> lk \<longrightarrow> free_lock l s))"

definition kinv :: "mode \<times> 'a traps_scheme \<Rightarrow> bool" where
  "kinv x \<longleftrightarrow> procs_inv (mode_proc (fst x)) (snd x) \<and> cpu_inv (fst x) (snd x)"

lemma cpu_inv_running: "kinv (User p, s) \<Longrightarrow> running 0 p s"
  by (auto simp: kinv_def cpu_inv_def procs_inv_def running_def)

lemma cpu_inv_idle: "kinv (Sched, s) \<Longrightarrow> idle_cpu 0 s"
  by (auto simp: kinv_def cpu_inv_def idle_cpu_def)

lemma cpu_inv_sleep: "kinv (Locked p lk, s) \<Longrightarrow> ready_to_sleep 0 p lk s"
  by (auto simp: kinv_def cpu_inv_def procs_inv_def ready_to_sleep_def)

text \<open>The part about the processes survives what leaves their states alone.\<close>

lemma procs_inv_frame:
  assumes "procs_inv cur s" "ptable_ok s'" "steady s s'"
    and "\<And>q. p_state (procs s' q) = p_state (procs s q) \<and> p_killed (procs s' q) = p_killed (procs s q) \<and>
      p_kstack (procs s' q) = p_kstack (procs s q) \<and> p_pgdir (procs s' q) = p_pgdir (procs s q)"
  shows "procs_inv cur s'"
  using assms by (simp add: procs_inv_def spaces_ok_def steady_def)

lemma procs_inv_awakes:
  assumes "procs_inv cur s" "ptable_ok s'" "steady s s'" "awakes ch f (procs s')"
    and f: "\<And>q. p_state (f q) = p_state (procs s q) \<and> p_killed (f q) = p_killed (procs s q) \<and>
      p_kstack (f q) = p_kstack (procs s q) \<and> p_pgdir (f q) = p_pgdir (procs s q)"
  shows "procs_inv cur s'"
proof -
  have a: "(p_state (procs s' q) = RUNNING \<longleftrightarrow> p_state (procs s q) = RUNNING) \<and>
      waiting (p_state (procs s' q)) = waiting (p_state (procs s q)) \<and> p_killed (procs s' q) = p_killed (procs s q) \<and>
      p_kstack (procs s' q) = p_kstack (procs s q) \<and> p_pgdir (procs s' q) = p_pgdir (procs s q)" for q
    using f [of q] by (cases rule: awakes_cases [OF assms(4), of q]) (simp_all add: waiting_def)
  have w: "p_state (procs s q) \<in> {SLEEPING, RUNNABLE, RUNNING} \<longleftrightarrow> waiting (p_state (procs s q)) \<or> p_state (procs s q) = RUNNING"
    for q and s :: "'a traps_scheme" by (auto simp: waiting_def)
  show ?thesis using assms(1-3) a unfolding procs_inv_def spaces_ok_def steady_def w by simp
qed

section \<open>Dispatching\<close>

text \<open>The scheduler of \<open>s\<close> has chosen \<open>p\<close> and is about to switch to it in \<open>s1\<close>.\<close>

definition chosen :: "nat \<Rightarrow> 'a traps_scheme \<Rightarrow> 'a traps_scheme \<Rightarrow> bool" where
  "chosen p s s1 \<longleftrightarrow> p < NPROC \<and> p_state (procs s p) = RUNNABLE \<and>
     (\<forall>r<NPROC. p_state (procs s r) = RUNNABLE \<longrightarrow> virt_deadline (procs s p) \<le> virt_deadline (procs s r)) \<and>
     procs s1 = (procs s)(p := (procs s p)\<lparr>p_state := RUNNING, ticks_left := BFS_DEFAULT_QUANTUM\<rparr>) \<and>
     ptable_ok s1 \<and> switching 0 s1 \<and> cpu_proc (cpus s1 0) = Some p \<and> kept 0 s s1"

lemma scheduler_choice:
  assumes "kinv (Sched, s)"
  shows "(\<exists>s'. scheduler_enter 0 s = ret (None, s') \<and> kinv (Sched, s') \<and> (\<forall>r<NPROC. p_state (procs s r) \<noteq> RUNNABLE)) \<or>
    (\<exists>p s1. scheduler_enter 0 s = ret (Some p, s1) \<and> chosen p s s1)"
proof -
  have pi: "procs_inv None s" and ci: "cpu_inv Sched s" using assms by (simp_all add: kinv_def)
  have ok: "ptable_ok s" "spaces_ok s" and nr: "\<And>q. q < NPROC \<Longrightarrow> p_state (procs s q) \<noteq> RUNNING"
    using pi by (simp_all add: procs_inv_def)
  consider (none) s' where "scheduler_enter 0 s = ret (None, s')" "idle_cpu 0 s'" "ptable_ok s'" "procs s' = procs s"
      "\<forall>p<NPROC. \<not> schedulable (p_state (procs s p))" "kept 0 s s'" "cpu_proc (cpus s' 0) = cpu_proc (cpus s 0)"
    | (some) p s' where "scheduler_enter 0 s = ret (Some p, s')" "p < NPROC" "schedulable (p_state (procs s p))"
      "\<forall>r<NPROC. schedulable (p_state (procs s r)) \<longrightarrow> virt_deadline (procs s p) \<le> virt_deadline (procs s r)"
      "procs s' = (procs s)(p := (procs s p)\<lparr>p_state := RUNNING, ticks_left := BFS_DEFAULT_QUANTUM\<rparr>)"
      "ptable_ok s'" "switching 0 s'" "cpu_proc (cpus s' 0) = Some p" "kept 0 s s'"
    using scheduler_enter_ok [OF cpu_inv_idle [OF assms] ok] by blast
  then show ?thesis
  proof cases
    case none
    have "procs_inv None s'"
      by (rule procs_inv_frame [OF pi none(3) steady_kept [OF none(6)]]) (simp add: none(4))
    moreover have "free_lock l s'" for l
      using none(2,6) ci by (cases "l = L_ptable") (simp_all add: idle_cpu_def kept_def cpu_inv_def free_lock_def)
    ultimately have "kinv (Sched, s')"
      using none(2,7) ci by (simp add: kinv_def cpu_inv_def idle_cpu_def)
    then show ?thesis using none(1,5) by (auto simp: schedulable_def)
  next
    case some
    then have "p_state (procs s p) = RUNNABLE" using nr [of p] by (simp add: schedulable_def)
    then have "chosen p s s'" using some by (simp add: chosen_def schedulable_def)
    then show ?thesis using some(1) by blast
  qed
qed

lemma chosen_inv:
  assumes "kinv (Sched, s)" "chosen p s s1"
  shows "procs_inv (Some p) s1" "\<forall>l. l \<noteq> L_ptable \<longrightarrow> free_lock l s1" "resume_ok (resume_at s1 p)"
proof -
  have pi: "procs_inv None s" and ci: "cpu_inv Sched s" using assms(1) by (simp_all add: kinv_def)
  have c: "p < NPROC" "p_state (procs s p) = RUNNABLE" "ptable_ok s1" "kept 0 s s1"
    "procs s1 = (procs s)(p := (procs s p)\<lparr>p_state := RUNNING, ticks_left := BFS_DEFAULT_QUANTUM\<rparr>)"
    using assms(2) by (simp_all add: chosen_def)
  have st: "steady s s1" by (rule steady_kept [OF c(4)])
  show "procs_inv (Some p) s1"
    using pi c st by (auto simp: procs_inv_def spaces_ok_def waiting_def steady_def)
  show "\<forall>l. l \<noteq> L_ptable \<longrightarrow> free_lock l s1"
    using ci c(4) by (simp add: cpu_inv_def kept_def free_lock_def)
  show "resume_ok (resume_at s1 p)"
    using pi c(1,2) st by (simp add: procs_inv_def waiting_def steady_def)
qed

text \<open>A process that leaves the scheduler without a lock is in user mode when its interrupts are on again.\<close>

lemma user_mode:
  assumes "procs_inv (Some p) s" "running 0 p s" "\<forall>l. l \<noteq> L_ptable \<longrightarrow> free_lock l s"
  shows "kinv (User p, s\<lparr>fl_if := True\<rparr>)"
proof -
  have "procs_inv (Some p) (s\<lparr>fl_if := True\<rparr>)"
  proof (rule procs_inv_frame [OF assms(1)])
    show "ptable_ok (s\<lparr>fl_if := True\<rparr>)" using assms(1) ptable_ok_frame [of "s\<lparr>fl_if := True\<rparr>" s] by (simp add: procs_inv_def)
  qed (simp_all add: steady_def)
  moreover have "free_lock l s" for l
    using assms(2,3) by (cases "l = L_ptable") (simp_all add: running_def)
  ultimately show ?thesis using assms(2) by (simp add: kinv_def cpu_inv_def running_def on_cpu_def free_lock_def)
qed

lemma resume_yield:
  assumes "kinv (Sched, s)" "chosen p s s1"
  shows "\<exists>s2. yield_leave en s1 = ret s2 \<and> kinv (User p, s2\<lparr>fl_if := True\<rparr>) \<and> procs s2 = procs s1 \<and>
    ticks s2 = ticks s \<and> mem s2 = mem s"
proof -
  note ci = chosen_inv [OF assms]
  have c: "switching 0 s1" "cpu_proc (cpus s1 0) = Some p" "p < NPROC" "p_state (procs s1 p) = RUNNING" "kept 0 s s1"
    using assms(2) by (simp_all add: chosen_def)
  obtain s2 where s2: "yield_leave en s1 = ret s2" "running 0 p s2" "procs s2 = procs s1" "level s2 = level s1"
    "kept 0 s1 s2"
    using yield_leave_ok [OF c(1-4)] by blast
  have "ptable_ok s2" using ci(1) ptable_ok_frame [of s2 s1] s2(3,4) by (simp add: procs_inv_def)
  then have "procs_inv (Some p) s2"
    by (intro procs_inv_frame [OF ci(1) _ steady_kept [OF s2(5)]]) (simp_all add: s2(3))
  moreover have "\<forall>l. l \<noteq> L_ptable \<longrightarrow> free_lock l s2" using ci(2) s2(5) by (simp add: kept_def free_lock_def)
  ultimately have "kinv (User p, s2\<lparr>fl_if := True\<rparr>)" using user_mode s2(2) by blast
  then show ?thesis using s2 c(5) by (intro exI [of _ s2]) (simp add: kept_def)
qed

lemma release_chosen:
  assumes "kinv (Sched, s)" "chosen p s s1"
  shows "release L_ptable s1 = ret (released L_ptable 0 s1)"
    and "procs_inv (Some p) (released L_ptable 0 s1)" "running 0 p (released L_ptable 0 s1)"
    and "\<forall>l. l \<noteq> L_ptable \<longrightarrow> free_lock l (released L_ptable 0 s1)"
proof -
  note ci = chosen_inv [OF assms]
  have c: "switching 0 s1" "cpu_proc (cpus s1 0) = Some p" "p < NPROC" "p_state (procs s1 p) = RUNNING"
    using assms(2) by (simp_all add: chosen_def)
  note r = release_switching [OF c(1)]
  let ?s = "released L_ptable 0 s1"
  show "release L_ptable s1 = ret ?s" by (rule r(1))
  have "ptable_ok ?s" using ci(1) ptable_ok_frame [of ?s s1] by (simp add: procs_inv_def)
  then show "procs_inv (Some p) ?s"
    by (intro procs_inv_frame [OF ci(1) _ steady_acquired(2)]) simp_all
  show "running 0 p ?s"
    using r(2) c(2-4) by (simp add: idle_cpu_def running_def) (simp add: released_def)
  show "\<forall>l. l \<noteq> L_ptable \<longrightarrow> free_lock l ?s" using ci(2) by (simp add: released_def free_lock_def)
qed

lemma resume_new:
  assumes "kinv (Sched, s)" "chosen p s s1"
  shows "\<exists>s2. forkret s1 = ret s2 \<and> kinv (User p, s2\<lparr>fl_if := True\<rparr>) \<and> procs s2 = procs s1 \<and>
    ticks s2 = ticks s \<and> mem s2 = mem s"
proof -
  note r = release_chosen [OF assms]
  have "forkret_first (released L_ptable 0 s1) = 0" using r(2) by (simp add: procs_inv_def)
  then have "forkret s1 = ret (released L_ptable 0 s1)" using r(1) by (simp add: forkret_def)
  moreover have "kept 0 s s1" using assms(2) by (simp add: chosen_def)
  ultimately show ?thesis using user_mode [OF r(2,3,4)]
    by (intro exI [of _ "released L_ptable 0 s1"]) (simp add: kept_def released_def)
qed

lemma ptable_ok_chan:
  assumes "ptable_ok s" "level s' = level s" "procs s' = (procs s)(p := (procs s p)\<lparr>p_chan := ch\<rparr>)"
  shows "ptable_ok s'"
proof -
  obtain q where q: "queue_inv s q" "\<forall>x<NPROC. x \<in> set q \<longleftrightarrow> schedulable (p_state (procs s x))"
    using assms(1) by (auto simp: ptable_ok_def)
  have "queue_inv s' q" by (rule queue_inv_cong [OF q(1) assms(2)]) (simp add: assms(3))
  with q(2) show ?thesis by (auto simp: ptable_ok_def assms(3))
qed

lemma acquire_locked:
  assumes "on_cpu 0 s" "ncli (cpus s 0) = 0" "fl_if s" "\<forall>l. free_lock l s" "cpu_proc (cpus s 0) = Some p"
  shows "acquire lk s = ret (acquired lk 0 s)" "cpu_inv (Locked p lk) (acquired lk 0 s)"
proof -
  show "acquire lk s = ret (acquired lk 0 s)" using assms(1,4) by (intro acquire_free) (simp_all add: free_lock_def)
  show "cpu_inv (Locked p lk) (acquired lk 0 s)"
    using assms on_cpu_acquired [OF assms(1)]
    by (simp add: cpu_inv_def) (simp add: acquired_def holds_def free_lock_def)
qed

lemma resume_sleep:
  assumes "kinv (Sched, s)" "chosen p s s1"
  shows "\<exists>s2. sleep_leave p lk True s1 = ret s2 \<and> kinv (Locked p lk, s2) \<and> ticks s2 = ticks s \<and> mem s2 = mem s \<and>
    procs s2 = (procs s1)(p := (procs s1 p)\<lparr>p_chan := NoChan\<rparr>)"
proof -
  note ci = chosen_inv [OF assms]
  have c: "switching 0 s1" "cpu_proc (cpus s1 0) = Some p" "p < NPROC" "p_state (procs s1 p) = RUNNING"
    using assms(2) by (simp_all add: chosen_def)
  let ?a = "set_cpu 0 ((cpus s1 0)\<lparr>intena := True\<rparr>) s1"
  define b where "b = upd_proc p (\<lambda>r. r\<lparr>p_chan := NoChan\<rparr>) ?a"
  have sw: "switching 0 b" using switching_intena [OF c(1), of True] by (simp add: b_def switching_def on_cpu_def holds_def upd_proc_def)
  have b: "cpus b 0 = (cpus s1 0)\<lparr>intena := True\<rparr>" "locks b = locks s1" "level b = level s1"
    "procs b = (procs s1)(p := (procs s1 p)\<lparr>p_chan := NoChan\<rparr>)" "ticks b = ticks s1" "mem b = mem s1"
    by (simp_all add: b_def upd_proc_def set_cpu_def)
  have k: "ticks b = ticks s" "mem b = mem s" using assms(2) b(5,6) by (simp_all add: chosen_def kept_def)
  have "ptable_ok b" using ci(1) by (intro ptable_ok_chan [OF _ b(3,4)]) (simp add: procs_inv_def)
  then have pb: "procs_inv (Some p) b"
    by (rule procs_inv_frame [OF ci(1)]) (simp_all add: b_def steady_def upd_proc_def set_cpu_def)
  show ?thesis
  proof (cases "lk = L_ptable")
    case True
    have "cpu_inv (Locked p lk) b"
      using sw ci(2) c(2) True by (simp add: cpu_inv_def switching_def free_lock_def b)
    moreover have "sleep_leave p lk True s1 = ret b"
      using True by (simp add: sleep_leave_def sched_leave_eq [OF c(1)] b_def)
    ultimately show ?thesis using pb k b(4) by (simp add: kinv_def)
  next
    case False
    note r = release_switching [OF sw]
    let ?r = "released L_ptable 0 b"
    have fl: "fl_if ?r" "cpu_proc (cpus ?r 0) = Some p" "ncli (cpus ?r 0) = 0" "on_cpu 0 ?r"
      using sw r(2) c(2) by (simp_all add: idle_cpu_def) (simp_all add: released_def switching_def b)
    have fr: "free_lock l ?r" for l
      using r(2) ci(2) by (cases "l = L_ptable") (simp_all add: idle_cpu_def released_def free_lock_def b)
    note a = acquire_locked [OF fl(4,3,1) _ fl(2), of lk]
    let ?c = "acquired lk 0 ?r"
    have "ptable_ok ?c" using pb ptable_ok_frame [of ?c b] by (simp add: procs_inv_def)
    then have "procs_inv (Some p) ?c"
      by (rule procs_inv_frame [OF pb _ steady_trans [OF steady_acquired(2,1)]]) simp_all
    moreover have "sleep_leave p lk True s1 = ret ?c"
      using False r(1) a(1) fr by (simp add: sleep_leave_def sched_leave_eq [OF c(1)] b_def [symmetric])
    ultimately show ?thesis using a(2) fr k b(4) by (simp add: kinv_def) (simp add: acquired_def released_def)
  qed
qed

section \<open>Leaving the CPU\<close>

lemma back_to_scheduler:
  assumes "procs_inv None s" "switching 0 s" "\<forall>l. l \<noteq> L_ptable \<longrightarrow> free_lock l s"
  shows "\<exists>s'. scheduler_leave 0 s = ret s' \<and> kinv (Sched, s') \<and> procs s' = procs s \<and> ticks s' = ticks s \<and> mem s' = mem s"
proof -
  have "KERNBASE \<le> kpgdir s" using assms(1) by (simp add: procs_inv_def)
  then obtain s' where s': "scheduler_leave 0 s = ret s'" "idle_cpu 0 s'" "procs s' = procs s" "level s' = level s"
    "cpu_proc (cpus s' 0) = None" "kept 0 s s'"
    using scheduler_leave_ok [OF assms(2)] by blast
  have "ptable_ok s'" using assms(1) ptable_ok_frame [of s' s] s'(3,4) by (simp add: procs_inv_def)
  then have "procs_inv None s'"
    by (rule procs_inv_frame [OF assms(1) _ steady_kept [OF s'(6)]]) (simp_all add: s'(3))
  moreover have "free_lock l s'" for l
    using s'(2,6) assms(3) by (cases "l = L_ptable") (simp_all add: idle_cpu_def kept_def free_lock_def)
  ultimately have "kinv (Sched, s')" using s'(2,5) by (simp add: kinv_def cpu_inv_def idle_cpu_def)
  then show ?thesis using s' by (intro exI [of _ s']) (simp add: kept_def)
qed

lemma leave_by_yield:
  assumes "procs_inv (Some p) s" "running 0 p s" "\<forall>l. free_lock l s"
  shows "\<exists>s1 s2 m. yield_enter s = ret s1 \<and> scheduler_leave 0 s1 = ret s2 \<and> kinv (Sched, s2) \<and> ticks s2 = ticks s \<and> mem s2 = mem s \<and>
    resume_at s1 = (resume_at s)(p := In_yield (fl_if s)) \<and>
    procs s2 = (procs s)(p := (procs s p)\<lparr>p_state := RUNNABLE, max_skiplist_level := m,
      virt_deadline := computevd (nice (procs s p)) (sint (ticks s))\<rparr>)"
proof -
  have ok: "ptable_ok s" using assms(1) by (simp add: procs_inv_def)
  obtain s1 m where s1: "yield_enter s = ret s1" "ptable_ok s1" "switching 0 s1"
    "only_queue (acquired L_ptable 0 s) (s1\<lparr>resume_at := resume_at s\<rparr>)"
    "resume_at s1 = (resume_at s)(p := In_yield (fl_if s))"
    "procs s1 = (procs s)(p := (procs s p)\<lparr>p_state := RUNNABLE, max_skiplist_level := m,
      virt_deadline := computevd (nice (procs s p)) (sint (ticks s))\<rparr>)"
    using yield_enter_ok [OF assms(2) ok] by blast
  have "steady s (s1\<lparr>resume_at := resume_at s\<rparr>)"
    by (rule steady_trans [OF steady_acquired(1) steady_only_queue [OF s1(4)]])
  then have st: "kpgdir s1 = kpgdir s" "forkret_first s1 = forkret_first s" by (simp_all add: steady_def)
  have "procs_inv None s1"
    using assms(1) s1(2) st by (auto simp: procs_inv_def spaces_ok_def waiting_def s1(5,6) resume_ok_def)
  moreover have "\<forall>l. l \<noteq> L_ptable \<longrightarrow> free_lock l s1"
    using s1(4) assms(3) by (simp add: only_queue_iff acquired_def free_lock_def)
  ultimately obtain s2 where "scheduler_leave 0 s1 = ret s2" "kinv (Sched, s2)" "procs s2 = procs s1" "ticks s2 = ticks s1" "mem s2 = mem s1"
    using back_to_scheduler [of s1] s1(3) by blast
  moreover have "ticks s1 = ticks s" "mem s1 = mem s" using s1(4) by (simp_all add: only_queue_iff acquired_def)
  ultimately show ?thesis using s1(1,5,6) by auto
qed

lemma leave_by_sleep:
  assumes "kinv (Locked p lk, s)"
  shows "\<exists>s1 s2. sleep_enter ch (Some lk) s = ret s1 \<and> scheduler_leave 0 s1 = ret s2 \<and> kinv (Sched, s2)"
proof -
  have pi: "procs_inv (Some p) s" and ci: "cpu_inv (Locked p lk) s" using assms by (simp_all add: kinv_def)
  then have ok: "ptable_ok s" by (simp add: procs_inv_def)
  obtain s1 where s1: "sleep_enter ch (Some lk) s = ret s1" "ptable_ok s1" "switching 0 s1"
    "only_queue (lock_handed_over 0 lk s) (s1\<lparr>resume_at := resume_at s\<rparr>)"
    "resume_at s1 = (resume_at s)(p := In_sleep lk (intena (cpus s 0)))"
    "procs s1 = (procs s)(p := (procs s p)\<lparr>p_chan := ch, max_skiplist_level := -1, p_state := SLEEPING\<rparr>)"
    using sleep_enter_ok [OF cpu_inv_sleep [OF assms] ok] by blast
  have "steady s (lock_handed_over 0 lk s)" by (simp add: lock_handed_over_def steady_def acquired_def released_def)
  then have "steady s (s1\<lparr>resume_at := resume_at s\<rparr>)" by (rule steady_trans) (rule steady_only_queue [OF s1(4)])
  then have st: "kpgdir s1 = kpgdir s" "forkret_first s1 = forkret_first s" by (simp_all add: steady_def)
  have "procs_inv None s1"
    using pi ci s1(2) st by (auto simp: procs_inv_def spaces_ok_def waiting_def s1(5,6) resume_ok_def cpu_inv_def)
  moreover have "\<forall>l. l \<noteq> L_ptable \<longrightarrow> free_lock l s1"
    using s1(4) ci by (auto simp: only_queue_iff lock_handed_over_def acquired_def released_def free_lock_def cpu_inv_def)
  ultimately show ?thesis using back_to_scheduler [of s1] s1(1,3) by blast
qed

section \<open>Steps of a process\<close>

lemma no_interrupts:
  assumes "kinv (User p, s)"
  shows "procs_inv (Some p) (s\<lparr>fl_if := False\<rparr>)" "running 0 p (s\<lparr>fl_if := False\<rparr>)" "\<forall>l. free_lock l (s\<lparr>fl_if := False\<rparr>)"
proof -
  let ?s = "s\<lparr>fl_if := False\<rparr>"
  have pi: "procs_inv (Some p) s" using assms by (simp add: kinv_def)
  then have "ptable_ok ?s" using ptable_ok_frame [of ?s s] by (simp add: procs_inv_def)
  then show "procs_inv (Some p) ?s" by (rule procs_inv_frame [OF pi]) (simp_all add: steady_def)
  show "running 0 p ?s" using cpu_inv_running [OF assms] by (simp add: running_def on_cpu_def free_lock_def)
  show "\<forall>l. free_lock l ?s" using assms by (simp add: kinv_def cpu_inv_def free_lock_def)
qed

lemma tick_user:
  fixes s :: "'a traps_scheme"
  assumes "kinv (User p, s)" "timer_frame tf s"
  shows "\<exists>g. awakes C_ticks (charged p (procs s)) g \<and>
    (if ticks_left (charged p (procs s) p) \<noteq> 0
     then \<exists>s1. trap tf (s\<lparr>fl_if := False\<rparr>) = ret (True, s1) \<and> kinv (User p, s1\<lparr>fl_if := True\<rparr>) \<and>
       ticks s1 = ticks s + 1 \<and> mem s1 = mem s \<and> procs s1 = g
     else \<exists>s1 s2 m. trap tf (s\<lparr>fl_if := False\<rparr>) = ret (False, s1) \<and> scheduler_leave 0 s1 = ret s2 \<and> kinv (Sched, s2) \<and>
       resume_at s1 p = In_yield False \<and> ticks s2 = ticks s + 1 \<and> mem s2 = mem s \<and>
       procs s2 = g(p := (g p)\<lparr>p_state := RUNNABLE, max_skiplist_level := m,
         virt_deadline := computevd (nice (g p)) (sint (ticks s + 1))\<rparr>))"
proof -
  let ?s = "s\<lparr>fl_if := False\<rparr>"
  note n = no_interrupts [OF assms(1)]
  have ok: "ptable_ok ?s" and kl: "p_killed (procs ?s p) = 0" and st: "p_state (procs ?s p) = RUNNING"
    using n(1) by (auto simp: procs_inv_def)
  have nf: "\<not> fl_if ?s" and tf: "timer_frame tf ?s" using assms(2) by (simp_all add: timer_frame_def)
  obtain s1 where s1: "ptable_ok s1" "running 0 p s1" "same_cpu (settle 0 ?s) s1" "steady ?s s1" "ticks s1 = ticks ?s + 1"
    "awakes C_ticks (charged p (procs ?s)) (procs s1)"
    "trap tf ?s = (if ticks_left (procs s1 p) = 0 then rbind (yield_enter s1) (\<lambda>s. ret (False, s)) else ret (True, s1))"
    using trap_tick [OF n(2) nf n(3) [rule_format] ok kl tf] by metis
  have p1: "procs s1 p = charged p (procs s) p" using awakes_other [OF s1(6)] st by (simp add: charged_def)
  have pi: "procs_inv (Some p) s1"
    by (rule procs_inv_awakes [OF n(1) s1(1,4,6)]) (simp add: charged_def)
  have fr: "\<forall>l. free_lock l s1" using same_cpu_free_lock [OF s1(3)] n(3) by simp
  have nfl: "fl_if s1 = False" using s1(3) by (simp add: same_cpu_def)
  show ?thesis
  proof (cases "ticks_left (charged p (procs s) p) = 0")
    case False
    then have "trap tf ?s = ret (True, s1)" using s1(7) p1 by simp
    moreover have "kinv (User p, s1\<lparr>fl_if := True\<rparr>)" using user_mode [OF pi s1(2)] fr by blast
    moreover have "mem s1 = mem s" using s1(4) by (simp add: steady_def)
    ultimately show ?thesis using s1(5,6) False by (intro exI [of _ "procs s1"]) auto
  next
    case True
    obtain s2 s3 m where y: "yield_enter s1 = ret s2" "scheduler_leave 0 s2 = ret s3" "kinv (Sched, s3)"
      "ticks s3 = ticks s1" "mem s3 = mem s1" "resume_at s2 = (resume_at s1)(p := In_yield (fl_if s1))"
      "procs s3 = (procs s1)(p := (procs s1 p)\<lparr>p_state := RUNNABLE, max_skiplist_level := m,
        virt_deadline := computevd (nice (procs s1 p)) (sint (ticks s1))\<rparr>)"
      using leave_by_yield [OF pi s1(2) fr] by blast
    have "trap tf ?s = ret (False, s2)" using s1(7) p1 y(1) True by simp
    moreover have "ticks s1 = ticks s + 1" "mem s1 = mem s" using s1(4,5) by (simp_all add: steady_def)
    ultimately show ?thesis using s1(6) y True nfl
      by (intro exI [of _ "procs s1"]) (auto intro!: exI [of _ m])
  qed
qed

lemma tick_sched:
  assumes "kinv (Sched, s)" "timer_frame tf s"
  shows "\<exists>s1. trap tf (s\<lparr>fl_if := False\<rparr>) = ret (True, s1) \<and> kinv (Sched, s1\<lparr>fl_if := True\<rparr>)"
proof -
  let ?s = "s\<lparr>fl_if := False\<rparr>"
  have pi: "procs_inv None s" and ci: "cpu_inv Sched s" using assms(1) by (simp_all add: kinv_def)
  then have ok: "ptable_ok ?s" using ptable_ok_frame [of ?s s] by (simp add: procs_inv_def)
  have on: "on_cpu 0 ?s" "\<not> fl_if ?s" "free_lock L_ticks ?s" "free_lock L_ptable ?s" "cpu_proc (cpus ?s 0) = None" "timer_frame tf ?s"
    using ci assms(2) by (simp_all add: cpu_inv_def on_cpu_def free_lock_def timer_frame_def)
  obtain s1 where s1: "ptable_ok s1" "same_cpu (settle 0 ?s) s1" "steady ?s s1"
    "awakes C_ticks (procs ?s) (procs s1)" "trap tf ?s = ret (True, s1)"
    using trap_idle [OF on(1-4) ok on(5,6)] by metis
  let ?t = "s1\<lparr>fl_if := True\<rparr>"
  have "ptable_ok ?t" using s1(1) ptable_ok_frame [of ?t s1] by simp
  then have "procs_inv None ?t"
    by (rule procs_inv_awakes [OF pi]) (use s1(3,4) in \<open>simp_all add: steady_def\<close>)
  moreover have "cpu_inv Sched ?t"
    using ci s1(2) by (simp add: cpu_inv_def same_cpu_def on_cpu_def free_lock_def) (simp add: settle_def)
  ultimately show ?thesis using s1(5) by (simp add: kinv_def)
qed

lemma step_lock:
  assumes "kinv (User p, s)"
  shows "\<exists>s'. acquire lk s = ret s' \<and> kinv (Locked p lk, s')"
proof -
  have pi: "procs_inv (Some p) s" and ci: "cpu_inv (User p) s" using assms by (simp_all add: kinv_def)
  then have "on_cpu 0 s" "ncli (cpus s 0) = 0" "fl_if s" "\<forall>l. free_lock l s" "cpu_proc (cpus s 0) = Some p"
    by (simp_all add: cpu_inv_def)
  note a = acquire_locked [OF this, of lk]
  have "ptable_ok (acquired lk 0 s)" using pi ptable_ok_frame [of "acquired lk 0 s" s] by (simp add: procs_inv_def)
  then have "procs_inv (Some p) (acquired lk 0 s)" by (rule procs_inv_frame [OF pi _ steady_acquired(1)]) simp_all
  with a show ?thesis by (simp add: kinv_def)
qed

lemma step_unlock:
  assumes "kinv (Locked p lk, s)"
  shows "\<exists>s'. release lk s = ret s' \<and> kinv (User p, s') \<and> procs s' = procs s \<and> ticks s' = ticks s \<and> mem s' = mem s"
proof -
  have pi: "procs_inv (Some p) s" and ci: "cpu_inv (Locked p lk) s" using assms by (simp_all add: kinv_def)
  let ?s = "released lk 0 s"
  have r: "release lk s = ret ?s" "on_cpu 0 ?s"
    using ci release_held [of 0 s lk] on_cpu_released [of 0 s lk] by (simp_all add: cpu_inv_def)
  have "ptable_ok ?s" using pi ptable_ok_frame [of ?s s] by (simp add: procs_inv_def)
  then have "procs_inv (Some p) ?s" by (rule procs_inv_frame [OF pi _ steady_acquired(2)]) simp_all
  moreover have "free_lock l ?s" for l using ci by (cases "l = lk") (simp_all add: cpu_inv_def released_def free_lock_def)
  ultimately have "kinv (User p, ?s)"
    using ci r(2) by (simp add: kinv_def cpu_inv_def) (simp add: released_def)
  with r(1) show ?thesis by (intro exI [of _ ?s]) (simp add: released_def)
qed

lemma step_wake:
  assumes "kinv (m, s)" "m = User p \<or> m = Locked p lk \<and> lk \<noteq> L_ptable"
  shows "\<exists>s'. wakeup ch s = ret s' \<and> kinv (m, s') \<and> awakes ch (procs s) (procs s')"
proof -
  have pi: "procs_inv (Some p) s" and ci: "cpu_inv m s" and mp: "mode_proc m = Some p"
    using assms by (auto simp: kinv_def)
  have on: "on_cpu 0 s" "free_lock L_ptable s" using ci assms(2) by (auto simp: cpu_inv_def)
  have ok: "ptable_ok s" using pi by (simp add: procs_inv_def)
  obtain s' where s': "wakeup ch s = ret s'" "ptable_ok s'" "only_queue (settle 0 s) s'" "awakes ch (procs s) (procs s')"
    using wakeup_ok [OF on ok, of ch] unfolding awakes_def by blast
  have "procs_inv (Some p) s'"
    by (rule procs_inv_awakes [OF pi s'(2) steady_trans [OF steady_acquired(3) steady_only_queue [OF s'(3)]] s'(4)]) simp
  moreover have sc: "same_cpu (settle 0 s) s'" by (rule same_cpu_only_queue [OF s'(3)])
  have "on_cpu 0 s'" using same_cpu_on_cpu [OF sc] on(1) by simp
  then have "cpu_inv m s'"
    using ci assms(2) sc by (auto simp: cpu_inv_def same_cpu_def free_lock_def holds_def settle_def)
  ultimately show ?thesis using s'(1,4) mp by (auto simp: kinv_def)
qed

end
