(* ===== verification/SystemProps.thy ===== *)
theory SystemProps
  imports System
begin

text \<open>
  The properties of the transition system of the theory \<open>System\<close>: every reachable state satisfies its
  invariant, no step can end in a panic or get stuck, a time slice lasts exactly its quantum, and a process
  that is ready to run gets the CPU after a bounded number of slices.
\<close>

section \<open>Reachable states\<close>

lemma kstep_kinv:
  assumes "kstep x y" "kinv x"
  shows "kinv y"
  using assms
proof (induction rule: kstep.induct)
  case (idle s s')
  then show ?case using scheduler_choice [OF idle.prems] by auto
next
  case (dispatch s p s1 en s2)
  then have "chosen p s s1" using scheduler_choice [OF dispatch.prems] by auto
  then show ?case using resume_yield [OF dispatch.prems, of p s1 en] dispatch.hyps by auto
next
  case (dispatch_new s p s1 s2)
  then have "chosen p s s1" using scheduler_choice [OF dispatch_new.prems] by auto
  then show ?case using resume_new [OF dispatch_new.prems, of p s1] dispatch_new.hyps by auto
next
  case (dispatch_woken s p s1 lk en s2)
  then have c: "chosen p s s1" using scheduler_choice [OF dispatch_woken.prems] by auto
  then have "en" using chosen_inv(3) [OF dispatch_woken.prems c] dispatch_woken.hyps by (simp add: resume_ok_def)
  then show ?case using resume_sleep [OF dispatch_woken.prems c, of lk] dispatch_woken.hyps by auto
next
  case (tick_idle tf s s')
  then show ?case using tick_sched [OF tick_idle.prems tick_idle.hyps(1)] by auto
next
  case (tick tf s s' p)
  then show ?case using tick_user [OF tick.prems tick.hyps(1)] by (auto split: if_splits)
next
  case (preempt tf s s1 s' p)
  then show ?case using tick_user [OF preempt.prems preempt.hyps(1)] by (auto split: if_splits)
next
  case (yields s s1 s' p)
  then have "procs_inv (Some p) s" "\<forall>l. free_lock l s" by (simp_all add: kinv_def cpu_inv_def)
  then show ?case using leave_by_yield [OF _ cpu_inv_running [OF yields.prems]] yields.hyps by auto
next
  case (lock lk s s' p)
  then show ?case using step_lock [OF lock.prems, of lk] by auto
next
  case (unlock lk s s' p)
  then show ?case using step_unlock [OF unlock.prems] by auto
next
  case (wake ch s s' p)
  then show ?case using step_wake [OF wake.prems, of p _ ch] by auto
next
  case (wake_locked lk ch s s' p)
  then show ?case using step_wake [OF wake_locked.prems, of p lk ch] by auto
next
  case (sleep ch lk s s1 s' p)
  then show ?case using leave_by_sleep [OF sleep.prems, of ch] by auto
qed

lemma reachable_kinv: "kstep\<^sup>*\<^sup>* x y \<Longrightarrow> kinv x \<Longrightarrow> kinv y"
  by (induction rule: rtranclp_induct) (auto intro: kstep_kinv)

text \<open>What the kernel may do next in a state neither panics nor fails to return.\<close>

definition resumed :: "nat \<Rightarrow> 'a traps_scheme \<Rightarrow> 'a traps_scheme res" where
  "resumed p s = (case resume_at s p of At_forkret \<Rightarrow> forkret s | In_yield en \<Rightarrow> yield_leave en s
     | In_sleep lk en \<Rightarrow> sleep_leave p lk en s | In_exit en \<Rightarrow> panic ''zombie exit'')"

fun no_panic :: "mode \<times> 'a traps_scheme \<Rightarrow> bool" where
  "no_panic (Sched, s) \<longleftrightarrow>
     (\<exists>r s1. scheduler_enter 0 s = ret (r, s1) \<and> (\<forall>p. r = Some p \<longrightarrow> (\<exists>s2. resumed p s1 = ret s2))) \<and>
     (\<forall>tf. timer_frame tf s \<longrightarrow> (\<exists>s1. trap tf (s\<lparr>fl_if := False\<rparr>) = ret (True, s1)))"
| "no_panic (User p, s) \<longleftrightarrow>
     (\<forall>tf. timer_frame tf s \<longrightarrow> (\<exists>b s1. trap tf (s\<lparr>fl_if := False\<rparr>) = ret (b, s1) \<and>
       (\<not> b \<longrightarrow> (\<exists>s2. scheduler_leave 0 s1 = ret s2)))) \<and>
     (\<exists>s1 s2. yield_enter s = ret s1 \<and> scheduler_leave 0 s1 = ret s2) \<and>
     (\<forall>lk. \<exists>s1. acquire lk s = ret s1) \<and> (\<forall>ch. \<exists>s1. wakeup ch s = ret s1)"
| "no_panic (Locked p lk, s) \<longleftrightarrow>
     (\<exists>s1. release lk s = ret s1) \<and> (lk \<noteq> L_ptable \<longrightarrow> (\<forall>ch. \<exists>s1. wakeup ch s = ret s1)) \<and>
     (\<forall>ch. \<exists>s1 s2. sleep_enter ch (Some lk) s = ret s1 \<and> scheduler_leave 0 s1 = ret s2)"

lemma resumed_ok:
  assumes "kinv (Sched, s)" "chosen p s s1"
  shows "\<exists>s2. resumed p s1 = ret s2"
proof -
  have "resume_ok (resume_at s1 p)" by (rule chosen_inv(3) [OF assms])
  then show ?thesis
    using resume_yield [OF assms] resume_new [OF assms] resume_sleep [OF assms]
    by (cases "resume_at s1 p") (auto simp: resumed_def resume_ok_def)
qed

lemma kinv_no_panic:
  assumes "kinv (m, s)"
  shows "no_panic (m, s)"
proof (cases m)
  case Sched
  with assms have k: "kinv (Sched, s)" by simp
  have "\<exists>r s1. scheduler_enter 0 s = ret (r, s1) \<and> (\<forall>p. r = Some p \<longrightarrow> (\<exists>s2. resumed p s1 = ret s2))"
    using scheduler_choice [OF k] resumed_ok [OF k] by fastforce
  moreover have "\<exists>s1. trap tf (s\<lparr>fl_if := False\<rparr>) = ret (True, s1)" if "timer_frame tf s" for tf
    using tick_sched [OF k that] by blast
  ultimately show ?thesis using Sched by simp
next
  case (User p)
  with assms have k: "kinv (User p, s)" by simp
  have "\<exists>b s1. trap tf (s\<lparr>fl_if := False\<rparr>) = ret (b, s1) \<and> (\<not> b \<longrightarrow> (\<exists>s2. scheduler_leave 0 s1 = ret s2))"
    if "timer_frame tf s" for tf
    using tick_user [OF k that] by (auto split: if_splits)
  moreover have "procs_inv (Some p) s" "\<forall>l. free_lock l s" using k by (simp_all add: kinv_def cpu_inv_def)
  then have "\<exists>s1 s2. yield_enter s = ret s1 \<and> scheduler_leave 0 s1 = ret s2"
    using leave_by_yield [OF _ cpu_inv_running [OF k]] by blast
  ultimately show ?thesis using User step_lock [OF k] step_wake [OF k, of p] by fastforce
next
  case (Locked p lk)
  with assms have k: "kinv (Locked p lk, s)" by simp
  show ?thesis using Locked step_unlock [OF k] step_wake [OF k, of p lk] leave_by_sleep [OF k] by fastforce
qed

lemma kdemo_kinv: "kinv (User 0, kdemo)"
proof -
  have "procs_inv (Some 0) kdemo"
    using kdemo_ptable_ok demo_spaces
    by (auto simp: procs_inv_def spaces_ok_def kdemo_def kernel_of_def demo_def demo_procs_def blank_proc_def
        waiting_def resume_ok_def KERNBASE_def NPROC_def)
  moreover have "cpu_inv (User 0) kdemo"
    using kdemo_running by (simp add: cpu_inv_def running_def) (simp add: kdemo_def demo_def)
  ultimately show ?thesis by (simp add: kinv_def)
qed





section \<open>Time slices\<close>

text \<open>
  A process that computes: it only takes clock ticks until it is preempted. A slice is the dispatch of a
  process that then computes; one that was woken first gives up the lock it had gone to sleep with.
\<close>

inductive busy :: "nat \<Rightarrow> 'a traps_scheme \<Rightarrow> 'a traps_scheme \<Rightarrow> bool" for p where
  busy_tick: "timer_frame tf s \<Longrightarrow> trap tf (s\<lparr>fl_if := False\<rparr>) = ret (True, s1) \<Longrightarrow>
    busy p (s1\<lparr>fl_if := True\<rparr>) s' \<Longrightarrow> busy p s s'"
| busy_end: "timer_frame tf s \<Longrightarrow> trap tf (s\<lparr>fl_if := False\<rparr>) = ret (False, s1) \<Longrightarrow>
    scheduler_leave 0 s1 = ret s' \<Longrightarrow> busy p s s'"

inductive slice :: "nat \<Rightarrow> 'a traps_scheme \<Rightarrow> 'a traps_scheme \<Rightarrow> bool" for p where
  slice: "kstep (Sched, s) (User p, s1) \<Longrightarrow> busy p s1 s' \<Longrightarrow> slice p s s'"
| slice_woken: "kstep (Sched, s) (Locked p lk, s1) \<Longrightarrow> release lk s1 = ret s2 \<Longrightarrow> busy p s2 s' \<Longrightarrow> slice p s s'"

fun slices :: "nat list \<Rightarrow> 'a traps_scheme \<Rightarrow> 'a traps_scheme \<Rightarrow> bool" where
  "slices [] s s' \<longleftrightarrow> s' = s"
| "slices (p # ps) s s' \<longleftrightarrow> (\<exists>s1. slice p s s1 \<and> slices ps s1 s')"

text \<open>The processes other than \<open>p\<close> keep their deadlines, and the ready ones stay ready.\<close>

definition others :: "nat \<Rightarrow> (nat \<Rightarrow> proc) \<Rightarrow> (nat \<Rightarrow> proc) \<Rightarrow> bool" where
  "others p f g \<longleftrightarrow> (\<forall>x. nice (g x) = nice (f x) \<and> (x \<noteq> p \<longrightarrow> virt_deadline (g x) = virt_deadline (f x) \<and>
     waiting (p_state (g x)) = waiting (p_state (f x)) \<and> (p_state (f x) = RUNNABLE \<longrightarrow> p_state (g x) = RUNNABLE)))"

lemma others_trans: "others p f g \<Longrightarrow> others p g h \<Longrightarrow> others p f h"
  by (simp add: others_def)

lemma awakes_others:
  assumes "awakes ch (charged p f) g"
  shows "others p f g"
  unfolding others_def
proof
  fix x
  have c: "nice (charged p f x) = nice (f x)" "x \<noteq> p \<Longrightarrow> charged p f x = f x" by (simp_all add: charged_def)
  show "nice (g x) = nice (f x) \<and> (x \<noteq> p \<longrightarrow> virt_deadline (g x) = virt_deadline (f x) \<and>
     waiting (p_state (g x)) = waiting (p_state (f x)) \<and> (p_state (f x) = RUNNABLE \<longrightarrow> p_state (g x) = RUNNABLE))"
    using c by (cases rule: awakes_cases [OF assms, of x]) (auto simp: waiting_def)
qed

definition ran :: "nat \<Rightarrow> 'a traps_scheme \<Rightarrow> 'a traps_scheme \<Rightarrow> bool" where
  "ran p s s' \<longleftrightarrow> kinv (Sched, s') \<and> mem s' = mem s \<and> others p (procs s) (procs s') \<and> p_state (procs s' p) = RUNNABLE \<and>
     virt_deadline (procs s' p) = computevd (nice (procs s p)) (sint (ticks s'))"

lemma tick_left:
  fixes s :: "'a traps_scheme"
  assumes "kinv (User p, s)" "timer_frame tf s" "1 \<le> ticks_left (procs s p)" "ticks_left (procs s p) \<le> 50"
  shows "if ticks_left (procs s p) = 1
    then \<exists>s1 s2. trap tf (s\<lparr>fl_if := False\<rparr>) = ret (False, s1) \<and> scheduler_leave 0 s1 = ret s2 \<and>
      ran p s s2 \<and> ticks s2 = ticks s + 1
    else \<exists>s1. trap tf (s\<lparr>fl_if := False\<rparr>) = ret (True, s1) \<and> kinv (User p, s1\<lparr>fl_if := True\<rparr>) \<and>
      ticks s1 = ticks s + 1 \<and> mem s1 = mem s \<and> others p (procs s) (procs s1) \<and>
      ticks_left (procs s1 p) = ticks_left (procs s p) - 1"
proof -
  have r: "s32 (ticks_left (procs s p) - 1) = ticks_left (procs s p) - 1"
    using assms(3,4) by (simp add: s32_def)
  have c: "ticks_left (charged p (procs s) p) = ticks_left (procs s p) - 1" by (simp add: charged_def r)
  have run: "p_state (procs s p) = RUNNING" using cpu_inv_running [OF assms(1)] by (simp add: running_def)
  obtain g where g: "awakes C_ticks (charged p (procs s)) g"
    and t: "if ticks_left (charged p (procs s) p) \<noteq> 0
     then \<exists>s1. trap tf (s\<lparr>fl_if := False\<rparr>) = ret (True, s1) \<and> kinv (User p, s1\<lparr>fl_if := True\<rparr>) \<and>
       ticks s1 = ticks s + 1 \<and> mem s1 = mem s \<and> procs s1 = g
     else \<exists>s1 s2 m. trap tf (s\<lparr>fl_if := False\<rparr>) = ret (False, s1) \<and> scheduler_leave 0 s1 = ret s2 \<and> kinv (Sched, s2) \<and>
       resume_at s1 p = In_yield False \<and> ticks s2 = ticks s + 1 \<and> mem s2 = mem s \<and>
       procs s2 = g(p := (g p)\<lparr>p_state := RUNNABLE, max_skiplist_level := m,
         virt_deadline := computevd (nice (g p)) (sint (ticks s + 1))\<rparr>)"
    using tick_user [OF assms(1,2)] by blast
  have gp: "g p = charged p (procs s) p" using awakes_other [OF g] run by (simp add: charged_def)
  have o: "others p (procs s) g" by (rule awakes_others [OF g])
  show ?thesis
  proof (cases "ticks_left (procs s p) = 1")
    case True
    then obtain s1 s2 m where s2: "trap tf (s\<lparr>fl_if := False\<rparr>) = ret (False, s1)" "scheduler_leave 0 s1 = ret s2"
      "kinv (Sched, s2)" "ticks s2 = ticks s + 1" "mem s2 = mem s"
      "procs s2 = g(p := (g p)\<lparr>p_state := RUNNABLE, max_skiplist_level := m,
         virt_deadline := computevd (nice (g p)) (sint (ticks s + 1))\<rparr>)"
      using t c by auto
    have "nice (g p) = nice (procs s p)" using o by (simp add: others_def)
    then have "ran p s s2" using s2(3-6) o by (simp add: ran_def others_def)
    then show ?thesis using s2(1,2,4) True by auto
  next
    case False
    then obtain s1 where "trap tf (s\<lparr>fl_if := False\<rparr>) = ret (True, s1)" "kinv (User p, s1\<lparr>fl_if := True\<rparr>)"
      "ticks s1 = ticks s + 1" "mem s1 = mem s" "procs s1 = g"
      using t c by auto
    then show ?thesis using False o gp c by auto
  qed
qed

lemma timer_frame_mem: "mem s' = mem s \<Longrightarrow> timer_frame tf s' = timer_frame tf s"
  by (simp add: timer_frame_def)

lemma busy_result:
  fixes s :: "'a traps_scheme"
  assumes "busy p s s'" "kinv (User p, s)" "1 \<le> ticks_left (procs s p)" "ticks_left (procs s p) \<le> 50"
  shows "ran p s s' \<and> ticks s' = ticks s + of_int (ticks_left (procs s p))"
  using assms
proof (induction rule: busy.induct)
  case (busy_tick tf s s1 s')
  note tl = tick_left [OF busy_tick.prems(1) busy_tick.hyps(1) busy_tick.prems(2,3)]
  have n1: "ticks_left (procs s p) \<noteq> 1" using tl busy_tick.hyps(2) by (auto split: if_splits)
  let ?t = "s1\<lparr>fl_if := True\<rparr>"
  have f: "kinv (User p, ?t)" "ticks ?t = ticks s + 1" "mem ?t = mem s" "others p (procs s) (procs ?t)"
    "ticks_left (procs ?t p) = ticks_left (procs s p) - 1"
    using tl n1 busy_tick.hyps(2) by auto
  have ih: "ran p ?t s'" "ticks s' = ticks ?t + of_int (ticks_left (procs ?t p))"
    using busy_tick.IH [OF f(1)] f(5) busy_tick.prems(2,3) n1 by auto
  have "nice (procs ?t p) = nice (procs s p)" using f(4) by (simp add: others_def)
  then have "ran p s s'" using ih(1) f(3) others_trans [OF f(4)] unfolding ran_def by auto
  moreover have "ticks s' = ticks s + of_int (ticks_left (procs s p))"
    unfolding ih(2) f(2) f(5) by simp
  ultimately show ?case by blast
next
  case (busy_end tf s s1 s')
  note tl = tick_left [OF busy_end.prems(1) busy_end.hyps(1) busy_end.prems(2,3)]
  have "ticks_left (procs s p) = 1" using tl busy_end.hyps(2) by (auto split: if_splits)
  then show ?case using tl busy_end.hyps(2,3) by auto
qed

lemma busy_exists:
  fixes s :: "'a traps_scheme"
  assumes "kinv (User p, s)" "timer_frame tf s" "1 \<le> ticks_left (procs s p)" "ticks_left (procs s p) \<le> 50"
  shows "\<exists>s'. busy p s s'"
  using assms
proof (induction "nat (ticks_left (procs s p))" arbitrary: s)
  case 0
  then show ?case by simp
next
  case (Suc n)
  note tl = tick_left [OF Suc.prems]
  show ?case
  proof (cases "ticks_left (procs s p) = 1")
    case True
    then show ?thesis using tl busy_end [OF Suc.prems(2)] by auto
  next
    case False
    then obtain s1 where s1: "trap tf (s\<lparr>fl_if := False\<rparr>) = ret (True, s1)" "kinv (User p, s1\<lparr>fl_if := True\<rparr>)"
      "mem s1 = mem s" "ticks_left (procs s1 p) = ticks_left (procs s p) - 1"
      using tl by auto
    let ?t = "s1\<lparr>fl_if := True\<rparr>"
    have "timer_frame tf ?t" using Suc.prems(2) s1(3) by (simp add: timer_frame_def)
    moreover have "n = nat (ticks_left (procs ?t p))" "1 \<le> ticks_left (procs ?t p)" "ticks_left (procs ?t p) \<le> 50"
      using s1(4) Suc.hyps(2) Suc.prems(3,4) False by simp_all
    ultimately obtain s' where "busy p ?t s'" using Suc.hyps(1) [of ?t] s1(2) by blast
    then show ?thesis using busy_tick [OF Suc.prems(2) s1(1)] by blast
  qed
qed

text \<open>The process that starts a slice is the ready one with the earliest deadline, and has a full quantum.\<close>

definition starts :: "nat \<Rightarrow> 'a traps_scheme \<Rightarrow> 'a traps_scheme \<Rightarrow> bool" where
  "starts p s s1 \<longleftrightarrow> p < NPROC \<and> p_state (procs s p) = RUNNABLE \<and>
     (\<forall>r<NPROC. p_state (procs s r) = RUNNABLE \<longrightarrow> virt_deadline (procs s p) \<le> virt_deadline (procs s r)) \<and>
     kinv (User p, s1) \<and> ticks s1 = ticks s \<and> mem s1 = mem s \<and> others p (procs s) (procs s1) \<and>
     ticks_left (procs s1 p) = 50"

lemma chosen_starts:
  assumes "chosen p s s0" "kinv (User p, s1)" "procs s1 = procs s0 \<or> procs s1 = (procs s0)(p := (procs s0 p)\<lparr>p_chan := NoChan\<rparr>)"
    "ticks s1 = ticks s" "mem s1 = mem s"
  shows "starts p s s1"
proof -
  have "procs s0 = (procs s)(p := (procs s p)\<lparr>p_state := RUNNING, ticks_left := BFS_DEFAULT_QUANTUM\<rparr>)"
    using assms(1) by (simp add: chosen_def)
  then have "others p (procs s) (procs s1)" "ticks_left (procs s1 p) = 50"
    using assms(3) by (auto simp: others_def BFS_DEFAULT_QUANTUM_def)
  with assms show ?thesis by (simp add: starts_def chosen_def)
qed

lemma dispatch_starts:
  assumes "kstep (Sched, s) (User p, s1)" "kinv (Sched, s)"
  shows "starts p s s1"
  using assms(1)
proof cases
  case (dispatch s0 en s2)
  then have c: "chosen p s s0" using scheduler_choice [OF assms(2)] by auto
  show ?thesis using resume_yield [OF assms(2) c, of en] dispatch by (intro chosen_starts [OF c]) auto
next
  case (dispatch_new s0 s2)
  then have c: "chosen p s s0" using scheduler_choice [OF assms(2)] by auto
  show ?thesis using resume_new [OF assms(2) c] dispatch_new by (intro chosen_starts [OF c]) auto
qed

lemma woken_starts:
  assumes "kstep (Sched, s) (Locked p lk, s1)" "kinv (Sched, s)" "release lk s1 = ret s2"
  shows "starts p s s2"
  using assms(1)
proof cases
  case (dispatch_woken s0 en)
  then have c: "chosen p s s0" using scheduler_choice [OF assms(2)] by auto
  have en using chosen_inv(3) [OF assms(2) c] dispatch_woken by (simp add: resume_ok_def)
  then have l: "kinv (Locked p lk, s1)" "ticks s1 = ticks s" "mem s1 = mem s"
    "procs s1 = (procs s0)(p := (procs s0 p)\<lparr>p_chan := NoChan\<rparr>)"
    using resume_sleep [OF assms(2) c, of lk] dispatch_woken by auto
  show ?thesis using step_unlock [OF l(1)] l(2-4) assms(3) by (intro chosen_starts [OF c]) auto
qed

definition sliced :: "nat \<Rightarrow> 'a traps_scheme \<Rightarrow> 'a traps_scheme \<Rightarrow> bool" where
  "sliced p s s' \<longleftrightarrow> p < NPROC \<and> p_state (procs s p) = RUNNABLE \<and>
     (\<forall>r<NPROC. p_state (procs s r) = RUNNABLE \<longrightarrow> virt_deadline (procs s p) \<le> virt_deadline (procs s r)) \<and>
     ran p s s' \<and> ticks s' = ticks s + 50"

lemma starts_busy:
  fixes s :: "'a traps_scheme"
  assumes "starts p s s1" "busy p s1 s'"
  shows "sliced p s s'"
proof -
  have st: "kinv (User p, s1)" "ticks_left (procs s1 p) = 50" "others p (procs s) (procs s1)" "mem s1 = mem s" "ticks s1 = ticks s"
    using assms(1) by (simp_all add: starts_def)
  have b: "ran p s1 s'" "ticks s' = ticks s1 + 50"
    using busy_result [OF assms(2) st(1)] st(2) by auto
  have "nice (procs s1 p) = nice (procs s p)" using st(3) by (simp add: others_def)
  then have "ran p s s'" using b(1) st(4) others_trans [OF st(3)] unfolding ran_def by auto
  then show ?thesis using assms(1) b(2) st(5) by (simp add: starts_def sliced_def)
qed

lemma slice_result:
  fixes s :: "'a traps_scheme"
  assumes "slice p s s'" "kinv (Sched, s)"
  shows "sliced p s s'"
  using assms(1)
proof cases
  case (slice s1)
  then show ?thesis using starts_busy dispatch_starts assms(2) by blast
next
  case (slice_woken lk s1 s2)
  then show ?thesis using starts_busy woken_starts assms(2) by blast
qed

lemma slice_exists:
  fixes s :: "'a traps_scheme"
  assumes "kinv (Sched, s)" "timer_frame tf s" "r < NPROC" "p_state (procs s r) = RUNNABLE"
  shows "\<exists>p s'. slice p s s'"
proof -
  obtain p s0 where c: "scheduler_enter 0 s = ret (Some p, s0)" "chosen p s s0"
    using scheduler_choice [OF assms(1)] assms(3,4) by blast
  have b: "\<exists>s'. busy p s1 s'" if "starts p s s1" for s1
    using that assms(2) by (intro busy_exists [of p s1 tf]) (auto simp: starts_def timer_frame_def)
  obtain s2 where s2: "resumed p s0 = ret s2" using resumed_ok [OF assms(1) c(2)] by blast
  show ?thesis
  proof (cases "resume_at s0 p")
    case At_forkret
    then have k: "kstep (Sched, s) (User p, s2\<lparr>fl_if := True\<rparr>)" using c(1) s2 by (intro dispatch_new) (simp_all add: resumed_def)
    then show ?thesis using b [OF dispatch_starts [OF k assms(1)]] slice by blast
  next
    case (In_yield en)
    then have k: "kstep (Sched, s) (User p, s2\<lparr>fl_if := True\<rparr>)" using c(1) s2 by (intro dispatch) (simp_all add: resumed_def)
    then show ?thesis using b [OF dispatch_starts [OF k assms(1)]] slice by blast
  next
    case (In_sleep lk en)
    then have k: "kstep (Sched, s) (Locked p lk, s2)" using c(1) s2 by (intro dispatch_woken) (simp_all add: resumed_def)
    obtain s3 where r: "release lk s2 = ret s3" using step_unlock [OF kstep_kinv [OF k assms(1)]] by blast
    show ?thesis using b [OF woken_starts [OF k assms(1) r]] slice_woken [OF k r] by blast
  next
    case (In_exit en)
    then show ?thesis using chosen_inv(3) [OF assms(1) c(2)] by (simp add: resume_ok_def)
  qed
qed

section \<open>No starvation\<close>

text \<open>The processes that may run before \<open>r\<close> does, and a bound for the number of slices until then.\<close>

definition ahead :: "nat \<Rightarrow> 'a traps_scheme \<Rightarrow> nat set" where
  "ahead r s = {q. q < NPROC \<and> waiting (p_state (procs s q)) \<and> virt_deadline (procs s q) \<le> virt_deadline (procs s r)}"

definition slices_bound :: "nat \<Rightarrow> 'a traps_scheme \<Rightarrow> nat" where
  "slices_bound r s = card (ahead r s) +
     (if virt_deadline (procs s r) \<le> sint (ticks s) then 0 else nat (virt_deadline (procs s r) - sint (ticks s)) div 50 + 1)"

definition nice_ok :: "'a traps_scheme \<Rightarrow> bool" where
  "nice_ok s \<longleftrightarrow> (\<forall>q<NPROC. -20 \<le> nice (procs s q) \<and> nice (procs s q) \<le> 19)"

lemma finite_ahead [simp]: "finite (ahead r s)"
  by (rule finite_subset [of _ "{..<NPROC}"]) (auto simp: ahead_def)

lemma sint_later:
  fixes t :: u32
  assumes "0 \<le> sint t" "sint t + 2050 < 2 ^ 31"
  shows "sint (t + 50) = sint t + 50"
proof -
  have "sint (50 :: u32) = 50" by simp
  moreover have "sint (t + 50) = signed_take_bit 31 (sint t + sint (50 :: u32))" by (simp add: sint_word_ariths)
  ultimately have e: "sint (t + 50) = signed_take_bit 31 (sint t + 50)" by simp
  show ?thesis unfolding e by (rule signed_take_bit_int_eq_self) (use assms in simp_all)
qed

lemma computevd_later:
  assumes "-20 \<le> n" "n \<le> 19" "0 \<le> t" "t + 2000 < 2 ^ 31"
  shows "computevd n t = t + (n + 21) * 50" "t < computevd n t"
proof -
  show e: "computevd n t = t + (n + 21) * 50"
    using assms by (simp add: computevd_def NICE_FIRST_LEVEL_def BFS_DEFAULT_QUANTUM_def s32_def)
  show "t < computevd n t" using assms(1) unfolding e by simp
qed

lemma bound_decreases:
  fixes s :: "'a traps_scheme"
  assumes sl: "sliced p s s'" and r: "r < NPROC" "p_state (procs s r) = RUNNABLE" "p \<noteq> r" and nc: "nice_ok s"
    and t: "0 \<le> sint (ticks s)" "sint (ticks s) + 2050 < 2 ^ 31"
  shows "slices_bound r s' < slices_bound r s" "p_state (procs s' r) = RUNNABLE" "nice_ok s'"
    "sint (ticks s') = sint (ticks s) + 50"
proof -
  have p: "p < NPROC" "p_state (procs s p) = RUNNABLE" "virt_deadline (procs s p) \<le> virt_deadline (procs s r)"
    and o: "others p (procs s) (procs s')" and vd: "virt_deadline (procs s' p) = computevd (nice (procs s p)) (sint (ticks s'))"
    using sl r by (simp_all add: sliced_def ran_def)
  have tk: "sint (ticks s') = sint (ticks s) + 50" using sl sint_later [OF t] by (simp add: sliced_def)
  then show "sint (ticks s') = sint (ticks s) + 50" .
  show "p_state (procs s' r) = RUNNABLE" "nice_ok s'" using o r nc by (auto simp: others_def nice_ok_def)
  have vr: "virt_deadline (procs s' r) = virt_deadline (procs s r)" using o r(3) by (simp add: others_def)
  have later: "sint (ticks s') < virt_deadline (procs s' p)"
    unfolding vd using nc p(1) t tk by (intro computevd_later(2)) (auto simp: nice_ok_def)
  have sub: "ahead r s' \<subseteq> ahead r s"
  proof
    fix q assume "q \<in> ahead r s'"
    then show "q \<in> ahead r s" using o p vr by (cases "q = p") (auto simp: ahead_def others_def waiting_def)
  qed
  have pa: "p \<in> ahead r s" using p by (simp add: ahead_def waiting_def)
  show "slices_bound r s' < slices_bound r s"
  proof (cases "virt_deadline (procs s r) \<le> sint (ticks s)")
    case True
    then have "p \<notin> ahead r s'" using later vr tk by (simp add: ahead_def)
    with sub pa have "ahead r s' \<subset> ahead r s" by blast
    then have "card (ahead r s') < card (ahead r s)" by (simp add: psubset_card_mono)
    with True vr tk show ?thesis by (simp add: slices_bound_def)
  next
    case False
    let ?d = "virt_deadline (procs s r) - sint (ticks s)"
    have "nat (?d - 50) div 50 + 1 < nat ?d div 50 + 1" if "50 < ?d" using that by simp
    moreover have "card (ahead r s') \<le> card (ahead r s)" using sub by (simp add: card_mono)
    ultimately show ?thesis using False vr tk by (auto simp: slices_bound_def algebra_simps)
  qed
qed

lemma dispatched_within:
  fixes s :: "'a traps_scheme"
  assumes "slices ps s s'" "kinv (Sched, s)" "r < NPROC" "p_state (procs s r) = RUNNABLE" "nice_ok s"
    and "0 \<le> sint (ticks s)" "sint (ticks s) + 50 * int (length ps) + 2000 < 2 ^ 31" "slices_bound r s \<le> length ps"
  shows "r \<in> set ps"
  using assms
proof (induction ps arbitrary: s)
  case Nil
  then have "r \<in> ahead r s" by (simp add: ahead_def waiting_def)
  then have "ahead r s \<noteq> {}" by blast
  then show ?case using Nil.prems(8) by (simp add: slices_bound_def)
next
  case (Cons p ps)
  obtain s1 where s1: "slice p s s1" "slices ps s1 s'" using Cons.prems(1) by auto
  have sl: "sliced p s s1" by (rule slice_result [OF s1(1) Cons.prems(2)])
  then have k: "kinv (Sched, s1)" by (simp add: sliced_def ran_def)
  show ?case
  proof (cases "p = r")
    case False
    have "sint (ticks s) + 2050 < 2 ^ 31" using Cons.prems(7) by simp
    note d = bound_decreases [OF sl Cons.prems(3,4) False Cons.prems(5,6) this]
    have "r \<in> set ps"
      by (rule Cons.IH [OF s1(2) k Cons.prems(3) d(2,3)]) (use d(1,4) Cons.prems(6-8) in simp_all)
    then show ?thesis by simp
  qed simp
qed

lemma slices_exist:
  fixes s :: "'a traps_scheme"
  assumes "kinv (Sched, s)" "timer_frame tf s" "r < NPROC" "p_state (procs s r) = RUNNABLE"
  shows "\<exists>ps s'. slices ps s s' \<and> length ps = n"
  using assms
proof (induction n arbitrary: s r)
  case 0
  then show ?case by (intro exI [of _ "[]"]) simp
next
  case (Suc n)
  obtain p s1 where sl: "slice p s s1" using slice_exists [OF Suc.prems] by blast
  have r: "sliced p s s1" by (rule slice_result [OF sl Suc.prems(1)])
  then have "kinv (Sched, s1)" "timer_frame tf s1" "p < NPROC" "p_state (procs s1 p) = RUNNABLE"
    using Suc.prems(2) by (simp_all add: sliced_def ran_def timer_frame_def)
  then obtain ps s' where "slices ps s1 s'" "length ps = n" using Suc.IH by blast
  then show ?case using sl by (intro exI [of _ "p # ps"]) auto
qed

lemma slices_bound_le: "slices_bound r s \<le> nat (virt_deadline (procs s r) - sint (ticks s)) div 50 + 65"
proof -
  have "ahead r s \<subseteq> {..<NPROC}" by (auto simp: ahead_def)
  then have "card (ahead r s) \<le> card {..<NPROC}" by (rule card_mono [rotated]) simp
  then show ?thesis by (simp add: slices_bound_def NPROC_def)
qed

text \<open>
  C8: a process that is ready to run gets the CPU. While the processes compute, one slice after
  the other is always possible, and a RUNNABLE process with deadline \<open>d\<close> is dispatched within
  \<open>(d - now) / 50 + 65\<close> slices, whatever the other 63 processes and their priorities are, as long as the tick
  counter does not overflow.
\<close>

theorem no_starvation:
  fixes s :: "'a traps_scheme"
  assumes "kinv (Sched, s)" "timer_frame tf s" "r < NPROC" "p_state (procs s r) = RUNNABLE"
    and "\<forall>q<NPROC. NICE_FIRST_LEVEL \<le> nice (procs s q) \<and> nice (procs s q) \<le> NICE_LAST_LEVEL"
    and "0 \<le> sint (ticks s)" "n = nat (virt_deadline (procs s r) - sint (ticks s)) div 50 + 65"
    and "sint (ticks s) + 50 * int n + 2000 < 2 ^ 31"
  shows "(\<exists>ps s'. slices ps s s' \<and> length ps = n) \<and> (\<forall>ps s'. slices ps s s' \<longrightarrow> length ps = n \<longrightarrow> r \<in> set ps)"
proof
  show "\<exists>ps s'. slices ps s s' \<and> length ps = n" by (rule slices_exist [OF assms(1-4)])
  have nc: "nice_ok s" using assms(5) by (simp add: nice_ok_def NICE_FIRST_LEVEL_def NICE_LAST_LEVEL_def)
  show "\<forall>ps s'. slices ps s s' \<longrightarrow> length ps = n \<longrightarrow> r \<in> set ps"
  proof (intro allI impI)
    fix ps s' assume "slices ps s s'" "length ps = n"
    then show "r \<in> set ps"
      using dispatched_within [OF _ assms(1,3,4) nc assms(6)] assms(7,8) slices_bound_le [of r s] by simp
  qed
qed

text \<open>The kernel of the theory \<open>Demo\<close> with the frame of a timer interrupt in memory, when its process has yielded.\<close>

definition tdemo :: traps where
  "tdemo = kdemo\<lparr>mem := (\<lambda>_. 0)(TF_TRAPNO := 32)\<rparr>"

lemma tdemo_kinv: "kinv (User 0, tdemo)"
proof -
  have pi: "procs_inv (Some 0) kdemo" and ci: "cpu_inv (User 0) kdemo" using kdemo_kinv by (simp_all add: kinv_def)
  have "ptable_ok tdemo" using kdemo_ptable_ok ptable_ok_frame [of tdemo kdemo] by (simp add: tdemo_def)
  then have "procs_inv (Some 0) tdemo"
    using pi by (simp add: procs_inv_def spaces_ok_def tdemo_def)
  moreover have "cpu_inv (User 0) tdemo" using ci by (simp add: cpu_inv_def tdemo_def on_cpu_def free_lock_def)
  ultimately show ?thesis by (simp add: kinv_def)
qed

lemma tdemo_frame: "timer_frame 0 tdemo"
  by (simp add: timer_frame_def tdemo_def read32_def T_IRQ0_def IRQ_TIMER_def TF_TRAPNO_def)

lemma tdemo_yielded:
  obtains s1 s where "yield_enter tdemo = ret s1" "scheduler_leave 0 s1 = ret s" "kinv (Sched, s)" "timer_frame 0 s"
    "sint (ticks s) = 100" "p_state (procs s 0) = RUNNABLE" "virt_deadline (procs s 0) = 1150" "\<forall>q. nice (procs s q) = 0"
proof -
  have pi: "procs_inv (Some 0) tdemo" "\<forall>l. free_lock l tdemo" using tdemo_kinv by (simp_all add: kinv_def cpu_inv_def)
  obtain s1 s m where s: "yield_enter tdemo = ret s1" "scheduler_leave 0 s1 = ret s" "kinv (Sched, s)"
    "ticks s = ticks tdemo" "mem s = mem tdemo"
    "procs s = (procs tdemo)(0 := (procs tdemo 0)\<lparr>p_state := RUNNABLE, max_skiplist_level := m,
      virt_deadline := computevd (nice (procs tdemo 0)) (sint (ticks tdemo))\<rparr>)"
    using leave_by_yield [OF pi(1) cpu_inv_running [OF tdemo_kinv] pi(2)] by blast
  have d: "ticks tdemo = 100" "nice (procs tdemo q) = 0" for q
    by (simp_all add: tdemo_def kdemo_def demo_def demo_procs_def blank_proc_def)
  have t: "sint (ticks s) = 100" using s(4) d(1) by simp
  moreover have "computevd 0 100 = 1150"
    by (simp add: computevd_def NICE_FIRST_LEVEL_def BFS_DEFAULT_QUANTUM_def s32_def)
  ultimately show thesis using that [OF s(1-3)] tdemo_frame s(5,6) d timer_frame_mem [OF s(5)] by simp
qed

theorem no_starvation_witness: "\<exists>s :: traps. kinv (Sched, s) \<and> (\<exists>ps s'. slices ps s s' \<and> length ps = 86 \<and> 0 \<in> set ps)"
proof (rule tdemo_yielded)
  fix s1 s :: traps
  assume k: "kinv (Sched, s)" "timer_frame 0 s" "sint (ticks s) = 100" "p_state (procs s 0) = RUNNABLE"
    "virt_deadline (procs s 0) = 1150" "\<forall>q. nice (procs s q) = 0"
  have "\<forall>q<NPROC. NICE_FIRST_LEVEL \<le> nice (procs s q) \<and> nice (procs s q) \<le> NICE_LAST_LEVEL"
    using k(6) by (simp add: NICE_FIRST_LEVEL_def NICE_LAST_LEVEL_def)
  from no_starvation [OF k(1,2) _ k(4) this, of 86] k(3,5)
  show ?thesis using k(1) by (auto simp: NPROC_def)
qed

text \<open>
  C9: a slice goes to the ready process with the earliest deadline and lasts exactly 50 clock
  ticks, after which the process is RUNNABLE again under the deadline computed from its priority and the
  current tick; the deadlines of the others do not change.
\<close>

theorem time_slice:
  fixes s :: "'a traps_scheme"
  assumes "slice p s s'" "kinv (Sched, s)"
  shows "p < NPROC \<and> p_state (procs s p) = RUNNABLE \<and>
    (\<forall>r<NPROC. p_state (procs s r) = RUNNABLE \<longrightarrow> virt_deadline (procs s p) \<le> virt_deadline (procs s r)) \<and>
    ticks s' = ticks s + 50 \<and> p_state (procs s' p) = RUNNABLE \<and>
    virt_deadline (procs s' p) = computevd (nice (procs s p)) (sint (ticks s')) \<and>
    (\<forall>r. r \<noteq> p \<longrightarrow> virt_deadline (procs s' r) = virt_deadline (procs s r))"
  using slice_result [OF assms] by (simp add: sliced_def ran_def others_def)

theorem time_slice_witness: "\<exists>p (s :: traps) s'. slice p s s' \<and> p < NPROC \<and> ticks s' = ticks s + 50"
proof (rule tdemo_yielded)
  fix s1 s :: traps
  assume k: "kinv (Sched, s)" "timer_frame 0 s" "p_state (procs s 0) = RUNNABLE"
  obtain p s' where "slice p s s'" using slice_exists [OF k(1,2) _ k(3)] by (auto simp: NPROC_def)
  then show ?thesis using time_slice [OF _ k(1)] by blast
qed

end
