(* ===== verification/Ulib.thy ===== *)
theory Ulib
  imports Fs Cprintf
begin

text \<open>
  User programs and the user library (ulib.c, printf.c). A program is the code of one process: it acts on
  its environment only by system calls, which a parameter answers. A program returns a value, ends its
  process (\<open>exit\<close>, or an \<open>exec\<close> that succeeds), or does not return. C strings are lists of the characters
  before the NUL.
\<close>

section \<open>System calls\<close>

datatype ucall =
    U_fork | U_exit | U_wait | U_pipe | U_read int nat | U_kill int | U_exec string "string list"
  | U_fstat int | U_chdir string | U_dup int | U_sbrk int | U_sleep int | U_write int string
  | U_open string int | U_close int | U_mknod string int int | U_unlink string | U_link string string
  | U_mkdir string | U_getpid | U_uptime | U_yield | U_shutdown | U_nicefork int | U_schedlog int

text \<open>
  The answer to a call: the value it returns, and what it has stored through its pointer arguments (the
  bytes of \<open>read\<close>, the two descriptors of \<open>pipe\<close>, the structure of \<open>fstat\<close>).
\<close>

record reply =
  r_val :: int
  r_bytes :: string
  r_fds :: "int \<times> int"
  r_stat :: stat

type_synonym ('e, 'a) usr = "'e \<Rightarrow> ('e + 'a \<times> 'e) option"
type_synonym 'e kern = "ucall \<Rightarrow> ('e, reply) usr"

definition uret :: "'a \<Rightarrow> ('e, 'a) usr" where
  "uret a e = Some (Inr (a, e))"

definition ubind :: "('e, 'a) usr \<Rightarrow> ('a \<Rightarrow> ('e, 'b) usr) \<Rightarrow> ('e, 'b) usr" where
  "ubind m f e = (case m e of None \<Rightarrow> None | Some (Inl e') \<Rightarrow> Some (Inl e') | Some (Inr (a, e')) \<Rightarrow> f a e')"

lemma ubind_mono [partial_function_mono]:
  assumes "\<And>e. mono_option (\<lambda>f. B f e)" "\<And>y e. mono_option (\<lambda>f. C y f e)"
  shows "mono_option (\<lambda>f. ubind (B f) (\<lambda>y. C y f) e)"
proof -
  have eq: "ubind (B f) (\<lambda>y. C y f) e =
      Option.bind (B f e) (\<lambda>r. case r of Inl e' \<Rightarrow> Some (Inl e') | Inr (a, e') \<Rightarrow> C a f e')" for f
    by (simp add: ubind_def split: option.splits sum.splits)
  show ?thesis
    unfolding eq
  proof (rule bind_mono [OF assms(1)])
    fix r show "mono_option (\<lambda>f. case r of Inl e' \<Rightarrow> Some (Inl e') | Inr (a, e') \<Rightarrow> C a f e')"
      by (cases r) (auto intro!: assms(2) option.const_mono split: prod.split)
  qed
qed

text \<open>Monotonicity through the conditionals of a program, for its loops.\<close>

lemma usr_if_mono [partial_function_mono]:
  "mono_option (\<lambda>f. B f e) \<Longrightarrow> mono_option (\<lambda>f. C f e) \<Longrightarrow> mono_option (\<lambda>f. (if b then B f else C f) e)"
  by (cases b) simp_all

lemma usr_let_mono [partial_function_mono]:
  "mono_option (\<lambda>f. B t f e) \<Longrightarrow> mono_option (\<lambda>f. (let x = t in B x f) e)"
  by (simp add: Let_def)

text \<open>A call made for its effect, and one whose value is used.\<close>

definition sys :: "'e kern \<Rightarrow> ucall \<Rightarrow> ('e, int) usr" where
  "sys h c = ubind (h c) (\<lambda>r. uret (r_val r))"

text \<open>\<open>exit\<close> does not return; a kernel in which it does is outside the model.\<close>

definition uexit :: "'e kern \<Rightarrow> ('e, 'a) usr" where
  "uexit h = ubind (h U_exit) (\<lambda>_ _. None)"

text \<open>The C string in an array of characters.\<close>

definition c_str :: "string \<Rightarrow> string" where
  "c_str buf = takeWhile (\<lambda>c. c \<noteq> CHR 0x00) buf"

section \<open>Output\<close>

definition putc :: "'e kern \<Rightarrow> int \<Rightarrow> char \<Rightarrow> ('e, unit) usr" where
  "putc h fd c = ubind (h (U_write fd [c])) (\<lambda>_. uret ())"

fun put_chars :: "'e kern \<Rightarrow> int \<Rightarrow> string \<Rightarrow> ('e, unit) usr" where
  "put_chars h fd [] = uret ()"
| "put_chars h fd (c # cs) = ubind (putc h fd c) (\<lambda>_. put_chars h fd cs)"

definition fprintf :: "'e kern \<Rightarrow> int \<Rightarrow> string \<Rightarrow> carg list \<Rightarrow> ('e, unit) usr" where
  "fprintf h fd fmt args = (case printf False fmt args of None \<Rightarrow> (\<lambda>_. None) | Some cs \<Rightarrow> put_chars h fd cs)"

abbreviation Str :: "string \<Rightarrow> carg" where "Str s \<equiv> S (Some s)"

section \<open>Strings in memory\<close>

partial_function (option) u_strcpy :: "(u32 \<Rightarrow> u8) \<Rightarrow> u32 \<Rightarrow> u32 \<Rightarrow> (u32 \<Rightarrow> u8) option" where
  "u_strcpy m s t = (let m' = m(s := m t) in if m t \<noteq> 0 then u_strcpy m' (s + 1) (t + 1) else Some m')"

partial_function (option) u_strcmp :: "(u32 \<Rightarrow> u8) \<Rightarrow> u32 \<Rightarrow> u32 \<Rightarrow> int option" where
  "u_strcmp m p q = (if m p \<noteq> 0 \<and> m p = m q then u_strcmp m (p + 1) (q + 1) else Some (uint (m p) - uint (m q)))"

partial_function (option) u_strlen :: "(u32 \<Rightarrow> u8) \<Rightarrow> u32 \<Rightarrow> nat \<Rightarrow> nat option" where
  "u_strlen m s n = (if m (s + of_nat n) \<noteq> 0 then u_strlen m s (n + 1) else Some n)"

definition u_memset :: "(u32 \<Rightarrow> u8) \<Rightarrow> u32 \<Rightarrow> u8 \<Rightarrow> nat \<Rightarrow> (u32 \<Rightarrow> u8)" where
  "u_memset m dst c n = stosb m dst c n"

partial_function (option) u_strchr :: "(u32 \<Rightarrow> u8) \<Rightarrow> u32 \<Rightarrow> u8 \<Rightarrow> u32 option" where
  "u_strchr m s c = (if m s = 0 then Some 0 else if m s = c then Some s else u_strchr m (s + 1) c)"

text \<open>The user library's \<open>memmove\<close> copies upwards only.\<close>

fun u_memmove :: "(u32 \<Rightarrow> u8) \<Rightarrow> u32 \<Rightarrow> u32 \<Rightarrow> nat \<Rightarrow> (u32 \<Rightarrow> u8)" where
  "u_memmove m dst src 0 = m"
| "u_memmove m dst src (Suc n) = u_memmove (m(dst := m src)) (dst + 1) (src + 1) n"

text \<open>\<open>atoi\<close> on a string; the value wraps as the C \<open>int\<close> does.\<close>

fun atoi_from :: "int \<Rightarrow> string \<Rightarrow> int" where
  "atoi_from n [] = n"
| "atoi_from n (c # s) =
     (let d = of_char c - 48 in if 0 \<le> d \<and> d \<le> 9 then atoi_from (s32 (n * 10 + d)) s else n)"

definition atoi :: "string \<Rightarrow> int" where
  "atoi s = atoi_from 0 s"

section \<open>Input\<close>

text \<open>The loop of \<open>gets\<close>: at most \<open>max - 1\<close> characters, up to the end of the line.\<close>

fun gets_loop :: "'e kern \<Rightarrow> nat \<Rightarrow> string \<Rightarrow> ('e, string) usr" where
  "gets_loop h 0 buf = uret buf"
| "gets_loop h (Suc room) buf =
     ubind (h (U_read 0 1)) (\<lambda>r.
     if r_val r < 1 then uret buf
     else let c = hd (r_bytes r); buf = buf @ [c] in
       if c = CHR ''\<newline>'' \<or> c = CHR 0x0D then uret buf else gets_loop h room buf)"

definition gets :: "'e kern \<Rightarrow> nat \<Rightarrow> ('e, string) usr" where
  "gets h n = gets_loop h (n - 1) []"

definition O_RDONLY :: int where "O_RDONLY = 0"

definition ustat :: "'e kern \<Rightarrow> string \<Rightarrow> ('e, int \<times> stat) usr" where
  "ustat h n =
     ubind (h (U_open n O_RDONLY)) (\<lambda>r.
     let fd = r_val r in
     if fd < 0 then uret (-1, r_stat r)
     else ubind (h (U_fstat fd)) (\<lambda>r. ubind (h (U_close fd)) (\<lambda>_. uret (r_val r, r_stat r))))"

end
