(* ===== verification/Sh.thy ===== *)
theory Sh
  imports Ulib
begin

text \<open>
  sh.c: the tokenizer and the recursive-descent parser of the shell, the termination of the argument
  strings inside the line, and the execution of a command by system calls. Pointers into the line are
  positions. A failing \<open>malloc\<close> (a null pointer for a command) is outside the model.
\<close>

section \<open>Commands\<close>

text \<open>An argument is the pair of positions where it starts and where it ends.\<close>

datatype cmd =
    ExecCmd "(nat \<times> nat) list"
  | RedirCmd cmd nat nat int int
  | PipeCmd cmd cmd
  | ListCmd cmd cmd
  | BackCmd cmd

definition MAXARGS :: nat where "MAXARGS = 20"

text \<open>The constructors, which allocate and fill a structure.\<close>

definition execcmd :: cmd where "execcmd = ExecCmd []"

definition redircmd :: "cmd \<Rightarrow> nat \<Rightarrow> nat \<Rightarrow> int \<Rightarrow> int \<Rightarrow> cmd" where
  "redircmd subcmd file efile mode fd = RedirCmd subcmd file efile mode fd"

definition pipecmd :: "cmd \<Rightarrow> cmd \<Rightarrow> cmd" where "pipecmd left right = PipeCmd left right"
definition listcmd :: "cmd \<Rightarrow> cmd \<Rightarrow> cmd" where "listcmd left right = ListCmd left right"
definition backcmd :: "cmd \<Rightarrow> cmd" where "backcmd subcmd = BackCmd subcmd"

lemmas cmd_defs = execcmd_def redircmd_def pipecmd_def listcmd_def backcmd_def

section \<open>Tokens\<close>

definition whitespace :: string where
  "whitespace = [CHR '' '', CHR 0x09, CHR 0x0D, CHR ''\<newline>'', CHR 0x0B]"

definition symbols :: string where "symbols = ''<|>&;()''"

text \<open>The character at a position; the line ends with a NUL.\<close>

definition ch :: "string \<Rightarrow> nat \<Rightarrow> char" where
  "ch buf s = (if s < length buf then buf ! s else CHR 0x00)"

definition skip :: "string \<Rightarrow> nat \<Rightarrow> nat" where
  "skip buf s = s + length (takeWhile (\<lambda>c. c \<in> set whitespace) (drop s buf))"

definition plain :: "char \<Rightarrow> bool" where
  "plain c \<longleftrightarrow> c \<notin> set whitespace \<and> c \<notin> set symbols"

text \<open>\<open>gettoken\<close>: the kind of the token, where it starts and ends, and the position behind it and the blanks.\<close>

definition gettoken :: "string \<Rightarrow> nat \<Rightarrow> char \<times> nat \<times> nat \<times> nat" where
  "gettoken buf s =
     (let q = skip buf s; c = ch buf q;
          (kind, eq) =
            (if c = CHR 0x00 then (c, q)
             else if c \<in> set ''|();&<'' then (c, q + 1)
             else if c = CHR ''>'' then
               (if ch buf (q + 1) = CHR ''>'' then (CHR ''+'', q + 2) else (CHR ''>'', q + 1))
             else (CHR ''a'', q + length (takeWhile plain (drop q buf))))
      in (kind, q, eq, skip buf eq))"

definition peek :: "string \<Rightarrow> nat \<Rightarrow> string \<Rightarrow> nat \<times> bool" where
  "peek buf s toks = (let s = skip buf s in (s, ch buf s \<noteq> CHR 0x00 \<and> ch buf s \<in> set toks))"

text \<open>The position behind the next token, which the parser skips without looking at it.\<close>

definition skip_token :: "string \<Rightarrow> nat \<Rightarrow> nat" where
  "skip_token buf s = snd (snd (snd (gettoken buf s)))"

lemma skip_ge: "s \<le> skip buf s"
  by (simp add: skip_def)

lemma skip_le: "s \<le> length buf \<Longrightarrow> skip buf s \<le> length buf"
  using length_takeWhile_le [of "\<lambda>c. c \<in> set whitespace" "drop s buf"] by (simp add: skip_def)

lemma skip_token_less:
  assumes "peek buf s toks = (s', True)"
  shows "s' < skip_token buf s'"
proof -
  have c: "ch buf s' \<noteq> CHR 0x00" "s' = skip buf s" using assms by (auto simp: peek_def Let_def)
  then have lt: "s' < length buf" by (auto simp: ch_def split: if_splits)
  have nw: "ch buf s' \<notin> set whitespace"
  proof -
    let ?w = "takeWhile (\<lambda>c. c \<in> set whitespace) (drop s buf)"
    have "length ?w < length (drop s buf)" using lt c(2) by (simp add: skip_def)
    from nth_length_takeWhile [OF this] show ?thesis using lt c(2) by (simp add: skip_def ch_def add.commute)
  qed
  have d: "drop s' buf = buf ! s' # drop (Suc s') buf" using lt by (simp add: Cons_nth_drop_Suc)
  have sk: "skip buf s' = s'" using nw lt d by (simp add: skip_def ch_def)
  have "ch buf s' \<in> set symbols \<or> plain (ch buf s')" using nw by (auto simp: plain_def)
  then have "s' < fst (snd (snd (gettoken buf s')))"
    using c(1) lt d by (auto simp: gettoken_def Let_def sk symbols_def ch_def split: if_splits)
  moreover have "skip_token buf s' = skip buf (fst (snd (snd (gettoken buf s'))))"
    by (simp add: skip_token_def gettoken_def Let_def split: prod.split)
  ultimately show ?thesis using skip_ge [of "fst (snd (snd (gettoken buf s')))" buf] by simp
qed

section \<open>The parser\<close>

text \<open>The exec command inside a chain of redirections, which \<open>parseexec\<close> keeps changing through its pointer.\<close>

fun add_arg :: "nat \<times> nat \<Rightarrow> cmd \<Rightarrow> cmd" where
  "add_arg a (ExecCmd as) = ExecCmd (as @ [a])"
| "add_arg a (RedirCmd c q eq mode fd) = RedirCmd (add_arg a c) q eq mode fd"
| "add_arg a c = c"

lemma gettoken_mono: "gettoken buf s = (kind, q, eq, s') \<Longrightarrow> s \<le> q \<and> q \<le> eq \<and> eq \<le> s'"
  using skip_ge [of s buf] skip_ge [of eq buf] by (auto simp: gettoken_def Let_def split: if_splits prod.splits)

lemma peek_mono: "peek buf s toks = (s', b) \<Longrightarrow> s \<le> s'"
  using skip_ge [of s buf] by (auto simp: peek_def Let_def)

lemma peek_bound: "peek buf s toks = (s', True) \<Longrightarrow> s' < length buf"
  by (auto simp: peek_def Let_def ch_def split: if_splits)

function parseredirs :: "string \<Rightarrow> cmd \<Rightarrow> nat \<Rightarrow> (cmd \<times> nat) res" where
  "parseredirs buf cmd s =
     (case peek buf s ''<>'' of (s1, go) \<Rightarrow>
      if \<not> go then ret (cmd, s1)
      else case gettoken buf s1 of (tok, _, _, s2) \<Rightarrow>
        case gettoken buf s2 of (kind, q, eq, s3) \<Rightarrow>
        if kind \<noteq> CHR ''a'' then panic ''missing file for redirection''
        else parseredirs buf
          (if tok = CHR ''<'' then redircmd cmd q eq 0 0
           else if tok = CHR ''>'' then redircmd cmd q eq 0x201 1
           else if tok = CHR ''+'' then redircmd cmd q eq 0x201 1 else cmd) s3)"
  by pat_completeness auto

lemma redir_progress:
  assumes "(s1, True) = peek buf s toks" "(tok, q1, eq1, s2) = gettoken buf s1" "(kind, q, eq, s3) = gettoken buf s2"
  shows "length buf - s3 < length buf - s"
proof -
  have "s \<le> s1" "s1 < length buf" using peek_mono peek_bound assms(1) by metis+
  moreover have "s1 < s2" using skip_token_less [of buf s toks s1] assms(1,2) by (simp add: skip_token_def) (metis snd_conv)
  moreover have "s2 \<le> s3" using gettoken_mono [OF assms(3) [symmetric]] by linarith
  ultimately show ?thesis by linarith
qed

termination parseredirs
  by (relation "measure (\<lambda>(buf, cmd, s). length buf - s)") (auto intro: redir_progress)

declare parseredirs.simps [simp del]

text \<open>The loop of \<open>parseexec\<close> over the arguments.\<close>

function parse_args :: "string \<Rightarrow> cmd \<Rightarrow> nat \<Rightarrow> nat \<Rightarrow> (cmd \<times> nat) res" where
  "parse_args buf cmd argc s =
     (case peek buf s ''|)&;'' of (s1, stop) \<Rightarrow>
      if stop then ret (cmd, s1)
      else case gettoken buf s1 of (tok, q, eq, s2) \<Rightarrow>
        if tok = CHR 0x00 then ret (cmd, s2)
        else if tok \<noteq> CHR ''a'' then panic ''syntax''
        else if MAXARGS \<le> argc + 1 then panic ''too many args''
        else rbind (parseredirs buf (add_arg (q, eq) cmd) s2) (\<lambda>(cmd, s3). parse_args buf cmd (argc + 1) s3))"
  by pat_completeness auto
termination
  by (relation "measure (\<lambda>(buf, cmd, argc, s). MAXARGS - argc)") auto

declare parse_args.simps [simp del]

text \<open>The loop of \<open>parseline\<close> over the ampersands.\<close>

function parse_backs :: "string \<Rightarrow> cmd \<Rightarrow> nat \<Rightarrow> cmd \<times> nat" where
  "parse_backs buf cmd s =
     (case peek buf s ''&'' of (s1, go) \<Rightarrow>
      if go then parse_backs buf (backcmd cmd) (skip_token buf s1) else (cmd, s1))"
  by pat_completeness auto

lemma back_progress: "(s1, True) = peek buf s toks \<Longrightarrow> length buf - skip_token buf s1 < length buf - s"
  using peek_mono [of buf s toks s1 True] peek_bound [of buf s toks s1] skip_token_less [of buf s toks s1] by force

termination parse_backs
  by (relation "measure (\<lambda>(buf, cmd, s). length buf - s)") (auto intro: back_progress)

declare parse_backs.simps [simp del]

text \<open>
  The four functions that call each other. The first argument bounds the depth of the calls; \<open>parsecmd\<close>
  starts with enough of it.
\<close>

fun parseline :: "nat \<Rightarrow> string \<Rightarrow> nat \<Rightarrow> (cmd \<times> nat) res"
  and parsepipe :: "nat \<Rightarrow> string \<Rightarrow> nat \<Rightarrow> (cmd \<times> nat) res"
  and parseexec :: "nat \<Rightarrow> string \<Rightarrow> nat \<Rightarrow> (cmd \<times> nat) res"
  and parseblock :: "nat \<Rightarrow> string \<Rightarrow> nat \<Rightarrow> (cmd \<times> nat) res"
where
  "parseline 0 buf s = None"
| "parseline (Suc k) buf s =
     rbind (parsepipe k buf s) (\<lambda>(cmd, s).
     case parse_backs buf cmd s of (cmd, s) \<Rightarrow>
     case peek buf s '';'' of (s, go) \<Rightarrow>
     if go then rbind (parseline k buf (skip_token buf s)) (\<lambda>(right, s). ret (listcmd cmd right, s))
     else ret (cmd, s))"
| "parsepipe 0 buf s = None"
| "parsepipe (Suc k) buf s =
     rbind (parseexec k buf s) (\<lambda>(cmd, s).
     case peek buf s ''|'' of (s, go) \<Rightarrow>
     if go then rbind (parsepipe k buf (skip_token buf s)) (\<lambda>(right, s). ret (pipecmd cmd right, s))
     else ret (cmd, s))"
| "parseexec 0 buf s = None"
| "parseexec (Suc k) buf s =
     (case peek buf s ''('' of (s, block) \<Rightarrow>
      if block then parseblock k buf s
      else rbind (parseredirs buf execcmd s) (\<lambda>(cmd, s). parse_args buf cmd 0 s))"
| "parseblock 0 buf s = None"
| "parseblock (Suc k) buf s =
     (case peek buf s ''('' of (s, go) \<Rightarrow>
      if \<not> go then panic ''parseblock''
      else rbind (parseline k buf (skip_token buf s)) (\<lambda>(cmd, s).
        case peek buf s '')'' of (s, go) \<Rightarrow>
        if \<not> go then panic ''syntax - missing )''
        else parseredirs buf cmd (skip_token buf s)))"

text \<open>\<open>nulterminate\<close>: a NUL behind every string of the command, in the array that holds the line.\<close>

fun nulterminate :: "cmd \<Rightarrow> string \<Rightarrow> string" where
  "nulterminate (ExecCmd as) buf = fold (\<lambda>(q, eq) buf. buf[eq := CHR 0x00]) as buf"
| "nulterminate (RedirCmd c q eq mode fd) buf = (nulterminate c buf)[eq := CHR 0x00]"
| "nulterminate (PipeCmd l r) buf = nulterminate r (nulterminate l buf)"
| "nulterminate (ListCmd l r) buf = nulterminate r (nulterminate l buf)"
| "nulterminate (BackCmd c) buf = nulterminate c buf"

text \<open>
  \<open>parsecmd\<close>: the command and the array with the terminated strings. What follows a complete command is
  printed before the panic.
\<close>

definition parsecmd :: "string \<Rightarrow> (cmd \<times> string) res" where
  "parsecmd buf =
     rbind (parseline (4 * length buf + 4) buf 0) (\<lambda>(cmd, s).
     let s = fst (peek buf s []) in
     if s \<noteq> length buf then panic (''leftovers: '' @ drop s buf @ ''\<newline>'' @ ''syntax'')
     else ret (cmd, nulterminate cmd (buf @ [CHR 0x00])))"

section \<open>Execution\<close>

definition upanic :: "'e kern \<Rightarrow> string \<Rightarrow> ('e, 'a) usr" where
  "upanic h s = ubind (fprintf h 2 ''%s\<newline>'' [Str s]) (\<lambda>_. uexit h)"

definition fork1 :: "'e kern \<Rightarrow> ('e, int) usr" where
  "fork1 h = ubind (sys h U_fork) (\<lambda>pid. if pid = -1 then upanic h ''fork'' else uret pid)"

definition arg_str :: "string \<Rightarrow> nat \<times> nat \<Rightarrow> string" where
  "arg_str buf a = c_str (drop (fst a) buf)"

fun runcmd :: "'e kern \<Rightarrow> string \<Rightarrow> cmd \<Rightarrow> ('e, unit) usr" where
  "runcmd h buf (ExecCmd as) =
     (if as = [] then uexit h
      else ubind (sys h (U_exec (arg_str buf (hd as)) (map (arg_str buf) as))) (\<lambda>_.
        ubind (fprintf h 2 ''exec %s failed\<newline>'' [Str (arg_str buf (hd as))]) (\<lambda>_. uexit h)))"
| "runcmd h buf (RedirCmd c q eq mode fd) =
     ubind (sys h (U_close fd)) (\<lambda>_.
     ubind (sys h (U_open (arg_str buf (q, eq)) mode)) (\<lambda>r.
     if r < 0 then ubind (fprintf h 2 ''open %s failed\<newline>'' [Str (arg_str buf (q, eq))]) (\<lambda>_. uexit h)
     else ubind (runcmd h buf c) (\<lambda>_. uexit h)))"
| "runcmd h buf (ListCmd l r) =
     ubind (fork1 h) (\<lambda>pid.
     ubind (if pid = 0 then runcmd h buf l else uret ()) (\<lambda>_.
     ubind (sys h U_wait) (\<lambda>_. ubind (runcmd h buf r) (\<lambda>_. uexit h))))"
| "runcmd h buf (PipeCmd l r) =
     ubind (h U_pipe) (\<lambda>rp.
     case r_fds rp of (p0, p1) \<Rightarrow>
     if r_val rp < 0 then upanic h ''pipe''
     else ubind (fork1 h) (\<lambda>pid.
       ubind (if pid = 0
              then ubind (sys h (U_close 1)) (\<lambda>_. ubind (sys h (U_dup p1)) (\<lambda>_.
                   ubind (sys h (U_close p0)) (\<lambda>_. ubind (sys h (U_close p1)) (\<lambda>_. runcmd h buf l))))
              else uret ()) (\<lambda>_.
       ubind (fork1 h) (\<lambda>pid.
       ubind (if pid = 0
              then ubind (sys h (U_close 0)) (\<lambda>_. ubind (sys h (U_dup p0)) (\<lambda>_.
                   ubind (sys h (U_close p0)) (\<lambda>_. ubind (sys h (U_close p1)) (\<lambda>_. runcmd h buf r))))
              else uret ()) (\<lambda>_.
       ubind (sys h (U_close p0)) (\<lambda>_. ubind (sys h (U_close p1)) (\<lambda>_.
       ubind (sys h U_wait) (\<lambda>_. ubind (sys h U_wait) (\<lambda>_. uexit h)))))))))"
| "runcmd h buf (BackCmd c) =
     ubind (fork1 h) (\<lambda>pid. ubind (if pid = 0 then runcmd h buf c else uret ()) (\<lambda>_. uexit h))"

section \<open>The main loop\<close>

text \<open>\<open>getcmd\<close>: \<open>None\<close> at the end of the input.\<close>

definition getcmd :: "'e kern \<Rightarrow> nat \<Rightarrow> ('e, string option) usr" where
  "getcmd h nbuf =
     ubind (fprintf h 2 ''$ '' []) (\<lambda>_. ubind (gets h nbuf) (\<lambda>buf. uret (if c_str buf = [] then None else Some (c_str buf))))"

partial_function (option) open_console :: "'e kern \<Rightarrow> ('e, unit) usr" where
  "open_console h e =
     ubind (sys h (U_open ''console'' 2)) (\<lambda>fd.
     if fd < 0 then uret ()
     else if 3 \<le> fd then ubind (sys h (U_close fd)) (\<lambda>_. uret ())
     else open_console h) e"

definition run_line :: "'e kern \<Rightarrow> string \<Rightarrow> ('e, unit) usr" where
  "run_line h buf =
     (case parsecmd buf of
        None \<Rightarrow> (\<lambda>_. None)
      | Some (Inl msg) \<Rightarrow> upanic h msg
      | Some (Inr (cmd, buf')) \<Rightarrow> runcmd h buf' cmd)"

partial_function (option) sh_loop :: "'e kern \<Rightarrow> ('e, unit) usr" where
  "sh_loop h e =
     ubind (getcmd h 200) (\<lambda>line.
     if line = None then uexit h
     else let buf = the line in
       if take 3 buf = ''cd '' then
         let buf = butlast buf in
         ubind (sys h (U_chdir (drop 3 buf))) (\<lambda>r.
         ubind (if r < 0 then fprintf h 2 ''cannot cd %s\<newline>'' [Str (drop 3 buf)] else uret ()) (\<lambda>_. sh_loop h))
       else ubind (fork1 h) (\<lambda>pid.
         ubind (if pid = 0 then run_line h buf else uret ()) (\<lambda>_.
         ubind (sys h U_wait) (\<lambda>_. sh_loop h)))) e"

definition sh_main :: "'e kern \<Rightarrow> ('e, unit) usr" where
  "sh_main h = ubind (open_console h) (\<lambda>_. sh_loop h)"

end
