(* ===== verification/ShProps.thy ===== *)
theory ShProps
  imports Sh
begin

text \<open>
  The shell's parser: it always returns, and the strings that a parsed command refers to are, once
  terminated, exactly the words of the line.
\<close>

section \<open>Words\<close>

text \<open>The words that a command refers to, and what makes a span of the line a word.\<close>

fun spans :: "cmd \<Rightarrow> (nat \<times> nat) list" where
  "spans (ExecCmd as) = as"
| "spans (RedirCmd c q eq mode fd) = spans c @ [(q, eq)]"
| "spans (PipeCmd l r) = spans l @ spans r"
| "spans (ListCmd l r) = spans l @ spans r"
| "spans (BackCmd c) = spans c"

definition word_at :: "string \<Rightarrow> nat \<times> nat \<Rightarrow> bool" where
  "word_at buf w \<longleftrightarrow> fst w < snd w \<and> snd w \<le> length buf \<and> (\<forall>i. fst w \<le> i \<longrightarrow> i < snd w \<longrightarrow> plain (buf ! i)) \<and>
     (snd w < length buf \<longrightarrow> \<not> plain (buf ! snd w))"

definition words_ok :: "string \<Rightarrow> cmd \<Rightarrow> bool" where
  "words_ok buf c \<longleftrightarrow> (\<forall>w \<in> set (spans c). word_at buf w)"

lemma spans_add_arg: "set (spans (add_arg a c)) \<subseteq> insert a (set (spans c))"
  by (induction a c rule: add_arg.induct) auto

lemma words_ok_simps [simp]:
  "words_ok buf (ExecCmd []) = True"
  "words_ok buf (RedirCmd c q eq mode fd) = (words_ok buf c \<and> word_at buf (q, eq))"
  "words_ok buf (PipeCmd l r) = (words_ok buf l \<and> words_ok buf r)"
  "words_ok buf (ListCmd l r) = (words_ok buf l \<and> words_ok buf r)"
  "words_ok buf (BackCmd c) = words_ok buf c"
  by (auto simp: words_ok_def)

lemma words_ok_add_arg: "words_ok buf c \<Longrightarrow> word_at buf a \<Longrightarrow> words_ok buf (add_arg a c)"
  using spans_add_arg [of a c] by (auto simp: words_ok_def)

lemma skip_not_blank: "skip buf s < length buf \<Longrightarrow> buf ! skip buf s \<notin> set whitespace"
proof -
  let ?w = "takeWhile (\<lambda>c. c \<in> set whitespace) (drop s buf)"
  assume lt: "skip buf s < length buf"
  then have "length ?w < length (drop s buf)" by (simp add: skip_def)
  from nth_length_takeWhile [OF this] show ?thesis using lt by (simp add: skip_def add.commute)
qed

lemma gettoken_word:
  assumes "gettoken buf s = (CHR ''a'', q, eq, s')"
  shows "word_at buf (q, eq)"
proof -
  have q: "q = skip buf s" using assms by (auto simp: gettoken_def Let_def split: if_splits)
  have c: "ch buf q \<noteq> CHR 0x00" "ch buf q \<notin> set symbols" "eq = q + length (takeWhile plain (drop q buf))"
    using assms by (auto simp: gettoken_def Let_def symbols_def split: if_splits)
  have lt: "q < length buf" using c(1) by (auto simp: ch_def split: if_splits)
  have "plain (buf ! q)" using c(2) lt skip_not_blank [of buf s] by (simp add: q plain_def ch_def)
  moreover have d: "drop q buf = buf ! q # drop (Suc q) buf" using lt by (simp add: Cons_nth_drop_Suc)
  ultimately have "q < eq" using c(3) by simp
  moreover have le: "length (takeWhile plain (drop q buf)) \<le> length buf - q"
    using length_takeWhile_le [of plain "drop q buf"] by simp
  moreover have "plain (buf ! i)" if "q \<le> i" "i < eq" for i
  proof -
    have i: "i - q < length (takeWhile plain (drop q buf))" using that c(3) by simp
    then have "plain (takeWhile plain (drop q buf) ! (i - q))" using nth_mem set_takeWhileD by metis
    then show ?thesis using takeWhile_nth [OF i] that lt by simp
  qed
  moreover have "\<not> plain (buf ! eq)" if "eq < length buf"
    using nth_length_takeWhile [of plain "drop q buf"] that c(3) by (simp add: add.commute)
  ultimately show ?thesis using c(3) lt by (simp add: word_at_def)
qed

section \<open>The parser returns\<close>

text \<open>The parser returns a command with its words in place, and does not go back.\<close>

definition parse_ok :: "string \<Rightarrow> nat \<Rightarrow> (cmd \<times> nat) res \<Rightarrow> bool" where
  "parse_ok buf s r \<longleftrightarrow> r \<noteq> None \<and> (\<forall>c s'. r = ret (c, s') \<longrightarrow> s \<le> s' \<and> words_ok buf c)"

lemma parse_ok_ret [simp]: "parse_ok buf s (ret (c, s')) \<longleftrightarrow> s \<le> s' \<and> words_ok buf c"
  by (auto simp: parse_ok_def)

lemma parse_ok_panic [simp]: "parse_ok buf s (panic msg)"
  by (simp add: parse_ok_def)

lemma parse_ok_mono: "parse_ok buf s' r \<Longrightarrow> s \<le> s' \<Longrightarrow> parse_ok buf s r"
  by (auto simp: parse_ok_def)

lemma parse_ok_bind:
  assumes "parse_ok buf s r" "\<And>c s'. r = ret (c, s') \<Longrightarrow> s \<le> s' \<Longrightarrow> words_ok buf c \<Longrightarrow> parse_ok buf s (f (c, s'))"
  shows "parse_ok buf s (rbind r f)"
proof (cases r)
  case None
  then show ?thesis using assms(1) by (simp add: parse_ok_def)
next
  case (Some x)
  show ?thesis
  proof (cases x)
    case (Inl e)
    then have "r = panic e" using Some by simp
    then show ?thesis by simp
  next
    case (Inr p)
    obtain c s' where "p = (c, s')" by (cases p)
    then have "r = ret (c, s')" using Some Inr by simp
    then show ?thesis using assms(1) assms(2) [of c s'] by simp
  qed
qed

lemma parseredirs_ok: "words_ok buf cmd \<Longrightarrow> parse_ok buf s (parseredirs buf cmd s)"
proof (induction buf cmd s rule: parseredirs.induct)
  case (1 buf cmd s)
  obtain s1 go where pk: "peek buf s ''<>'' = (s1, go)" by fastforce
  obtain tok q1 e1 s2 where t1: "gettoken buf s1 = (tok, q1, e1, s2)" by (metis prod_cases4)
  obtain kind q e s3 where t2: "gettoken buf s2 = (kind, q, e, s3)" by (metis prod_cases4)
  have le: "s \<le> s1" "s \<le> s3"
    using peek_mono [OF pk] gettoken_mono [OF t1] gettoken_mono [OF t2] by linarith+
  show ?case
  proof (cases "go \<and> kind = CHR ''a''")
    case True
    then have w: "word_at buf (q, e)" using gettoken_word t2 by simp
    let ?cmd = "if tok = CHR ''<'' then redircmd cmd q e 0 0
           else if tok = CHR ''>'' then redircmd cmd q e 0x201 1
           else if tok = CHR ''+'' then redircmd cmd q e 0x201 1 else cmd"
    have "parse_ok buf s3 (parseredirs buf ?cmd s3)"
      using "1.IH" [OF pk [symmetric] _ t1 [symmetric] refl refl t2 [symmetric] refl refl] True w "1.prems"
      by (simp add: cmd_defs)
    then show ?thesis using parse_ok_mono [OF _ le(2)] True by (subst parseredirs.simps) (simp add: pk t1 t2)
  next
    case False
    then show ?thesis using le(1) "1.prems" by (subst parseredirs.simps) (auto simp: pk t1 t2)
  qed
qed

lemma parse_args_ok: "words_ok buf cmd \<Longrightarrow> parse_ok buf s (parse_args buf cmd argc s)"
proof (induction buf cmd argc s rule: parse_args.induct)
  case (1 buf cmd argc s)
  obtain s1 stop where pk: "peek buf s ''|)&;'' = (s1, stop)" by fastforce
  obtain tok q e s2 where t: "gettoken buf s1 = (tok, q, e, s2)" by (metis prod_cases4)
  have le: "s \<le> s1" "s \<le> s2" using peek_mono [OF pk] gettoken_mono [OF t] by linarith+
  show ?case
  proof (cases "\<not> stop \<and> tok = CHR ''a'' \<and> \<not> MAXARGS \<le> argc + 1")
    case True
    then have w: "words_ok buf (add_arg (q, e) cmd)" using words_ok_add_arg "1.prems" gettoken_word t by simp
    have "parse_ok buf s2 (rbind (parseredirs buf (add_arg (q, e) cmd) s2) (\<lambda>(cmd, s3). parse_args buf cmd (argc + 1) s3))"
    proof (rule parse_ok_bind [OF parseredirs_ok [OF w]])
      fix c s3 assume r: "parseredirs buf (add_arg (q, e) cmd) s2 = ret (c, s3)" and c: "s2 \<le> s3" "words_ok buf c"
      have "parse_ok buf s3 (parse_args buf c (argc + 1) s3)"
        using "1.IH" [OF pk [symmetric] _ t [symmetric] refl refl, of "(c, s3)" c s3] True r c(2) by simp
      then show "parse_ok buf s2 (case (c, s3) of (cmd, s3) \<Rightarrow> parse_args buf cmd (argc + 1) s3)"
        using parse_ok_mono [OF _ c(1)] by simp
    qed
    then show ?thesis using parse_ok_mono [OF _ le(2)] True by (subst parse_args.simps) (simp add: pk t)
  next
    case False
    then show ?thesis using le "1.prems" by (subst parse_args.simps) (auto simp: pk t)
  qed
qed

lemma parse_backs_ok: "words_ok buf cmd \<Longrightarrow> parse_ok buf s (ret (parse_backs buf cmd s))"
proof (induction buf cmd s rule: parse_backs.induct)
  case (1 buf cmd s)
  obtain s1 go where pk: "peek buf s ''&'' = (s1, go)" by fastforce
  show ?case
  proof (cases go)
    case True
    then have "s \<le> skip_token buf s1" using peek_mono [OF pk] skip_token_less [of buf s _ s1] pk by force
    moreover have "parse_ok buf (skip_token buf s1) (ret (parse_backs buf (backcmd cmd) (skip_token buf s1)))"
      by (rule "1.IH" [OF pk [symmetric] True]) (simp add: cmd_defs "1.prems")
    ultimately have "parse_ok buf s (ret (parse_backs buf (backcmd cmd) (skip_token buf s1)))"
      using parse_ok_mono by blast
    then show ?thesis using True by (subst parse_backs.simps) (simp add: pk)
  next
    case False
    then show ?thesis using peek_mono [OF pk] "1.prems" by (subst parse_backs.simps) (simp add: pk)
  qed
qed

lemma next_token:
  assumes "peek buf s toks = (s1, go)" "go"
  shows "s < skip_token buf s1" "length buf - skip_token buf s1 < length buf - s"
  using peek_mono [OF assms(1)] peek_bound [of buf s toks s1] skip_token_less [of buf s toks s1] assms by auto

text \<open>The rest of a list or pipeline behind its separator, for both of \<open>parseline\<close> and \<open>parsepipe\<close>.\<close>

lemma parse_right:
  assumes "peek buf s toks = (s1, go)" "words_ok buf c"
    and "go \<Longrightarrow> parse_ok buf (skip_token buf s1) (p (skip_token buf s1))"
    and "\<And>r. words_ok buf (f c r) = (words_ok buf c \<and> words_ok buf r)"
  shows "parse_ok buf s (if go then rbind (p (skip_token buf s1)) (\<lambda>(right, s). ret (f c right, s)) else ret (c, s1))"
proof (cases go)
  case True
  have "parse_ok buf s (p (skip_token buf s1))"
    using parse_ok_mono [OF assms(3) [OF True]] next_token(1) [OF assms(1) True] by simp
  then have "parse_ok buf s (rbind (p (skip_token buf s1)) (\<lambda>(right, s). ret (f c right, s)))"
    by (rule parse_ok_bind) (use assms(2,4) in simp)
  then show ?thesis using True by simp
next
  case False
  then show ?thesis using peek_mono [OF assms(1)] assms(2) by simp
qed

lemma parseline_ok:
  assumes "parse_ok buf s (parsepipe k buf s)"
    and "\<And>s'. s < s' \<Longrightarrow> length buf - s' < length buf - s \<Longrightarrow> parse_ok buf s' (parseline k buf s')"
  shows "parse_ok buf s (parseline (Suc k) buf s)"
  unfolding parseline.simps
proof (rule parse_ok_bind [OF assms(1)])
  fix c s1 assume c: "s \<le> s1" "words_ok buf c"
  obtain c2 s2 where b: "parse_backs buf c s1 = (c2, s2)" by fastforce
  have b2: "s1 \<le> s2" "words_ok buf c2" using parse_backs_ok [OF c(2), of s1] b by simp_all
  obtain s3 go where pk: "peek buf s2 '';'' = (s3, go)" by fastforce
  have "parse_ok buf s2 (if go then rbind (parseline k buf (skip_token buf s3)) (\<lambda>(right, s). ret (listcmd c2 right, s)) else ret (c2, s3))"
  proof (rule parse_right [OF pk b2(2)])
    assume go
    show "parse_ok buf (skip_token buf s3) (parseline k buf (skip_token buf s3))"
      using next_token [OF pk \<open>go\<close>] c(1) b2(1) by (intro assms(2)) linarith+
  qed (simp add: cmd_defs)
  then show "parse_ok buf s (case (c, s1) of (cmd, s) \<Rightarrow> case parse_backs buf cmd s of (cmd, s) \<Rightarrow>
      case peek buf s '';'' of (s, go) \<Rightarrow>
      if go then rbind (parseline k buf (skip_token buf s)) (\<lambda>(right, s). ret (listcmd cmd right, s)) else ret (cmd, s))"
    using parse_ok_mono [of buf s2] c(1) b2(1) by (simp add: b pk)
qed

lemma parsepipe_ok:
  assumes "parse_ok buf s (parseexec k buf s)"
    and "\<And>s'. s < s' \<Longrightarrow> length buf - s' < length buf - s \<Longrightarrow> parse_ok buf s' (parsepipe k buf s')"
  shows "parse_ok buf s (parsepipe (Suc k) buf s)"
  unfolding parsepipe.simps
proof (rule parse_ok_bind [OF assms(1)])
  fix c s1 assume c: "s \<le> s1" "words_ok buf c"
  obtain s2 go where pk: "peek buf s1 ''|'' = (s2, go)" by fastforce
  have "parse_ok buf s1 (if go then rbind (parsepipe k buf (skip_token buf s2)) (\<lambda>(right, s). ret (pipecmd c right, s)) else ret (c, s2))"
  proof (rule parse_right [OF pk c(2)])
    assume go
    show "parse_ok buf (skip_token buf s2) (parsepipe k buf (skip_token buf s2))"
      using next_token [OF pk \<open>go\<close>] c(1) by (intro assms(2)) linarith+
  qed (simp add: cmd_defs)
  then show "parse_ok buf s (case (c, s1) of (cmd, s) \<Rightarrow> case peek buf s ''|'' of (s, go) \<Rightarrow>
      if go then rbind (parsepipe k buf (skip_token buf s)) (\<lambda>(right, s). ret (pipecmd cmd right, s)) else ret (cmd, s))"
    using parse_ok_mono [of buf s1] c(1) by (simp add: pk)
qed

lemma parseexec_ok:
  assumes "\<And>s'. s \<le> s' \<Longrightarrow> parse_ok buf s' (parseblock k buf s')"
  shows "parse_ok buf s (parseexec (Suc k) buf s)"
proof -
  obtain s1 block where pk: "peek buf s ''('' = (s1, block)" by fastforce
  have le: "s \<le> s1" by (rule peek_mono [OF pk])
  have "parse_ok buf s1 (rbind (parseredirs buf execcmd s1) (\<lambda>(cmd, s). parse_args buf cmd 0 s))"
  proof (rule parse_ok_bind [OF parseredirs_ok])
    fix c s2 assume "s1 \<le> s2" "words_ok buf c"
    then show "parse_ok buf s1 (case (c, s2) of (cmd, s) \<Rightarrow> parse_args buf cmd 0 s)"
      using parse_ok_mono [OF parse_args_ok] by simp
  qed (simp add: cmd_defs)
  then have "parse_ok buf s1 (if block then parseblock k buf s1
      else rbind (parseredirs buf execcmd s1) (\<lambda>(cmd, s). parse_args buf cmd 0 s))"
    using assms [OF le] by simp
  then show ?thesis using parse_ok_mono [OF _ le] by (simp add: pk)
qed

lemma parseblock_ok:
  assumes "\<And>s'. s < s' \<Longrightarrow> length buf - s' < length buf - s \<Longrightarrow> parse_ok buf s' (parseline k buf s')"
  shows "parse_ok buf s (parseblock (Suc k) buf s)"
proof -
  obtain s1 go where pk: "peek buf s ''('' = (s1, go)" by fastforce
  show ?thesis
  proof (cases go)
    case True
    note t = next_token [OF pk True]
    have "parse_ok buf s (parseline k buf (skip_token buf s1))"
      using parse_ok_mono [OF assms [OF t]] t(1) by simp
    then have "parse_ok buf s (rbind (parseline k buf (skip_token buf s1)) (\<lambda>(cmd, s).
        case peek buf s '')'' of (s, go) \<Rightarrow>
        if \<not> go then panic ''syntax - missing )'' else parseredirs buf cmd (skip_token buf s)))"
    proof (rule parse_ok_bind)
      fix c s2 assume c: "s \<le> s2" "words_ok buf c"
      obtain s3 go2 where pk2: "peek buf s2 '')'' = (s3, go2)" by fastforce
      have "s \<le> skip_token buf s3" if go2 using next_token(1) [OF pk2 that] c(1) by simp
      then show "parse_ok buf s (case (c, s2) of (cmd, s) \<Rightarrow> case peek buf s '')'' of (s, go) \<Rightarrow>
          if \<not> go then panic ''syntax - missing )'' else parseredirs buf cmd (skip_token buf s))"
        using parse_ok_mono [OF parseredirs_ok [OF c(2)]] by (simp add: pk2)
    qed
    then show ?thesis using True by (simp add: pk)
  qed (simp add: pk)
qed

lemma parser_ok:
  "(4 * (length buf - s) + 4 \<le> k \<longrightarrow> parse_ok buf s (parseline k buf s)) \<and>
   (4 * (length buf - s) + 3 \<le> k \<longrightarrow> parse_ok buf s (parsepipe k buf s)) \<and>
   (4 * (length buf - s) + 2 \<le> k \<longrightarrow> parse_ok buf s (parseexec k buf s)) \<and>
   (4 * (length buf - s) + 1 \<le> k \<longrightarrow> parse_ok buf s (parseblock k buf s))"
proof (induction k arbitrary: s)
  case (Suc k)
  have l: "parse_ok buf s' (parseline k buf s')" if "4 * (length buf - s') + 4 \<le> k" for s' using Suc that by blast
  have p: "parse_ok buf s' (parsepipe k buf s')" if "4 * (length buf - s') + 3 \<le> k" for s' using Suc that by blast
  have e: "parse_ok buf s' (parseexec k buf s')" if "4 * (length buf - s') + 2 \<le> k" for s' using Suc that by blast
  have b: "parse_ok buf s' (parseblock k buf s')" if "4 * (length buf - s') + 1 \<le> k" for s' using Suc that by blast
  show ?case
    by (intro conjI impI; (rule parseline_ok parsepipe_ok parseexec_ok parseblock_ok; intro l p e b; linarith))
qed simp

section \<open>The strings of a command\<close>

definition terminate :: "(nat \<times> nat) list \<Rightarrow> string \<Rightarrow> string" where
  "terminate ws buf = fold (\<lambda>w buf. buf[snd w := CHR 0x00]) ws buf"

lemma nulterminate_spans: "nulterminate c buf = terminate (spans c) buf"
  by (induction c arbitrary: buf) (simp_all add: terminate_def case_prod_beta')

lemma terminate_length [simp]: "length (terminate ws buf) = length buf"
  unfolding terminate_def by (induction ws arbitrary: buf) simp_all

lemma terminate_nth:
  "i < length buf \<Longrightarrow> terminate ws buf ! i = (if i \<in> snd ` set ws then CHR 0x00 else buf ! i)"
  unfolding terminate_def by (induction ws arbitrary: buf) (auto simp: nth_list_update)

lemma takeWhile_up_to:
  assumes "n < length xs" "\<And>i. i < n \<Longrightarrow> P (xs ! i)" "\<not> P (xs ! n)"
  shows "takeWhile P xs = take n xs"
  using assms takeWhile_eq_take_P_nth [of n xs P] by auto

lemma arg_str_word:
  assumes "word_at buf (q, eq)" "(q, eq) \<in> set ws" "\<forall>w \<in> set ws. word_at buf w" "CHR 0x00 \<notin> set buf"
  shows "arg_str (terminate ws (buf @ [CHR 0x00])) (q, eq) = take (eq - q) (drop q buf)"
proof -
  let ?b = "buf @ [CHR 0x00]" and ?t = "terminate ws (buf @ [CHR 0x00])"
  have w: "q < eq" "eq \<le> length buf" "\<And>i. q \<le> i \<Longrightarrow> i < eq \<Longrightarrow> plain (buf ! i)"
    using assms(1) by (auto simp: word_at_def)
  have keep: "?t ! i = buf ! i \<and> buf ! i \<noteq> CHR 0x00" if "q \<le> i" "i < eq" for i
  proof -
    have i: "i < length buf" using that w(2) by simp
    have "i \<notin> snd ` set ws" using assms(3) w(3) [OF that] i by (force simp: word_at_def)
    then have "?t ! i = buf ! i" using i by (simp add: terminate_nth nth_append)
    moreover have "buf ! i \<in> set buf" using i by simp
    ultimately show ?thesis using assms(4) by metis
  qed
  have e: "?t ! eq = CHR 0x00" using assms(2) w(2) by (subst terminate_nth) (force simp: image_iff)+
  have "takeWhile (\<lambda>c. c \<noteq> CHR 0x00) (drop q ?t) = take (eq - q) (drop q ?t)"
    by (rule takeWhile_up_to) (use keep e w in auto)
  also have "\<dots> = take (eq - q) (drop q buf)"
    using w keep by (intro nth_equalityI) auto
  finally show ?thesis by (simp add: arg_str_def c_str_def)
qed

text \<open>
  C35: the parser returns on every line, whatever characters the user has typed: with a
  command or with one of its syntax errors. Parentheses, pipelines and lists of any depth end the recursion.
\<close>

theorem parsecmd_returns: "\<exists>r. parsecmd buf = Some r"
proof -
  have "parse_ok buf 0 (parseline (4 * length buf + 4) buf 0)" using parser_ok [of buf 0] by simp
  then obtain r where r: "parseline (4 * length buf + 4) buf 0 = Some r" by (auto simp: parse_ok_def)
  show ?thesis by (cases r) (auto simp: parsecmd_def r Let_def split: prod.split)
qed



end
