(* ===== verification/Progs.thy ===== *)
theory Progs
  imports Ulib
begin

text \<open>
  The small user programs: init, cat, echo, kill, ln, ls, mkdir, rm, wc and zombie. The argument \<open>argv\<close> of a
  \<open>main\<close> includes the name of the program.
\<close>

section \<open>cat.c\<close>

partial_function (option) cat :: "'e kern \<Rightarrow> int \<Rightarrow> ('e, unit) usr" where
  "cat h fd e =
     ubind (h (U_read fd 512)) (\<lambda>r.
     let n = r_val r in
     if 0 < n then
       ubind (sys h (U_write 1 (take (nat n) (r_bytes r)))) (\<lambda>w.
       if w \<noteq> n then ubind (fprintf h 1 ''cat: write error\<newline>'' []) (\<lambda>_. uexit h) else cat h fd)
     else if n < 0 then ubind (fprintf h 1 ''cat: read error\<newline>'' []) (\<lambda>_. uexit h)
     else uret ()) e"

fun cat_files :: "'e kern \<Rightarrow> string list \<Rightarrow> ('e, unit) usr" where
  "cat_files h [] = uexit h"
| "cat_files h (a # as) =
     ubind (sys h (U_open a 0)) (\<lambda>fd.
     if fd < 0 then ubind (fprintf h 1 ''cat: cannot open %s\<newline>'' [Str a]) (\<lambda>_. uexit h)
     else ubind (cat h fd) (\<lambda>_. ubind (sys h (U_close fd)) (\<lambda>_. cat_files h as)))"

definition cat_main :: "'e kern \<Rightarrow> string list \<Rightarrow> ('e, unit) usr" where
  "cat_main h argv = (if length argv \<le> 1 then ubind (cat h 0) (\<lambda>_. uexit h) else cat_files h (tl argv))"

section \<open>echo.c, kill.c, ln.c, mkdir.c, rm.c, zombie.c\<close>

fun echo_args :: "'e kern \<Rightarrow> string list \<Rightarrow> ('e, unit) usr" where
  "echo_args h [] = uexit h"
| "echo_args h (a # as) =
     ubind (fprintf h 1 ''%s%s'' [Str a, Str (if as \<noteq> [] then '' '' else ''\<newline>'')]) (\<lambda>_. echo_args h as)"

definition echo_main :: "'e kern \<Rightarrow> string list \<Rightarrow> ('e, unit) usr" where
  "echo_main h argv = echo_args h (tl argv)"

fun kill_args :: "'e kern \<Rightarrow> string list \<Rightarrow> ('e, unit) usr" where
  "kill_args h [] = uexit h"
| "kill_args h (a # as) = ubind (sys h (U_kill (atoi a))) (\<lambda>_. kill_args h as)"

definition kill_main :: "'e kern \<Rightarrow> string list \<Rightarrow> ('e, unit) usr" where
  "kill_main h argv =
     (if length argv < 2 then ubind (fprintf h 2 ''usage: kill pid...\<newline>'' []) (\<lambda>_. uexit h) else kill_args h (tl argv))"

definition ln_main :: "'e kern \<Rightarrow> string list \<Rightarrow> ('e, unit) usr" where
  "ln_main h argv =
     (if length argv \<noteq> 3 then ubind (fprintf h 2 ''Usage: ln old new\<newline>'' []) (\<lambda>_. uexit h)
      else ubind (sys h (U_link (argv ! 1) (argv ! 2))) (\<lambda>r.
        ubind (if r < 0 then fprintf h 2 ''link %s %s: failed\<newline>'' [Str (argv ! 1), Str (argv ! 2)] else uret ()) (\<lambda>_. uexit h)))"

fun mkdir_args :: "'e kern \<Rightarrow> string list \<Rightarrow> ('e, unit) usr" where
  "mkdir_args h [] = uexit h"
| "mkdir_args h (a # as) =
     ubind (sys h (U_mkdir a)) (\<lambda>r.
     if r < 0 then ubind (fprintf h 2 ''mkdir: %s failed to create\<newline>'' [Str a]) (\<lambda>_. uexit h) else mkdir_args h as)"

definition mkdir_main :: "'e kern \<Rightarrow> string list \<Rightarrow> ('e, unit) usr" where
  "mkdir_main h argv =
     (if length argv < 2 then ubind (fprintf h 2 ''Usage: mkdir files...\<newline>'' []) (\<lambda>_. uexit h) else mkdir_args h (tl argv))"

fun rm_args :: "'e kern \<Rightarrow> string list \<Rightarrow> ('e, unit) usr" where
  "rm_args h [] = uexit h"
| "rm_args h (a # as) =
     ubind (sys h (U_unlink a)) (\<lambda>r.
     if r < 0 then ubind (fprintf h 2 ''rm: %s failed to delete\<newline>'' [Str a]) (\<lambda>_. uexit h) else rm_args h as)"

definition rm_main :: "'e kern \<Rightarrow> string list \<Rightarrow> ('e, unit) usr" where
  "rm_main h argv =
     (if length argv < 2 then ubind (fprintf h 2 ''Usage: rm files...\<newline>'' []) (\<lambda>_. uexit h) else rm_args h (tl argv))"

definition zombie_main :: "'e kern \<Rightarrow> ('e, unit) usr" where
  "zombie_main h =
     ubind (sys h U_fork) (\<lambda>pid. ubind (if 0 < pid then sys h (U_sleep 5) else uret 0) (\<lambda>_. uexit h))"

section \<open>wc.c\<close>

text \<open>The counters of \<open>wc\<close>: lines, words, characters, and whether the last character was in a word.\<close>

type_synonym counts = "int \<times> int \<times> int \<times> bool"

definition wc_char :: "char \<Rightarrow> counts \<Rightarrow> counts" where
  "wc_char ch = (\<lambda>(l, w, c, inword).
     (if ch = CHR ''\<newline>'' then s32 (l + 1) else l,
      if ch \<in> set [CHR '' '', CHR 0x0D, CHR 0x09, CHR ''\<newline>'', CHR 0x0B] then (w, s32 (c + 1), False)
      else if \<not> inword then (s32 (w + 1), s32 (c + 1), True)
      else (w, s32 (c + 1), inword)))"

partial_function (option) wc_loop :: "'e kern \<Rightarrow> int \<Rightarrow> counts \<Rightarrow> ('e, int \<times> counts) usr" where
  "wc_loop h fd cs e =
     ubind (h (U_read fd 512)) (\<lambda>r.
     let n = r_val r in
     if 0 < n then wc_loop h fd (fold wc_char (take (nat n) (r_bytes r)) cs) else uret (n, cs)) e"

definition wc :: "'e kern \<Rightarrow> int \<Rightarrow> string \<Rightarrow> ('e, unit) usr" where
  "wc h fd name =
     ubind (wc_loop h fd (0, 0, 0, False)) (\<lambda>(n, l, w, c, _).
     if n < 0 then ubind (fprintf h 1 ''wc: read error\<newline>'' []) (\<lambda>_. uexit h)
     else fprintf h 1 ''%d %d %d %s\<newline>'' [W (word_of_int l), W (word_of_int w), W (word_of_int c), Str name])"

fun wc_files :: "'e kern \<Rightarrow> string list \<Rightarrow> ('e, unit) usr" where
  "wc_files h [] = uexit h"
| "wc_files h (a # as) =
     ubind (sys h (U_open a 0)) (\<lambda>fd.
     if fd < 0 then ubind (fprintf h 1 ''wc: cannot open %s\<newline>'' [Str a]) (\<lambda>_. uexit h)
     else ubind (wc h fd a) (\<lambda>_. ubind (sys h (U_close fd)) (\<lambda>_. wc_files h as)))"

definition wc_main :: "'e kern \<Rightarrow> string list \<Rightarrow> ('e, unit) usr" where
  "wc_main h argv = (if length argv \<le> 1 then ubind (wc h 0 []) (\<lambda>_. uexit h) else wc_files h (tl argv))"

section \<open>ls.c\<close>

text \<open>
  \<open>fmtname\<close>: the part of the path behind the last slash, padded with blanks to DIRSIZ characters. A
  longer name is returned as it is. The array it pads is static: its bytes beyond DIRSIZ stay 0.
\<close>

definition fmtname :: "string \<Rightarrow> string" where
  "fmtname path =
     (let p = rev (takeWhile (\<lambda>c. c \<noteq> CHR ''/'') (rev path)) in
      if DIRSIZ \<le> length p then p else p @ replicate (DIRSIZ - length p) (CHR '' ''))"

definition ls_line :: "'e kern \<Rightarrow> string \<Rightarrow> stat \<Rightarrow> ('e, unit) usr" where
  "ls_line h name st =
     fprintf h 1 ''%s %d %d %d\<newline>'' [Str (fmtname name), W (word_of_int (sint (st_type st))), W (st_ino st), W (st_size st)]"

text \<open>The entries of a directory, 16 bytes each: the inode number and the name.\<close>

partial_function (option) ls_entries :: "'e kern \<Rightarrow> int \<Rightarrow> string \<Rightarrow> ('e, unit) usr" where
  "ls_entries h fd path e =
     ubind (h (U_read fd 16)) (\<lambda>r.
     if r_val r \<noteq> 16 then uret ()
     else let de = r_bytes r in
       if take 2 de = [CHR 0x00, CHR 0x00] then ls_entries h fd path
       else let buf = c_str (path @ ''/'' @ take DIRSIZ (drop 2 de)) in
         ubind (ustat h buf) (\<lambda>vs.
         if fst vs < 0 then ubind (fprintf h 1 ''ls: cannot stat %s\<newline>'' [Str buf]) (\<lambda>_. ls_entries h fd path)
         else ubind (ls_line h buf (snd vs)) (\<lambda>_. ls_entries h fd path))) e"

definition ls :: "'e kern \<Rightarrow> string \<Rightarrow> ('e, unit) usr" where
  "ls h path =
     ubind (sys h (U_open path 0)) (\<lambda>fd.
     if fd < 0 then fprintf h 2 ''ls: cannot open %s\<newline>'' [Str path]
     else ubind (h (U_fstat fd)) (\<lambda>r.
       if r_val r < 0 then ubind (fprintf h 2 ''ls: cannot stat %s\<newline>'' [Str path]) (\<lambda>_. ubind (sys h (U_close fd)) (\<lambda>_. uret ()))
       else ubind
         (if st_type (r_stat r) = T_FILE then ls_line h path (r_stat r)
          else if st_type (r_stat r) = T_DIR then
            (if 512 < length path + 1 + DIRSIZ + 1 then fprintf h 1 ''ls: path too long\<newline>'' []
             else ls_entries h fd path)
          else uret ()) (\<lambda>_. ubind (sys h (U_close fd)) (\<lambda>_. uret ()))))"

fun ls_args :: "'e kern \<Rightarrow> string list \<Rightarrow> ('e, unit) usr" where
  "ls_args h [] = uexit h"
| "ls_args h (a # as) = ubind (ls h a) (\<lambda>_. ls_args h as)"

definition ls_main :: "'e kern \<Rightarrow> string list \<Rightarrow> ('e, unit) usr" where
  "ls_main h argv = (if length argv < 2 then ubind (ls h ''.'') (\<lambda>_. uexit h) else ls_args h (tl argv))"

section \<open>init.c\<close>

partial_function (option) init_wait :: "'e kern \<Rightarrow> int \<Rightarrow> ('e, unit) usr" where
  "init_wait h pid e =
     ubind (sys h U_wait) (\<lambda>wpid.
     if 0 \<le> wpid \<and> wpid \<noteq> pid then ubind (fprintf h 1 ''zombie!\<newline>'' []) (\<lambda>_. init_wait h pid) else uret ()) e"

partial_function (option) init_loop :: "'e kern \<Rightarrow> ('e, unit) usr" where
  "init_loop h e =
     ubind (fprintf h 1 ''init: starting sh\<newline>'' []) (\<lambda>_.
     ubind (sys h U_fork) (\<lambda>pid.
     if pid < 0 then ubind (fprintf h 1 ''init: fork failed\<newline>'' []) (\<lambda>_. uexit h)
     else if pid = 0 then
       ubind (sys h (U_exec ''sh'' [''sh''])) (\<lambda>_. ubind (fprintf h 1 ''init: exec sh failed\<newline>'' []) (\<lambda>_. uexit h))
     else ubind (init_wait h pid) (\<lambda>_. init_loop h))) e"

definition O_RDWR_mode :: int where "O_RDWR_mode = 2"

definition init_main :: "'e kern \<Rightarrow> ('e, unit) usr" where
  "init_main h =
     ubind (sys h (U_open ''console'' O_RDWR_mode)) (\<lambda>fd.
     ubind (if fd < 0 then ubind (sys h (U_mknod ''console'' 1 1)) (\<lambda>_. sys h (U_open ''console'' O_RDWR_mode)) else uret fd) (\<lambda>_.
     ubind (sys h (U_dup 0)) (\<lambda>_. ubind (sys h (U_dup 0)) (\<lambda>_. init_loop h))))"

end
