(* ===== verification/GrepProps.thy ===== *)
theory GrepProps
  imports Grep Progs
begin

text \<open>
  The matcher of grep.c against the language of its patterns.
\<close>

section \<open>The language of a pattern\<close>

datatype item = One char | Star char

text \<open>A pattern is a sequence of characters, some of them starred; a final \<open>$\<close> anchors it at the end of the text.\<close>

fun items :: "string \<Rightarrow> item list" where
  "items [] = []"
| "items (c # re) =
     (if re \<noteq> [] \<and> hd re = CHR ''*'' then Star c # items (tl re)
      else if c = CHR ''$'' \<and> re = [] then [] else One c # items re)"

fun anchored :: "string \<Rightarrow> bool" where
  "anchored [] = False"
| "anchored (c # re) =
     (if re \<noteq> [] \<and> hd re = CHR ''*'' then anchored (tl re) else if c = CHR ''$'' \<and> re = [] then True else anchored re)"

definition matches_char :: "char \<Rightarrow> char \<Rightarrow> bool" where
  "matches_char c x \<longleftrightarrow> c = CHR ''.'' \<or> x = c"

fun lang :: "item list \<Rightarrow> string set" where
  "lang [] = {[]}"
| "lang (One c # is) = {x # u | x u. matches_char c x \<and> u \<in> lang is}"
| "lang (Star c # is) = {us @ u | us u. (\<forall>x \<in> set us. matches_char c x) \<and> u \<in> lang is}"

text \<open>The pattern matches at the beginning of the text.\<close>

definition prefix_in :: "item list \<Rightarrow> bool \<Rightarrow> string \<Rightarrow> bool" where
  "prefix_in is e tx \<longleftrightarrow> (\<exists>u v. tx = u @ v \<and> u \<in> lang is \<and> (e \<longrightarrow> v = []))"

lemma prefix_inI: "u \<in> lang is \<Longrightarrow> (e \<longrightarrow> v = []) \<Longrightarrow> prefix_in is e (u @ v)"
  unfolding prefix_in_def by blast

lemma prefix_inE:
  assumes "prefix_in is e tx"
  obtains u v where "tx = u @ v" "u \<in> lang is" "e \<longrightarrow> v = []"
  using assms unfolding prefix_in_def by blast

lemma lang_StarI: "\<forall>x \<in> set us. matches_char c x \<Longrightarrow> u \<in> lang is \<Longrightarrow> us @ u \<in> lang (Star c # is)"
  unfolding lang.simps by blast

lemma prefix_in_One:
  "prefix_in (One c # is) e tx \<longleftrightarrow> tx \<noteq> [] \<and> matches_char c (hd tx) \<and> prefix_in is e (tl tx)"
proof
  assume "prefix_in (One c # is) e tx"
  then obtain w v where w: "tx = w @ v" "w \<in> lang (One c # is)" "e \<longrightarrow> v = []" by (rule prefix_inE)
  then obtain x u where "w = x # u" "matches_char c x" "u \<in> lang is" by auto
  then show "tx \<noteq> [] \<and> matches_char c (hd tx) \<and> prefix_in is e (tl tx)" using w prefix_inI [of u "is" e v] by simp
next
  assume a: "tx \<noteq> [] \<and> matches_char c (hd tx) \<and> prefix_in is e (tl tx)"
  then have "prefix_in is e (tl tx)" by blast
  then obtain u v where u: "tl tx = u @ v" "u \<in> lang is" "e \<longrightarrow> v = []" by (rule prefix_inE)
  have "hd tx # u \<in> lang (One c # is)" using a u(2) by simp
  then have "prefix_in (One c # is) e ((hd tx # u) @ v)" using u(3) by (rule prefix_inI)
  moreover have "tx = (hd tx # u) @ v" using a u(1) by (cases tx) simp_all
  ultimately show "prefix_in (One c # is) e tx" by simp
qed

lemma prefix_in_Star:
  "prefix_in (Star c # is) e tx \<longleftrightarrow>
     prefix_in is e tx \<or> (tx \<noteq> [] \<and> matches_char c (hd tx) \<and> prefix_in (Star c # is) e (tl tx))"
proof
  assume "prefix_in (Star c # is) e tx"
  then obtain w v where w: "tx = w @ v" "w \<in> lang (Star c # is)" "e \<longrightarrow> v = []" by (rule prefix_inE)
  then obtain us u where u: "w = us @ u" "\<forall>x \<in> set us. matches_char c x" "u \<in> lang is" by auto
  show "prefix_in is e tx \<or> (tx \<noteq> [] \<and> matches_char c (hd tx) \<and> prefix_in (Star c # is) e (tl tx))"
  proof (cases us)
    case Nil
    then show ?thesis using u w prefix_inI [of u "is" e v] by simp
  next
    case (Cons x us')
    have "us' @ u \<in> lang (Star c # is)" using u Cons by (intro lang_StarI) simp_all
    then have "prefix_in (Star c # is) e ((us' @ u) @ v)" using w(3) by (rule prefix_inI)
    then show ?thesis using u w Cons by simp
  qed
next
  assume "prefix_in is e tx \<or> (tx \<noteq> [] \<and> matches_char c (hd tx) \<and> prefix_in (Star c # is) e (tl tx))"
  then consider "prefix_in is e tx" | "tx \<noteq> []" "matches_char c (hd tx)" "prefix_in (Star c # is) e (tl tx)" by blast
  then show "prefix_in (Star c # is) e tx"
  proof cases
    case 1
    then obtain u v where u: "tx = u @ v" "u \<in> lang is" "e \<longrightarrow> v = []" by (rule prefix_inE)
    have "[] @ u \<in> lang (Star c # is)" using u(2) by (intro lang_StarI) simp_all
    then show ?thesis using u prefix_inI [of u "Star c # is" e v] by simp
  next
    case 2
    from 2(3) obtain w v where w: "tl tx = w @ v" "w \<in> lang (Star c # is)" "e \<longrightarrow> v = []" by (rule prefix_inE)
    then obtain us u where u: "w = us @ u" "\<forall>x \<in> set us. matches_char c x" "u \<in> lang is" by auto
    have "(hd tx # us) @ u \<in> lang (Star c # is)"
      using u 2(2) by (intro lang_StarI) simp_all
    then have "prefix_in (Star c # is) e (((hd tx # us) @ u) @ v)" using w(3) by (rule prefix_inI)
    moreover have "tx = ((hd tx # us) @ u) @ v" using 2(1) w(1) u(1) by (cases tx) simp_all
    ultimately show ?thesis by simp
  qed
qed

lemma matchhere_prefix:
  "matchhere re tx \<longleftrightarrow> prefix_in (items re) (anchored re) tx"
  "matchstar c re tx \<longleftrightarrow> prefix_in (Star c # items re) (anchored re) tx"
proof (induction re tx and c re tx rule: matchhere_matchstar.induct)
  case (1 tx)
  then show ?case by (simp add: prefix_in_def)
next
  case (2 c re tx)
  consider (star) "re \<noteq> [] \<and> hd re = CHR ''*''" | (dollar) "c = CHR ''$''" "re = []"
    | (one) "\<not> (re \<noteq> [] \<and> hd re = CHR ''*'')" "\<not> (c = CHR ''$'' \<and> re = [])" by blast
  then show ?case
  proof cases
    case star
    then show ?thesis using "2.IH"(1) by simp
  next
    case dollar
    then show ?thesis by (auto simp: prefix_in_def)
  next
    case one
    have i: "items (c # re) = One c # items re" "anchored (c # re) = anchored re"
      "matchhere (c # re) tx = (tx \<noteq> [] \<and> matches_char c (hd tx) \<and> matchhere re (tl tx))"
      using one by (simp_all add: matches_char_def) blast+
    show ?thesis
    proof (cases "tx \<noteq> [] \<and> (c = CHR ''.'' \<or> c = hd tx)")
      case True
      then have "matchhere re (tl tx) = prefix_in (items re) (anchored re) (tl tx)" using "2.IH"(2) one by blast
      then show ?thesis unfolding i prefix_in_One by simp
    next
      case False
      then show ?thesis unfolding i prefix_in_One matches_char_def by blast
    qed
  qed
next
  case (3 c re tx)
  have i: "matchstar c re tx = (matchhere re tx \<or> (tx \<noteq> [] \<and> matches_char c (hd tx) \<and> matchstar c re (tl tx)))"
    by (subst matchstar.simps) (auto simp: matches_char_def)
  show ?case
  proof (cases "matchhere re tx \<or> \<not> (tx \<noteq> [] \<and> (hd tx = c \<or> c = CHR ''.''))")
    case True
    then show ?thesis unfolding i prefix_in_Star [of c "items re" _ tx] "3.IH"(1) matches_char_def by blast
  next
    case False
    then have "matchstar c re (tl tx) = prefix_in (Star c # items re) (anchored re) (tl tx)" using "3.IH"(2) by blast
    then show ?thesis unfolding i prefix_in_Star [of c "items re" _ tx] "3.IH"(1) by simp
  qed
qed

lemma match_from_suffix: "match_from re tx \<longleftrightarrow> (\<exists>a b. tx = a @ b \<and> matchhere re b)"
proof (induction tx)
  case Nil
  then show ?case by (subst match_from.simps) simp
next
  case (Cons c tx)
  have "(\<exists>a b. c # tx = a @ b \<and> matchhere re b) \<longleftrightarrow> matchhere re (c # tx) \<or> (\<exists>a b. tx = a @ b \<and> matchhere re b)"
    by (metis append_eq_Cons_conv)
  then show ?case using Cons by (subst match_from.simps) simp
qed

text \<open>
  C37: \<open>match\<close> accepts a line exactly when some part of it belongs to the language of the
  pattern, where \<open>.\<close> stands for any character and a starred character for any number of copies, and the
  part starts the line under a leading \<open>^\<close> and ends it under a final \<open>$\<close>.
\<close>

theorem match_language:
  "match re tx \<longleftrightarrow> (\<exists>a u v. tx = a @ u @ v \<and>
     (let body = (if re \<noteq> [] \<and> hd re = CHR ''^'' then tl re else re) in
      u \<in> lang (items body) \<and> (anchored body \<longrightarrow> v = []) \<and> (body \<noteq> re \<longrightarrow> a = [])))"
proof (cases "re \<noteq> [] \<and> hd re = CHR ''^''")
  case True
  then have ne: "tl re \<noteq> re" by (cases re) auto
  have "match re tx \<longleftrightarrow> prefix_in (items (tl re)) (anchored (tl re)) tx"
    using True by (simp add: match_def matchhere_prefix)
  also have "\<dots> \<longleftrightarrow> (\<exists>a u v. tx = a @ u @ v \<and> u \<in> lang (items (tl re)) \<and> (anchored (tl re) \<longrightarrow> v = []) \<and> a = [])"
    unfolding prefix_in_def by blast
  finally show ?thesis using True ne by (simp add: Let_def)
next
  case False
  have "match re tx \<longleftrightarrow> (\<exists>a b. tx = a @ b \<and> prefix_in (items re) (anchored re) b)"
    unfolding match_def using False by (simp only: if_False match_from_suffix matchhere_prefix)
  also have "\<dots> \<longleftrightarrow> (\<exists>a u v. tx = a @ u @ v \<and> u \<in> lang (items re) \<and> (anchored re \<longrightarrow> v = []))"
    unfolding prefix_in_def by blast
  finally show ?thesis unfolding if_not_P [OF False] Let_def by simp
qed

theorem match_language_witness:
  "match ''^ab*$'' ''abb'' \<and> (\<exists>u v. ''abb'' = u @ v \<and> u \<in> lang (items ''ab*$'') \<and> v = [])"
proof -
  have m: "match ''^ab*$'' ''abb''" by code_simp
  moreover have "anchored ''ab*$''" by code_simp
  ultimately show ?thesis using match_language [of "''^ab*$''" "''abb''"] by (simp add: Let_def)
qed

end
