(* ===== verification/Mkfs.thy ===== *)
theory Mkfs
  imports Devices Fs
begin

unbundle bit_operations_syntax

text \<open>
  mkfs.c: the program of the build host that creates the file system image. Its state is the image file
  and its static variables. A failed assertion, a failed call of the host and \<open>exit(1)\<close> are errors; the
  messages of the program on its standard output are left out. The host stores words as the target does.
\<close>

section \<open>State\<close>

definition NINODES :: nat where "NINODES = 200"
definition nbitmap :: nat where "nbitmap = unat FSSIZE div (BSIZE * 8) + 1"
definition ninodeblocks :: nat where "ninodeblocks = NINODES div IPB + 1"
definition nlog :: nat where "nlog = nat LOGSIZE"
definition nmeta :: nat where "nmeta = 2 + nlog + ninodeblocks + nbitmap"
definition nblocks :: nat where "nblocks = unat FSSIZE - nmeta"

text \<open>The image file is its sectors and their number; a sector that is skipped by a seek reads as zeroes.\<close>

record mkst =
  img :: "u32 \<Rightarrow> block"
  img_len :: nat
  mk_sb :: superblock
  freeinode :: u32
  freeblock :: u32

definition zeroes :: block where "zeroes = replicate BSIZE 0"

text \<open>The bytes of a word in the byte order of the target, read back as a word of the host.\<close>

definition xshort :: "u16 \<Rightarrow> u16" where
  "xshort x = get16 [ucast x, ucast (drop_bit 8 x)] 0"

definition xint :: "u32 \<Rightarrow> u32" where
  "xint x = get32 [ucast x, ucast (drop_bit 8 x), ucast (drop_bit 16 x), ucast (drop_bit 24 x)] 0"

section \<open>Sectors\<close>

definition wsect :: "u32 \<Rightarrow> block \<Rightarrow> mkst \<Rightarrow> mkst res" where
  "wsect sec buf s =
     (if FSSIZE < sec then panic ''failed: trying to write sector''
      else ret (s\<lparr>img := (img s)(sec := buf), img_len := max (img_len s) (unat sec + 1)\<rparr>))"

definition rsect :: "u32 \<Rightarrow> mkst \<Rightarrow> block res" where
  "rsect sec s =
     (if FSSIZE < sec then panic ''failed: trying to read sector''
      else if img_len s \<le> unat sec then panic ''read''
      else ret (img s sec))"

section \<open>Inodes\<close>

definition winode :: "u32 \<Rightarrow> dinode \<Rightarrow> mkst \<Rightarrow> mkst res" where
  "winode inum ip s =
     (let bn = IBLOCK inum (mk_sb s) in
      rbind (rsect bn s) (\<lambda>buf. wsect bn (put_dinode buf (unat inum mod IPB) ip) s))"

definition rinode :: "u32 \<Rightarrow> mkst \<Rightarrow> dinode res" where
  "rinode inum s =
     (let bn = IBLOCK inum (mk_sb s) in rbind (rsect bn s) (\<lambda>buf. ret (get_dinode buf (unat inum mod IPB))))"

definition mk_ialloc :: "u16 \<Rightarrow> mkst \<Rightarrow> (u32 \<times> mkst) res" where
  "mk_ialloc ty s =
     (let inum = freeinode s; s = s\<lparr>freeinode := freeinode s + 1\<rparr>;
          din = zero_dinode\<lparr>d_type := xshort ty, d_nlink := xshort 1, d_size := xint 0\<rparr>
      in rbind (winode inum din s) (\<lambda>s. ret (inum, s)))"

definition mk_balloc :: "nat \<Rightarrow> mkst \<Rightarrow> mkst res" where
  "mk_balloc used s =
     (if \<not> used < BSIZE * 8 then panic ''assert''
      else let buf = fold (\<lambda>i buf. mark_used buf i) [0..<used] zeroes
           in wsect (sb_bmapstart (mk_sb s)) buf s)"

section \<open>Appending to a file\<close>

text \<open>The block of the file that the loop of \<open>iappend\<close> is about to write, allocated if it is missing.\<close>

definition mk_block :: "nat \<Rightarrow> dinode \<Rightarrow> mkst \<Rightarrow> (u32 \<times> dinode \<times> mkst) res" where
  "mk_block fbn din s =
     (if fbn < NDIRECT then
        let (din, s) =
          (if xint (d_addrs din fbn) = 0
           then (din\<lparr>d_addrs := (d_addrs din)(fbn := xint (freeblock s))\<rparr>, s\<lparr>freeblock := freeblock s + 1\<rparr>)
           else (din, s))
        in ret (xint (d_addrs din fbn), din, s)
      else
        let (din, s) =
          (if xint (d_addrs din NDIRECT) = 0
           then (din\<lparr>d_addrs := (d_addrs din)(NDIRECT := xint (freeblock s))\<rparr>, s\<lparr>freeblock := freeblock s + 1\<rparr>)
           else (din, s))
        in rbind (rsect (xint (d_addrs din NDIRECT)) s) (\<lambda>indirect.
           if get32 indirect (4 * (fbn - NDIRECT)) = 0 then
             let indirect = put32 indirect (4 * (fbn - NDIRECT)) (xint (freeblock s)) in
             rbind (wsect (xint (d_addrs din NDIRECT)) indirect (s\<lparr>freeblock := freeblock s + 1\<rparr>)) (\<lambda>s.
             ret (xint (get32 indirect (4 * (fbn - NDIRECT))), din, s))
           else ret (xint (get32 indirect (4 * (fbn - NDIRECT))), din, s)))"

text \<open>\<open>bcopy\<close> of some bytes into a block.\<close>

definition splice :: "block \<Rightarrow> nat \<Rightarrow> u8 list \<Rightarrow> block" where
  "splice d i p = take i d @ p @ drop (i + length p) d"

function iappend_loop :: "dinode \<Rightarrow> u32 \<Rightarrow> u8 list \<Rightarrow> mkst \<Rightarrow> (dinode \<times> u32 \<times> mkst) res" where
  "iappend_loop din off p s =
     (if p = [] then ret (din, off, s)
      else let fbn = unat (off div of_nat BSIZE) in
        if \<not> fbn < MAXFILE then panic ''assert''
        else let n1 = min (length p) ((fbn + 1) * BSIZE - unat off) in
          rbind (mk_block fbn din s) (\<lambda>(x, din, s).
          rbind (rsect x s) (\<lambda>buf.
          rbind (wsect x (splice buf (unat off - fbn * BSIZE) (take n1 p)) s) (\<lambda>s.
          iappend_loop din (off + of_nat n1) (drop n1 p) s))))"
  by pat_completeness auto

lemma block_end: "unat off < (unat (off div of_nat BSIZE) + 1) * BSIZE" for off :: u32
proof -
  have "unat (off div of_nat BSIZE) = unat off div BSIZE" by (simp add: unat_div_distrib BSIZE_def)
  then show ?thesis by (simp add: BSIZE_def)
qed

termination iappend_loop
  using block_end by (relation "measure (\<lambda>(din, off, p, s). length p)") (auto simp: min_def)

declare iappend_loop.simps [simp del]

definition iappend :: "u32 \<Rightarrow> u8 list \<Rightarrow> mkst \<Rightarrow> mkst res" where
  "iappend inum p s =
     rbind (rinode inum s) (\<lambda>din.
     rbind (iappend_loop din (xint (d_size din)) p s) (\<lambda>(din, off, s).
     winode inum (din\<lparr>d_size := xint off\<rparr>) s))"

section \<open>The program\<close>

text \<open>The copy of the superblock into its sector.\<close>

definition sb_block :: "superblock \<Rightarrow> block" where
  "sb_block b = put32 (put32 (put32 (put32 (put32 (put32 (put32 zeroes
     0 (sb_size b)) 4 (sb_nblocks b)) 8 (sb_ninodes b)) 12 (sb_nlog b)) 16 (sb_logstart b))
     20 (sb_inodestart b)) 24 (sb_bmapstart b)"

fun write_zeroes :: "nat list \<Rightarrow> mkst \<Rightarrow> mkst res" where
  "write_zeroes [] s = ret s"
| "write_zeroes (i # is) s = rbind (wsect (of_nat i) zeroes s) (write_zeroes is)"

fun iappend_all :: "u32 \<Rightarrow> u8 list list \<Rightarrow> mkst \<Rightarrow> mkst res" where
  "iappend_all inum [] s = ret s"
| "iappend_all inum (p # ps) s = rbind (iappend inum p s) (iappend_all inum ps)"

text \<open>
  A file of the command line: its name and, unless it cannot be opened, the pieces that successive calls of
  \<open>read\<close> return.
\<close>

type_synonym host_file = "cstr \<times> u8 list list option"

definition image_name :: "cstr \<Rightarrow> cstr" where
  "image_name name = (if name \<noteq> [] \<and> hd name = 95 then tl name else name)"

fun add_files :: "u32 \<Rightarrow> host_file list \<Rightarrow> mkst \<Rightarrow> mkst res" where
  "add_files rootino [] s = ret s"
| "add_files rootino ((name, contents) # fs) s =
     (if SLASH \<in> set name then panic ''assert''
      else case contents of None \<Rightarrow> panic ''open''
      | Some pieces \<Rightarrow>
          rbind (mk_ialloc T_FILE s) (\<lambda>(inum, s).
          rbind (iappend rootino (dirent_bytes (xshort (ucast inum)) (image_name name)) s) (\<lambda>s.
          rbind (iappend_all inum pieces s) (add_files rootino fs))))"

definition mk_superblock :: superblock where
  "mk_superblock = \<lparr>sb_size = xint FSSIZE, sb_nblocks = xint (of_nat nblocks), sb_ninodes = xint (of_nat NINODES),
     sb_nlog = xint (of_nat nlog), sb_logstart = xint 2, sb_inodestart = xint (of_nat (2 + nlog)),
     sb_bmapstart = xint (of_nat (2 + nlog + ninodeblocks))\<rparr>"

text \<open>The empty image with its root directory.\<close>

definition mk_start :: mkst where
  "mk_start = \<lparr>img = (\<lambda>_. zeroes), img_len = 0, mk_sb = mk_superblock, freeinode = 1, freeblock = of_nat nmeta\<rparr>"

definition make_root :: "mkst \<Rightarrow> (u32 \<times> mkst) res" where
  "make_root s =
     rbind (write_zeroes [0..<unat FSSIZE] s) (\<lambda>s.
     rbind (wsect 1 (sb_block (mk_sb s)) s) (\<lambda>s.
     rbind (mk_ialloc T_DIR s) (\<lambda>(rootino, s).
     if rootino \<noteq> ROOTINO then panic ''assert''
     else rbind (iappend rootino (dirent_bytes (xshort (ucast rootino)) [46]) s) (\<lambda>s.
          rbind (iappend rootino (dirent_bytes (xshort (ucast rootino)) [46, 46]) s) (\<lambda>s.
          ret (rootino, s))))))"

definition finish :: "u32 \<Rightarrow> mkst \<Rightarrow> mkst res" where
  "finish rootino s =
     rbind (rinode rootino s) (\<lambda>din.
     let off = xint (d_size din); off = (off div of_nat BSIZE + 1) * of_nat BSIZE in
     rbind (winode rootino (din\<lparr>d_size := xint off\<rparr>) s) (\<lambda>s. mk_balloc (unat (freeblock s)) s))"

text \<open>\<open>main\<close>: the first argument says whether an image is named and whether it could be created.\<close>

definition mkfs_main :: "bool option \<Rightarrow> host_file list \<Rightarrow> mkst res" where
  "mkfs_main out files =
     (case out of None \<Rightarrow> panic ''Usage: mkfs fs.img files...''
      | Some False \<Rightarrow> panic ''open''
      | Some True \<Rightarrow>
          rbind (make_root mk_start) (\<lambda>(rootino, s). rbind (add_files rootino files s) (finish rootino)))"

end
