(* ===== verification/MkfsProps.thy ===== *)
theory MkfsProps
  imports Mkfs FsProps
begin

unbundle bit_operations_syntax

text \<open>
  The image that mkfs.c builds, read with the on-disk structures of the kernel: every file has the
  contents of the host file, the root directory has its entries, the bitmap marks the blocks in use.
\<close>

section \<open>The layout\<close>

lemma xint_id [simp]: "xint x = x"
proof -
  have "get32 (put32 [0, 0, 0, 0] 0 x) 0 = x" by (rule get32_put32) simp
  then show ?thesis by (simp add: xint_def put32_def)
qed

lemma xshort_id [simp]: "xshort x = x"
proof -
  have "get16 (put16 [0, 0] 0 x) 0 = x" by (rule get16_put16) simp
  then show ?thesis by (simp add: xshort_def put16_def)
qed

lemma layout [simp]: "nmeta = 59" "nlog = 30" "ninodeblocks = 26" "nbitmap = 1"
  by (simp_all add: nmeta_def nlog_def ninodeblocks_def nbitmap_def NINODES_def LOGSIZE_def IPB_def BSIZE_def FSSIZE_def)

lemma superblock_layout [simp]: "sb_inodestart mk_superblock = 32" "sb_bmapstart mk_superblock = 58"
  by (simp_all add: mk_superblock_def)

section \<open>Reading the image\<close>

text \<open>The inode with a number, the block of a file with an index, and the bytes of a file.\<close>

definition inode_at :: "mkst \<Rightarrow> nat \<Rightarrow> dinode" where
  "inode_at s i = get_dinode (img s (32 + of_nat (i div 8))) (i mod 8)"

definition blk :: "mkst \<Rightarrow> dinode \<Rightarrow> nat \<Rightarrow> u32" where
  "blk s din k = (if k < 12 then d_addrs din k else get32 (img s (d_addrs din 12)) (4 * (k - 12)))"

definition file_bytes :: "mkst \<Rightarrow> nat \<Rightarrow> u8 list" where
  "file_bytes s i = map (\<lambda>j. img s (blk s (inode_at s i) (j div 512)) ! (j mod 512)) [0..<unat (d_size (inode_at s i))]"

text \<open>The number of blocks with data for a size, and of all blocks, the indirect one included.\<close>

definition nblk :: "nat \<Rightarrow> nat" where "nblk n = (n + 511) div 512"
definition used :: "nat \<Rightarrow> nat" where "used n = nblk n + (if 12 < nblk n then 1 else 0)"

section \<open>The representation\<close>

text \<open>
  The image is well-formed and its blocks in use have owners: data block \<open>k\<close> of inode \<open>i\<close> is owned by
  \<open>(i, k)\<close>, its indirect block by \<open>(i, 140)\<close>. Unused blocks hold zeroes.
\<close>

type_synonym owners = "u32 \<Rightarrow> (nat \<times> nat) option"

definition image_ok :: "mkst \<Rightarrow> owners \<Rightarrow> bool" where
  "image_ok s own \<longleftrightarrow> img_len s = 2000 \<and> (\<forall>b. length (img s b) = 512) \<and> mk_sb s = mk_superblock \<and>
     59 \<le> freeblock s \<and> freeblock s \<le> 2000 \<and> (\<forall>b. own b \<noteq> None \<longrightarrow> 59 \<le> b \<and> b < freeblock s) \<and>
     (\<forall>b. freeblock s \<le> b \<longrightarrow> img s b = zeroes)"

text \<open>A file with the contents \<open>c\<close> in \<open>nb\<close> blocks: behind its end the last block holds zeroes.\<close>

definition byte_at :: "u8 list \<Rightarrow> nat \<Rightarrow> u8" where
  "byte_at c j = (if j < length c then c ! j else 0)"

definition file_ok :: "mkst \<Rightarrow> owners \<Rightarrow> nat \<Rightarrow> dinode \<Rightarrow> nat \<Rightarrow> u8 list \<Rightarrow> bool" where
  "file_ok s own i din nb c \<longleftrightarrow> nb \<le> 140 \<and> length c \<le> nb * 512 \<and>
     (\<forall>k<nb. own (blk s din k) = Some (i, k)) \<and> (\<forall>k<12. nb \<le> k \<longrightarrow> d_addrs din k = 0) \<and>
     (if 12 < nb then own (d_addrs din 12) = Some (i, 140) \<and> (\<forall>k<140. nb \<le> k \<longrightarrow> blk s din k = 0)
      else d_addrs din 12 = 0) \<and>
     (\<forall>j<nb * 512. img s (blk s din (j div 512)) ! (j mod 512) = byte_at c j)"

lemma image_len [simp]: "image_ok s own \<Longrightarrow> length (img s b) = 512"
  by (simp add: image_ok_def)

lemma owned_range: "image_ok s own \<Longrightarrow> own b = Some x \<Longrightarrow> 59 \<le> b \<and> b < freeblock s \<and> b < 2000 \<and> b \<noteq> 0"
proof -
  assume "image_ok s own" "own b = Some x"
  then have b: "59 \<le> b" "b < freeblock s" "freeblock s \<le> 2000" unfolding image_ok_def by (blast, blast, blast)
  then have "b < 2000" by (meson order.strict_trans2)
  with b show ?thesis by auto
qed

lemma rsect_ok: "image_ok s own \<Longrightarrow> b < 2000 \<Longrightarrow> rsect b s = ret (img s b)"
  by (simp add: rsect_def image_ok_def FSSIZE_def word_less_nat_alt)

lemma wsect_ok: "image_ok s own \<Longrightarrow> b < 2000 \<Longrightarrow> wsect b d s = ret (s\<lparr>img := (img s)(b := d)\<rparr>)"
  by (simp add: wsect_def image_ok_def FSSIZE_def word_less_nat_alt max_def)

text \<open>Writing a block that a file does not own leaves the file alone.\<close>

lemma file_ok_frame:
  assumes f: "file_ok s own i din nb c" and "\<And>b k. own b = Some (i, k) \<Longrightarrow> own' b = Some (i, k) \<and> img s' b = img s b"
  shows "file_ok s' own' i din nb c"
proof -
  have ind: "img s' (d_addrs din 12) = img s (d_addrs din 12)" if "12 < nb"
    using f that assms(2) by (auto simp: file_ok_def)
  have b: "blk s' din k = blk s din k" if "k < 12 \<or> 12 < nb" for k
    using that ind by (auto simp: blk_def)
  have bl: "k < 12 \<or> 12 < nb" if "k < nb" for k using that by linarith
  have d: "img s' (blk s din (j div 512)) = img s (blk s din (j div 512)) \<and> j div 512 < nb" if "j < nb * 512" for j
  proof -
    have "j div 512 < nb" using that by (auto simp: less_mult_imp_div_less)
    then show ?thesis using f assms(2) by (auto simp: file_ok_def)
  qed
  show ?thesis
    using f b bl d assms(2) unfolding file_ok_def by auto
qed

section \<open>Allocating a block\<close>

text \<open>What work on the file \<open>i\<close> leaves alone: owners, the blocks of other files, the blocks in front of the data.\<close>

definition evolves :: "nat \<Rightarrow> mkst \<Rightarrow> owners \<Rightarrow> mkst \<Rightarrow> owners \<Rightarrow> bool" where
  "evolves i s own s' own' \<longleftrightarrow> (\<forall>b x. own b = Some x \<longrightarrow> own' b = Some x) \<and>
     (\<forall>b j k. own b = Some (j, k) \<longrightarrow> j \<noteq> i \<longrightarrow> img s' b = img s b) \<and> (\<forall>b<59. img s' b = img s b) \<and>
     freeinode s' = freeinode s"

lemma evolves_refl [simp]: "evolves i s own s own"
  by (simp add: evolves_def)

lemma evolves_trans: "evolves i s own s1 own1 \<Longrightarrow> evolves i s1 own1 s2 own2 \<Longrightarrow> evolves i s own s2 own2"
  unfolding evolves_def by simp

lemma evolves_other: "evolves i s own s' own' \<Longrightarrow> file_ok s own j din nb c \<Longrightarrow> j \<noteq> i \<Longrightarrow> file_ok s' own' j din nb c"
  unfolding evolves_def by (rule file_ok_frame [of s own]) blast+

lemma unat_suc: "unat b < 2000 \<Longrightarrow> unat (b + 1) = unat b + 1" for b :: u32
  by (simp add: unat_word_ariths)

text \<open>The next free block, given to an owner.\<close>

lemma take_free:
  fixes x :: "nat \<times> nat"
  assumes "image_ok s own" "freeblock s < 2000"
  defines "s' \<equiv> s\<lparr>freeblock := freeblock s + 1\<rparr>" and "own' \<equiv> own(freeblock s \<mapsto> x)"
  shows "image_ok s' own'" "evolves i s own s' own'" "own (freeblock s) = None" "img s (freeblock s) = zeroes"
proof -
  let ?f = "freeblock s"
  have f: "59 \<le> ?f" "\<And>b. own b \<noteq> None \<Longrightarrow> 59 \<le> b \<and> b < ?f" "\<And>b. ?f \<le> b \<Longrightarrow> img s b = zeroes"
    using assms(1) by (simp_all add: image_ok_def)
  show n: "own ?f = None" using f(2) [of ?f] by (cases "own ?f") auto
  show "img s ?f = zeroes" using f(3) [of ?f] by simp
  have uf: "unat ?f < 2000" using assms(2) by (simp add: word_less_nat_alt)
  have u: "unat (?f + 1) = unat ?f + 1" by (rule unat_suc [OF uf])
  have "b < ?f + 1" if "b < ?f" for b using that u by (simp add: word_less_nat_alt)
  moreover have "?f \<le> b" if "?f + 1 \<le> b" for b using that u by (simp add: word_le_nat_alt)
  moreover have "59 \<le> ?f + 1" "?f < ?f + 1" "?f + 1 \<le> 2000"
    using f(1) u uf by (simp_all add: word_le_nat_alt word_less_nat_alt)
  ultimately show "image_ok s' own'"
    using assms(1) f unfolding image_ok_def s'_def own'_def by (simp split: if_splits)
  show "evolves i s own s' own'" using n by (auto simp: evolves_def s'_def own'_def)
qed

lemma write_owned:
  assumes "image_ok s own" "own b = Some (i, k)" "length d = 512"
  shows "image_ok (s\<lparr>img := (img s)(b := d)\<rparr>) own" "evolves i s own (s\<lparr>img := (img s)(b := d)\<rparr>) own"
    "wsect b d s = ret (s\<lparr>img := (img s)(b := d)\<rparr>)" "rsect b s = ret (img s b)"
proof -
  have r: "59 \<le> b" "b < freeblock s" "b < 2000" using owned_range [OF assms(1,2)] by auto
  have "\<not> freeblock s \<le> b" using r(2) by simp
  then show "image_ok (s\<lparr>img := (img s)(b := d)\<rparr>) own" using assms unfolding image_ok_def by auto
  show "evolves i s own (s\<lparr>img := (img s)(b := d)\<rparr>) own" using assms(2) r(1) by (auto simp: evolves_def)
  show "wsect b d s = ret (s\<lparr>img := (img s)(b := d)\<rparr>)" by (rule wsect_ok [OF assms(1) r(3)])
  show "rsect b s = ret (img s b)" by (rule rsect_ok [OF assms(1) r(3)])
qed

lemma mk_block_old:
  assumes "image_ok s own" "file_ok s own i din nb c" "k < nb"
  shows "mk_block k din s = ret (blk s din k, din, s)"
proof -
  have o: "own (blk s din k) = Some (i, k)" using assms(2,3) by (simp add: file_ok_def)
  then have nz: "blk s din k \<noteq> 0" using owned_range [OF assms(1)] by auto
  show ?thesis
  proof (cases "k < 12")
    case True
    then show ?thesis using nz by (simp add: mk_block_def blk_def NDIRECT_def)
  next
    case False
    then have "own (d_addrs din 12) = Some (i, 140)" using assms(2,3) by (auto simp: file_ok_def)
    then have "d_addrs din 12 \<noteq> 0" "rsect (d_addrs din 12) s = ret (img s (d_addrs din 12))"
      using owned_range [OF assms(1)] rsect_ok [OF assms(1)] by auto
    then show ?thesis using False nz by (simp add: mk_block_def blk_def NDIRECT_def)
  qed
qed

definition grown :: "nat \<Rightarrow> dinode \<Rightarrow> nat \<Rightarrow> u8 list \<Rightarrow> mkst \<Rightarrow> owners \<Rightarrow> dinode \<Rightarrow> mkst \<Rightarrow> owners \<Rightarrow> bool" where
  "grown i din nb c s own din' s' own' \<longleftrightarrow> image_ok s' own' \<and> file_ok s' own' i din' (nb + 1) c \<and> evolves i s own s' own' \<and>
     unat (freeblock s') = unat (freeblock s) + (if nb = 12 then 2 else 1) \<and>
     d_type din' = d_type din \<and> d_nlink din' = d_nlink din"

lemma zeroes_words: "k < 128 \<Longrightarrow> get32 zeroes (4 * k) = 0"
  by (simp add: get32_def zeroes_def BSIZE_def)

lemma new_block:
  assumes "j < (nb + 1) * 512" "length c \<le> nb * 512" "j < nb * 512 \<Longrightarrow> d (j div 512) ! (j mod 512) = byte_at c j" "d nb = zeroes"
  shows "d (j div 512) ! (j mod 512) = byte_at c j"
proof (cases "j < nb * 512")
  case False
  then have "j div 512 = nb" using assms(1) by (simp add: div_nat_eqI)
  then show ?thesis using False assms(2,4) by (simp add: byte_at_def zeroes_def BSIZE_def)
qed (rule assms(3))

lemma mk_block_direct:
  assumes im: "image_ok s own" and fl: "file_ok s own i din nb c" and nb: "nb < 12" "freeblock s < 2000"
  shows "\<exists>din' s' own'. mk_block nb din s = ret (blk s' din' nb, din', s') \<and> grown i din nb c s own din' s' own'"
proof -
  let ?f = "freeblock s"
  let ?s = "s\<lparr>freeblock := ?f + 1\<rparr>" and ?own = "own(?f \<mapsto> (i, nb))"
  let ?din = "din\<lparr>d_addrs := (d_addrs din)(nb := ?f)\<rparr>"
  note t = take_free(1) [OF im nb(2), of "(i, nb)"] take_free(2) [OF im nb(2), of i "(i, nb)"] take_free(3,4) [OF im nb(2)]
  have z: "d_addrs din nb = 0" "d_addrs din 12 = 0" "length c \<le> nb * 512" using fl nb(1) by (auto simp: file_ok_def)
  have b: "blk ?s ?din k = (if k = nb then ?f else blk s din k)" if "k < 12" for k using that by (simp add: blk_def)
  have o: "own (blk s din k) = Some (i, k)" if "k < nb" for k using fl that by (simp add: file_ok_def)
  then have ne: "blk s din k \<noteq> ?f" if "k < nb" for k using that t(3) by force
  have nz: "img ?s (blk ?s ?din nb) = zeroes" unfolding b [OF nb(1)] using t(4) by simp
  have "file_ok ?s ?own i ?din (nb + 1) c"
    unfolding file_ok_def
  proof (intro conjI)
    show "\<forall>k<nb + 1. ?own (blk ?s ?din k) = Some (i, k)"
      using o ne nb(1) b by (auto simp: less_Suc_eq)
    show "\<forall>j<(nb + 1) * 512. img ?s (blk ?s ?din (j div 512)) ! (j mod 512) = byte_at c j"
    proof (intro allI impI, rule new_block [where d = "\<lambda>k. img ?s (blk ?s ?din k)", OF _ z(3) _ nz])
      fix k assume k: "k < nb * 512"
      then have "k div 512 < nb" by (simp add: less_mult_imp_div_less)
      then have "blk ?s ?din (k div 512) = blk s din (k div 512)" using b [of "k div 512"] nb(1) by simp
      then show "img ?s (blk ?s ?din (k div 512)) ! (k mod 512) = byte_at c k" using fl k by (simp add: file_ok_def)
    qed
  qed (use fl nb(1) z in \<open>auto simp: file_ok_def\<close>)
  moreover have "unat (?f + 1) = unat ?f + 1" using nb(2) by (intro unat_suc) (simp add: word_less_nat_alt)
  moreover have "mk_block nb din s = ret (blk ?s ?din nb, ?din, ?s)"
    using nb(1) z(1) b [of nb] by (simp add: mk_block_def NDIRECT_def)
  ultimately show ?thesis using t(1,2) nb(1)
    by (intro exI [of _ ?din] exI [of _ ?s] exI [of _ ?own]) (simp add: grown_def)
qed

text \<open>A file whose indirect block is there and has room.\<close>

definition file_ind :: "mkst \<Rightarrow> owners \<Rightarrow> nat \<Rightarrow> dinode \<Rightarrow> nat \<Rightarrow> u8 list \<Rightarrow> bool" where
  "file_ind s own i din nb c \<longleftrightarrow> 12 \<le> nb \<and> nb < 140 \<and> length c \<le> nb * 512 \<and>
     (\<forall>k<nb. own (blk s din k) = Some (i, k)) \<and> own (d_addrs din 12) = Some (i, 140) \<and>
     (\<forall>k<140. nb \<le> k \<longrightarrow> blk s din k = 0) \<and>
     (\<forall>j<nb * 512. img s (blk s din (j div 512)) ! (j mod 512) = byte_at c j)"

lemma mk_block_indirect:
  assumes im: "image_ok s own" and fl: "file_ind s own i din nb c" and fr: "freeblock s < 2000"
  shows "\<exists>s' own'. mk_block nb din s = ret (blk s' din nb, din, s') \<and> image_ok s' own' \<and> file_ok s' own' i din (nb + 1) c \<and>
    evolves i s own s' own' \<and> unat (freeblock s') = unat (freeblock s) + 1"
proof -
  let ?f = "freeblock s" and ?a = "d_addrs din 12"
  let ?s = "s\<lparr>freeblock := ?f + 1\<rparr>" and ?own = "own(?f \<mapsto> (i, nb))"
  let ?d = "put32 (img s ?a) (4 * (nb - 12)) ?f"
  let ?t = "?s\<lparr>img := (img ?s)(?a := ?d)\<rparr>"
  note t = take_free(1) [OF im fr, of "(i, nb)"] take_free(2) [OF im fr, of i "(i, nb)"] take_free(3,4) [OF im fr]
  have nb: "12 \<le> nb" "nb < 140" "length c \<le> nb * 512" and o: "\<And>k. k < nb \<Longrightarrow> own (blk s din k) = Some (i, k)"
    and a: "own ?a = Some (i, 140)" and z: "\<And>k. k < 140 \<Longrightarrow> nb \<le> k \<Longrightarrow> blk s din k = 0"
    using fl by (auto simp: file_ind_def)
  have na: "?a \<noteq> ?f" "?a \<noteq> 0" using a t(3) owned_range [OF im a] by auto
  then have oa: "?own ?a = Some (i, 140)" using a by simp
  note w = write_owned [OF t(1) oa, of ?d]
  have len: "length (img s ?a) = 512" using im by simp
  have b: "blk ?t din k = (if k = nb then ?f else blk s din k)" if "k < 140" for k
  proof (cases "k < 12 \<or> k = nb")
    case True
    then show ?thesis using nb len by (auto simp: blk_def get32_put32)
  next
    case False
    then have "4 * (k - 12) + 4 \<le> 4 * (nb - 12) \<or> 4 * (nb - 12) + 4 \<le> 4 * (k - 12)" using nb(1) by linarith
    then show ?thesis using False get32_put32_other by (simp add: blk_def)
  qed
  have ne: "blk s din k \<noteq> ?f" "blk s din k \<noteq> ?a" if "k < nb" for k using o [OF that] t(3) a that nb(2) by auto
  have ev: "evolves i s own ?t ?own" by (rule evolves_trans [OF t(2) w(2)]) (simp add: len)
  have nz: "img ?t (blk ?t din nb) = zeroes" unfolding b [OF nb(2)] using t(4) na(1) by simp
  have "file_ok ?t ?own i din (nb + 1) c"
    unfolding file_ok_def
  proof (intro conjI)
    show "\<forall>k<nb + 1. ?own (blk ?t din k) = Some (i, k)"
    proof (intro allI impI)
      fix k assume "k < nb + 1"
      then show "?own (blk ?t din k) = Some (i, k)" using b [of k] o [of k] ne(1) [of k] nb(2) by (cases "k = nb") simp_all
    qed
    show "if 12 < nb + 1 then ?own ?a = Some (i, 140) \<and> (\<forall>k<140. nb + 1 \<le> k \<longrightarrow> blk ?t din k = 0) else ?a = 0"
      using oa nb(1) b z by simp
    show "\<forall>j<(nb + 1) * 512. img ?t (blk ?t din (j div 512)) ! (j mod 512) = byte_at c j"
    proof (intro allI impI, rule new_block [where d = "\<lambda>k. img ?t (blk ?t din k)", OF _ nb(3) _ nz])
      fix j assume j: "j < nb * 512"
      then have k: "j div 512 < nb" by (simp add: less_mult_imp_div_less)
      then have "blk ?t din (j div 512) = blk s din (j div 512)" using b [of "j div 512"] nb(2) by simp
      then show "img ?t (blk ?t din (j div 512)) ! (j mod 512) = byte_at c j"
        using fl j ne(2) [OF k] by (simp add: file_ind_def)
    qed
  qed (use nb in auto)
  moreover have "mk_block nb din s = ret (blk ?t din nb, din, ?t)"
  proof -
    have "rsect ?a s = ret (img s ?a)" using owned_range [OF im a] by (intro rsect_ok [OF im]) simp
    moreover have "get32 (img s ?a) (4 * (nb - 12)) = 0" using z [of nb] nb by (simp add: blk_def)
    ultimately show ?thesis
      using nb(1) na(2) w(3) len b [of nb] nb(2) by (simp add: mk_block_def NDIRECT_def get32_put32)
  qed
  moreover have "unat (?f + 1) = unat ?f + 1" using fr by (intro unat_suc) (simp add: word_less_nat_alt)
  moreover have "image_ok ?t ?own" by (rule w(1)) (simp add: len)
  ultimately show ?thesis using ev by (intro exI [of _ ?t] exI [of _ ?own] conjI) simp_all
qed

lemma mk_block_twelve:
  assumes im: "image_ok s own" and fl: "file_ok s own i din 12 c" and fr: "unat (freeblock s) + 2 \<le> 2000"
  shows "\<exists>din' s' own'. mk_block 12 din s = ret (blk s' din' 12, din', s') \<and> grown i din 12 c s own din' s' own'"
proof -
  let ?f = "freeblock s"
  let ?s = "s\<lparr>freeblock := ?f + 1\<rparr>" and ?own = "own(?f \<mapsto> (i, 140))"
  let ?din = "din\<lparr>d_addrs := (d_addrs din)(12 := ?f)\<rparr>"
  have f: "?f < 2000" "unat (?f + 1) = unat ?f + 1" using fr unat_suc [of ?f] by (simp_all add: word_less_nat_alt)
  note t = take_free(1) [OF im f(1), of "(i, 140)"] take_free(2) [OF im f(1), of i "(i, 140)"] take_free(3,4) [OF im f(1)]
  have z: "d_addrs din 12 = 0" "length c \<le> 12 * 512" and o: "\<And>k. k < 12 \<Longrightarrow> own (blk s din k) = Some (i, k)"
    using fl by (auto simp: file_ok_def)
  have b: "blk ?s ?din k = (if k < 12 then blk s din k else get32 zeroes (4 * (k - 12)))" for k
    using t(4) by (simp add: blk_def)
  have ne: "blk s din k \<noteq> ?f" if "k < 12" for k using o [OF that] t(3) by auto
  have "file_ind ?s ?own i ?din 12 c"
    unfolding file_ind_def
  proof (intro conjI)
    show "\<forall>k<12. ?own (blk ?s ?din k) = Some (i, k)" using b o ne by simp
    show "\<forall>k<140. 12 \<le> k \<longrightarrow> blk ?s ?din k = 0" using b zeroes_words by simp
    show "\<forall>j<12 * 512. img ?s (blk ?s ?din (j div 512)) ! (j mod 512) = byte_at c j"
    proof (intro allI impI)
      fix j :: nat assume j: "j < 12 * 512"
      then have "j div 512 < 12" by (simp add: less_mult_imp_div_less)
      then show "img ?s (blk ?s ?din (j div 512)) ! (j mod 512) = byte_at c j" using fl j b by (simp add: file_ok_def)
    qed
  qed (use z in simp_all)
  from mk_block_indirect [OF t(1) this] f fr obtain s' own' where
    r: "mk_block 12 ?din ?s = ret (blk s' ?din 12, ?din, s')" "image_ok s' own'" "file_ok s' own' i ?din 13 c"
      "evolves i ?s ?own s' own'" "unat (freeblock s') = unat (?f + 1) + 1"
    by (auto simp: word_less_nat_alt)
  have nz: "?f \<noteq> 0" using im by (auto simp: image_ok_def)
  have "mk_block 12 din s = mk_block 12 ?din ?s" using z(1) nz by (simp add: mk_block_def NDIRECT_def)
  then show ?thesis using r f(2) evolves_trans [OF t(2) r(4)]
    by (intro exI [of _ ?din] exI [of _ s'] exI [of _ own']) (simp add: grown_def)
qed

lemma mk_block_new:
  assumes im: "image_ok s own" and fl: "file_ok s own i din nb c" and nb: "nb < 140"
    and fr: "unat (freeblock s) + (if nb = 12 then 2 else 1) \<le> 2000"
  shows "\<exists>din' s' own'. mk_block nb din s = ret (blk s' din' nb, din', s') \<and> grown i din nb c s own din' s' own'"
proof -
  have f: "freeblock s < 2000" using fr by (simp add: word_less_nat_alt split: if_splits)
  consider "nb < 12" | "nb = 12" | "12 < nb" by linarith
  then show ?thesis
  proof cases
    case 1
    then show ?thesis by (rule mk_block_direct [OF im fl _ f])
  next
    case 2
    then show ?thesis using mk_block_twelve [OF im] fl fr by simp
  next
    case 3
    then have "file_ind s own i din nb c" using fl nb by (auto simp: file_ind_def file_ok_def)
    then show ?thesis using mk_block_indirect [OF im _ f] 3 by (fastforce simp: grown_def)
  qed
qed

section \<open>Appending\<close>

lemma splice_nth:
  assumes "k + length q \<le> length d"
  shows "length (splice d k q) = length d"
    and "j < length d \<Longrightarrow> splice d k q ! j = (if k \<le> j \<and> j < k + length q then q ! (j - k) else d ! j)"
  using assms by (auto simp: splice_def nth_append min_def)

lemma other_block:
  fixes j n m k r k' r' :: nat
  assumes "k \<noteq> k'" "r + m \<le> 512" "r < 512" "r' < 512" "j = 512 * k' + r'" "n = 512 * k + r"
  shows "j < n \<or> n + m \<le> j"
proof (cases "k' < k")
  case True
  then have "512 * (k' + 1) \<le> 512 * k" by (intro mult_le_mono) simp_all
  then show ?thesis using assms by simp
next
  case False
  then have "512 * (k + 1) \<le> 512 * k'" using assms(1) by (intro mult_le_mono) simp_all
  then show ?thesis using assms by simp
qed

lemma same_block:
  fixes j n m k r r' :: nat
  assumes "j = 512 * k + r'" "n = 512 * k + r"
  shows "r \<le> r' \<longleftrightarrow> n \<le> j" "r' < r + m \<longleftrightarrow> j < n + m" "r' - r = j - n"
  using assms by simp_all

text \<open>What a splice at the end of the contents does to the bytes of the last block and of the others.\<close>

lemma append_other:
  assumes "j div 512 \<noteq> length c div 512" "length c mod 512 + length q \<le> 512"
  shows "byte_at (c @ q) j = byte_at c j"
proof -
  have "j < length c \<or> length c + length q \<le> j"
    by (rule other_block [OF assms(1) [symmetric] assms(2), of "j mod 512"]) simp_all
  then show ?thesis by (auto simp: byte_at_def nth_append)
qed

lemma append_same:
  assumes "length d = 512" "j div 512 = length c div 512" "length c mod 512 + length q \<le> 512"
    and "d ! (j mod 512) = byte_at c j"
  shows "splice d (length c mod 512) q ! (j mod 512) = byte_at (c @ q) j"
proof -
  have jc: "j = 512 * (length c div 512) + j mod 512" using assms(2) by (metis mult_div_mod_eq)
  have cq: "length c = 512 * (length c div 512) + length c mod 512" by simp
  have "splice d (length c mod 512) q ! (j mod 512) =
      (if length c \<le> j \<and> j < length c + length q then q ! (j - length c) else d ! (j mod 512))"
    using splice_nth(2) [of "length c mod 512" q d "j mod 512"] assms(1,3) unfolding same_block [OF jc cq] by simp
  with assms(4) show ?thesis by (auto simp: byte_at_def nth_append)
qed

text \<open>Bytes copied into the last block of a file, behind its contents.\<close>

lemma write_tail:
  assumes im: "image_ok s own" and fl: "file_ok s own i din nb c"
    and k: "length c div 512 < nb" "length c mod 512 + length q \<le> 512"
  defines "x \<equiv> blk s din (length c div 512)"
  defines "s' \<equiv> s\<lparr>img := (img s)(x := splice (img s x) (length c mod 512) q)\<rparr>"
  shows "rsect x s = ret (img s x)" "wsect x (splice (img s x) (length c mod 512) q) s = ret s'"
    "image_ok s' own" "evolves i s own s' own" "file_ok s' own i din nb (c @ q)"
proof -
  let ?k = "length c div 512" and ?d = "splice (img s x) (length c mod 512) q"
  have o: "own (blk s din k) = Some (i, k)" if "k < nb" for k using fl that by (simp add: file_ok_def)
  have nb: "nb \<le> 140" using fl by (simp add: file_ok_def)
  have ox: "own x = Some (i, ?k)" using o k(1) by (simp add: x_def)
  have len: "length (img s x) = 512" using im by simp
  have ld: "length ?d = 512" using splice_nth(1) [of "length c mod 512" q "img s x"] k(2) len by simp
  note w = write_owned [OF im ox ld]
  show "rsect x s = ret (img s x)" "wsect x ?d s = ret s'" "image_ok s' own" "evolves i s own s' own"
    using w by (simp_all add: s'_def)
  have a: "d_addrs din 12 \<noteq> x" if "12 < nb"
  proof -
    have "own (d_addrs din 12) = Some (i, 140)" using fl that by (simp add: file_ok_def)
    then show ?thesis using ox k(1) nb by auto
  qed
  have b: "blk s' din k = blk s din k" if "k < 12 \<or> 12 < nb" for k
    using that a by (auto simp: blk_def s'_def)
  have bl: "k < 12 \<or> 12 < nb" if "k < nb" for k using that by linarith
  have ne: "blk s din k = x \<longleftrightarrow> k = ?k" if "k < nb" for k
  proof
    assume "blk s din k = x"
    then have "own x = Some (i, k)" using o [OF that] by simp
    then show "k = ?k" using ox by simp
  qed (simp only: x_def)
  have cq: "length c = 512 * ?k + length c mod 512" by simp
  show "file_ok s' own i din nb (c @ q)"
    unfolding file_ok_def
  proof (intro conjI)
    have "512 * ?k + length c mod 512 + length q \<le> 512 * (?k + 1)" using k(2) by (simp only: distrib_left)
    then have "length c + length q \<le> 512 * (?k + 1)" by (simp only: cq [symmetric])
    also have "\<dots> \<le> 512 * nb" using k(1) by (intro mult_le_mono) auto
    finally show "length (c @ q) \<le> nb * 512" by (simp add: mult.commute)
    show "\<forall>k<nb. own (blk s' din k) = Some (i, k)" using b bl o by simp
    show "if 12 < nb then own (d_addrs din 12) = Some (i, 140) \<and> (\<forall>k<140. nb \<le> k \<longrightarrow> blk s' din k = 0)
      else d_addrs din 12 = 0"
      using fl b by (auto simp: file_ok_def)
    show "\<forall>j<nb * 512. img s' (blk s' din (j div 512)) ! (j mod 512) = byte_at (c @ q) j"
    proof (intro allI impI)
      fix j assume j: "j < nb * 512"
      then have jn: "j div 512 < nb" by (simp add: less_mult_imp_div_less)
      then have "blk s' din (j div 512) = blk s din (j div 512)" using b bl by blast
      moreover have "img s (blk s din (j div 512)) ! (j mod 512) = byte_at c j" using fl j by (simp add: file_ok_def)
      moreover have "?d ! (j mod 512) = byte_at (c @ q) j" if "j div 512 = ?k"
        using calculation(2) that by (intro append_same [OF len that k(2)]) (simp add: x_def)
      moreover note append_other [OF _ k(2), of j]
      ultimately show "img s' (blk s' din (j div 512)) ! (j mod 512) = byte_at (c @ q) j"
        using ne [OF jn] by (simp add: s'_def)
    qed
  qed (use fl in \<open>simp_all add: file_ok_def\<close>)
qed

text \<open>One pass of the loop of \<open>iappend\<close>.\<close>

lemma nblk_eq: "512 * k < n \<Longrightarrow> n \<le> 512 * k + 512 \<Longrightarrow> nblk n = k + 1"
  unfolding nblk_def by (rule div_nat_eqI) simp_all

lemma nblk_cases: "nblk n = (if n mod 512 = 0 then n div 512 else n div 512 + 1)"
proof -
  have "nblk (512 * k + r) = (if r = 0 then k else k + 1)" if "r < 512" for k r
  proof (cases "r = 0")
    case True
    then show ?thesis unfolding nblk_def by (simp add: div_nat_eqI)
  next
    case False
    then show ?thesis using that nblk_eq [of k "512 * k + r"] by simp
  qed
  from this [of "n mod 512" "n div 512"] show ?thesis by simp
qed

lemma nblk_add: "0 < m \<Longrightarrow> n mod 512 + m \<le> 512 \<Longrightarrow> nblk (n + m) = n div 512 + 1"
proof -
  have "nblk (512 * k + r + m) = k + 1" if "0 < m" "r + m \<le> 512" for k r using that by (intro nblk_eq) simp_all
  from this [of "n mod 512" "n div 512"] show "0 < m \<Longrightarrow> n mod 512 + m \<le> 512 \<Longrightarrow> nblk (n + m) = n div 512 + 1" by simp
qed

definition appended :: "nat \<Rightarrow> dinode \<Rightarrow> u8 list \<Rightarrow> u8 list \<Rightarrow> mkst \<Rightarrow> owners \<Rightarrow> dinode \<Rightarrow> mkst \<Rightarrow> owners \<Rightarrow> bool" where
  "appended i din c q s own din' s' own' \<longleftrightarrow> image_ok s' own' \<and>
     file_ok s' own' i din' (nblk (length c + length q)) (c @ q) \<and> evolves i s own s' own' \<and>
     unat (freeblock s') + used (length c) = unat (freeblock s) + used (length c + length q) \<and>
     d_type din' = d_type din \<and> d_nlink din' = d_nlink din"

lemma appended_trans:
  "appended i din c q s own din1 s1 own1 \<Longrightarrow> appended i din1 (c @ q) r s1 own1 din2 s2 own2 \<Longrightarrow>
   appended i din c (q @ r) s own din2 s2 own2"
  using evolves_trans [of i s own s1 own1 s2 own2] by (simp add: appended_def add.assoc)

lemma used_mono: "m \<le> n \<Longrightarrow> used m \<le> used n"
proof -
  assume "m \<le> n"
  then have "nblk m \<le> nblk n" unfolding nblk_def by (intro div_le_mono) simp
  then show ?thesis by (simp add: used_def)
qed

lemma get_block:
  assumes im: "image_ok s own" and fl: "file_ok s own i din (nblk (length c)) c"
    and q: "q \<noteq> []" "length c mod 512 + length q \<le> 512" and sz: "length c + length q \<le> 71680"
    and fr: "unat (freeblock s) + used (length c + length q) \<le> 2000 + used (length c)"
  shows "\<exists>din' s' own'. mk_block (length c div 512) din s = ret (blk s' din' (length c div 512), din', s') \<and>
    image_ok s' own' \<and> file_ok s' own' i din' (nblk (length c + length q)) c \<and> evolves i s own s' own' \<and>
    unat (freeblock s') + used (length c) = unat (freeblock s) + used (length c + length q) \<and>
    d_type din' = d_type din \<and> d_nlink din' = d_nlink din"
proof -
  let ?k = "length c div 512"
  have n: "nblk (length c + length q) = ?k + 1" using q by (intro nblk_add) simp_all
  show ?thesis
  proof (cases "length c mod 512 = 0")
    case True
    then have k: "nblk (length c) = ?k" by (simp add: nblk_cases)
    have u: "used (length c + length q) = used (length c) + (if ?k = 12 then 2 else 1)"
      unfolding used_def n k by simp
    have "?k < 140" using True sz q(1) by (cases q) auto
    then show ?thesis using mk_block_new [OF im fl [unfolded k]] fr u n by (auto simp: grown_def)
  next
    case False
    then have k: "nblk (length c) = ?k + 1" by (simp add: nblk_cases)
    then have "mk_block ?k din s = ret (blk s din ?k, din, s)" using mk_block_old [OF im fl] by simp
    then show ?thesis using im fl n k
      by (intro exI [of _ din] exI [of _ s] exI [of _ own]) (simp add: used_def)
  qed
qed

lemma append_block:
  assumes im: "image_ok s own" and fl: "file_ok s own i din (nblk (length c)) c"
    and q: "q \<noteq> []" "length c mod 512 + length q \<le> 512" and sz: "length c + length q \<le> 71680"
    and fr: "unat (freeblock s) + used (length c + length q) \<le> 2000 + used (length c)"
  shows "\<exists>din' s' own'. rbind (mk_block (length c div 512) din s) (\<lambda>(x, din, s).
      rbind (rsect x s) (\<lambda>buf. rbind (wsect x (splice buf (length c mod 512) q) s) (f din))) = f din' s' \<and>
    appended i din c q s own din' s' own'"
proof -
  obtain din1 s1 own1 where r: "mk_block (length c div 512) din s = ret (blk s1 din1 (length c div 512), din1, s1)"
    "image_ok s1 own1" "file_ok s1 own1 i din1 (nblk (length c + length q)) c" "evolves i s own s1 own1"
    "unat (freeblock s1) + used (length c) = unat (freeblock s) + used (length c + length q)"
    "d_type din1 = d_type din" "d_nlink din1 = d_nlink din"
    using get_block [OF assms] by blast
  have "length c div 512 < nblk (length c + length q)" using q nblk_add [of "length q" "length c"] by simp
  note w = write_tail [OF r(2,3) this q(2)]
  let ?x = "blk s1 din1 (length c div 512)"
  let ?s = "s1\<lparr>img := (img s1)(?x := splice (img s1 ?x) (length c mod 512) q)\<rparr>"
  have "appended i din c q s own din1 ?s own1"
    unfolding appended_def using w(3,5) r(5-7) evolves_trans [OF r(4) w(4)] by (intro conjI) simp_all
  then show ?thesis using r(1) w(1,2) by (intro exI [of _ din1] exI [of _ ?s] exI [of _ own1] conjI) simp_all
qed

lemma iappend_step:
  assumes im: "image_ok s own" and fl: "file_ok s own i din (nblk (length c)) c" and p: "p \<noteq> []"
    and sz: "length c + length p \<le> 71680"
    and fr: "unat (freeblock s) + used (length c + length p) \<le> 2000 + used (length c)"
  defines "n \<equiv> min (length p) (512 - length c mod 512)"
  shows "\<exists>din' s' own'. iappend_loop din (of_nat (length c)) p s = iappend_loop din' (of_nat (length c + n)) (drop n p) s' \<and>
    appended i din c (take n p) s own din' s' own'"
proof -
  let ?c = "length c"
  have uc: "unat (of_nat ?c :: u32) = ?c" using sz by (simp add: unat_of_nat take_bit_nat_eq_self)
  have fbn: "unat (of_nat ?c div of_nat BSIZE :: u32) = ?c div 512" using uc by (simp add: unat_div_distrib BSIZE_def)
  have e: "(?c div 512 + 1) * BSIZE - ?c = 512 - ?c mod 512" "?c - ?c div 512 * BSIZE = ?c mod 512"
    by (simp_all add: BSIZE_def modulo_nat_def algebra_simps)
  have n: "n \<le> length p" "?c mod 512 + n \<le> 512" "take n p \<noteq> []" using p by (auto simp: n_def min_def)
  have mx: "?c div 512 < MAXFILE" using sz p by (cases p) (auto simp: MAXFILE_def NDIRECT_def NINDIRECT_def BSIZE_def)
  have "used (?c + n) \<le> used (?c + length p)" using n(1) by (intro used_mono) simp
  then have "\<exists>din' s' own'. rbind (mk_block (?c div 512) din s) (\<lambda>(x, din, s).
      rbind (rsect x s) (\<lambda>buf. rbind (wsect x (splice buf (?c mod 512) (take n p)) s)
        ((\<lambda>din s. iappend_loop din (of_nat (?c + n)) (drop n p) s) din))) = iappend_loop din' (of_nat (?c + n)) (drop n p) s' \<and>
    appended i din c (take n p) s own din' s' own'"
    using n sz fr by (intro append_block [OF im fl]) auto
  moreover have "of_nat ?c + of_nat n = (of_nat (?c + n) :: u32)" by simp
  ultimately show ?thesis
    by (subst iappend_loop.simps) (simp only: p fbn uc e mx n_def [symmetric] Let_def if_False not_not if_True simp_thms)
qed

lemma iappend_loop_ok:
  assumes "image_ok s own" "file_ok s own i din (nblk (length c)) c" "length c + length p \<le> 71680"
    "unat (freeblock s) + used (length c + length p) \<le> 2000 + used (length c)"
  shows "\<exists>din' s' own'. iappend_loop din (of_nat (length c)) p s = ret (din', of_nat (length c + length p), s') \<and>
    appended i din c p s own din' s' own'"
  using assms
proof (induction "length p" arbitrary: p c din s own rule: less_induct)
  case less
  show ?case
  proof (cases "p = []")
    case True
    then show ?thesis using less.prems
      by (intro exI [of _ din] exI [of _ s] exI [of _ own]) (simp add: iappend_loop.simps appended_def)
  next
    case False
    define n where "n = min (length p) (512 - length c mod 512)"
    obtain din1 s1 own1 where s: "iappend_loop din (of_nat (length c)) p s = iappend_loop din1 (of_nat (length c + n)) (drop n p) s1"
      and a: "appended i din c (take n p) s own din1 s1 own1"
      using iappend_step [OF less.prems(1,2) False less.prems(3,4)] unfolding n_def by blast
    have n: "0 < n" "n \<le> length p" using False by (auto simp: n_def)
    have "\<exists>din' s' own'. iappend_loop din1 (of_nat (length (c @ take n p))) (drop n p) s1 =
        ret (din', of_nat (length (c @ take n p) + length (drop n p)), s') \<and> appended i din1 (c @ take n p) (drop n p) s1 own1 din' s' own'"
      using a n less.prems(3,4) by (intro less.hyps) (auto simp: appended_def)
    then obtain din' s' own' where "iappend_loop din1 (of_nat (length c + n)) (drop n p) s1 = ret (din', of_nat (length c + length p), s')"
      and "appended i din1 (c @ take n p) (drop n p) s1 own1 din' s' own'"
      using n by auto
    then show ?thesis using s appended_trans [OF a] by force
  qed
qed

section \<open>The inodes\<close>

text \<open>The inode \<open>din\<close> describes a file of the type \<open>t\<close> with the contents \<open>c\<close>.\<close>

definition slot :: "mkst \<Rightarrow> owners \<Rightarrow> nat \<Rightarrow> dinode \<Rightarrow> u8 list \<Rightarrow> u16 \<Rightarrow> bool" where
  "slot s own i din c t \<longleftrightarrow> length c \<le> 71680 \<and> file_ok s own i din (nblk (length c)) c \<and> d_size din = of_nat (length c) \<and>
     d_type din = t \<and> d_nlink din = 1"

lemma blk_same: "same_dinode d d' \<Longrightarrow> blk s d k = blk s d' k"
  by (simp add: blk_def same_dinode_def NDIRECT_def)

lemma file_ok_same: "file_ok s own i d nb c \<Longrightarrow> same_dinode d' d \<Longrightarrow> file_ok s own i d' nb c"
  using blk_same [of d' d s] by (simp add: file_ok_def) (simp add: same_dinode_def NDIRECT_def)

lemma blk_size [simp]: "blk s (d\<lparr>d_size := x\<rparr>) k = blk s d k"
  by (simp add: blk_def)

lemma slot_same: "slot s own i d c t \<Longrightarrow> same_dinode d' d \<Longrightarrow> slot s own i d' c t"
  using file_ok_same [of s own i d "nblk (length c)" c d'] by (simp add: slot_def same_dinode_def)

lemma slot_frame:
  "slot s own i d c t \<Longrightarrow> (\<And>b k. own b = Some (i, k) \<Longrightarrow> own' b = Some (i, k) \<and> img s' b = img s b) \<Longrightarrow> slot s' own' i d c t"
  using file_ok_frame [of s own i d "nblk (length c)" c own' s'] by (simp add: slot_def)

lemma same_dinode_trans: "same_dinode a b \<Longrightarrow> same_dinode b c \<Longrightarrow> same_dinode a c"
  by (simp add: same_dinode_def)

lemma iblock_ok: "i < 208 \<Longrightarrow> IBLOCK (of_nat i) mk_superblock = 32 + of_nat (i div 8) \<and> unat (of_nat i :: u32) mod IPB = i mod 8 \<and>
    (32 + of_nat (i div 8) :: u32) < 58"
proof -
  assume i: "i < 208"
  then have "i div 8 < 26" by (simp add: less_mult_imp_div_less)
  moreover have "(of_nat i div 8 :: u32) = of_nat (i div 8)"
    using i by (intro word_unat_eq_iff [THEN iffD2]) (simp add: unat_div_distrib unat_of_nat take_bit_nat_eq_self)
  ultimately show ?thesis using i
    by (simp add: IBLOCK_def IPB_def BSIZE_def word_less_nat_alt unat_of_nat take_bit_nat_eq_self unat_word_ariths)
qed

lemma rinode_ok: "image_ok s own \<Longrightarrow> i < 208 \<Longrightarrow> rinode (of_nat i) s = ret (inode_at s i)"
proof -
  assume im: "image_ok s own" and i: "i < 208"
  then have "rsect (32 + of_nat (i div 8)) s = ret (img s (32 + of_nat (i div 8)))"
    using iblock_ok [OF i] by (intro rsect_ok [OF im]) (auto intro: order.strict_trans)
  then show ?thesis using im iblock_ok [OF i] by (simp add: rinode_def inode_at_def Let_def image_ok_def)
qed

lemma winode_ok:
  assumes im: "image_ok s own" and i: "i < 208"
  shows "\<exists>s'. winode (of_nat i) d s = ret s' \<and> image_ok s' own \<and> same_dinode (inode_at s' i) d \<and>
    (\<forall>j<208. j \<noteq> i \<longrightarrow> same_dinode (inode_at s' j) (inode_at s j)) \<and> (\<forall>b. b < 32 \<or> 58 \<le> b \<longrightarrow> img s' b = img s b) \<and>
    freeblock s' = freeblock s \<and> freeinode s' = freeinode s"
proof -
  let ?b = "32 + of_nat (i div 8) :: u32"
  let ?d = "put_dinode (img s ?b) (i mod 8) d"
  let ?s = "s\<lparr>img := (img s)(?b := ?d)\<rparr>"
  have b: "?b < 58" "IBLOCK (of_nat i) (mk_sb s) = ?b" "unat (of_nat i :: u32) mod IPB = i mod 8"
    using iblock_ok [OF i] im by (auto simp: image_ok_def)
  have d26: "j div 8 < 26" if "j < 208" for j :: nat using that by (simp add: less_mult_imp_div_less)
  have ub: "unat (32 + of_nat (j div 8) :: u32) = 32 + j div 8" if "j < 208" for j
    using d26 [OF that] by (simp add: unat_word_ariths unat_of_nat take_bit_nat_eq_self)
  have len: "length (img s ?b) = 512" "length ?d = 512" using im by (simp_all add: put_dinode_eq)
  have r: "?b < 2000" using b(1) by (auto intro: order.strict_trans)
  have wi: "winode (of_nat i) d s = ret ?s" using rsect_ok [OF im r] wsect_ok [OF im r] b by (simp add: winode_def Let_def)
  have im': "image_ok ?s own"
  proof -
    have "\<not> freeblock s \<le> ?b" using b(1) im by (auto simp: image_ok_def word_less_nat_alt word_le_nat_alt)
    then show ?thesis using im len unfolding image_ok_def by auto
  qed
  have sd: "same_dinode (inode_at ?s j) (if j = i then d else inode_at s j)" if j: "j < 208" for j
  proof (cases "j div 8 = i div 8")
    case True
    then have "j mod 8 = i mod 8 \<longleftrightarrow> j = i" by (metis div_mult_mod_eq)
    then show ?thesis using True get_put_dinode [of "img s ?b" "i mod 8" "j mod 8" d] len
      by (cases "j = i") (simp_all add: inode_at_def IPB_def BSIZE_def)
  next
    case False
    then have "32 + of_nat (j div 8) \<noteq> ?b" using ub [OF i] ub [OF j] by (metis add_left_cancel)
    then show ?thesis using False by (auto simp: inode_at_def same_dinode_def)
  qed
  have fx: "img ?s b = img s b" if "b < 32 \<or> 58 \<le> b" for b
    using that b(1) ub [OF i] by (auto simp: word_less_nat_alt word_le_nat_alt)
  show ?thesis
  proof (intro exI [of _ ?s] conjI allI impI)
    show "same_dinode (inode_at ?s i) d" using sd [OF i] by simp
    show "same_dinode (inode_at ?s j) (inode_at s j)" if "j < 208" "j \<noteq> i" for j using sd [OF that(1)] that(2) by simp
    show "img ?s b = img s b" if "b < 32 \<or> 58 \<le> b" for b by (rule fx [OF that])
  qed (simp_all add: wi im')
qed

section \<open>The files of the image\<close>

text \<open>
  The inodes that are allocated describe the files \<open>F\<close>, the inode 1 is the root directory, and the blocks
  in use are those of the layout and of the files.
\<close>

definition kind_of :: "nat \<Rightarrow> u16" where "kind_of i = (if i = 1 then T_DIR else T_FILE)"

definition files_ok :: "mkst \<Rightarrow> owners \<Rightarrow> nat \<Rightarrow> (nat \<Rightarrow> u8 list) \<Rightarrow> bool" where
  "files_ok s own n F \<longleftrightarrow> image_ok s own \<and> freeinode s = of_nat n \<and> 0 < n \<and> n \<le> 208 \<and>
     (\<forall>i\<in>{1..<n}. slot s own i (inode_at s i) (F i) (kind_of i)) \<and>
     unat (freeblock s) = 59 + (\<Sum>i\<in>{1..<n}. used (length (F i))) \<and>
     img s 0 = zeroes \<and> img s 1 = sb_block mk_superblock"

lemma winode_files:
  assumes im: "image_ok s own" and i: "0 < i" "i < 208" and sl: "slot s own i din c t"
  shows "\<exists>s'. winode (of_nat i) din s = ret s' \<and> image_ok s' own \<and> slot s' own i (inode_at s' i) c t \<and>
    (\<forall>j<208. \<forall>c t. j \<noteq> i \<longrightarrow> slot s own j (inode_at s j) c t \<longrightarrow> slot s' own j (inode_at s' j) c t) \<and>
    (\<forall>b. b < 32 \<or> 58 \<le> b \<longrightarrow> img s' b = img s b) \<and> freeblock s' = freeblock s \<and> freeinode s' = freeinode s"
proof -
  obtain s' where w: "winode (of_nat i) din s = ret s'" "image_ok s' own" "same_dinode (inode_at s' i) din"
    "\<And>j. j < 208 \<Longrightarrow> j \<noteq> i \<Longrightarrow> same_dinode (inode_at s' j) (inode_at s j)" "\<And>b. b < 32 \<or> 58 \<le> b \<Longrightarrow> img s' b = img s b"
    "freeblock s' = freeblock s" "freeinode s' = freeinode s"
    using winode_ok [OF im i(2), of din] by blast
  have "img s' b = img s b" if "own b = Some x" for b x
    using owned_range [OF im that] by (intro w(5)) (auto simp: word_le_nat_alt)
  then have f: "slot s' own j d c t" if "slot s own j d c t" for j d c t by (intro slot_frame [OF that]) auto
  show ?thesis
  proof (intro exI [of _ s'] conjI allI impI)
    show "slot s' own i (inode_at s' i) c t" by (rule slot_same [OF f [OF sl] w(3)])
    show "slot s' own j (inode_at s' j) c t" if "j < 208" "j \<noteq> i" "slot s own j (inode_at s j) c t" for j c t
      by (rule slot_same [OF f [OF that(3)] w(4) [OF that(1,2)]])
  qed (simp_all add: w)
qed

lemma iappend_ok:
  assumes ok: "files_ok s own n F" and i: "0 < i" "i < n" and sz: "length (F i) + length p \<le> 71680"
    and fr: "unat (freeblock s) + used (length (F i) + length p) \<le> 2000 + used (length (F i))"
  shows "\<exists>s' own'. iappend (of_nat i) p s = ret s' \<and> files_ok s' own' n (F(i := F i @ p)) \<and>
    unat (freeblock s') + used (length (F i)) = unat (freeblock s) + used (length (F i) + length p)"
proof -
  have im: "image_ok s own" and n: "n \<le> 208" and sl: "\<And>j. j \<in> {1..<n} \<Longrightarrow> slot s own j (inode_at s j) (F j) (kind_of j)"
    and lay: "img s 0 = zeroes" "img s 1 = sb_block mk_superblock" "freeinode s = of_nat n"
    and fb: "unat (freeblock s) = 59 + (\<Sum>i\<in>{1..<n}. used (length (F i)))"
    using ok by (simp_all add: files_ok_def)
  let ?din = "inode_at s i"
  have si: "slot s own i ?din (F i) (kind_of i)" using sl [of i] i by simp
  obtain d1 s1 own1 where l: "iappend_loop ?din (d_size ?din) p s = ret (d1, of_nat (length (F i) + length p), s1)"
    and a: "appended i ?din (F i) p s own d1 s1 own1"
    using iappend_loop_ok [OF im, of i ?din "F i" p] si sz fr by (auto simp: slot_def)
  let ?d = "d1\<lparr>d_size := of_nat (length (F i) + length p)\<rparr>"
  have e: "evolves i s own s1 own1" "image_ok s1 own1" and f1: "file_ok s1 own1 i d1 (nblk (length (F i) + length p)) (F i @ p)"
    and fb1: "unat (freeblock s1) + used (length (F i)) = unat (freeblock s) + used (length (F i) + length p)"
    and ty: "d_type d1 = d_type ?din" "d_nlink d1 = d_nlink ?din"
    using a by (auto simp: appended_def)
  have "file_ok s1 own1 i ?d (nblk (length (F i) + length p)) (F i @ p)"
    using f1 by (simp add: file_ok_def)
  then have s1: "slot s1 own1 i ?d (F i @ p) (kind_of i)" using sz si ty by (simp add: slot_def)
  have fx: "img s1 b = img s b" if "b < 59" for b using e(1) that by (simp add: evolves_def)
  have at: "inode_at s1 j = inode_at s j" if "j < n" for j
  proof -
    have "32 + of_nat (j div 8) < (58 :: u32)" using iblock_ok [of j] that n by simp
    then have "32 + of_nat (j div 8) < (59 :: u32)" by (rule order.strict_trans) simp
    then show ?thesis using fx by (simp add: inode_at_def)
  qed
  have o1: "slot s1 own1 j (inode_at s1 j) (F j) (kind_of j)" if "j \<in> {1..<n}" "j \<noteq> i" for j
    using sl [OF that(1)] evolves_other [OF e(1) _ that(2)] at [of j] that(1) by (simp add: slot_def)
  have i208: "i < 208" using i n by simp
  obtain s' where w: "winode (of_nat i) ?d s1 = ret s'" "image_ok s' own1" "slot s' own1 i (inode_at s' i) (F i @ p) (kind_of i)"
    "\<And>j c t. j < 208 \<Longrightarrow> j \<noteq> i \<Longrightarrow> slot s1 own1 j (inode_at s1 j) c t \<Longrightarrow> slot s' own1 j (inode_at s' j) c t"
    "\<And>b. b < 32 \<Longrightarrow> img s' b = img s1 b" "freeblock s' = freeblock s1" "freeinode s' = freeinode s1"
    using winode_files [OF e(2) i(1) i208 s1] by blast
  have sum: "(\<Sum>j\<in>{1..<n}. used (length ((F(i := F i @ p)) j))) + used (length (F i)) =
      (\<Sum>j\<in>{1..<n}. used (length (F j))) + used (length (F i) + length p)"
    using i sum.remove [of "{1..<n}" i "\<lambda>j. used (length (F j))"] sum.remove [of "{1..<n}" i "\<lambda>j. used (length ((F(i := F i @ p)) j))"]
    by simp
  have "files_ok s' own1 n (F(i := F i @ p))"
    unfolding files_ok_def
  proof (intro conjI ballI)
    fix j assume "j \<in> {1..<n}"
    then show "slot s' own1 j (inode_at s' j) ((F(i := F i @ p)) j) (kind_of j)"
      using w(3) w(4) [of j] o1 [of j] n by (cases "j = i") auto
  qed (use w(2,5-7) lay i n fx e(1) sum fb fb1 in \<open>simp_all add: evolves_def\<close>)
  moreover have "iappend (of_nat i) p s = ret s'"
    using rinode_ok [OF im i208] l w(1) by (simp add: iappend_def)
  ultimately show ?thesis using w(6) fb1 by auto
qed

lemma mk_ialloc_ok:
  assumes ok: "files_ok s own n F" and n: "n < 208" and e: "F n = []" 
  shows "\<exists>s'. mk_ialloc (kind_of n) s = ret (of_nat n, s') \<and> files_ok s' own (Suc n) F \<and> freeblock s' = freeblock s"
proof -
  have im: "image_ok s own" and n0: "0 < n" and sl: "\<And>j. j \<in> {1..<n} \<Longrightarrow> slot s own j (inode_at s j) (F j) (kind_of j)"
    and lay: "img s 0 = zeroes" "img s 1 = sb_block mk_superblock" "freeinode s = of_nat n"
    and fb: "unat (freeblock s) = 59 + (\<Sum>i\<in>{1..<n}. used (length (F i)))"
    using ok by (simp_all add: files_ok_def)
  let ?s = "s\<lparr>freeinode := of_nat n + 1\<rparr>"
  let ?d = "zero_dinode\<lparr>d_type := kind_of n, d_nlink := 1, d_size := 0\<rparr>"
  have z: "nblk 0 = 0" "used 0 = 0" by (simp_all add: nblk_def used_def)
  have im1: "image_ok ?s own" using im by (simp add: image_ok_def)
  have sn: "slot ?s own n ?d [] (kind_of n)" using z by (simp add: slot_def file_ok_def zero_dinode_def)
  have at: "inode_at ?s j = inode_at s j" for j by (simp add: inode_at_def)
  have sl1: "slot ?s own j (inode_at ?s j) (F j) (kind_of j)" if "j \<in> {1..<n}" for j
    using slot_frame [OF sl [OF that], of own ?s] at by simp
  obtain s' where w: "winode (of_nat n) ?d ?s = ret s'" "image_ok s' own" "slot s' own n (inode_at s' n) [] (kind_of n)"
    "\<And>j c t. j < 208 \<Longrightarrow> j \<noteq> n \<Longrightarrow> slot ?s own j (inode_at ?s j) c t \<Longrightarrow> slot s' own j (inode_at s' j) c t"
    "\<And>b. b < 32 \<Longrightarrow> img s' b = img ?s b" "freeblock s' = freeblock ?s" "freeinode s' = freeinode ?s"
    using winode_files [OF im1 n0 n sn] by blast
  have "files_ok s' own (Suc n) F"
    unfolding files_ok_def
  proof (intro conjI ballI)
    fix j assume "j \<in> {1..<Suc n}"
    then show "slot s' own j (inode_at s' j) (F j) (kind_of j)"
      using w(3) w(4) [of j] sl1 [of j] n e by (cases "j = n") auto
  qed (use w(2,5-7) lay n n0 fb z e in \<open>simp_all add: atLeastLessThanSuc\<close>)
  moreover have "mk_ialloc (kind_of n) s = ret (of_nat n, s')" using w(1) lay(3) by (simp add: mk_ialloc_def)
  ultimately show ?thesis using w(6) by auto
qed

section \<open>The program\<close>

lemma iappend_all_ok:
  assumes "files_ok s own n F" "0 < i" "i < n" "length (F i) + length (concat ps) \<le> 71680"
    "unat (freeblock s) + used (length (F i) + length (concat ps)) \<le> 2000 + used (length (F i))"
  shows "\<exists>s' own'. iappend_all (of_nat i) ps s = ret s' \<and> files_ok s' own' n (F(i := F i @ concat ps)) \<and>
    unat (freeblock s') + used (length (F i)) = unat (freeblock s) + used (length (F i) + length (concat ps))"
  using assms
proof (induction ps arbitrary: s own F)
  case Nil
  then show ?case by auto
next
  case (Cons p ps)
  have "used (length (F i) + length p) \<le> used (length (F i) + length (concat (p # ps)))" by (rule used_mono) simp
  then obtain s1 own1 where a: "iappend (of_nat i) p s = ret s1" "files_ok s1 own1 n (F(i := F i @ p))"
    "unat (freeblock s1) + used (length (F i)) = unat (freeblock s) + used (length (F i) + length p)"
    using iappend_ok [OF Cons.prems(1-3), of p] Cons.prems(4,5) by auto
  let ?G = "F(i := F i @ p)"
  have "\<exists>s' own'. iappend_all (of_nat i) ps s1 = ret s' \<and> files_ok s' own' n (?G(i := ?G i @ concat ps)) \<and>
    unat (freeblock s') + used (length (?G i)) = unat (freeblock s1) + used (length (?G i) + length (concat ps))"
    using Cons.prems(2-5) a(3) by (intro Cons.IH [OF a(2)]) (simp_all add: add.assoc)
  then obtain s' own' where "iappend_all (of_nat i) ps s1 = ret s'" "files_ok s' own' n (F(i := F i @ p @ concat ps))"
    "unat (freeblock s') + used (length (F i @ p)) = unat (freeblock s1) + used (length (F i @ p) + length (concat ps))"
    unfolding fun_upd_upd by simp blast
  then show ?case using a(1,3) by (intro exI [of _ s'] exI [of _ own'] conjI) (simp_all add: add.assoc fun_upd_def)
qed

lemma write_zeroes_ok:
  "m + k \<le> 2000 \<Longrightarrow> img s = (\<lambda>_. zeroes) \<Longrightarrow> img_len s = m \<Longrightarrow> write_zeroes [m..<m + k] s = ret (s\<lparr>img_len := m + k\<rparr>)"
proof (induction k arbitrary: m s)
  case (Suc k)
  let ?s = "s\<lparr>img_len := Suc m\<rparr>"
  have "(of_nat m :: u32) \<le> 2000" "unat (of_nat m :: u32) = m"
    using Suc.prems(1) by (simp_all add: word_le_nat_alt unat_of_nat take_bit_nat_eq_self)
  then have "wsect (of_nat m) zeroes s = ret ?s" using Suc.prems by (simp add: wsect_def FSSIZE_def max_def fun_upd_idem)
  moreover have "[m..<m + Suc k] = m # [Suc m..<Suc m + k]" by (simp add: upt_rec)
  moreover have "write_zeroes [Suc m..<Suc m + k] ?s = ret (?s\<lparr>img_len := Suc m + k\<rparr>)" using Suc.prems by (intro Suc.IH) simp_all
  ultimately show ?case by simp
qed simp

lemma dirent_length [simp]: "length (dirent_bytes inum name) = 16"
  by (simp add: dirent_bytes_def DIRSIZ_def)

definition dots :: "u8 list" where "dots = dirent_bytes 1 [46] @ dirent_bytes 1 [46, 46]"

lemma used_small: "0 < n \<Longrightarrow> n \<le> 512 \<Longrightarrow> used n = 1"
  using nblk_eq [of 0 n] by (simp add: used_def)

lemma make_root_ok: "\<exists>s own. make_root mk_start = ret (1, s) \<and> files_ok s own 2 ((\<lambda>_. [])(1 := dots))"
proof -
  let ?s0 = "mk_start\<lparr>img_len := 2000\<rparr>"
  have z: "write_zeroes [0..<unat FSSIZE] mk_start = ret ?s0"
    using write_zeroes_ok [of 0 2000 mk_start] by (simp add: mk_start_def FSSIZE_def)
  let ?s1 = "?s0\<lparr>img := (\<lambda>_. zeroes)(1 := sb_block mk_superblock)\<rparr>"
  have w: "wsect 1 (sb_block mk_superblock) ?s0 = ret ?s1" by (simp add: wsect_def FSSIZE_def mk_start_def)
  have "files_ok ?s1 Map.empty 1 (\<lambda>_. [])"
    by (auto simp: files_ok_def image_ok_def mk_start_def sb_block_def zeroes_def BSIZE_def word_le_nat_alt)
  from mk_ialloc_ok [OF this] obtain s2 where a: "mk_ialloc T_DIR ?s1 = ret (1, s2)" "files_ok s2 Map.empty 2 (\<lambda>_. [])"
    "freeblock s2 = freeblock ?s1"
    by (auto simp: kind_of_def numeral_2_eq_2)
  have fb: "unat (freeblock s2) = 59" using a(3) by (simp add: mk_start_def)
  obtain s3 own3 where b: "iappend 1 (dirent_bytes 1 [46]) s2 = ret s3" "files_ok s3 own3 2 ((\<lambda>_. [])(1 := dirent_bytes 1 [46]))"
    "unat (freeblock s3) = 60"
    using iappend_ok [OF a(2), of 1 "dirent_bytes 1 [46]"] fb used_small [of 16] by (auto simp: used_def nblk_def)
  obtain s4 own4 where "iappend 1 (dirent_bytes 1 [46, 46]) s3 = ret s4" "files_ok s4 own4 2 ((\<lambda>_. [])(1 := dots))"
    using iappend_ok [OF b(2), of 1 "dirent_bytes 1 [46, 46]"] b(3) used_small [of 16] used_small [of 32] by (auto simp: dots_def)
  then show ?thesis using z w a(1) b(1) by (auto simp: make_root_def ROOTINO_def mk_start_def)
qed

text \<open>Host files that can all be read, and the files they become from the inode \<open>n\<close> on.\<close>

type_synonym readable = "(cstr \<times> u8 list list) list"

definition given :: "readable \<Rightarrow> host_file list" where
  "given hs = map (\<lambda>(name, ps). (name, Some ps)) hs"

fun laid :: "nat \<Rightarrow> readable \<Rightarrow> (nat \<Rightarrow> u8 list) \<Rightarrow> nat \<Rightarrow> u8 list" where
  "laid n [] F = F"
| "laid n ((name, ps) # hs) F =
     laid (Suc n) hs (F(1 := F 1 @ dirent_bytes (of_nat n) (image_name name), n := concat ps))"

definition fits :: "readable \<Rightarrow> bool" where
  "fits hs \<longleftrightarrow> (\<forall>(name, ps)\<in>set hs. SLASH \<notin> set name \<and> length (concat ps) \<le> 71680)"

definition demand :: "readable \<Rightarrow> nat" where
  "demand hs = (\<Sum>(name, ps)\<leftarrow>hs. used (length (concat ps)))"

lemma add_file_ok:
  assumes ok: "files_ok s own n F" and n: "2 \<le> n" "n < 208" and F: "F n = []" "length (F 1) = 16 * n"
    and ps: "length (concat ps) \<le> 71680"
    and fr: "unat (freeblock s) + used (16 * Suc n) + used (length (concat ps)) \<le> 2000 + used (16 * n)"
  shows "\<exists>s' own'. rbind (mk_ialloc T_FILE s) (\<lambda>(inum, s).
      rbind (iappend 1 (dirent_bytes (xshort (ucast inum)) name) s) (\<lambda>s. rbind (iappend_all inum ps s) f)) = f s' \<and>
    files_ok s' own' (Suc n) (F(1 := F 1 @ dirent_bytes (of_nat n) name, n := concat ps)) \<and>
    unat (freeblock s') + used (16 * n) = unat (freeblock s) + used (16 * Suc n) + used (length (concat ps))"
proof -
  let ?e = "dirent_bytes (of_nat n) name"
  let ?G = "F(1 := F 1 @ ?e)"
  have z: "used 0 = 0" by (simp add: nblk_def used_def)
  obtain s1 where a: "mk_ialloc T_FILE s = ret (of_nat n, s1)" "files_ok s1 own (Suc n) F" "freeblock s1 = freeblock s"
    using mk_ialloc_ok [OF ok n(2) F(1)] n(1) by (auto simp: kind_of_def)
  obtain s2 own2 where b: "iappend 1 ?e s1 = ret s2" "files_ok s2 own2 (Suc n) ?G"
    "unat (freeblock s2) + used (16 * n) = unat (freeblock s) + used (16 * Suc n)"
    using iappend_ok [OF a(2), of 1 ?e] n F(2) fr a(3) by (auto simp: add.commute)
  have "?G n = []" using F(1) n(1) by simp
  then have "\<exists>s' own'. iappend_all (of_nat n) ps s2 = ret s' \<and> files_ok s' own' (Suc n) (?G(n := concat ps)) \<and>
      unat (freeblock s') = unat (freeblock s2) + used (length (concat ps))"
    using iappend_all_ok [OF b(2), of n ps] n ps b(3) fr z by simp
  then obtain s3 own3 where c: "iappend_all (of_nat n) ps s2 = ret s3" "files_ok s3 own3 (Suc n) (?G(n := concat ps))"
      "unat (freeblock s3) = unat (freeblock s2) + used (length (concat ps))"
    by blast
  have u: "ucast (of_nat n :: u32) = (of_nat n :: u16)" using n(2) by (simp add: unsigned_of_nat take_bit_nat_eq_self)
  show ?thesis using a(1) b(1,3) c u by (intro exI [of _ s3] exI [of _ own3] conjI) (simp_all add: fun_upd_def)
qed

lemma add_files_ok:
  assumes "files_ok s own n F" "2 \<le> n" "n + length hs \<le> 208" "\<forall>j\<ge>n. F j = []" "length (F 1) = 16 * n" "fits hs"
    "unat (freeblock s) + used (16 * (n + length hs)) + demand hs \<le> 2000 + used (16 * n)"
  shows "\<exists>s' own'. add_files 1 (given hs) s = ret s' \<and> files_ok s' own' (n + length hs) (laid n hs F) \<and>
    unat (freeblock s') + used (16 * n) = unat (freeblock s) + used (16 * (n + length hs)) + demand hs"
  using assms
proof (induction hs arbitrary: n s own F)
  case Nil
  then show ?case by (auto simp: given_def demand_def)
next
  case (Cons h hs)
  obtain name ps where h: "h = (name, ps)" by (cases h)
  let ?F = "F(1 := F 1 @ dirent_bytes (of_nat n) (image_name name), n := concat ps)"
  have nm: "SLASH \<notin> set name" "length (concat ps) \<le> 71680" "fits hs" using Cons.prems(6) h by (auto simp: fits_def)
  have d: "demand (h # hs) = used (length (concat ps)) + demand hs" by (simp add: demand_def h)
  have "used (16 * Suc n) \<le> used (16 * (n + length (h # hs)))" by (rule used_mono) simp
  then have fr: "unat (freeblock s) + used (16 * Suc n) + used (length (concat ps)) \<le> 2000 + used (16 * n)"
    using Cons.prems(7) d by linarith
  have n: "n < 208" "F n = []" using Cons.prems(3,4) by simp_all
  obtain s1 own1 where a: "add_files 1 (given (h # hs)) s = add_files 1 (given hs) s1" "files_ok s1 own1 (Suc n) ?F"
    "unat (freeblock s1) + used (16 * n) = unat (freeblock s) + used (16 * Suc n) + used (length (concat ps))"
    using add_file_ok [OF Cons.prems(1,2) n Cons.prems(5) nm(2) fr, of "image_name name" "add_files 1 (given hs)"] nm(1) h
    by (auto simp: given_def)
  have "\<exists>s' own'. add_files 1 (given hs) s1 = ret s' \<and> files_ok s' own' (Suc n + length hs) (laid (Suc n) hs ?F) \<and>
    unat (freeblock s') + used (16 * Suc n) = unat (freeblock s1) + used (16 * (Suc n + length hs)) + demand hs"
  proof (rule Cons.IH [OF a(2)])
    show "unat (freeblock s1) + used (16 * (Suc n + length hs)) + demand hs \<le> 2000 + used (16 * Suc n)"
      using Cons.prems(7) a(3) d by simp
    show "length (?F 1) = 16 * Suc n" using Cons.prems(2,5) by simp
  qed (use Cons.prems nm in simp_all)
  then show ?case using a(1,3) d h by auto
qed

lemma laid_other: "1 < n \<Longrightarrow> j < n \<Longrightarrow> j \<noteq> 1 \<Longrightarrow> laid n hs F j = F j"
proof (induction hs arbitrary: n F)
  case (Cons h hs)
  then show ?case by (cases h) simp
qed simp

lemma laid_file: "1 < n \<Longrightarrow> k < length hs \<Longrightarrow> laid n hs F (n + k) = concat (snd (hs ! k))"
proof (induction hs arbitrary: n k F)
  case (Cons h hs)
  obtain name ps where h: "h = (name, ps)" by (cases h)
  show ?case
  proof (cases k)
    case 0
    then show ?thesis using Cons.prems h by (simp add: laid_other)
  next
    case (Suc m)
    then show ?thesis using Cons.IH [of "Suc n" m] Cons.prems h by simp
  qed
qed simp

lemma laid_root:
  "1 < n \<Longrightarrow> laid n hs F 1 = F 1 @ concat (map (\<lambda>k. dirent_bytes (of_nat (n + k)) (image_name (fst (hs ! k)))) [0..<length hs])"
proof (induction hs arbitrary: n F)
  case (Cons h hs)
  obtain name ps where h: "h = (name, ps)" by (cases h)
  have "[0..<length (h # hs)] = 0 # map Suc [0..<length hs]" by (simp add: upt_conv_Cons map_Suc_upt del: upt_Suc)
  then show ?case using Cons.IH [of "Suc n"] Cons.prems h by (simp add: comp_def ac_simps)
qed simp

section \<open>The finished image\<close>

lemma slot_bytes: "slot s own i (inode_at s i) c t \<Longrightarrow> file_bytes s i = c"
proof -
  assume a: "slot s own i (inode_at s i) c t"
  then have f: "file_ok s own i (inode_at s i) (nblk (length c)) c" and l: "unat (d_size (inode_at s i)) = length c"
    by (auto simp: slot_def unat_of_nat take_bit_nat_eq_self)
  have "img s (blk s (inode_at s i) (j div 512)) ! (j mod 512) = c ! j" if "j < length c" for j
    using f that by (auto simp: file_ok_def byte_at_def)
  then show ?thesis by (intro nth_equalityI) (simp_all add: file_bytes_def l)
qed

text \<open>
  The size of the root directory is moved to the end of the block behind its last entry: the rest reads as
  zeroes, also where this is one block more than there is.
\<close>

lemma padded_bytes:
  assumes f: "file_ok s own i (inode_at s i) (nblk (length c)) c" and c: "length c div 512 < 12" and z: "img s 0 = zeroes"
    and sz: "unat (d_size (inode_at s i)) = (length c div 512 + 1) * 512"
  shows "file_bytes s i = c @ replicate (512 - length c mod 512) 0"
proof -
  let ?n = "(length c div 512 + 1) * 512"
  define m where "m = 512 - length c mod 512"
  have l: "?n = length c + (512 - length c mod 512)" by (simp add: modulo_nat_def algebra_simps)
  have "img s (blk s (inode_at s i) (j div 512)) ! (j mod 512) = byte_at c j" if j: "j < ?n" for j
  proof (cases "j < nblk (length c) * 512")
    case True
    then show ?thesis using f by (simp add: file_ok_def)
  next
    case False
    then have e: "nblk (length c) = length c div 512" using j by (auto simp: nblk_cases split: if_splits)
    then have d: "j div 512 = length c div 512" using False j by (intro div_nat_eqI) simp_all
    then have "blk s (inode_at s i) (j div 512) = 0" using f c e by (simp add: file_ok_def blk_def)
    moreover have "length c \<le> j" using f False by (auto simp: file_ok_def)
    ultimately show ?thesis using z by (simp add: zeroes_def BSIZE_def byte_at_def)
  qed
  then have b: "j < length c + m \<Longrightarrow> img s (blk s (inode_at s i) (j div 512)) ! (j mod 512) = byte_at c j" for j
    using l by (simp add: m_def)
  have n: "unat (d_size (inode_at s i)) = length c + m" using sz l by (simp add: m_def)
  show ?thesis
    unfolding m_def [symmetric] by (intro nth_equalityI) (auto simp: file_bytes_def n b byte_at_def nth_append)
qed

lemma bitmap_ok:
  "n \<le> 4096 \<Longrightarrow> length (fold (\<lambda>i buf. mark_used buf i) [0..<n] zeroes) = 512 \<and>
    (\<forall>j<4096. bit_clear (fold (\<lambda>i buf. mark_used buf i) [0..<n] zeroes) j \<longleftrightarrow> n \<le> j)"
proof (induction n)
  case 0
  then show ?case by (simp add: zeroes_def BSIZE_def bit_clear_iff less_mult_imp_div_less)
next
  case (Suc n)
  let ?d = "fold (\<lambda>i buf. mark_used buf i) [0..<n] zeroes"
  have d: "length ?d = 512" "\<And>j. j < 4096 \<Longrightarrow> bit_clear ?d j \<longleftrightarrow> n \<le> j" using Suc by auto
  have "n div 8 < length ?d" using Suc.prems d(1) by (simp add: less_mult_imp_div_less)
  then have "bit_clear (mark_used ?d n) j \<longleftrightarrow> bit_clear ?d j \<and> j \<noteq> n" for j
    using marked_bits(1) [of n ?d j] by (auto simp: bit_clear_iff)
  then show ?case using d by (auto simp: mark_used_def)
qed

lemma mk_balloc_ok:
  assumes im: "image_ok s own"
  shows "\<exists>bm. mk_balloc (unat (freeblock s)) s = ret (s\<lparr>img := (img s)(58 := bm)\<rparr>) \<and>
    (\<forall>j<4096. bit_clear bm j \<longleftrightarrow> unat (freeblock s) \<le> j)"
proof -
  have "unat (freeblock s) \<le> 2000" "mk_sb s = mk_superblock" using im by (auto simp: image_ok_def word_le_nat_alt)
  then show ?thesis
    using bitmap_ok [of "unat (freeblock s)"] wsect_ok [OF im, of 58]
    by (intro exI [of _ "fold (\<lambda>i buf. mark_used buf i) [0..<unat (freeblock s)] zeroes"]) (simp add: mk_balloc_def BSIZE_def word_less_nat_alt Let_def)
qed

definition root_size :: "nat \<Rightarrow> nat" where "root_size l = (l div 512 + 1) * 512"

lemma root_size_word:
  "l \<le> 71680 \<Longrightarrow> unat ((of_nat l div of_nat BSIZE + 1) * of_nat BSIZE :: u32) = root_size l"
proof -
  assume l: "l \<le> 71680"
  then have "l div 512 \<le> 140" using div_le_mono [OF l, of 512] by simp
  moreover have "unat (of_nat l div 512 :: u32) = l div 512" using l by (simp add: unat_div_distrib unat_of_nat take_bit_nat_eq_self)
  ultimately show ?thesis by (simp add: root_size_def unat_word_ariths BSIZE_def)
qed

lemma finish_ok:
  assumes ok: "files_ok s own n F" and n: "2 \<le> n" and l: "length (F 1) = 16 * n"
  shows "\<exists>s'. finish 1 s = ret s' \<and> img s' 1 = sb_block mk_superblock \<and>
    (\<forall>j<4096. bit_clear (img s' 58) j \<longleftrightarrow> unat (freeblock s) \<le> j) \<and>
    d_type (inode_at s' 1) = T_DIR \<and> file_bytes s' 1 = F 1 @ replicate (512 - 16 * n mod 512) 0 \<and>
    (\<forall>i\<in>{2..<n}. d_type (inode_at s' i) = T_FILE \<and> d_nlink (inode_at s' i) = 1 \<and> file_bytes s' i = F i)"
proof -
  have im: "image_ok s own" and n8: "n \<le> 208" and sl: "\<And>j. j \<in> {1..<n} \<Longrightarrow> slot s own j (inode_at s j) (F j) (kind_of j)"
    and lay: "img s 0 = zeroes" "img s 1 = sb_block mk_superblock"
    using ok by (simp_all add: files_ok_def)
  let ?d = "(inode_at s 1)\<lparr>d_size := (of_nat (16 * n) div of_nat BSIZE + 1) * of_nat BSIZE\<rparr>"
  have s1: "slot s own 1 (inode_at s 1) (F 1) T_DIR" using sl [of 1] n by (simp add: kind_of_def)
  obtain s1 where w: "winode 1 ?d s = ret s1" "image_ok s1 own" "same_dinode (inode_at s1 1) ?d"
    "\<And>j. j < 208 \<Longrightarrow> j \<noteq> 1 \<Longrightarrow> same_dinode (inode_at s1 j) (inode_at s j)" "\<And>b. b < 32 \<or> 58 \<le> b \<Longrightarrow> img s1 b = img s b"
    "freeblock s1 = freeblock s"
    using winode_ok [OF im, of 1 ?d] by auto
  obtain bm where b: "mk_balloc (unat (freeblock s1)) s1 = ret (s1\<lparr>img := (img s1)(58 := bm)\<rparr>)"
    "\<And>j. j < 4096 \<Longrightarrow> bit_clear bm j \<longleftrightarrow> unat (freeblock s1) \<le> j"
    using mk_balloc_ok [OF w(2)] by blast
  define s' where "s' = s1\<lparr>img := (img s1)(58 := bm)\<rparr>"
  have "rinode 1 s = ret (inode_at s 1)" using rinode_ok [OF im, of 1] by simp
  moreover have "d_size (inode_at s 1) = of_nat (16 * n)" using s1 l by (simp add: slot_def)
  ultimately have fin: "finish 1 s = ret s'" using w(1) b(1) by (simp add: finish_def Let_def s'_def)
  have own: "img s' x = img s x" if "own x = Some y" for x y
    using owned_range [OF im that] w(5) [of x] by (auto simp: s'_def word_le_nat_alt)
  then have fr: "slot s' own j d c t" if "slot s own j d c t" for j d c t by (intro slot_frame [OF that]) auto
  have at: "inode_at s' j = inode_at s1 j" if "j < 208" for j
    using iblock_ok [OF that] by (auto simp: inode_at_def s'_def)
  have "file_ok s' own 1 ?d (nblk (length (F 1))) (F 1)" using fr [OF s1] by (simp add: slot_def file_ok_def)
  then have f1: "file_ok s' own 1 (inode_at s' 1) (nblk (length (F 1))) (F 1)" using w(3) at [of 1] by (auto intro: file_ok_same)
  have "unat (d_size (inode_at s' 1)) = (length (F 1) div 512 + 1) * 512"
    using w(3) at [of 1] root_size_word [of "16 * n"] n8 l by (simp add: same_dinode_def root_size_def)
  moreover have "length (F 1) div 512 < 12" using l n8 by (simp add: less_mult_imp_div_less)
  moreover have "img s' 0 = zeroes" using lay(1) w(5) [of 0] by (simp add: s'_def)
  ultimately have r: "file_bytes s' 1 = F 1 @ replicate (512 - 16 * n mod 512) 0" using padded_bytes [OF f1] l by simp
  have o: "slot s' own i (inode_at s' i) (F i) T_FILE" if "i \<in> {2..<n}" for i
  proof -
    have "slot s' own i (inode_at s i) (F i) T_FILE" using fr [OF sl [of i]] that by (simp add: kind_of_def)
    then show ?thesis using w(4) [of i] at [of i] that n8 by (auto intro: slot_same)
  qed
  show ?thesis
  proof (intro exI [of _ s'] conjI ballI)
    show "d_type (inode_at s' 1) = T_DIR" using s1 w(3) at [of 1] by (simp add: slot_def same_dinode_def)
    show "img s' 1 = sb_block mk_superblock" using lay(2) w(5) [of 1] by (simp add: s'_def)
    show "\<forall>j<4096. bit_clear (img s' 58) j \<longleftrightarrow> unat (freeblock s) \<le> j" using b(2) w(6) by (simp add: s'_def)
    fix i assume "i \<in> {2..<n}"
    note oi = o [OF this]
    show "file_bytes s' i = F i" by (rule slot_bytes [OF oi])
    show "d_type (inode_at s' i) = T_FILE" "d_nlink (inode_at s' i) = 1" using oi by (simp_all add: slot_def)
  qed (use fin r in simp_all)
qed

lemma superblock_read: "sb_of_block (sb_block mk_superblock) = mk_superblock"
  by (simp add: sb_of_block_def sb_block_def get32_put32 get32_put32_other zeroes_def BSIZE_def)

text \<open>The entries of the root directory, and the number of blocks in use.\<close>

definition root_entries :: "readable \<Rightarrow> u8 list" where
  "root_entries hs = dirent_bytes 1 [46] @ dirent_bytes 1 [46, 46] @
     concat (map (\<lambda>k. dirent_bytes (of_nat (k + 2)) (image_name (fst (hs ! k)))) [0..<length hs])"

definition blocks_used :: "readable \<Rightarrow> nat" where
  "blocks_used hs = 59 + used (16 * (length hs + 2)) + demand hs"

lemma image_built:
  assumes "fits hs" "length hs \<le> 206" "blocks_used hs \<le> 2000"
  shows "\<exists>s own. rbind (make_root mk_start) (\<lambda>(rootino, s). rbind (add_files rootino (given hs) s) f) = f s \<and>
    files_ok s own (length hs + 2) (laid 2 hs ((\<lambda>_. [])(1 := dots))) \<and> unat (freeblock s) = blocks_used hs"
proof -
  let ?F = "(\<lambda>_. [])(1 := dots)"
  obtain s own where r: "make_root mk_start = ret (1, s)" "files_ok s own 2 ?F" using make_root_ok by blast
  have l: "length dots = 32" by (simp add: dots_def)
  have fb: "unat (freeblock s) = 60" using r(2) used_small [of 32] l by (simp add: files_ok_def)
  have "\<exists>s' own'. add_files 1 (given hs) s = ret s' \<and> files_ok s' own' (2 + length hs) (laid 2 hs ?F) \<and>
    unat (freeblock s') + used (16 * 2) = unat (freeblock s) + used (16 * (2 + length hs)) + demand hs"
    using assms l fb used_small [of 32] by (intro add_files_ok [OF r(2)]) (simp_all add: blocks_used_def add.commute)
  then show ?thesis using r(1) fb used_small [of 32] by (auto simp: blocks_used_def add.commute)
qed

text \<open>
  C20: for host files that can be read, whose names have no slash and which fit (each in the blocks of an inode, all
  in the inodes and the blocks of the image), \<open>mkfs\<close> succeeds. The superblock that the kernel reads is the
  layout; the bitmap marks exactly the blocks in use; the root directory has the entries \<open>.\<close>, \<open>..\<close> and one
  for each file, followed by empty ones; and the inode of each file is a file with one link whose bytes, read
  through the direct addresses and the indirect block, are those of the host file.
\<close>

theorem mkfs_image:
  assumes "fits hs" "length hs \<le> 206" "blocks_used hs \<le> 2000"
  shows "\<exists>s. mkfs_main (Some True) (given hs) = ret s \<and> sb_of_block (img s 1) = mk_superblock \<and>
    (\<forall>b<4096. bit_clear (img s 58) b \<longleftrightarrow> blocks_used hs \<le> b) \<and>
    d_type (inode_at s 1) = T_DIR \<and> (\<exists>m\<le>512. file_bytes s 1 = root_entries hs @ replicate m 0) \<and>
    (\<forall>k<length hs. d_type (inode_at s (k + 2)) = T_FILE \<and> d_nlink (inode_at s (k + 2)) = 1 \<and>
       file_bytes s (k + 2) = concat (snd (hs ! k)))"
proof -
  let ?G = "laid 2 hs ((\<lambda>_. [])(1 := dots))"
  obtain s own where b: "mkfs_main (Some True) (given hs) = finish 1 s" "files_ok s own (length hs + 2) ?G"
    "unat (freeblock s) = blocks_used hs"
  proof -
    obtain s0 where "make_root mk_start = ret (1, s0)" using make_root_ok by blast
    then show ?thesis using image_built [OF assms, of "finish 1"] that by (auto simp: mkfs_main_def)
  qed
  have G1: "?G 1 = root_entries hs"
    using laid_root [of 2 hs "(\<lambda>_. [])(1 := dots)"] by (simp add: root_entries_def dots_def ac_simps)
  have "length (root_entries hs) = 16 * (length hs + 2)"
    by (simp add: root_entries_def length_concat comp_def sum_list_triv)
  then obtain s' where f: "finish 1 s = ret s'" "img s' 1 = sb_block mk_superblock"
    "\<And>j. j < 4096 \<Longrightarrow> bit_clear (img s' 58) j \<longleftrightarrow> unat (freeblock s) \<le> j" "d_type (inode_at s' 1) = T_DIR"
    "file_bytes s' 1 = ?G 1 @ replicate (512 - 16 * (length hs + 2) mod 512) 0"
    "\<And>i. i \<in> {2..<length hs + 2} \<Longrightarrow> d_type (inode_at s' i) = T_FILE \<and> d_nlink (inode_at s' i) = 1 \<and> file_bytes s' i = ?G i"
    using finish_ok [OF b(2)] G1 by auto
  have o: "d_type (inode_at s' (k + 2)) = T_FILE \<and> d_nlink (inode_at s' (k + 2)) = 1 \<and>
      file_bytes s' (k + 2) = concat (snd (hs ! k))" if "k < length hs" for k
    using f(6) [of "k + 2"] laid_file [of 2 k hs] that by (simp add: add.commute)
  show ?thesis
    using f(1-5) b(1,3) o superblock_read G1 by (intro exI [of _ s'] conjI exI [of _ "512 - 16 * (length hs + 2) mod 512"]) simp_all
qed

theorem mkfs_image_witness:
  "\<exists>s. mkfs_main (Some True) (given [([95, 99, 97, 116], [[1, 2], [3]])]) = ret s \<and> file_bytes s 2 = [1, 2, 3]"
proof -
  let ?hs = "[([95, 99, 97, 116], [[1, 2], [3]])] :: readable"
  have "fits ?hs" "length ?hs \<le> 206" "blocks_used ?hs \<le> 2000"
    by (simp_all add: fits_def SLASH_def blocks_used_def demand_def used_def nblk_def)
  from mkfs_image [OF this] obtain s where s: "mkfs_main (Some True) (given ?hs) = ret s"
    "\<forall>k<length ?hs. file_bytes s (k + 2) = concat (snd (?hs ! k))" by blast
  from s(2) have "file_bytes s 2 = [1, 2, 3]" by (auto simp: numeral_2_eq_2 dest: spec [of _ 0])
  with s(1) show ?thesis by blast
qed

end
