(* ===== verification/VmProps.thy ===== *)
theory VmProps
  imports Vm
begin

unbundle bit_operations_syntax

text \<open>
  Page tables as maps from page numbers to entries: what \<open>walkpgdir\<close> and \<open>mappages\<close> do to them and which
  pages of memory they touch, and that the copy of an address space that \<open>fork\<close> makes has the contents of
  the original on pages of its own.
\<close>

section \<open>Pages of memory\<close>

text \<open>The words of a page, and memories that agree on a page or on all pages outside a set.\<close>

definition aligned :: "u32 \<Rightarrow> bool" where "aligned p \<longleftrightarrow> p mod PGSIZE = 0"

definition slot_of :: "u32 \<Rightarrow> nat \<Rightarrow> u32" where "slot_of p i = p + of_nat (4 * i)"

definition same_page :: "(u32 \<Rightarrow> u8) \<Rightarrow> (u32 \<Rightarrow> u8) \<Rightarrow> u32 \<Rightarrow> bool" where
  "same_page m m' p \<longleftrightarrow> (\<forall>i<4096. m' (p + of_nat i) = m (p + of_nat i))"

definition touches :: "u32 set \<Rightarrow> (u32 \<Rightarrow> u8) \<Rightarrow> (u32 \<Rightarrow> u8) \<Rightarrow> bool" where
  "touches A m m' \<longleftrightarrow> (\<forall>p. aligned p \<longrightarrow> p \<notin> A \<longrightarrow> same_page m m' p)"

lemma page_ok_aligned: "page_ok e p \<Longrightarrow> aligned p"
  by (simp add: page_ok_def aligned_def)

lemma other_page: "aligned p \<Longrightarrow> aligned v \<Longrightarrow> p \<noteq> v \<Longrightarrow> i < 4096 \<Longrightarrow> \<not> within v (unat PGSIZE) (p + of_nat i)"
  unfolding aligned_def by (rule page_disjoint)

lemma touches_refl [simp]: "touches A m m"
  by (simp add: touches_def same_page_def)

lemma touches_mono: "touches A m m' \<Longrightarrow> A \<subseteq> B \<Longrightarrow> touches B m m'"
  by (auto simp: touches_def)

lemma touches_trans: "touches A m m1 \<Longrightarrow> touches A m1 m2 \<Longrightarrow> touches A m m2"
  by (simp add: touches_def same_page_def)

lemma same_page_word:
  assumes "same_page m m' p" "i < 1024"
  shows "read32 m' (slot_of p i) = read32 m (slot_of p i)"
proof (rule read32_cong)
  fix k :: nat assume "k < 4"
  then have "4 * i + k < 4096" using assms(2) by simp
  then have "m' (p + of_nat (4 * i + k)) = m (p + of_nat (4 * i + k))"
    by (rule assms(1) [unfolded same_page_def, rule_format])
  then show "m' (slot_of p i + of_nat k) = m (slot_of p i + of_nat k)" by (simp add: slot_of_def add.assoc)
qed

lemma within_page: "k < 4096 \<Longrightarrow> within p (unat PGSIZE) (p + of_nat k)"
  by (simp add: within_def PGSIZE_def unat_of_nat take_bit_nat_eq_self)

lemma write_touches:
  assumes "aligned p" "i < 1024"
  shows "touches {p} m (write32 m (slot_of p i) v)"
  unfolding touches_def same_page_def
proof (intro allI impI)
  fix q k assume q: "aligned q" "q \<notin> {p}" "k < (4096 :: nat)"
  have "q + of_nat k \<noteq> p + of_nat (4 * i + j)" if "j < 4" for j
    using other_page [OF q(1) assms(1) _ q(3)] within_page [of "4 * i + j" p] that assms(2) q(2) by auto
  from this [of 0] this [of 1] this [of 2] this [of 3]
  show "write32 m (slot_of p i) v (q + of_nat k) = m (q + of_nat k)"
    by (intro write32_other) (simp add: slot_of_def ac_simps)
qed

lemma memset_touches: "aligned p \<Longrightarrow> touches {p} m (memset m p c PGSIZE)"
  using other_page by (auto simp: touches_def same_page_def memset_eq)

lemma unat_slot: "aligned p \<Longrightarrow> i < 1024 \<Longrightarrow> unat (slot_of p i) = unat p + 4 * i"
proof -
  assume a: "aligned p" "i < 1024"
  then have "unat p mod 4096 = 0" by (simp add: aligned_def PGSIZE_def unat_mod flip: unat_eq_0)
  then obtain b where b: "unat p = 4096 * b" by (auto elim!: dvdE simp: mod_eq_0_iff_dvd)
  then have "b < 1048576" using unat_lt32 [of p] by simp
  then have "unat p + 4096 \<le> 2 ^ 32" using b by simp
  then show ?thesis unfolding slot_of_def using a(2) by (intro unat_add_nat) simp
qed

lemma slot_apart: "aligned p \<Longrightarrow> i < 1024 \<Longrightarrow> j < 1024 \<Longrightarrow> i \<noteq> j \<Longrightarrow> apart (slot_of p i) (slot_of p j)"
proof -
  assume a: "aligned p" "i < 1024" "j < 1024" "i \<noteq> j"
  have "unat (slot_of p i) = unat p + 4 * i" "unat (slot_of p j) = unat p + 4 * j" using a by (simp_all add: unat_slot)
  moreover have "unat p + 4 * i < 2 ^ 32" "unat p + 4 * j < 2 ^ 32"
    using calculation unat_lt32 [of "slot_of p i"] unat_lt32 [of "slot_of p j"] by simp_all
  ultimately show ?thesis using a(2-4) by (auto simp: apart_def word_le_nat_alt unat_sub_if')
qed

lemma read_write_slot:
  assumes "aligned p" "i < 1024" "j < 1024"
  shows "read32 (write32 m (slot_of p i) v) (slot_of p j) = (if j = i then v else read32 m (slot_of p j))"
  using slot_apart [OF assms] by (simp add: read32_write32_apart)

lemma read_memset:
  assumes "i < 1024"
  shows "read32 (memset m p 0 PGSIZE) (slot_of p i) = 0"
proof -
  have "memset m p 0 PGSIZE (slot_of p i + of_nat k) = 0" if "k < 4" for k
  proof -
    have "within p (unat PGSIZE) (p + of_nat (4 * i + k))" using assms that by (intro within_page) simp
    then show ?thesis by (simp add: memset_eq slot_of_def add.assoc)
  qed
  from this [of 0] this [of 1] this [of 2] this [of 3] show ?thesis by (simp add: read32_def)
qed

section \<open>Page numbers\<close>

lemma page_number:
  assumes "i < 2 ^ 20"
  shows "PDX (of_nat (i * 4096)) = of_nat (i div 1024)" "PTX (of_nat (i * 4096)) = of_nat (i mod 1024)"
    "unat (of_nat (i * 4096) :: u32) = i * 4096"
proof -
  show u: "unat (of_nat (i * 4096) :: u32) = i * 4096" using assms by (simp add: unat_of_nat take_bit_nat_eq_self del: of_nat_mult)
  have m: "x AND 0x3FF = x mod 1024" for x :: u32
    using take_bit_eq_mask [of 10 x] by (simp add: mask_eq_exp_minus_1 take_bit_eq_mod)
  have d: "i * 4096 div 4194304 = i div 1024" using div_mult2_eq [of "i * 4096" 4096 1024] by simp
  have "i div 1024 < 1024" using assms by (simp add: less_mult_imp_div_less)
  then show "PDX (of_nat (i * 4096)) = of_nat (i div 1024)"
    by (intro word_unat_eq_iff [THEN iffD2])
      (simp add: PDX_def m drop_bit_eq_div unat_mod unat_div u d take_bit_nat_eq_self unat_of_nat del: of_nat_mult)
  have lt: "i * 4096 mod 4294967296 = i * 4096" using assms by simp
  show "PTX (of_nat (i * 4096)) = of_nat (i mod 1024)"
    by (intro word_unat_eq_iff [THEN iffD2])
      (simp add: PTX_def m drop_bit_eq_div unat_mod unat_div u lt take_bit_nat_eq_self unat_of_nat del: of_nat_mult)
qed

text \<open>An address of a page from its physical address and the flags of the entry.\<close>

lemma entry_page:
  assumes "aligned a" "unat f < 4096"
  shows "PTE_ADDR (a OR f) = a" "PTE_FLAGS (a OR f) = f"
proof -
  have m: "(0xFFF :: u32) = mask 12" by (simp add: mask_eq_exp_minus_1)
  have "a mod 2 ^ 12 = 0" using assms(1) by (simp add: aligned_def PGSIZE_def)
  then have "take_bit 12 a = 0" by (simp add: take_bit_eq_mod)
  then have a: "a AND mask 12 = 0" by (simp add: take_bit_eq_mask)
  have "f mod 2 ^ 12 = f" using assms(2) by (simp add: word_unat_eq_iff unat_mod)
  then have f: "f AND mask 12 = f" by (simp add: take_bit_eq_mod flip: take_bit_eq_mask)
  show "PTE_FLAGS (a OR f) = f" using a f by (simp add: PTE_FLAGS_def m bit.conj_disj_distrib2)
  have "f AND NOT (mask 12) = 0" using f by (metis and.assoc bit.conj_cancel_right and_zero_eq)
  moreover have "a AND NOT (mask 12) = a"
    using \<open>take_bit 12 a = 0\<close> by (intro bit_word_eqI) (auto simp: bit_eq_iff bit_simps)
  ultimately show "PTE_ADDR (a OR f) = a" by (simp add: PTE_ADDR_def m bit.conj_disj_distrib2)
qed

section \<open>Page tables\<close>

definition present :: "u32 \<Rightarrow> bool" where "present e \<longleftrightarrow> e AND PTE_P \<noteq> 0"

lemma present_iff: "present e \<longleftrightarrow> bit e 0"
  unfolding present_def PTE_P_def using and_exp_eq_0_iff_not_bit [of e 0] by simp

definition frame_of :: "u32 \<Rightarrow> u32" where "frame_of e = PTE_ADDR e + KERNBASE"
definition pd :: "(u32 \<Rightarrow> u8) \<Rightarrow> u32 \<Rightarrow> nat \<Rightarrow> u32" where "pd m pgdir d = read32 m (slot_of pgdir d)"

text \<open>The entry of a page with a given number, 0 where there is no table for it.\<close>

definition page_entry :: "(u32 \<Rightarrow> u8) \<Rightarrow> u32 \<Rightarrow> nat \<Rightarrow> u32" where
  "page_entry m pgdir i =
     (let e = pd m pgdir (i div 1024) in if present e then read32 m (slot_of (frame_of e) (i mod 1024)) else 0)"

definition table_pages :: "(u32 \<Rightarrow> u8) \<Rightarrow> u32 \<Rightarrow> u32 set" where
  "table_pages m pgdir = {frame_of (pd m pgdir d) | d. d < 1024 \<and> present (pd m pgdir d)}"

text \<open>
  A page directory whose tables are pages of their own, none of them free, with the free pages of the
  allocator in \<open>l\<close>.
\<close>

definition space :: "nat \<Rightarrow> 'a kmem_scheme \<Rightarrow> u32 \<Rightarrow> u32 list \<Rightarrow> bool" where
  "space c s pgdir l \<longleftrightarrow> kmem_ok c s l \<and> page_ok (kend s) pgdir \<and> pgdir \<notin> set l \<and>
     (\<forall>d<1024. present (pd (mem s) pgdir d) \<longrightarrow> page_ok (kend s) (frame_of (pd (mem s) pgdir d)) \<and>
        frame_of (pd (mem s) pgdir d) \<notin> set l \<and> frame_of (pd (mem s) pgdir d) \<noteq> pgdir) \<and>
     (\<forall>d<1024. \<forall>d'<1024. present (pd (mem s) pgdir d) \<longrightarrow> present (pd (mem s) pgdir d') \<longrightarrow>
        frame_of (pd (mem s) pgdir d) = frame_of (pd (mem s) pgdir d') \<longrightarrow> d = d')"

lemma kmem_ok_mem:
  assumes "kmem_ok c s l" "touches A (mem s) m" "set l \<inter> A = {}"
  shows "kmem_ok c (s\<lparr>mem := m\<rparr>) l"
proof -
  have "read32 m p = read32 (mem s) p" if "p \<in> set l" for p
  proof -
    have "aligned p" "p \<notin> A" using assms(1,3) that page_ok_aligned by (auto simp: kmem_ok_def)
    then have "same_page (mem s) m p" using assms(2) by (simp add: touches_def)
    then show ?thesis using same_page_word [of "mem s" m p 0] by (simp add: slot_of_def)
  qed
  then have "chain m (freelist s) l = chain (mem s) (freelist s) l" by (rule chain_cong)
  then show ?thesis using assms(1) by (simp add: kmem_ok_def kmem_lock_def on_cpu_def free_lock_def)
qed

lemma pd_frame: "same_page m m' pgdir \<Longrightarrow> d < 1024 \<Longrightarrow> pd m' pgdir d = pd m pgdir d"
  by (simp add: pd_def same_page_word)

lemma tables_frame: "same_page m m' pgdir \<Longrightarrow> table_pages m' pgdir = table_pages m pgdir"
  unfolding table_pages_def using pd_frame [of m m' pgdir] by (intro Collect_cong) metis

lemma entry_frame:
  assumes "same_page m m' pgdir" "i < 2 ^ 20"
    and "present (pd m pgdir (i div 1024)) \<Longrightarrow> same_page m m' (frame_of (pd m pgdir (i div 1024)))"
  shows "page_entry m' pgdir i = page_entry m pgdir i"
proof -
  have "i div 1024 < 1024" using assms(2) by (simp add: less_mult_imp_div_less)
  then show ?thesis using assms pd_frame same_page_word [of m m' _ "i mod 1024"] by (simp add: page_entry_def Let_def)
qed

lemma space_mem:
  assumes "space c s pgdir l" "touches A (mem s) m" "set l \<inter> A = {}" "pgdir \<notin> A"
  shows "space c (s\<lparr>mem := m\<rparr>) pgdir l"
proof -
  have "same_page (mem s) m pgdir" using assms page_ok_aligned by (auto simp: space_def touches_def)
  then have "pd m pgdir d = pd (mem s) pgdir d" if "d < 1024" for d using that by (rule pd_frame)
  then show ?thesis using assms(1) kmem_ok_mem [OF _ assms(2,3)] by (simp add: space_def)
qed

lemma table_page: "space c s pgdir l \<Longrightarrow> t \<in> table_pages (mem s) pgdir \<Longrightarrow> page_ok (kend s) t \<and> t \<notin> set l \<and> t \<noteq> pgdir"
  by (auto simp: space_def table_pages_def)

lemma P2V_frame: "page_ok e (a + KERNBASE) \<Longrightarrow> P2V a = ret (a + KERNBASE)"
  by (simp add: P2V_def page_ok_def PHYSTOP_def KERNBASE_def word_less_nat_alt)

lemma slot_word: "slot_of p (i div 1024) = p + 4 * of_nat (i div 1024)" "slot_of p (i mod 1024) = p + 4 * of_nat (i mod 1024)"
  by (simp_all add: slot_of_def)

lemma slot_nonzero: "page_ok e p \<Longrightarrow> i < 1024 \<Longrightarrow> slot_of p i \<noteq> 0"
  using unat_slot [of p i] page_ok_aligned [of e p] page_ok_nonzero [of e p] by (auto simp: unat_eq_zero)

lemma page_split: "i < 2 ^ 20 \<Longrightarrow> i div 1024 < 1024 \<and> i mod 1024 < (1024 :: nat)"
  by (simp add: less_mult_imp_div_less)

text \<open>Writing the entry of a page that has a table.\<close>

lemma set_entry:
  fixes v :: u32
  assumes sp: "space c s pgdir l" and i: "i < 2 ^ 20" and p: "present (pd (mem s) pgdir (i div 1024))"
  defines "m \<equiv> write32 (mem s) (slot_of (frame_of (pd (mem s) pgdir (i div 1024))) (i mod 1024)) v"
  shows "space c (s\<lparr>mem := m\<rparr>) pgdir l" "touches (table_pages (mem s) pgdir) (mem s) m"
    "table_pages m pgdir = table_pages (mem s) pgdir"
    "j < 2 ^ 20 \<Longrightarrow> page_entry m pgdir j = (if j = i then v else page_entry (mem s) pgdir j)"
proof -
  let ?d = "i div 1024" and ?k = "i mod 1024" let ?t = "frame_of (pd (mem s) pgdir ?d)"
  note sp' = sp [unfolded space_def]
  have d: "?d < 1024" "?k < 1024" using page_split [OF i] by auto
  have t: "page_ok (kend s) ?t" "?t \<notin> set l" "?t \<noteq> pgdir" using sp' p d(1) by auto
  have al: "aligned ?t" "aligned pgdir" using t(1) sp' page_ok_aligned by auto
  have to: "touches {?t} (mem s) m" unfolding m_def by (rule write_touches [OF al(1) d(2)])
  show "space c (s\<lparr>mem := m\<rparr>) pgdir l" using t by (intro space_mem [OF sp to]) auto
  show "touches (table_pages (mem s) pgdir) (mem s) m"
    using p d(1) by (intro touches_mono [OF to]) (auto simp: table_pages_def)
  have sd: "same_page (mem s) m pgdir" using to al(2) t(3) by (auto simp: touches_def)
  have pde: "pd m pgdir e = pd (mem s) pgdir e" if "e < 1024" for e using sd that by (rule pd_frame)
  show "table_pages m pgdir = table_pages (mem s) pgdir" by (rule tables_frame [OF sd])
  assume j: "j < 2 ^ 20"
  note dj = page_split [OF j]
  show "page_entry m pgdir j = (if j = i then v else page_entry (mem s) pgdir j)"
  proof (cases "j div 1024 = ?d")
    case True
    then have "j mod 1024 = ?k \<longleftrightarrow> j = i" by (metis div_mult_mod_eq)
    then show ?thesis using True p pde [of ?d] d read_write_slot [OF al(1) d(2), of "j mod 1024" "mem s" v] dj
      by (simp add: page_entry_def m_def)
  next
    case False
    then have "frame_of (pd (mem s) pgdir (j div 1024)) \<noteq> ?t" if "present (pd (mem s) pgdir (j div 1024))"
      using that sp' p d dj by blast
    moreover have "aligned (frame_of (pd (mem s) pgdir (j div 1024)))" if "present (pd (mem s) pgdir (j div 1024))"
      using that sp' dj page_ok_aligned by blast
    ultimately have "page_entry m pgdir j = page_entry (mem s) pgdir j"
      using to by (intro entry_frame [OF sd j]) (auto simp: touches_def)
    then show ?thesis using False by auto
  qed
qed

text \<open>\<open>walkpgdir\<close> where there is a table, and where there is none.\<close>

lemma walk_present:
  assumes sp: "space c s pgdir l" and i: "i < 2 ^ 20" and p: "present (pd (mem s) pgdir (i div 1024))"
  shows "walkpgdir pgdir (of_nat (i * 4096)) al s = ret (slot_of (frame_of (pd (mem s) pgdir (i div 1024))) (i mod 1024), s)"
proof -
  have "page_ok (kend s) (frame_of (pd (mem s) pgdir (i div 1024)))" using sp p page_split [OF i] by (auto simp: space_def)
  then have "P2V (PTE_ADDR (pd (mem s) pgdir (i div 1024))) = ret (frame_of (pd (mem s) pgdir (i div 1024)))"
    unfolding frame_of_def by (rule P2V_frame)
  then show ?thesis using p page_number [OF i]
    by (simp add: walkpgdir_def present_def pd_def slot_word del: of_nat_mult)
qed

lemma walk_absent:
  assumes "i < 2 ^ 20" "\<not> present (pd (mem s) pgdir (i div 1024))"
  shows "walkpgdir pgdir (of_nat (i * 4096)) False s = ret (0, s)"
  using assms(2) page_number [OF assms(1)] by (simp add: walkpgdir_def present_def pd_def slot_word del: of_nat_mult)

lemma page_physical:
  assumes "page_ok e p"
  shows "aligned (p - KERNBASE)"
proof -
  have p: "unat p mod 4096 = 0" "0x80000000 \<le> unat p" using assms
    by (simp_all add: page_ok_def PGSIZE_def KERNBASE_def word_le_nat_alt unat_mod flip: unat_eq_0)
  have "4096 dvd (0x80000000 :: nat)" by simp
  with mod_0_imp_dvd [OF p(1)] have "4096 dvd unat p - 0x80000000" by (rule dvd_diff_nat)
  moreover have "unat (p - KERNBASE) = unat p - 0x80000000" using p(2) by (simp add: unat_sub_if' KERNBASE_def)
  ultimately have "unat (p - KERNBASE) mod 4096 = 0" by (simp only: dvd_eq_mod_eq_0)
  then show ?thesis by (simp add: aligned_def PGSIZE_def unat_mod flip: unat_eq_0)
qed

lemma new_entry:
  assumes "page_ok e p"
  shows "present ((p - KERNBASE) OR PTE_P OR PTE_W OR PTE_U)" "frame_of ((p - KERNBASE) OR PTE_P OR PTE_W OR PTE_U) = p"
proof -
  have f: "PTE_P OR PTE_W OR PTE_U = 7" by (simp add: PTE_P_def PTE_W_def PTE_U_def)
  have "bit (7 :: u32) 0" by simp
  then show "present ((p - KERNBASE) OR PTE_P OR PTE_W OR PTE_U)"
    unfolding present_iff or.assoc f by (simp only: bit_or_iff simp_thms)
  from page_physical [OF assms]
  show "frame_of ((p - KERNBASE) OR PTE_P OR PTE_W OR PTE_U) = p"
    using entry_page(1) [of "p - KERNBASE" 7] unfolding frame_of_def or.assoc f by simp
qed

text \<open>A free page, cleared, becomes the table of a directory entry: no entry of a page changes.\<close>

definition linked :: "(u32 \<Rightarrow> u8) \<Rightarrow> u32 \<Rightarrow> nat \<Rightarrow> u32 \<Rightarrow> (u32 \<Rightarrow> u8)" where
  "linked m pgdir d p = write32 (memset m p 0 PGSIZE) (slot_of pgdir d) ((p - KERNBASE) OR PTE_P OR PTE_W OR PTE_U)"

lemma linked_pages:
  assumes p: "page_ok e p" and al: "aligned pgdir" and ne: "p \<noteq> pgdir" and d: "d < 1024" 
  shows "touches {pgdir, p} m (linked m pgdir d p)"
    and "k < 1024 \<Longrightarrow> read32 (linked m pgdir d p) (slot_of p k) = 0"
    and "k < 1024 \<Longrightarrow> pd (linked m pgdir d p) pgdir k = (if k = d then (p - KERNBASE) OR PTE_P OR PTE_W OR PTE_U else pd m pgdir k)"
proof -
  let ?e = "(p - KERNBASE) OR PTE_P OR PTE_W OR PTE_U"
  define m1 where "m1 = memset m p 0 PGSIZE"
  have l: "linked m pgdir d p = write32 m1 (slot_of pgdir d) ?e" by (simp add: linked_def m1_def)
  have ap: "aligned p" using p by (rule page_ok_aligned)
  have t1: "touches {p} m m1" unfolding m1_def by (rule memset_touches [OF ap])
  have t2: "touches {pgdir} m1 (linked m pgdir d p)" unfolding l by (rule write_touches [OF al d])
  show "touches {pgdir, p} m (linked m pgdir d p)"
    by (rule touches_trans [OF touches_mono [OF t1] touches_mono [OF t2]]) auto
  have "same_page m1 (linked m pgdir d p) p" using t2 ap ne by (simp add: touches_def)
  then show "read32 (linked m pgdir d p) (slot_of p k) = 0" if "k < 1024"
    using same_page_word that read_memset [OF that, of m p] by (simp add: m1_def)
  have "same_page m m1 pgdir" using t1 al ne by (auto simp: touches_def)
  then show "pd (linked m pgdir d p) pgdir k = (if k = d then ?e else pd m pgdir k)" if "k < 1024"
    using read_write_slot [OF al d that, of m1 ?e] pd_frame [OF _ that, of m m1] by (simp add: pd_def l)
qed

lemma linked_entries:
  assumes sp: "space c s pgdir (p # l)" and d: "d < 1024" and np: "\<not> present (pd (mem s) pgdir d)" and j: "j < 2 ^ 20"
  shows "page_entry (linked (mem s) pgdir d p) pgdir j = page_entry (mem s) pgdir j"
proof -
  let ?m = "linked (mem s) pgdir d p"
  note sp' = sp [unfolded space_def]
  have pk: "page_ok (kend s) p" "p \<noteq> pgdir" "aligned pgdir" using sp' page_ok_aligned by (auto simp: kmem_ok_def)
  note li = linked_pages [OF pk(1,3,2) d, where m = "mem s"] and k = page_split [OF j] and ne = new_entry [OF pk(1)]
  show ?thesis
  proof (cases "j div 1024 = d")
    case True
    then show ?thesis using np li(2) [of "j mod 1024"] li(3) [OF d] ne k by (simp add: page_entry_def)
  next
    case False
    have "same_page (mem s) ?m (frame_of (pd (mem s) pgdir (j div 1024)))" if "present (pd (mem s) pgdir (j div 1024))"
    proof -
      have "aligned (frame_of (pd (mem s) pgdir (j div 1024)))" "frame_of (pd (mem s) pgdir (j div 1024)) \<notin> {pgdir, p}"
        using that k sp' page_ok_aligned by auto
      then show ?thesis using li(1) by (simp add: touches_def)
    qed
    then show ?thesis using False li(3) [of "j div 1024"] k same_page_word [of "mem s" ?m _ "j mod 1024"]
      by (simp add: page_entry_def Let_def)
  qed
qed

lemma linked_space:
  assumes sp: "space c s pgdir (p # l)" and d: "d < 1024" and np: "\<not> present (pd (mem s) pgdir d)"
    and s1: "kmem_ok c s1 l" "mem s1 = mem s" "kend s1 = kend s"
  shows "space c (s1\<lparr>mem := linked (mem s) pgdir d p\<rparr>) pgdir l"
    and "table_pages (linked (mem s) pgdir d p) pgdir = insert p (table_pages (mem s) pgdir)"
proof -
  note sp' = sp [unfolded space_def]
  have pk: "page_ok (kend s) p" "p \<noteq> pgdir" "aligned pgdir" "p \<notin> set l" "pgdir \<notin> set l"
    using sp' page_ok_aligned by (auto simp: kmem_ok_def)
  note li = linked_pages [OF pk(1,3,2) d, where m = "mem s"] and ne = new_entry [OF pk(1)]
  have "kmem_ok c (s1\<lparr>mem := linked (mem s) pgdir d p\<rparr>) l"
    using li(1) pk(4,5) by (intro kmem_ok_mem [OF s1(1)]) (auto simp: s1(2))
  moreover have tp: "page_ok (kend s) (frame_of (pd (mem s) pgdir e)) \<and> frame_of (pd (mem s) pgdir e) \<notin> set (p # l) \<and>
      frame_of (pd (mem s) pgdir e) \<noteq> pgdir" if "e < 1024" "present (pd (mem s) pgdir e)" for e
    using that sp' by blast
  moreover have "e = e'" if "e < 1024" "e' < 1024" "present (pd (mem s) pgdir e)" "present (pd (mem s) pgdir e')"
      "frame_of (pd (mem s) pgdir e) = frame_of (pd (mem s) pgdir e')" for e e'
    using that sp' by blast
  ultimately show "space c (s1\<lparr>mem := linked (mem s) pgdir d p\<rparr>) pgdir l"
    using sp' li(3) ne pk s1(3) unfolding space_def by simp metis
  show "table_pages (linked (mem s) pgdir d p) pgdir = insert p (table_pages (mem s) pgdir)"
  proof (intro set_eqI iffI)
    fix t assume "t \<in> table_pages (linked (mem s) pgdir d p) pgdir"
    then show "t \<in> insert p (table_pages (mem s) pgdir)" using li(3) ne by (auto simp: table_pages_def split: if_splits)
  next
    fix t assume "t \<in> insert p (table_pages (mem s) pgdir)"
    then consider "t = p" | e where "e < 1024" "present (pd (mem s) pgdir e)" "t = frame_of (pd (mem s) pgdir e)"
      by (auto simp: table_pages_def)
    then show "t \<in> table_pages (linked (mem s) pgdir d p) pgdir"
    proof cases
      case 1
      then show ?thesis using li(3) [OF d] ne d by (auto simp: table_pages_def intro!: exI [of _ d])
    next
      case 2
      then show ?thesis using li(3) [of e] np by (auto simp: table_pages_def intro!: exI [of _ e])
    qed
  qed
qed

lemma kalloc_frame: "kmem_ok c s l \<Longrightarrow> kalloc s = ret (p, s') \<Longrightarrow> kend s' = kend s"
proof -
  assume a: "kmem_ok c s l" "kalloc s = ret (p, s')"
  then have "kmem_lock c s" by (simp add: kmem_ok_def)
  from trans [OF a(2) [symmetric] kalloc_eq [OF this]]
  have "s' = (settled c s)\<lparr>mem := mem s, freelist := (if freelist s \<noteq> 0 then read32 (mem s) (freelist s) else 0)\<rparr>"
    by (simp only: option.inject sum.inject prod.inject)
  then show ?thesis by (simp add: settled_def settle_def)
qed

lemma walk_alloc:
  assumes sp: "space c s pgdir (p # l)" and i: "i < 2 ^ 20" and np: "\<not> present (pd (mem s) pgdir (i div 1024))"
  shows "\<exists>s'. walkpgdir pgdir (of_nat (i * 4096)) True s = ret (slot_of (frame_of (pd (mem s') pgdir (i div 1024))) (i mod 1024), s') \<and>
    space c s' pgdir l \<and> present (pd (mem s') pgdir (i div 1024)) \<and> kend s' = kend s \<and>
    table_pages (mem s') pgdir = insert p (table_pages (mem s) pgdir) \<and> touches {pgdir, p} (mem s) (mem s') \<and>
    (\<forall>j<2 ^ 20. page_entry (mem s') pgdir j = page_entry (mem s) pgdir j)"
proof -
  let ?d = "i div 1024"
  note sp' = sp [unfolded space_def]
  have d: "?d < 1024" using page_split [OF i] by auto
  have km: "kmem_ok c s (p # l)" using sp' by simp
  have pk: "page_ok (kend s) p" "p \<noteq> pgdir" "aligned pgdir" using sp' page_ok_aligned by (auto simp: kmem_ok_def)
  obtain s1 where a: "kalloc s = ret (p, s1)" "kmem_ok c s1 l" "mem s1 = mem s" using kmem_ok_kalloc [OF km] by auto
  have ke: "kend s1 = kend s" by (rule kalloc_frame [OF km a(1)])
  define s' where "s' = s1\<lparr>mem := linked (mem s) pgdir ?d p\<rparr>"
  note li = linked_pages [OF pk(1,3,2) d, where m = "mem s"] and ne = new_entry [OF pk(1)]
  have pe: "present (pd (mem s') pgdir ?d)" "frame_of (pd (mem s') pgdir ?d) = p" using li(3) [OF d] ne by (simp_all add: s'_def)
  have w: "walkpgdir pgdir (of_nat (i * 4096)) True s = ret (slot_of (frame_of (pd (mem s') pgdir ?d)) (i mod 1024), s')"
    unfolding pe(2) using np page_number [OF i] a(1,3) page_ok_nonzero [OF pk(1)] V2P_page [OF pk(1)]
    by (simp add: walkpgdir_def present_def pd_def slot_word linked_def s'_def Let_def del: of_nat_mult)
  show ?thesis
    using w pe(1) linked_space [OF sp d np a(2,3) ke] linked_entries [OF sp d np] li(1) ke
    by (intro exI [of _ s']) (simp add: s'_def)
qed

lemma walk_exhausted:
  assumes sp: "space c s pgdir []" and i: "i < 2 ^ 20" and np: "\<not> present (pd (mem s) pgdir (i div 1024))"
  shows "\<exists>s'. walkpgdir pgdir (of_nat (i * 4096)) True s = ret (0, s') \<and> space c s' pgdir [] \<and> kend s' = kend s \<and> mem s' = mem s"
proof -
  have km: "kmem_ok c s []" using sp by (simp add: space_def)
  obtain s1 where a: "kalloc s = ret (0, s1)" "kmem_ok c s1 []" "mem s1 = mem s" using kmem_ok_kalloc [OF km] by auto
  have ke: "kend s1 = kend s" by (rule kalloc_frame [OF km a(1)])
  then have "space c s1 pgdir []" using sp a by (simp add: space_def)
  then show ?thesis using a ke np page_number [OF i]
    by (simp add: walkpgdir_def present_def pd_def slot_word del: of_nat_mult)
qed

text \<open>Work on the tables of a directory: pages that were free become tables, and no other page changes.\<close>

definition grows :: "nat \<Rightarrow> 'a kmem_scheme \<Rightarrow> u32 \<Rightarrow> u32 list \<Rightarrow> 'a kmem_scheme \<Rightarrow> u32 list \<Rightarrow> bool" where
  "grows c s pgdir l s' l' \<longleftrightarrow> space c s' pgdir l' \<and> kend s' = kend s \<and>
     (\<exists>u. l = u @ l' \<and> table_pages (mem s') pgdir = table_pages (mem s) pgdir \<union> set u) \<and>
     touches (insert pgdir (table_pages (mem s') pgdir)) (mem s) (mem s')"

lemma grows_trans:
  assumes a: "grows c s pgdir l s1 l1" and b: "grows c s1 pgdir l1 s2 l2"
  shows "grows c s pgdir l s2 l2"
proof -
  obtain u where u: "l = u @ l1" "table_pages (mem s1) pgdir = table_pages (mem s) pgdir \<union> set u"
    and ta: "touches (insert pgdir (table_pages (mem s1) pgdir)) (mem s) (mem s1)" and ka: "kend s1 = kend s"
    using a unfolding grows_def by blast
  obtain v where v: "l1 = v @ l2" "table_pages (mem s2) pgdir = table_pages (mem s1) pgdir \<union> set v"
    and tb: "touches (insert pgdir (table_pages (mem s2) pgdir)) (mem s1) (mem s2)" and kb: "kend s2 = kend s1" "space c s2 pgdir l2"
    using b unfolding grows_def by blast
  have "touches (insert pgdir (table_pages (mem s2) pgdir)) (mem s) (mem s1)" using v(2) by (intro touches_mono [OF ta]) auto
  note t = touches_trans [OF this tb]
  show ?thesis
    unfolding grows_def
  proof (intro conjI exI [of _ "u @ v"])
    show "table_pages (mem s2) pgdir = table_pages (mem s) pgdir \<union> set (u @ v)" using u v by auto
  qed (use u v ka kb t in simp_all)
qed

lemma walk_any:
  assumes sp: "space c s pgdir l" and i: "i < 2 ^ 20"
  shows "\<exists>q s' l'. walkpgdir pgdir (of_nat (i * 4096)) True s = ret (q, s') \<and> grows c s pgdir l s' l' \<and>
    (\<forall>j<2 ^ 20. page_entry (mem s') pgdir j = page_entry (mem s) pgdir j) \<and>
    (q = 0 \<and> l' = [] \<or>
     q \<noteq> 0 \<and> present (pd (mem s') pgdir (i div 1024)) \<and> q = slot_of (frame_of (pd (mem s') pgdir (i div 1024))) (i mod 1024))"
proof -
  have nz: "slot_of (frame_of (pd (mem s') pgdir (i div 1024))) (i mod 1024) \<noteq> 0"
    if "space c s' pgdir l'" "present (pd (mem s') pgdir (i div 1024))" for s' :: "'a kmem_scheme" and l'
    using that page_split [OF i] slot_nonzero by (auto simp: space_def)
  show ?thesis
  proof (cases "present (pd (mem s) pgdir (i div 1024))")
    case True
    then show ?thesis using walk_present [OF sp i True, of True] nz [OF sp True] sp
      by (intro exI [of _ "slot_of (frame_of (pd (mem s) pgdir (i div 1024))) (i mod 1024)"] exI [of _ s] exI [of _ l])
        (simp add: grows_def)
  next
    case False
    show ?thesis
    proof (cases l)
      case Nil
      then obtain s' where w: "walkpgdir pgdir (of_nat (i * 4096)) True s = ret (0, s')" "space c s' pgdir []" "kend s' = kend s" "mem s' = mem s"
        using walk_exhausted [OF _ i False] sp by blast
      then have "grows c s pgdir l s' []" using Nil by (simp add: grows_def)
      then show ?thesis using w by (intro exI [of _ 0] exI [of _ s'] exI [of _ "[]"]) simp
    next
      case (Cons p l1)
      obtain s' where w: "walkpgdir pgdir (of_nat (i * 4096)) True s = ret (slot_of (frame_of (pd (mem s') pgdir (i div 1024))) (i mod 1024), s')"
        "space c s' pgdir l1" "present (pd (mem s') pgdir (i div 1024))" "kend s' = kend s"
        "table_pages (mem s') pgdir = insert p (table_pages (mem s) pgdir)" "touches {pgdir, p} (mem s) (mem s')"
        "\<forall>j<2 ^ 20. page_entry (mem s') pgdir j = page_entry (mem s) pgdir j"
        using walk_alloc [OF sp [unfolded Cons] i False] by blast
      have "grows c s pgdir l s' l1"
        unfolding grows_def
      proof (intro conjI)
        show "touches (insert pgdir (table_pages (mem s') pgdir)) (mem s) (mem s')"
          using w(5) by (intro touches_mono [OF w(6)]) auto
      qed (use w Cons in \<open>auto intro!: exI [of _ "[p]"]\<close>)
      then show ?thesis using w nz [OF w(2,3)] by blast
    qed
  qed
qed

text \<open>The entry that \<open>mappages\<close> writes.\<close>

definition entry_for :: "u32 \<Rightarrow> u32 \<Rightarrow> nat \<Rightarrow> u32" where
  "entry_for pa perm k = (pa + of_nat (k * 4096)) OR perm OR PTE_P"

lemma map_step:
  assumes sp: "space c s pgdir l" and i: "i < 2 ^ 20" and un: "\<not> present (page_entry (mem s) pgdir i)"
  shows "\<exists>s' l'. grows c s pgdir l s' l' \<and>
    (mappages_loop pgdir (of_nat (i * 4096)) lst pa perm s = ret (-1, s') \<and> l' = [] \<and>
       (\<forall>j<2 ^ 20. page_entry (mem s') pgdir j = page_entry (mem s) pgdir j) \<or>
     mappages_loop pgdir (of_nat (i * 4096)) lst pa perm s =
       (if of_nat (i * 4096) = lst then ret (0, s') else mappages_loop pgdir (of_nat (i * 4096) + PGSIZE) lst (pa + PGSIZE) perm s') \<and>
       (\<forall>j<2 ^ 20. page_entry (mem s') pgdir j = (if j = i then entry_for pa perm 0 else page_entry (mem s) pgdir j)))"
proof -
  obtain q s1 l1 where w: "walkpgdir pgdir (of_nat (i * 4096)) True s = ret (q, s1)" "grows c s pgdir l s1 l1"
    "\<And>j. j < 2 ^ 20 \<Longrightarrow> page_entry (mem s1) pgdir j = page_entry (mem s) pgdir j"
    "q = 0 \<and> l1 = [] \<or> q \<noteq> 0 \<and> present (pd (mem s1) pgdir (i div 1024)) \<and>
      q = slot_of (frame_of (pd (mem s1) pgdir (i div 1024))) (i mod 1024)"
    using walk_any [OF sp i] by blast
  from w(4) show ?thesis
  proof (elim disjE conjE)
    assume q: "q = 0" "l1 = []"
    then have "mappages_loop pgdir (of_nat (i * 4096)) lst pa perm s = ret (-1, s1)"
      using w(1) by (subst mappages_loop.simps) (simp del: of_nat_mult)
    then show ?thesis using w(2,3) q by (intro exI [of _ s1] exI [of _ l1]) simp
  next
    assume q: "q \<noteq> 0" "present (pd (mem s1) pgdir (i div 1024))" "q = slot_of (frame_of (pd (mem s1) pgdir (i div 1024))) (i mod 1024)"
    have sp1: "space c s1 pgdir l1" using w(2) by (simp add: grows_def)
    define m where "m = write32 (mem s1) q ((pa OR perm OR PTE_P))"
    note se = set_entry [OF sp1 i q(2), where v = "pa OR perm OR PTE_P", folded q(3) m_def]
    have g: "grows c s1 pgdir l1 (s1\<lparr>mem := m\<rparr>) l1"
      using se(1,3) touches_mono [OF se(2), of "insert pgdir (table_pages (mem s1) pgdir)"] by (auto simp: grows_def)
    have "page_entry (mem s1) pgdir i = read32 (mem s1) q" using q(2,3) by (simp add: page_entry_def)
    then have "read32 (mem s1) q AND PTE_P = 0" using un w(3) [OF i] by (simp add: present_def)
    then have "mappages_loop pgdir (of_nat (i * 4096)) lst pa perm s =
       (if of_nat (i * 4096) = lst then ret (0, s1\<lparr>mem := m\<rparr>)
        else mappages_loop pgdir (of_nat (i * 4096) + PGSIZE) lst (pa + PGSIZE) perm (s1\<lparr>mem := m\<rparr>))"
      using w(1) q(1) by (subst mappages_loop.simps) (simp add: m_def Let_def del: of_nat_mult)
    then show ?thesis using grows_trans [OF w(2) g] se(4) w(3)
      by (intro exI [of _ "s1\<lparr>mem := m\<rparr>"] exI [of _ l1]) (simp add: entry_for_def)
  qed
qed

text \<open>
  The result of mapping the pages from \<open>i\<close> to \<open>i + n\<close>: the other entries are the old ones, and either all
  pages are mapped or the memory is exhausted.
\<close>

definition maps_to :: "'a kmem_scheme \<Rightarrow> u32 \<Rightarrow> nat \<Rightarrow> nat \<Rightarrow> u32 \<Rightarrow> u32 \<Rightarrow> int \<Rightarrow> 'a kmem_scheme \<Rightarrow> u32 list \<Rightarrow> bool" where
  "maps_to s pgdir i n pa perm r s' l' \<longleftrightarrow>
     (\<forall>j<2 ^ 20. j < i \<or> i + n < j \<longrightarrow> page_entry (mem s') pgdir j = page_entry (mem s) pgdir j) \<and>
     (r = 0 \<and> (\<forall>k\<le>n. page_entry (mem s') pgdir (i + k) = entry_for pa perm k) \<or> r = -1 \<and> l' = [])"

lemma entry_for_Suc: "entry_for (pa + PGSIZE) perm k = entry_for pa perm (Suc k)"
  by (simp add: entry_for_def PGSIZE_def add.assoc)

lemma mappages_loop_ok:
  assumes "space c s pgdir l" "i + n < 2 ^ 20" "\<And>k. k \<le> n \<Longrightarrow> \<not> present (page_entry (mem s) pgdir (i + k))"
  shows "\<exists>r s' l'. mappages_loop pgdir (of_nat (i * 4096)) (of_nat ((i + n) * 4096)) pa perm s = ret (r, s') \<and>
    grows c s pgdir l s' l' \<and> maps_to s pgdir i n pa perm r s' l'"
  using assms
proof (induction n arbitrary: i s l pa)
  case 0
  have "i < 2 ^ 20" "\<not> present (page_entry (mem s) pgdir i)" using "0.prems"(2,3) by auto
  from map_step [OF "0.prems"(1) this, of "of_nat (i * 4096)" pa perm, unfolded simp_thms if_True]
  obtain s' l' where "grows c s pgdir l s' l'"
    "mappages_loop pgdir (of_nat (i * 4096)) (of_nat (i * 4096)) pa perm s = ret (-1, s') \<and> l' = [] \<and>
       (\<forall>j<2 ^ 20. page_entry (mem s') pgdir j = page_entry (mem s) pgdir j) \<or>
     mappages_loop pgdir (of_nat (i * 4096)) (of_nat (i * 4096)) pa perm s = ret (0, s') \<and>
       (\<forall>j<2 ^ 20. page_entry (mem s') pgdir j = (if j = i then entry_for pa perm 0 else page_entry (mem s) pgdir j))"
    by blast
  then show ?case using "0.prems"(2) by (auto simp: maps_to_def simp del: of_nat_mult)
next
  case (Suc n)
  let ?lst = "of_nat ((i + Suc n) * 4096) :: u32"
  have i: "i < 2 ^ 20" "\<not> present (page_entry (mem s) pgdir i)" using Suc.prems(2) Suc.prems(3) [of 0] by auto
  have u: "unat (of_nat (i * 4096) :: u32) = i * 4096" "unat ?lst = (i + Suc n) * 4096"
    using page_number(3) [OF i(1)] page_number(3) [OF Suc.prems(2)] by simp_all
  have ne: "of_nat (i * 4096) \<noteq> ?lst"
  proof
    assume "of_nat (i * 4096) = ?lst"
    then have "unat (of_nat (i * 4096) :: u32) = unat ?lst" by (rule arg_cong)
    then show False unfolding u by simp
  qed
  have nx: "of_nat (i * 4096) + PGSIZE = (of_nat (Suc i * 4096) :: u32)" "?lst = of_nat ((Suc i + n) * 4096)"
    by (simp_all add: PGSIZE_def add.commute)
  from map_step [OF Suc.prems(1) i, of ?lst pa perm, unfolded if_not_P [OF ne] nx(1)] obtain s1 l1 where g: "grows c s pgdir l s1 l1"
    and cs: "mappages_loop pgdir (of_nat (i * 4096)) ?lst pa perm s = ret (-1, s1) \<and> l1 = [] \<and>
       (\<forall>j<2 ^ 20. page_entry (mem s1) pgdir j = page_entry (mem s) pgdir j) \<or>
     mappages_loop pgdir (of_nat (i * 4096)) ?lst pa perm s = mappages_loop pgdir (of_nat (Suc i * 4096)) ?lst (pa + PGSIZE) perm s1 \<and>
       (\<forall>j<2 ^ 20. page_entry (mem s1) pgdir j = (if j = i then entry_for pa perm 0 else page_entry (mem s) pgdir j))"
    by blast
  from cs show ?case
  proof (elim disjE conjE)
    assume "mappages_loop pgdir (of_nat (i * 4096)) ?lst pa perm s = ret (-1, s1)" "l1 = []"
      "\<forall>j<2 ^ 20. page_entry (mem s1) pgdir j = page_entry (mem s) pgdir j"
    then show ?thesis using g by (intro exI [of _ "-1"] exI [of _ s1] exI [of _ l1]) (simp add: maps_to_def del: of_nat_mult)
  next
    assume m: "mappages_loop pgdir (of_nat (i * 4096)) ?lst pa perm s = mappages_loop pgdir (of_nat (Suc i * 4096)) ?lst (pa + PGSIZE) perm s1"
      and e: "\<forall>j<2 ^ 20. page_entry (mem s1) pgdir j = (if j = i then entry_for pa perm 0 else page_entry (mem s) pgdir j)"
    have hy: "Suc i + n < 2 ^ 20" "\<And>k. k \<le> n \<Longrightarrow> \<not> present (page_entry (mem s1) pgdir (Suc i + k))"
      using Suc.prems(2) Suc.prems(3) [of "Suc k" for k] e by simp_all
    have "space c s1 pgdir l1" using g by (simp add: grows_def)
    then obtain r s' l' where r: "mappages_loop pgdir (of_nat (Suc i * 4096)) ?lst (pa + PGSIZE) perm s1 = ret (r, s')"
      "grows c s1 pgdir l1 s' l'" "maps_to s1 pgdir (Suc i) n (pa + PGSIZE) perm r s' l'"
      unfolding nx(2) using Suc.IH [OF _ hy] by blast
    have "maps_to s pgdir i (Suc n) pa perm r s' l'"
      unfolding maps_to_def
    proof (intro conjI allI impI)
      fix j :: nat assume "j < 2 ^ 20" "j < i \<or> i + Suc n < j"
      then show "page_entry (mem s') pgdir j = page_entry (mem s) pgdir j" using r(3) e by (auto simp: maps_to_def)
    next
      have "page_entry (mem s') pgdir (i + k) = entry_for pa perm k"
        if "\<forall>k\<le>n. page_entry (mem s') pgdir (Suc i + k) = entry_for (pa + PGSIZE) perm k" "k \<le> Suc n" for k
        using that r(3) e i(1) by (cases k) (auto simp: maps_to_def entry_for_Suc)
      then show "r = 0 \<and> (\<forall>k\<le>Suc n. page_entry (mem s') pgdir (i + k) = entry_for pa perm k) \<or> r = -1 \<and> l' = []"
        using r(3) by (auto simp: maps_to_def)
    qed
    then show ?thesis using m r(1) grows_trans [OF g r(2)] by (intro exI [of _ r] exI [of _ s'] exI [of _ l']) simp
  qed
qed

lemma pgrounddown: "PGROUNDDOWN a = of_nat (unat a div 4096 * 4096)"
proof -
  have "of_nat (unat (PGROUNDDOWN a)) = PGROUNDDOWN a" by simp
  then show ?thesis unfolding PGROUNDDOWN_def clear_low_bits by simp
qed

lemma mappages_ok:
  assumes "space c s pgdir l" "0 < len" "unat va + unat len \<le> 2 ^ 32"
    and "i = unat va div 4096" "i + n = (unat va + unat len - 1) div 4096"
    and "\<forall>k\<le>n. \<not> present (page_entry (mem s) pgdir (i + k))"
  shows "\<exists>r s' l'. mappages pgdir va len pa perm s = ret (r, s') \<and> grows c s pgdir l s' l' \<and> maps_to s pgdir i n pa perm r s' l'"
proof -
  have "0 < unat len" using assms(2) by (simp add: word_less_nat_alt)
  then have u: "unat (va + len - 1) = unat va + unat len - 1"
    using assms(3) unat_add_nat [of va "unat len - 1"] by (simp add: of_nat_diff algebra_simps)
  have "unat va + unat len - 1 < 2 ^ 32" using \<open>0 < unat len\<close> assms(3) by linarith
  then have "(unat va + unat len - 1) div 4096 < 2 ^ 20" by (simp add: less_mult_imp_div_less)
  then have "i + n < 2 ^ 20" using assms(5) by simp
  moreover have "PGROUNDDOWN va = of_nat (i * 4096)" "PGROUNDDOWN (va + len - 1) = of_nat ((i + n) * 4096)"
    unfolding pgrounddown u assms(4,5) [symmetric] by simp_all
  ultimately show ?thesis
    unfolding mappages_def using mappages_loop_ok [OF assms(1), of i n pa perm] assms(6) by simp
qed

section \<open>A concrete address space\<close>

text \<open>Free pages linked into a list.\<close>

fun link_pages :: "(u32 \<Rightarrow> u8) \<Rightarrow> u32 list \<Rightarrow> (u32 \<Rightarrow> u8)" where
  "link_pages m [] = m"
| "link_pages m (p # ps) = write32 (link_pages m ps) p (case ps of [] \<Rightarrow> 0 | q # _ \<Rightarrow> q)"

lemma link_touches: "\<forall>p\<in>set l. aligned p \<Longrightarrow> touches (set l) m (link_pages m l)"
proof (induction l)
  case (Cons p l)
  have "touches {p} (link_pages m l) (link_pages m (p # l))"
    using write_touches [of p 0 "link_pages m l"] Cons.prems by (simp add: slot_of_def)
  then show ?case using Cons by (auto intro: touches_trans touches_mono)
qed simp

lemma link_chain:
  "\<forall>p\<in>set l. aligned p \<and> p \<noteq> 0 \<Longrightarrow> distinct l \<Longrightarrow> chain (link_pages m l) (case l of [] \<Rightarrow> 0 | p # _ \<Rightarrow> p) l"
proof (induction l)
  case (Cons p l)
  have t: "touches {p} (link_pages m l) (link_pages m (p # l))"
    using write_touches [of p 0 "link_pages m l"] Cons.prems by (simp add: slot_of_def)
  have "read32 (link_pages m (p # l)) q = read32 (link_pages m l) q" if "q \<in> set l" for q
  proof -
    have "same_page (link_pages m l) (link_pages m (p # l)) q" using t that Cons.prems by (auto simp: touches_def)
    from same_page_word [OF this, of 0] show ?thesis by (simp add: slot_of_def)
  qed
  from chain_cong [OF this] show ?case using Cons by simp
qed simp

text \<open>
  A machine with 1100 free pages from \<open>0x80200000\<close> on and an address space whose first page is mapped: its
  directory, its table and its page lie between the kernel and the free pages.
\<close>

definition free_pages :: "u32 list" where
  "free_pages = map (\<lambda>i. of_nat ((0x80200 + i) * 4096)) [0..<1100]"

definition small_space :: vms where
  "small_space = \<lparr>mem = write32 (write32 (link_pages (\<lambda>_. 0) free_pages) (slot_of 0x80110000 0) 0x111007) (slot_of 0x80111000 0) 0x112007,
     console = [], fl_if = True, lapicid = 0, ncpu = 1,
     cpus = (\<lambda>_. \<lparr>apicid = 0, started = 1, ncli = 0, intena = False, cpu_proc = None\<rparr>),
     locks = (\<lambda>_. \<lparr>locked = 0, lk_name = [], lk_cpu = None\<rparr>),
     use_lock = 1, freelist = 0x80200000, kend = 0x80100000, gdt = (\<lambda>_ _. SEG 0 0 0 0),
     tss = (\<lambda>_. \<lparr>ts_esp0 = 0, ts_ss0 = 0, ts_iomb = 0\<rparr>), tss_addr = (\<lambda>_. 0), kdata = 0x80108000, kpgdir = 0, cr3 = 0,
     gdtr = None, task_register = 0\<rparr>"

lemma free_pages_ok:
  "distinct free_pages" "length free_pages = 1100" "\<And>p. p \<in> set free_pages \<Longrightarrow> page_ok 0x80100000 p \<and> 0x80200000 \<le> p"
proof -
  have u: "unat (of_nat ((0x80200 + i) * 4096) :: u32) = (0x80200 + i) * 4096" if "i < 1100" for i
    using that page_number(3) [of "0x80200 + i"] by simp
  show "length free_pages = 1100" by (simp add: free_pages_def)
  have "inj_on (\<lambda>i. of_nat ((0x80200 + i) * 4096) :: u32) {..<1100}"
  proof (rule inj_onI)
    fix i j :: nat assume a: "i \<in> {..<1100}" "j \<in> {..<1100}" "of_nat ((0x80200 + i) * 4096) = (of_nat ((0x80200 + j) * 4096) :: u32)"
    from arg_cong [OF a(3), of unat] show "i = j" unfolding u [OF a(1) [unfolded lessThan_iff]] u [OF a(2) [unfolded lessThan_iff]] by simp
  qed
  then show "distinct free_pages" by (simp only: free_pages_def distinct_map distinct_upt set_upt lessThan_atLeast0 simp_thms)
  fix p assume "p \<in> set free_pages"
  then obtain i where i: "i < 1100" "p = of_nat ((0x80200 + i) * 4096)" unfolding free_pages_def by force
  then have "unat p = (0x80200 + i) * 4096" using u by blast
  then show "page_ok 0x80100000 p \<and> 0x80200000 \<le> p" using i(1)
    by (simp add: page_ok_def PGSIZE_def KERNBASE_def PHYSTOP_def word_le_nat_alt word_less_nat_alt unat_sub_if' unat_mod flip: unat_eq_0)
qed

lemma not_free: "0x80110000 \<notin> set free_pages" "0x80111000 \<notin> set free_pages" "0x80112000 \<notin> set free_pages"
  using free_pages_ok(3) [of "0x80110000"] free_pages_ok(3) [of "0x80111000"] free_pages_ok(3) [of "0x80112000"] by auto

text \<open>The entries of the address space: page 0 is mapped, no other page is.\<close>

lemma small_space_words:
  "e < 1024 \<Longrightarrow> pd (mem small_space) 0x80110000 e = (if e = 0 then 0x111007 else 0)"
  "e < 1024 \<Longrightarrow> read32 (mem small_space) (slot_of 0x80111000 e) = (if e = 0 then 0x112007 else 0)"
proof -
  define m0 where "m0 = link_pages (\<lambda>_. 0) free_pages"
  define m1 where "m1 = write32 m0 (slot_of 0x80110000 0) 0x111007"
  have m: "mem small_space = write32 m1 (slot_of 0x80111000 0) 0x112007" by (simp add: small_space_def m1_def m0_def)
  have al: "aligned 0x80110000" "aligned 0x80111000" by (simp_all add: aligned_def PGSIZE_def)
  note nf = not_free
  have "touches (set free_pages) (\<lambda>_. 0) m0"
    unfolding m0_def using free_pages_ok(3) page_ok_aligned by (intro link_touches) blast
  then have z: "same_page (\<lambda>_. 0) m0 0x80110000" "same_page (\<lambda>_. 0) m0 0x80111000" using al nf by (simp_all add: touches_def)
  have r0: "read32 (\<lambda>_. 0) a = 0" for a by (simp add: read32_def)
  have "touches {0x80111000} m1 (mem small_space)" unfolding m by (rule write_touches [OF al(2)]) simp
  then have d: "same_page m1 (mem small_space) 0x80110000" using al by (simp add: touches_def)
  have "touches {0x80110000} m0 m1" unfolding m1_def by (rule write_touches [OF al(1)]) simp
  then have t: "same_page m0 m1 0x80111000" using al by (simp add: touches_def)
  show "pd (mem small_space) 0x80110000 e = (if e = 0 then 0x111007 else 0)" if "e < 1024"
    using pd_frame [OF d that] read_write_slot [OF al(1) _ that, of 0 m0 "0x111007"] same_page_word [OF z(1) that] r0
    by (simp add: pd_def m1_def)
  show "read32 (mem small_space) (slot_of 0x80111000 e) = (if e = 0 then 0x112007 else 0)" if "e < 1024"
    using read_write_slot [OF al(2) _ that, of 0 m1 "0x112007"] same_page_word [OF t that] same_page_word [OF z(2) that] r0
    by (simp add: m)
qed

lemma small_space_ok:
  "space 0 small_space 0x80110000 free_pages"
  "j < 2 ^ 20 \<Longrightarrow> page_entry (mem small_space) 0x80110000 j = (if j = 0 then 0x112007 else 0)"
proof -
  define m0 where "m0 = link_pages (\<lambda>_. 0) free_pages"
  have fp: "\<forall>p\<in>set free_pages. aligned p \<and> p \<noteq> 0" using free_pages_ok(3) page_ok_aligned page_ok_nonzero by blast
  have hd: "(case free_pages of [] \<Rightarrow> 0 | p # _ \<Rightarrow> p) = 0x80200000"
  proof -
    have "[0..<1100] = 0 # [Suc 0..<1100]" by (rule upt_conv_Cons) simp
    then show ?thesis unfolding free_pages_def by (simp only: list.map list.case add_0_right) simp
  qed
  have "chain m0 0x80200000 free_pages"
    using link_chain [OF fp free_pages_ok(1), of "\<lambda>_. 0"] unfolding m0_def hd .
  then have k0: "kmem_ok 0 (small_space\<lparr>mem := m0\<rparr>) free_pages"
    using free_pages_ok(1,3) by (simp add: kmem_ok_def kmem_lock_def free_lock_def on_cpu_def cpu_index_def small_space_def)
  have al: "aligned 0x80110000" "aligned 0x80111000" by (simp_all add: aligned_def PGSIZE_def)
  note nf = not_free
  have t: "touches {0x80110000, 0x80111000} m0 (mem small_space)"
  proof (rule touches_trans)
    show "touches {0x80110000, 0x80111000} m0 (write32 m0 (slot_of 0x80110000 0) 0x111007)"
      by (rule touches_mono [OF write_touches [OF al(1)]]) simp_all
    show "touches {0x80110000, 0x80111000} (write32 m0 (slot_of 0x80110000 0) 0x111007) (mem small_space)"
      unfolding small_space_def vms.select_convs m0_def [symmetric] kmem.select_convs machine.select_convs
      by (rule touches_mono [OF write_touches [OF al(2)]]) simp_all
  qed
  have "kmem_ok 0 ((small_space\<lparr>mem := m0\<rparr>)\<lparr>mem := mem small_space\<rparr>) free_pages"
    by (rule kmem_ok_mem [OF k0, of "{0x80110000, 0x80111000}"]) (use t nf in simp_all)
  then have km: "kmem_ok 0 small_space free_pages" by simp
  have f: "present 0x111007" "frame_of 0x111007 = 0x80111000" "\<not> present 0"
    by (simp_all add: present_def PTE_P_def frame_of_def PTE_ADDR_def KERNBASE_def)
  have pk: "page_ok (kend small_space) 0x80110000" "page_ok (kend small_space) 0x80111000"
    by (simp_all add: page_ok_def small_space_def PGSIZE_def KERNBASE_def PHYSTOP_def)
  show "space 0 small_space 0x80110000 free_pages"
    using km pk nf f small_space_words(1) unfolding space_def by simp
  show "page_entry (mem small_space) 0x80110000 j = (if j = 0 then 0x112007 else 0)" if "j < 2 ^ 20"
    using page_split [OF that] small_space_words f div_mult_mod_eq [of j 1024] by (auto simp: page_entry_def Let_def)
qed

section \<open>The property\<close>

text \<open>
  C12: let the pages that \<open>len\<close> bytes from \<open>va\<close> on touch have the numbers \<open>i\<close> to \<open>i + n\<close>, none of them mapped. Then
  \<open>mappages\<close> returns. If it returns 0, each of these pages maps to the physical address that belongs to it, with
  the permissions given; it returns -1 only when no page of memory is left. All other mappings stay as they
  are, pages that become page tables come from the free list, and no page outside the page tables changes.
\<close>

theorem mappages_maps:
  assumes "space c s pgdir l" "0 < len" "unat va + unat len \<le> 2 ^ 32"
    and "i = unat va div 4096" "i + n = (unat va + unat len - 1) div 4096"
    and "\<forall>k\<le>n. \<not> present (page_entry (mem s) pgdir (i + k))"
  shows "\<exists>r s' l'. mappages pgdir va len pa perm s = ret (r, s') \<and> grows c s pgdir l s' l' \<and> maps_to s pgdir i n pa perm r s' l'"
  using assms by (rule mappages_ok)

theorem mappages_maps_witness:
  "\<exists>r s' l'. mappages 0x80110000 0x5000 0x2000 0x300000 PTE_W small_space = ret (r, s') \<and>
    grows 0 small_space 0x80110000 free_pages s' l' \<and> maps_to small_space 0x80110000 5 1 0x300000 PTE_W r s' l'"
proof (rule mappages_maps [OF small_space_ok(1)])
  have "\<not> present 0" by (simp add: present_def)
  then show "\<forall>k\<le>1. \<not> present (page_entry (mem small_space) 0x80110000 (5 + k))" by (simp add: small_space_ok(2))
qed simp_all

end
