(* ===== verification/VmCopy.thy ===== *)
theory VmCopy
  imports VmProps
begin

unbundle bit_operations_syntax

text \<open>
  The address space that \<open>fork\<close> gives to the child: \<open>setupkvm\<close> builds the kernel part, \<open>copyuvm\<close> copies the
  pages of the parent. The copy has the contents and the permissions of the original, on pages of its own.
\<close>

section \<open>Counting pages\<close>

lemma tables_finite: "finite (table_pages m pgdir)" "card (table_pages m pgdir) \<le> 1024"
proof -
  have s: "table_pages m pgdir \<subseteq> (\<lambda>d. frame_of (pd m pgdir d)) ` {..<1024}" by (auto simp: table_pages_def)
  then show "finite (table_pages m pgdir)" by (rule finite_subset) simp
  have "card (table_pages m pgdir) \<le> card ((\<lambda>d. frame_of (pd m pgdir d)) ` {..<1024})" using s by (intro card_mono) simp_all
  also have "\<dots> \<le> 1024" using card_image_le [of "{..<1024 :: nat}"] by simp
  finally show "card (table_pages m pgdir) \<le> 1024" .
qed

lemma grows_count:
  assumes "space c s pgdir l" "grows c s pgdir l s' l'"
  shows "length l' + card (table_pages (mem s') pgdir) = length l + card (table_pages (mem s) pgdir)"
    and "set l' \<subseteq> set l" "table_pages (mem s') pgdir \<subseteq> table_pages (mem s) pgdir \<union> set l"
proof -
  obtain u where u: "l = u @ l'" "table_pages (mem s') pgdir = table_pages (mem s) pgdir \<union> set u"
    using assms(2) unfolding grows_def by blast
  have "distinct u" "table_pages (mem s) pgdir \<inter> set u = {}"
    using assms(1) u(1) table_page [OF assms(1)] by (auto simp: space_def kmem_ok_def)
  then show "length l' + card (table_pages (mem s') pgdir) = length l + card (table_pages (mem s) pgdir)"
    using u tables_finite(1) by (simp add: card_Un_disjoint distinct_card)
  show "set l' \<subseteq> set l" "table_pages (mem s') pgdir \<subseteq> table_pages (mem s) pgdir \<union> set l" using u by auto
qed

section \<open>The kernel part\<close>

text \<open>The pages of a segment of \<open>kmap\<close>.\<close>

definition seg_ok :: "u32 \<times> u32 \<times> u32 \<times> u32 \<Rightarrow> bool" where
  "seg_ok = (\<lambda>(virt, ps, pe, perm). 0 < pe - ps \<and> unat virt + unat (pe - ps) \<le> 2 ^ 32)"

definition seg_pages :: "u32 \<times> u32 \<times> u32 \<times> u32 \<Rightarrow> nat set" where
  "seg_pages = (\<lambda>(virt, ps, pe, perm). {unat virt div 4096 .. (unat virt + unat (pe - ps) - 1) div 4096})"

fun disjoint_segs :: "(u32 \<times> u32 \<times> u32 \<times> u32) list \<Rightarrow> bool" where
  "disjoint_segs [] \<longleftrightarrow> True"
| "disjoint_segs (k # ks) \<longleftrightarrow> (\<forall>k'\<in>set ks. seg_pages k \<inter> seg_pages k' = {}) \<and> disjoint_segs ks"

lemma map_kernel_ok:
  assumes "space c s d l" "\<forall>k\<in>set ks. seg_ok k" "disjoint_segs ks"
    "\<forall>k\<in>set ks. \<forall>j\<in>seg_pages k. \<not> present (page_entry (mem s) d j)"
    "1024 < length l + card (table_pages (mem s) d)"
  shows "\<exists>s' l'. map_kernel d ks s = ret (d, s') \<and> grows c s d l s' l' \<and>
    (\<forall>j<2 ^ 20. j \<notin> \<Union> (seg_pages ` set ks) \<longrightarrow> page_entry (mem s') d j = page_entry (mem s) d j)"
  using assms
proof (induction ks arbitrary: s l)
  case Nil
  then show ?case by (auto simp: grows_def)
next
  case (Cons k ks)
  obtain virt ps pe perm where k: "k = (virt, ps, pe, perm)" by (cases k)
  define i where "i = unat virt div 4096"
  define n where "n = (unat virt + unat (pe - ps) - 1) div 4096 - i"
  have ok: "0 < pe - ps" "unat virt + unat (pe - ps) \<le> 2 ^ 32" using Cons.prems(2) k by (auto simp: seg_ok_def)
  then have "i \<le> (unat virt + unat (pe - ps) - 1) div 4096"
    unfolding i_def by (intro div_le_mono) (simp add: word_less_nat_alt)
  then have n: "i + n = (unat virt + unat (pe - ps) - 1) div 4096" by (simp add: n_def)
  have pg: "seg_pages k = {i .. i + n}" unfolding n by (simp add: seg_pages_def k i_def)
  then have un: "\<forall>j\<le>n. \<not> present (page_entry (mem s) d (i + j))" using Cons.prems(4) by auto
  obtain r s1 l1 where m: "mappages d virt (pe - ps) ps perm s = ret (r, s1)" "grows c s d l s1 l1" "maps_to s d i n ps perm r s1 l1"
    using mappages_ok [OF Cons.prems(1) ok i_def n un] by blast
  have c1: "length l1 + card (table_pages (mem s1) d) = length l + card (table_pages (mem s) d)"
    by (rule grows_count(1) [OF Cons.prems(1) m(2)])
  then have "l1 \<noteq> []" using Cons.prems(5) tables_finite(2) [of "mem s1" d] by auto
  then have r: "r = 0" using m(3) by (auto simp: maps_to_def)
  have e: "page_entry (mem s1) d j = page_entry (mem s) d j" if "j < 2 ^ 20" "j \<notin> seg_pages k" for j
    using that m(3) pg by (auto simp: maps_to_def)
  have "i' < 2 ^ 20" if "k' \<in> set ks" "i' \<in> seg_pages k'" for k' i'
  proof -
    obtain a b b' p where k': "k' = (a, b, b', p)" by (cases k')
    have "0 < unat (b' - b)" "unat a + unat (b' - b) \<le> 2 ^ 32"
      using Cons.prems(2) that(1) by (auto simp: seg_ok_def k' word_less_nat_alt)
    then have "unat a + unat (b' - b) - 1 < 2 ^ 32" by linarith
    then show ?thesis using that(2) div_le_mono by (auto simp: seg_pages_def k' less_mult_imp_div_less intro: le_less_trans)
  qed
  then have "\<forall>k'\<in>set ks. \<forall>j\<in>seg_pages k'. \<not> present (page_entry (mem s1) d j)"
    using e Cons.prems(3,4) by (metis disjoint_iff disjoint_segs.simps(2) list.set_intros(2))
  then obtain s' l' where "map_kernel d ks s1 = ret (d, s')" "grows c s1 d l1 s' l'"
    "\<forall>j<2 ^ 20. j \<notin> \<Union> (seg_pages ` set ks) \<longrightarrow> page_entry (mem s') d j = page_entry (mem s1) d j"
    using Cons.IH [of s1 l1] m(2) Cons.prems(2,3,5) c1 by (auto simp: grows_def)
  then show ?case using m(1) r k e grows_trans [OF m(2)] by (intro exI [of _ s'] exI [of _ l']) auto
qed

text \<open>What the linker script gives: the data of the kernel starts on a page behind the start of its text.\<close>

definition kernel_link :: "'a vms_scheme \<Rightarrow> bool" where
  "kernel_link s \<longleftrightarrow> aligned (kdata s) \<and> KERNLINK < kdata s \<and> kdata s < KERNBASE + PHYSTOP"

lemma kmap_segs:
  assumes "kernel_link s"
  shows "\<forall>k\<in>set (kmap s). seg_ok k" "disjoint_segs (kmap s)" "\<forall>k\<in>set (kmap s). \<forall>j\<in>seg_pages k. 2 ^ 19 \<le> j \<and> j < 2 ^ 20"
proof -
  have "unat (kdata s) mod 4096 = 0" using assms by (simp add: kernel_link_def aligned_def PGSIZE_def unat_mod flip: unat_eq_0)
  then obtain b where b: "unat (kdata s) = 4096 * b" by (auto elim!: dvdE simp: mod_eq_0_iff_dvd)
  have r: "0x80100 < b" "b < 0x8E000"
    using assms b by (simp_all add: kernel_link_def KERNLINK_def KERNBASE_def EXTMEM_def PHYSTOP_def word_less_nat_alt)
  have k: "kmap s = [(0x80000000, 0, 0x100000, PTE_W), (0x80100000, 0x100000, kdata s - 0x80000000, 0),
      (kdata s, kdata s - 0x80000000, 0xE000000, PTE_W), (0xFE000000, 0xFE000000, 0, PTE_W)]"
    by (simp add: kmap_def KERNBASE_def KERNLINK_def EXTMEM_def PHYSTOP_def DEVSPACE_def)
  have u: "unat (kdata s - 0x80100000) = 4096 * b - 0x80100000" "unat (0x8E000000 - kdata s) = 0x8E000000 - 4096 * b"
    using b r by (simp_all add: unat_sub_if')
  have e: "0x800FFFFF + (4096 * b - 0x80100000) = 4096 * b - 1" "4096 * b + (0x8E000000 - 4096 * b) - Suc 0 = 0x8DFFFFFF"
    using r by simp_all
  have d: "(4096 * b - 1) div 4096 = b - 1" using r(1) by (intro div_nat_eqI) auto
  have p: "seg_pages (0x80000000, 0, 0x100000, PTE_W) = {0x80000..0x800FF}"
    "seg_pages (0x80100000, 0x100000, kdata s - 0x80000000, 0) = {0x80100..b - 1}"
    "seg_pages (kdata s, kdata s - 0x80000000, 0xE000000, PTE_W) = {b..0x8DFFF}"
    "seg_pages (0xFE000000, 0xFE000000, 0, PTE_W) = {0xFE000..0xFFFFF}"
    using r b d e unfolding seg_pages_def by (simp_all add: u)
  show "\<forall>k\<in>set (kmap s). seg_ok k"
    using r b by (simp add: k seg_ok_def u word_less_nat_alt)
  show "disjoint_segs (kmap s)" using r by (auto simp: k p)
  show "\<forall>k\<in>set (kmap s). \<forall>j\<in>seg_pages k. 2 ^ 19 \<le> j \<and> j < 2 ^ 20" using r by (auto simp: k p)
qed

lemma clear_directory:
  assumes "kmem_ok c s l" "page_ok (kend s) d" "d \<notin> set l"
  defines "s' \<equiv> s\<lparr>mem := memset (mem s) d 0 PGSIZE\<rparr>"
  shows "space c s' d l" "table_pages (mem s') d = {}" "j < 2 ^ 20 \<Longrightarrow> page_entry (mem s') d j = 0"
proof -
  have t: "touches {d} (mem s) (mem s')" unfolding s'_def using memset_touches [OF page_ok_aligned [OF assms(2)]] by simp
  have z: "pd (mem s') d e = 0" if "e < 1024" for e using that by (simp add: pd_def s'_def read_memset)
  have np: "\<not> present 0" by (simp add: present_def)
  have "kmem_ok c s' l" unfolding s'_def using t assms(3) by (intro kmem_ok_mem [OF assms(1)]) (auto simp: s'_def)
  then show "space c s' d l" using z np assms(2,3) by (simp add: space_def s'_def)
  show "table_pages (mem s') d = {}" using z np by (auto simp: table_pages_def)
  show "page_entry (mem s') d j = 0" if "j < 2 ^ 20" using z np page_split [OF that] by (simp add: page_entry_def)
qed

lemma setupkvm_ok:
  assumes km: "kmem_ok c s (d # l)" and kl: "kernel_link s" and sz: "1024 < length l"
  shows "\<exists>s' l'. setupkvm s = ret (d, s') \<and> space c s' d l' \<and> kend s' = kend s \<and> set l' \<subseteq> set l \<and> table_pages (mem s') d \<subseteq> set l \<and>
    length l' + card (table_pages (mem s') d) = length l \<and> touches (insert d (set l)) (mem s) (mem s') \<and>
    (\<forall>j<2 ^ 19. page_entry (mem s') d j = 0)"
proof -
  have pk: "page_ok (kend s) d" "d \<notin> set l" using km by (auto simp: kmem_ok_def)
  obtain s1 where a: "kalloc s = ret (d, s1)" "kmem_ok c s1 l" "mem s1 = mem s" using kmem_ok_kalloc [OF km] by auto
  have ke: "kend s1 = kend s" by (rule kalloc_frame [OF km a(1)])
  have kd: "kdata s1 = kdata s"
  proof -
    have "kmem_lock c s" using km by (simp add: kmem_ok_def)
    from trans [OF a(1) [symmetric] kalloc_eq [OF this]]
    have "s1 = (settled c s)\<lparr>mem := mem s, freelist := (if freelist s \<noteq> 0 then read32 (mem s) (freelist s) else 0)\<rparr>"
      by (simp only: option.inject sum.inject prod.inject)
    then show ?thesis by (simp add: settled_def settle_def)
  qed
  define s2 where "s2 = s1\<lparr>mem := memset (mem s1) d 0 PGSIZE\<rparr>"
  note cl = clear_directory [OF a(2), of d, folded s2_def, unfolded ke, OF pk]
  have kl2: "kernel_link s2" using kl kd by (simp add: kernel_link_def s2_def)
  note ks = kmap_segs [OF kl2]
  have np: "\<not> present 0" by (simp add: present_def)
  have "\<exists>s' l'. map_kernel d (kmap s2) s2 = ret (d, s') \<and> grows c s2 d l s' l' \<and>
    (\<forall>j<2 ^ 20. j \<notin> \<Union> (seg_pages ` set (kmap s2)) \<longrightarrow> page_entry (mem s') d j = page_entry (mem s2) d j)"
    using cl ks(3) np sz by (intro map_kernel_ok [OF _ ks(1,2)]) auto
  then obtain s' l' where m: "map_kernel d (kmap s2) s2 = ret (d, s')" "grows c s2 d l s' l'"
    "\<And>j. j < 2 ^ 20 \<Longrightarrow> j \<notin> \<Union> (seg_pages ` set (kmap s2)) \<Longrightarrow> page_entry (mem s') d j = page_entry (mem s2) d j" by blast
  note gc = grows_count [OF cl(1) m(2)]
  have g: "space c s' d l'" "kend s' = kend s2" "touches (insert d (table_pages (mem s') d)) (mem s2) (mem s')"
    using m(2) by (simp_all add: grows_def)
  have t: "touches (insert d (set l)) (mem s) (mem s')"
  proof (rule touches_trans)
    show "touches (insert d (set l)) (mem s) (mem s2)"
      using touches_mono [OF memset_touches [OF page_ok_aligned [OF pk(1)]], of "insert d (set l)" "mem s" 0] by (simp add: s2_def a(3))
    show "touches (insert d (set l)) (mem s2) (mem s')"
      by (rule touches_mono [OF g(3)]) (use gc(3) cl(2) in auto)
  qed
  have set: "setupkvm s = ret (d, s')"
    using a(1) page_ok_nonzero [OF pk(1)] m(1)
    by (simp add: setupkvm_def Let_def s2_def [symmetric] P2V_def PHYSTOP_def KERNBASE_def DEVSPACE_def)
  have "page_entry (mem s') d j = 0" if "j < 2 ^ 19" for j using that m(3) [of j] ks(3) cl(3) [of j] by force
  moreover have "kend s' = kend s" using g(2) ke by (simp add: s2_def)
  ultimately show ?thesis using set t gc cl(2) g(1) by (intro exI [of _ s'] exI [of _ l']) simp
qed

section \<open>The pages of a process\<close>

text \<open>
  An address space whose first \<open>np\<close> pages are mapped to pages of memory that are not free: the parent. The
  child after \<open>k\<close> pages of the copy: its directory, its tables and its pages were free before, each page has a
  frame of its own with the flags and the contents of the parent's, and no page that was not free has changed.
\<close>

definition parent :: "nat \<Rightarrow> 'a kmem_scheme \<Rightarrow> u32 \<Rightarrow> u32 list \<Rightarrow> nat \<Rightarrow> bool" where
  "parent c s pgdir l np \<longleftrightarrow> space c s pgdir l \<and> np \<le> 2 ^ 19 \<and>
     (\<forall>i<np. present (page_entry (mem s) pgdir i) \<and> page_ok (kend s) (frame_of (page_entry (mem s) pgdir i)) \<and>
       frame_of (page_entry (mem s) pgdir i) \<notin> set l)"

definition copied :: "(u32 \<Rightarrow> u8) \<Rightarrow> u32 \<Rightarrow> (u32 \<Rightarrow> u8) \<Rightarrow> u32 \<Rightarrow> bool" where
  "copied m e m' e' \<longleftrightarrow> present e' \<and> PTE_FLAGS e' = PTE_FLAGS e \<and>
     (\<forall>k<4096. m' (frame_of e' + of_nat k) = m (frame_of e + of_nat k))"

definition child :: "nat \<Rightarrow> 'a kmem_scheme \<Rightarrow> u32 \<Rightarrow> u32 list \<Rightarrow> nat \<Rightarrow> u32 \<Rightarrow> 'a kmem_scheme \<Rightarrow> u32 list \<Rightarrow> bool" where
  "child c s pgdir l k d s' l' \<longleftrightarrow> space c s' d l' \<and> kend s' = kend s \<and> set l' \<subseteq> set l \<and> d \<in> set l \<and>
     table_pages (mem s') d \<subseteq> set l \<and> touches (set l) (mem s) (mem s') \<and>
     length l' + card (table_pages (mem s') d) + k + 1 = length l \<and>
     (\<forall>i. k \<le> i \<and> i < 2 ^ 19 \<longrightarrow> \<not> present (page_entry (mem s') d i)) \<and>
     (\<forall>i<k. copied (mem s) (page_entry (mem s) pgdir i) (mem s') (page_entry (mem s') d i) \<and>
       frame_of (page_entry (mem s') d i) \<in> set l - (set l' \<union> insert d (table_pages (mem s') d))) \<and>
     inj_on (\<lambda>i. frame_of (page_entry (mem s') d i)) {..<k}"

lemma parent_frame:
  assumes p: "parent c s pgdir l np" and t: "touches (set l) (mem s) (mem s')" and km: "kmem_ok c s' l'" "set l' \<subseteq> set l" "kend s' = kend s"
  shows "space c s' pgdir l'" "i < 2 ^ 20 \<Longrightarrow> page_entry (mem s') pgdir i = page_entry (mem s) pgdir i"
    "i < np \<Longrightarrow> same_page (mem s) (mem s') (frame_of (page_entry (mem s) pgdir i))"
proof -
  have sp: "space c s pgdir l" using p by (simp add: parent_def)
  note sp' = sp [unfolded space_def]
  have sd: "same_page (mem s) (mem s') pgdir" using t sp' page_ok_aligned by (auto simp: touches_def)
  have pde: "pd (mem s') pgdir e = pd (mem s) pgdir e" if "e < 1024" for e using sd that by (rule pd_frame)
  show "space c s' pgdir l'" using sp' km pde unfolding space_def by auto
  have tp: "same_page (mem s) (mem s') (frame_of (pd (mem s) pgdir e))" if "e < 1024" "present (pd (mem s) pgdir e)" for e
    using t sp' that page_ok_aligned by (auto simp: touches_def)
  show "page_entry (mem s') pgdir i = page_entry (mem s) pgdir i" if "i < 2 ^ 20"
    using tp page_split [OF that] by (intro entry_frame [OF sd that]) auto
  show "same_page (mem s) (mem s') (frame_of (page_entry (mem s) pgdir i))" if "i < np"
    using p t that page_ok_aligned by (auto simp: parent_def touches_def)
qed

text \<open>The copy of a page into a page that was free.\<close>

lemma memmove_page:
  assumes "page_ok e p" "page_ok e q"
  shows "touches {p} m (memmove m p q PGSIZE)" "k < 4096 \<Longrightarrow> memmove m p q PGSIZE (p + of_nat k) = m (q + of_nat k)"
proof -
  have lt: "unat x + 4096 < 2 ^ 32" if "page_ok e x" for x
  proof -
    have "unat (x - 0x80000000) < 0xE000000" "0x80000000 \<le> unat x"
      using that by (simp_all add: page_ok_def KERNBASE_def PHYSTOP_def word_less_nat_alt word_le_nat_alt)
    then show ?thesis by (simp add: unat_sub_if')
  qed
  have e: "memmove m p q PGSIZE x = (if within p (unat PGSIZE) x then m (q + (x - p)) else m x)" for x
    using lt [OF assms(1)] lt [OF assms(2)] by (intro memmove_eq) (simp_all add: PGSIZE_def)
  show "touches {p} m (memmove m p q PGSIZE)"
    using other_page page_ok_aligned [OF assms(1)] by (auto simp: touches_def same_page_def e)
  show "memmove m p q PGSIZE (p + of_nat k) = m (q + of_nat k)" if "k < 4096" using within_page [OF that] by (simp add: e)
qed

lemma space_take:
  assumes "space c s d (p # l)" "kmem_ok c s1 l" "mem s1 = mem s" "kend s1 = kend s" "touches {p} (mem s) m"
  shows "space c (s1\<lparr>mem := m\<rparr>) d l" "j < 2 ^ 20 \<Longrightarrow> page_entry m d j = page_entry (mem s) d j"
    "table_pages m d = table_pages (mem s) d"
proof -
  note sp' = assms(1) [unfolded space_def]
  have "space c s1 d l" using assms unfolding space_def by simp
  then show "space c (s1\<lparr>mem := m\<rparr>) d l" using sp' assms(3,5) by (intro space_mem [of c s1 d l "{p}"]) (auto simp: kmem_ok_def)
  have sd: "same_page (mem s) m d" using assms(5) sp' page_ok_aligned by (auto simp: touches_def)
  show "table_pages m d = table_pages (mem s) d" by (rule tables_frame [OF sd])
  show "page_entry m d j = page_entry (mem s) d j" if "j < 2 ^ 20"
    using assms(5) sp' page_ok_aligned page_split [OF that] by (intro entry_frame [OF sd that]) (auto simp: touches_def)
qed

lemma copied_entry:
  assumes "page_ok e p" "present f" "unat f < 4096"
  shows "present (entry_for (p - KERNBASE) f 0)" "frame_of (entry_for (p - KERNBASE) f 0) = p" "PTE_FLAGS (entry_for (p - KERNBASE) f 0) = f"
proof -
  have fp: "f OR PTE_P = f"
    using assms(2) unfolding present_iff PTE_P_def by (intro bit_word_eqI) (auto simp: bit_simps)
  note ep = entry_page [OF page_physical [OF assms(1)] assms(3)]
  have en: "entry_for (p - KERNBASE) f 0 = (p - KERNBASE) OR f" by (simp add: entry_for_def or.assoc fp)
  show "present (entry_for (p - KERNBASE) f 0)" using assms(2) unfolding en present_iff bit_or_iff by simp
  show "frame_of (entry_for (p - KERNBASE) f 0) = p" "PTE_FLAGS (entry_for (p - KERNBASE) f 0) = f"
    using ep by (simp_all add: en frame_of_def)
qed

lemma flags_small: "unat (PTE_FLAGS e) < 4096" "present (PTE_FLAGS e) \<longleftrightarrow> present e"
proof -
  have m: "PTE_FLAGS e = e mod 4096"
    using take_bit_eq_mask [of 12 e] by (simp add: PTE_FLAGS_def mask_eq_exp_minus_1 take_bit_eq_mod)
  show "unat (PTE_FLAGS e) < 4096" unfolding m by (simp add: unat_mod)
  show "present (PTE_FLAGS e) \<longleftrightarrow> present e" unfolding present_iff PTE_FLAGS_def bit_and_iff by simp
qed

lemma mapped_entry:
  assumes "maps_to s d k 0 pa f 0 s' l'" "j < 2 ^ 19"
  shows "page_entry (mem s') d j = (if j = k then entry_for pa f 0 else page_entry (mem s) d j)"
proof (cases "j = k")
  case True
  then show ?thesis using assms(1) by (auto simp: maps_to_def)
next
  case False
  then have "j < 2 ^ 20" "j < k \<or> k + 0 < j" using assms(2) by auto
  then show ?thesis using assms(1) False unfolding maps_to_def by auto
qed

lemma touched_twice:
  "touches {p} m m1 \<Longrightarrow> touches A m1 m2 \<Longrightarrow> aligned f \<Longrightarrow> f \<noteq> p \<Longrightarrow> f \<notin> A \<Longrightarrow> same_page m m2 f"
  by (simp add: touches_def same_page_def)

text \<open>One more page: the frame \<open>p\<close> is filled and mapped.\<close>

lemma child_step:
  assumes pa: "parent c s pgdir l np" and k: "k < np" and ch: "child c s pgdir l k d s' (p # l1)"
    and s1: "kmem_ok c s1 l1" "mem s1 = mem s'" "kend s1 = kend s'"
  defines "e0 \<equiv> page_entry (mem s) pgdir k"
  defines "s2 \<equiv> s1\<lparr>mem := memmove (mem s') p (frame_of e0) PGSIZE\<rparr>"
  assumes g: "grows c s2 d l1 s3 l3" and mp: "maps_to s2 d k 0 (p - KERNBASE) (PTE_FLAGS e0) 0 s3 l3"
  shows "child c s pgdir l (Suc k) d s3 l3"
proof -
  have sp: "space c s' d (p # l1)" and ke: "kend s' = kend s" and sub: "set (p # l1) \<subseteq> set l" and d: "d \<in> set l"
    and ts: "table_pages (mem s') d \<subseteq> set l" and t: "touches (set l) (mem s) (mem s')"
    and cnt: "length (p # l1) + card (table_pages (mem s') d) + k + 1 = length l"
    and un: "\<And>i. k \<le> i \<Longrightarrow> i < 2 ^ 19 \<Longrightarrow> \<not> present (page_entry (mem s') d i)"
    and cp: "\<And>i. i < k \<Longrightarrow> copied (mem s) (page_entry (mem s) pgdir i) (mem s') (page_entry (mem s') d i)"
    and fr: "\<And>i. i < k \<Longrightarrow> frame_of (page_entry (mem s') d i) \<in> set l - (set (p # l1) \<union> insert d (table_pages (mem s') d))"
    and inj: "inj_on (\<lambda>i. frame_of (page_entry (mem s') d i)) {..<k}"
    using ch unfolding child_def by blast+
  have np: "np \<le> 2 ^ 19" and e0: "present e0" "page_ok (kend s) (frame_of e0)" "frame_of e0 \<notin> set l"
    using pa k by (auto simp: parent_def e0_def)
  have km: "kmem_ok c s' (p # l1)" using sp by (simp add: space_def)
  have pp: "page_ok (kend s) p" "p \<notin> set l1" "p \<noteq> d" "p \<notin> table_pages (mem s') d"
    using sp ke table_page [OF sp] by (auto simp: space_def kmem_ok_def)
  note mm = memmove_page [OF pp(1) e0(2), where m = "mem s'"]
  note st = space_take [OF sp s1 mm(1), folded s2_def]
  have m2: "mem s2 = memmove (mem s') p (frame_of e0) PGSIZE" by (simp add: s2_def)
  note gc = grows_count [OF st(1) g, unfolded m2 st(3)]
  have g3: "space c s3 d l3" "kend s3 = kend s2" "touches (insert d (table_pages (mem s3) d)) (mem s2) (mem s3)"
    using g by (simp_all add: grows_def)
  have en: "page_entry (mem s3) d j = (if j = k then entry_for (p - KERNBASE) (PTE_FLAGS e0) 0 else page_entry (mem s') d j)"
    if "j < 2 ^ 19" for j
    using mapped_entry [OF mp, of j] st(2) [of j] that by (simp add: m2)
  note ce = copied_entry [OF pp(1), of "PTE_FLAGS e0", unfolded flags_small(2), OF e0(1) flags_small(1)]
  have t3: "table_pages (mem s3) d \<subseteq> set l" using gc(3) ts sub by auto
  have tt: "touches (set l) (mem s) (mem s3)"
  proof (rule touches_trans [OF touches_trans [OF t]])
    show "touches (set l) (mem s') (mem s2)" unfolding m2 by (rule touches_mono [OF mm(1)]) (use sub in auto)
    show "touches (set l) (mem s2) (mem s3)" by (rule touches_mono [OF g3(3)]) (use t3 d in auto)
  qed
  have old: "same_page (mem s') (mem s3) (frame_of (page_entry (mem s') d i))" if "i < k" for i
  proof -
    let ?f = "frame_of (page_entry (mem s') d i)"
    have f: "?f \<noteq> p" "?f \<notin> insert d (table_pages (mem s3) d)" "?f \<in> set l" using fr [OF that] gc(3) by auto
    have "aligned ?f" using f(3) pa page_ok_aligned by (auto simp: parent_def space_def kmem_ok_def)
    then show ?thesis using touched_twice [OF mm(1) g3(3) [unfolded m2]] f(1,2) by simp
  qed
  have new: "same_page (mem s2) (mem s3) p"
    using g3(3) pp gc(3) page_ok_aligned [OF pp(1)] by (auto simp: touches_def)
  have pk: "same_page (mem s) (mem s') (frame_of e0)" using t page_ok_aligned [OF e0(2)] e0(3) by (simp add: touches_def)
  show ?thesis
    unfolding child_def
  proof (intro conjI allI impI)
    show "length l3 + card (table_pages (mem s3) d) + Suc k + 1 = length l" using gc(1) cnt by simp
    fix i assume i: "i < Suc k"
    then have i19: "i < 2 ^ 19" using k np by simp
    show "copied (mem s) (page_entry (mem s) pgdir i) (mem s3) (page_entry (mem s3) d i)"
    proof (cases "i = k")
      case True
      have "mem s3 (p + of_nat j) = mem s (frame_of e0 + of_nat j)" if "j < 4096" for j
        using that new pk mm(2) [OF that] by (simp add: same_page_def m2)
      then show ?thesis using True en [OF i19] ce by (simp add: copied_def e0_def)
    next
      case False
      then show ?thesis using i en [OF i19] cp [of i] old [of i] by (simp add: copied_def same_page_def)
    qed
    show "frame_of (page_entry (mem s3) d i) \<in> set l - (set l3 \<union> insert d (table_pages (mem s3) d))"
      using i en [OF i19] ce(2) pp(2-4) gc(2,3) sub fr [of i] by (cases "i = k") auto
  next
    show "inj_on (\<lambda>i. frame_of (page_entry (mem s3) d i)) {..<Suc k}"
    proof (rule inj_onI)
      fix i j assume "i \<in> {..<Suc k}" "j \<in> {..<Suc k}" "frame_of (page_entry (mem s3) d i) = frame_of (page_entry (mem s3) d j)"
      then show "i = j" using en [of i] en [of j] ce(2) fr [of i] fr [of j] inj k np
        by (cases "i = k"; cases "j = k") (auto simp: inj_on_def)
    qed
  next
    fix i assume "Suc k \<le> i \<and> i < 2 ^ 19"
    then show "\<not> present (page_entry (mem s3) d i)" using en [of i] un [of i] by simp
  qed (use g3 t3 tt gc(2) sub d ke s1(3) in \<open>auto simp: s2_def\<close>)
qed

lemma walk_mapped:
  assumes sp: "space c s pgdir l" and i: "i < 2 ^ 20" and pr: "present (page_entry (mem s) pgdir i)"
  shows "\<exists>q. walkpgdir pgdir (of_nat (i * 4096)) al s = ret (q, s) \<and> q \<noteq> 0 \<and> read32 (mem s) q = page_entry (mem s) pgdir i"
proof -
  let ?q = "slot_of (frame_of (pd (mem s) pgdir (i div 1024))) (i mod 1024)"
  have pd: "present (pd (mem s) pgdir (i div 1024))"
    using pr by (auto simp: page_entry_def present_def split: if_splits)
  have "?q \<noteq> 0" using sp pd page_split [OF i] slot_nonzero unfolding space_def by blast
  then show ?thesis using walk_present [OF sp i pd] pd by (intro exI [of _ ?q]) (simp add: page_entry_def)
qed

lemma map_page:
  assumes "space c s d l" "k < 2 ^ 19" "\<not> present (page_entry (mem s) d k)"
  shows "\<exists>r s' l'. mappages d (of_nat (k * 4096)) PGSIZE pa f s = ret (r, s') \<and> grows c s d l s' l' \<and> maps_to s d k 0 pa f r s' l'"
proof -
  have u: "unat (of_nat (k * 4096) :: u32) = k * 4096" "unat PGSIZE = 4096" using assms(2) page_number(3) [of k] by (simp_all add: PGSIZE_def)
  have "k = k * 4096 div 4096" "k + 0 = (k * 4096 + 4096 - 1) div 4096" using div_nat_eqI [of 4096 k "k * 4096 + 4096 - 1"] by simp_all
  then show ?thesis using mappages_ok [OF assms(1), of PGSIZE "of_nat (k * 4096)" k 0 pa f] assms(2,3) u
    by (simp add: word_less_nat_alt del: of_nat_mult)
qed

lemma copy_step:
  assumes pa: "parent c s pgdir l np" and k: "k < np" and ch: "child c s pgdir l k d s' l'"
    and cap: "1025 + np < length l" and lt: "of_nat (k * 4096) < sz"
  shows "\<exists>s3 l3. copy_loop pgdir d (of_nat (k * 4096)) sz s' = copy_loop pgdir d (of_nat (Suc k * 4096)) sz s3 \<and>
    child c s pgdir l (Suc k) d s3 l3"
proof -
  have sp: "space c s' d l'" and ke: "kend s' = kend s" and sub: "set l' \<subseteq> set l" and t: "touches (set l) (mem s) (mem s')"
    and cnt: "length l' + card (table_pages (mem s') d) + k + 1 = length l"
    and un: "\<And>i. k \<le> i \<Longrightarrow> i < 2 ^ 19 \<Longrightarrow> \<not> present (page_entry (mem s') d i)"
    using ch unfolding child_def by blast+
  have np: "np \<le> 2 ^ 19" using pa by (simp add: parent_def)
  have k20: "k < 2 ^ 20" "k < 2 ^ 19" using k np by auto
  have km: "kmem_ok c s' l'" using sp by (simp add: space_def)
  note pf = parent_frame [OF pa t km sub ke]
  define e0 where "e0 = page_entry (mem s) pgdir k"
  have e0: "present e0" "page_ok (kend s) (frame_of e0)" using pa k by (auto simp: parent_def e0_def)
  have "page_entry (mem s') pgdir k = e0" using pf(2) k20 by (simp add: e0_def)
  then obtain q where w: "walkpgdir pgdir (of_nat (k * 4096)) False s' = ret (q, s')" and nz: "q \<noteq> 0" and rq: "read32 (mem s') q = e0"
    using walk_mapped [OF pf(1) k20(1)] e0(1) by blast
  have "0 < length l'" using cnt cap k tables_finite(2) [of "mem s'" d] by linarith
  then obtain p l1 where l': "l' = p # l1" by (cases l') auto
  have pp: "page_ok (kend s) p" using km ke by (simp add: kmem_ok_def l')
  obtain s1 where a: "kalloc s' = ret (p, s1)" "kmem_ok c s1 l1" "mem s1 = mem s'" using kmem_ok_kalloc [OF km] l' by auto
  have ke1: "kend s1 = kend s'" by (rule kalloc_frame [OF km a(1)])
  define s2 where "s2 = s1\<lparr>mem := memmove (mem s') p (frame_of e0) PGSIZE\<rparr>"
  note st = space_take [OF sp [unfolded l'] a(2,3) ke1 memmove_page(1) [OF pp e0(2)], folded s2_def]
  have m2: "mem s2 = memmove (mem s') p (frame_of e0) PGSIZE" by (simp add: s2_def)
  have "\<not> present (page_entry (mem s2) d k)" using un [of k] st(2) [OF k20(1)] k20 by (simp add: m2)
  then obtain r s3 l3 where m: "mappages d (of_nat (k * 4096)) PGSIZE (p - KERNBASE) (PTE_FLAGS e0) s2 = ret (r, s3)"
    "grows c s2 d l1 s3 l3" "maps_to s2 d k 0 (p - KERNBASE) (PTE_FLAGS e0) r s3 l3"
    using map_page [OF st(1) k20(2)] by blast
  have "length l3 + card (table_pages (mem s3) d) = length l1 + card (table_pages (mem s') d)"
    using grows_count(1) [OF st(1) m(2)] st(3) by (simp add: m2)
  then have "l3 \<noteq> []" using cnt cap k l' tables_finite(2) [of "mem s3" d] by auto
  then have r: "r = 0" using m(3) by (auto simp: maps_to_def)
  have "child c s pgdir l (Suc k) d s3 l3"
    using child_step [OF pa k ch [unfolded l'] a(2,3) ke1] m(2,3) r unfolding s2_def e0_def by blast
  moreover have "copy_loop pgdir d (of_nat (k * 4096)) sz s' = copy_loop pgdir d (of_nat (Suc k * 4096)) sz s3"
  proof -
    have nx: "(of_nat (Suc k * 4096) :: u32) = of_nat (k * 4096) + PGSIZE" by (simp add: PGSIZE_def add.commute)
    have "P2V (PTE_ADDR e0) = ret (frame_of e0)" using P2V_frame e0(2) by (simp add: frame_of_def)
    moreover have "e0 AND PTE_P \<noteq> 0" using e0(1) by (simp add: present_def)
    ultimately show ?thesis
      unfolding nx using w lt nz rq a(1,3) page_ok_nonzero [OF pp] V2P_page [OF pp] m(1) r
      by (subst copy_loop.simps) (simp add: Let_def s2_def [symmetric] m2 del: of_nat_mult of_nat_Suc)
  qed
  ultimately show ?thesis by blast
qed

lemma copy_loop_ok:
  assumes "parent c s pgdir l np" "child c s pgdir l k d s' l'" "k \<le> np" "1025 + np < length l" "np = (unat sz + 4095) div 4096"
  shows "\<exists>s3 l3. copy_loop pgdir d (of_nat (k * 4096)) sz s' = ret (d, s3) \<and> child c s pgdir l np d s3 l3"
  using assms(2,3)
proof (induction "np - k" arbitrary: k s' l')
  case 0
  have np: "np \<le> 2 ^ 19" using assms(1) by (simp add: parent_def)
  have "unat sz \<le> k * 4096" using 0 assms(5) div_mult_mod_eq [of "unat sz + 4095" 4096] by simp
  then have "\<not> of_nat (k * 4096) < sz" using page_number(3) [of k] 0 np by (simp add: word_less_nat_alt del: of_nat_mult)
  then show ?case using 0 by (subst copy_loop.simps) (auto simp del: of_nat_mult)
next
  case (Suc n)
  have np: "np \<le> 2 ^ 19" using assms(1) by (simp add: parent_def)
  have k: "k < np" using Suc.hyps(2) by simp
  have "k * 4096 < unat sz"
  proof (rule ccontr)
    assume "\<not> k * 4096 < unat sz"
    then have "(unat sz + 4095) div 4096 \<le> (k * 4096 + 4095) div 4096" by (intro div_le_mono) simp
    moreover have "(k * 4096 + 4095) div 4096 = k" by (intro div_nat_eqI) simp_all
    ultimately show False using k assms(5) by simp
  qed
  then have lt: "of_nat (k * 4096) < sz" using page_number(3) [of k] k np by (simp add: word_less_nat_alt del: of_nat_mult)
  obtain s3 l3 where "copy_loop pgdir d (of_nat (k * 4096)) sz s' = copy_loop pgdir d (of_nat (Suc k * 4096)) sz s3"
    "child c s pgdir l (Suc k) d s3 l3"
    using copy_step [OF assms(1) k Suc.prems(1) assms(4) lt] by blast
  then show ?case using Suc.hyps(1) [of "Suc k" s3 l3] Suc.hyps(2) k by simp
qed

text \<open>
  C11: let the first pages of an address space, up to \<open>sz\<close>, be mapped to pages that are not free, and let there be
  free pages for a directory, its tables and the copies. Then \<open>copyuvm\<close> succeeds: it returns a directory in
  which exactly these user pages are mapped, each with the flags of the original, on a page of its own that
  was free before and now has the same 4096 bytes. No page that was not free has changed, so the original
  address space is untouched.
\<close>

theorem copyuvm_copies:
  assumes "parent c s pgdir l np" "np = (unat sz + 4095) div 4096" "kernel_link s" "1025 + np < length l"
  shows "\<exists>d s' l'. copyuvm pgdir sz s = ret (d, s') \<and> d \<noteq> 0 \<and> child c s pgdir l np d s' l'"
proof -
  obtain d l1 where l: "l = d # l1" using assms(4) by (cases l) auto
  have km: "kmem_ok c s (d # l1)" using assms(1) l by (simp add: parent_def space_def)
  then have d: "d \<noteq> 0" using page_ok_nonzero by (auto simp: kmem_ok_def)
  obtain s' l' where k: "setupkvm s = ret (d, s')" "space c s' d l'" "kend s' = kend s" "set l' \<subseteq> set l1" "table_pages (mem s') d \<subseteq> set l1"
    "length l' + card (table_pages (mem s') d) = length l1" "touches (insert d (set l1)) (mem s) (mem s')"
    "\<forall>j<2 ^ 19. page_entry (mem s') d j = 0"
    using setupkvm_ok [OF km assms(3)] assms(4) l by auto
  have "\<not> present 0" by (simp add: present_def)
  then have "child c s pgdir l 0 d s' l'" using k l by (auto simp: child_def)
  then obtain s3 l3 where "copy_loop pgdir d (of_nat (0 * 4096)) sz s' = ret (d, s3)" "child c s pgdir l np d s3 l3"
    using copy_loop_ok [OF assms(1) _ _ assms(4,2), of 0 d s' l'] by blast
  then show ?thesis using k(1) d by (auto simp: copyuvm_def)
qed

theorem copyuvm_copies_witness:
  "\<exists>d s' l'. copyuvm 0x80110000 100 small_space = ret (d, s') \<and> d \<noteq> 0 \<and> child 0 small_space 0x80110000 free_pages 1 d s' l'"
proof (rule copyuvm_copies)
  have "present 0x112007" "frame_of 0x112007 = 0x80112000" "page_ok (kend small_space) 0x80112000"
    by (simp_all add: present_def PTE_P_def frame_of_def PTE_ADDR_def KERNBASE_def page_ok_def small_space_def PGSIZE_def PHYSTOP_def)
  then show "parent 0 small_space 0x80110000 free_pages 1"
    using small_space_ok(1) small_space_ok(2) [of 0] not_free(3) by (simp add: parent_def)
  show "kernel_link small_space"
    by (simp add: kernel_link_def small_space_def aligned_def PGSIZE_def KERNLINK_def KERNBASE_def EXTMEM_def PHYSTOP_def)
qed (simp_all add: free_pages_ok(2))

end
