(* ===== verification/Umalloc.thy ===== *)
theory Umalloc
  imports Ulib
begin

text \<open>
  umalloc.c: the storage allocator of user programs. A header occupies 8 bytes, the pointer to the next
  free block and the size of the block in units of a header; memory is read and written by 32-bit words.
  The address of the static header \<open>base\<close>, which the linker chooses, is a parameter.
\<close>

record um =
  um_mem :: "u32 \<Rightarrow> u32"
  freep :: u32

definition header_ptr :: "um \<Rightarrow> u32 \<Rightarrow> u32" where "header_ptr m p = um_mem m p"
definition header_size :: "um \<Rightarrow> u32 \<Rightarrow> u32" where "header_size m p = um_mem m (p + 4)"

definition set_ptr :: "u32 \<Rightarrow> u32 \<Rightarrow> um \<Rightarrow> um" where
  "set_ptr p v m = m\<lparr>um_mem := (um_mem m)(p := v)\<rparr>"

definition set_size :: "u32 \<Rightarrow> u32 \<Rightarrow> um \<Rightarrow> um" where
  "set_size p v m = m\<lparr>um_mem := (um_mem m)(p + 4 := v)\<rparr>"

text \<open>The pointer arithmetic of \<open>Header *\<close>.\<close>

definition units :: "u32 \<Rightarrow> u32 \<Rightarrow> u32" where "units p n = p + 8 * n"

section \<open>free\<close>

text \<open>The free block behind which the freed one belongs.\<close>

partial_function (option) free_search :: "um \<Rightarrow> u32 \<Rightarrow> u32 \<Rightarrow> u32 option" where
  "free_search m bp p =
     (let nxt = header_ptr m p in
      if p < bp \<and> bp < nxt then Some p
      else if nxt \<le> p \<and> (p < bp \<or> bp < nxt) then Some p
      else free_search m bp nxt)"

definition free_link :: "u32 \<Rightarrow> u32 \<Rightarrow> um \<Rightarrow> um" where
  "free_link bp p m =
     (let nxt = header_ptr m p;
          m = (if units bp (header_size m bp) = nxt
               then let m = set_size bp (header_size m bp + header_size m nxt) m
                    in set_ptr bp (header_ptr m nxt) m
               else set_ptr bp nxt m);
          m = (if units p (header_size m p) = bp
               then let m = set_size p (header_size m p + header_size m bp) m
                    in set_ptr p (header_ptr m bp) m
               else set_ptr p bp m)
      in m\<lparr>freep := p\<rparr>)"

definition u_free :: "u32 \<Rightarrow> um \<Rightarrow> um option" where
  "u_free ap m =
     (let bp = ap - 8 in map_option (\<lambda>p. free_link bp p m) (free_search m bp (freep m)))"

section \<open>malloc\<close>

definition morecore :: "'e kern \<Rightarrow> u32 \<Rightarrow> um \<Rightarrow> ('e, u32 \<times> um) usr" where
  "morecore h nu m =
     (let nu = (if nu < 4096 then 4096 else nu) in
      ubind (sys h (U_sbrk (sint (nu * 8)))) (\<lambda>p.
      if p = -1 then uret (0, m)
      else let hp = word_of_int p; m = set_size hp nu m in
        case u_free (hp + 8) m of None \<Rightarrow> (\<lambda>_. None) | Some m \<Rightarrow> uret (freep m, m)))"

text \<open>A block of the free list that is large enough: it is unlinked, or its tail is cut off.\<close>

definition take_block :: "u32 \<Rightarrow> u32 \<Rightarrow> u32 \<Rightarrow> um \<Rightarrow> u32 \<times> um" where
  "take_block nunits prevp p m =
     (let (p, m) =
        (if header_size m p = nunits then (p, set_ptr prevp (header_ptr m p) m)
         else let m = set_size p (header_size m p - nunits) m; q = units p (header_size m p)
              in (q, set_size q nunits m))
      in (p + 8, m\<lparr>freep := prevp\<rparr>))"

partial_function (option) malloc_loop :: "'e kern \<Rightarrow> u32 \<Rightarrow> u32 \<Rightarrow> u32 \<Rightarrow> um \<Rightarrow> ('e, u32 \<times> um) usr" where
  "malloc_loop h nunits prevp p m e =
     (if nunits \<le> header_size m p then uret (take_block nunits prevp p m)
      else if p = freep m then
        ubind (morecore h nunits m) (\<lambda>r.
        if fst r = 0 then uret (0, snd r)
        else malloc_loop h nunits (fst r) (header_ptr (snd r) (fst r)) (snd r))
      else malloc_loop h nunits p (header_ptr m p) m) e"

definition malloc_units :: "u32 \<Rightarrow> u32" where
  "malloc_units nbytes = (nbytes + 8 - 1) div 8 + 1"

definition malloc :: "'e kern \<Rightarrow> u32 \<Rightarrow> u32 \<Rightarrow> um \<Rightarrow> ('e, u32 \<times> um) usr" where
  "malloc h base nbytes m =
     (let m = (if freep m = 0 then set_size base 0 ((set_ptr base base m)\<lparr>freep := base\<rparr>) else m);
          prevp = freep m
      in malloc_loop h (malloc_units nbytes) prevp (header_ptr m prevp) m)"

end
