(* ===== verification/UmallocProps.thy ===== *)
theory UmallocProps
  imports Umalloc
begin

text \<open>
  The allocator of umalloc.c: its free list is a ring of blocks in the order of their addresses, starting at
  the static header \<open>base\<close>. \<open>free\<close> returns a block to the ring and \<open>malloc\<close> cuts one out of it.
\<close>

section \<open>The ring\<close>

text \<open>A block is its address and its size in units of a header, 8 bytes. Blocks lie below the kernel.\<close>

type_synonym blocks = "(nat \<times> nat) list"

fun ordered :: "nat \<Rightarrow> blocks \<Rightarrow> bool" where
  "ordered lo [] \<longleftrightarrow> True"
| "ordered lo ((a, n) # bs) \<longleftrightarrow> lo \<le> a \<and> 0 < n \<and> a + 8 * n \<le> 2 ^ 31 \<and> ordered (a + 8 * n) bs"

fun linked_to :: "um \<Rightarrow> u32 \<Rightarrow> blocks \<Rightarrow> u32 \<Rightarrow> bool" where
  "linked_to m p [] e \<longleftrightarrow> header_ptr m p = e"
| "linked_to m p ((a, n) # bs) e \<longleftrightarrow>
     header_ptr m p = of_nat a \<and> header_size m (of_nat a) = of_nat n \<and> linked_to m (of_nat a) bs e"

definition free_ring :: "um \<Rightarrow> nat \<Rightarrow> blocks \<Rightarrow> bool" where
  "free_ring m base bs \<longleftrightarrow> 0 < base \<and> base + 8 \<le> 2 ^ 31 \<and> ordered (base + 8) bs \<and> linked_to m (of_nat base) bs (of_nat base) \<and>
     header_size m (of_nat base) = 0 \<and> (\<exists>q\<in>insert base (fst ` set bs). freep m = of_nat q)"

text \<open>The bytes of a block and of all blocks.\<close>

definition region :: "nat \<Rightarrow> nat \<Rightarrow> nat set" where "region a n = {a..<a + 8 * n}"
definition area :: "blocks \<Rightarrow> nat set" where "area bs = (\<Union>(a, n)\<in>set bs. region a n)"

text \<open>The last header of a part of the ring that starts at \<open>base\<close>.\<close>

definition last_of :: "nat \<Rightarrow> blocks \<Rightarrow> nat" where "last_of base bs = (if bs = [] then base else fst (last bs))"

lemma small_less: "a < 2 ^ 32 \<Longrightarrow> b < 2 ^ 32 \<Longrightarrow> (of_nat a :: u32) < of_nat b \<longleftrightarrow> a < b"
  "a < 2 ^ 32 \<Longrightarrow> b < 2 ^ 32 \<Longrightarrow> (of_nat a :: u32) \<le> of_nat b \<longleftrightarrow> a \<le> b"
  "a < 2 ^ 32 \<Longrightarrow> b < 2 ^ 32 \<Longrightarrow> (of_nat a :: u32) = of_nat b \<longleftrightarrow> a = b"
  by (simp_all add: word_less_nat_alt word_le_nat_alt word_unat_eq_iff unat_of_nat take_bit_nat_eq_self)

lemma ordered_append: "ordered lo (xs @ ys) \<longleftrightarrow> ordered lo xs \<and> ordered (if xs = [] then lo else fst (last xs) + 8 * snd (last xs)) ys"
proof (induction xs arbitrary: lo)
  case (Cons x xs)
  then show ?case by (cases x) auto
qed simp

lemma ordered_mono: "ordered lo bs \<Longrightarrow> lo' \<le> lo \<Longrightarrow> ordered lo' bs"
  by (cases bs) auto

lemma ordered_bounds: "ordered lo bs \<Longrightarrow> (a, n) \<in> set bs \<Longrightarrow> lo \<le> a \<and> 0 < n \<and> a + 8 * n \<le> 2 ^ 31"
proof (induction bs arbitrary: lo)
  case (Cons b bs)
  obtain c k where b: "b = (c, k)" by (cases b)
  show ?case
  proof (cases "(a, n) = b")
    case False
    then have "c + 8 * k \<le> a \<and> 0 < n \<and> a + 8 * n \<le> 2 ^ 31" using Cons b by auto
    then show ?thesis using Cons.prems b by auto
  qed (use Cons.prems b in auto)
qed simp

text \<open>A part of the ring seen from its first header, and the header the part before it points to.\<close>

fun headed :: "um \<Rightarrow> blocks \<Rightarrow> u32 \<Rightarrow> bool" where
  "headed m [] e \<longleftrightarrow> True"
| "headed m ((a, n) # bs) e \<longleftrightarrow> header_size m (of_nat a) = of_nat n \<and> linked_to m (of_nat a) bs e"

definition head_of :: "blocks \<Rightarrow> u32 \<Rightarrow> u32" where
  "head_of bs e = (case bs of [] \<Rightarrow> e | (a, n) # _ \<Rightarrow> of_nat a)"

lemma linked_append: "linked_to m p (xs @ ys) e \<longleftrightarrow> linked_to m p xs (head_of ys e) \<and> headed m ys e"
proof (induction xs arbitrary: p)
  case Nil
  then show ?case by (cases ys) (auto simp: head_of_def)
next
  case (Cons x xs)
  then show ?case by (cases x) auto
qed

lemma linked_next: "linked_to m (of_nat base) xs q \<Longrightarrow> header_ptr m (of_nat (last_of base xs)) = q"
proof (induction xs arbitrary: base)
  case (Cons x xs)
  then show ?case by (cases x) (auto simp: last_of_def split: if_splits)
qed (simp add: last_of_def)

lemma last_of_append [simp]: "last_of base (xs @ [(b, k)]) = b"
  by (simp add: last_of_def)

lemma last_of_ge: "ordered (base + 8) (us @ ys) \<Longrightarrow> base \<le> last_of base us"
  using ordered_bounds [of "base + 8" "us @ ys"] by (cases us rule: rev_cases) (force simp: last_of_def)+

lemma last_of_bound: "ordered (base + 8) (xs @ (b, k) # ys) \<Longrightarrow> last_of base xs < b"
  by (cases xs rule: rev_cases) (auto simp: ordered_append last_of_def)

text \<open>The ring depends on its headers only.\<close>

definition header_words :: "nat set \<Rightarrow> u32 set" where
  "header_words A = (\<lambda>a. of_nat a) ` A \<union> (\<lambda>a. of_nat a + 4) ` A"

lemma linked_frame:
  assumes "\<forall>x\<in>insert p (header_words (fst ` set bs)). um_mem m' x = um_mem m x"
  shows "linked_to m' p bs e \<longleftrightarrow> linked_to m p bs e"
  using assms
proof (induction bs arbitrary: p)
  case (Cons b bs)
  obtain a n where b: "b = (a, n)" by (cases b)
  then have "linked_to m' (of_nat a) bs e \<longleftrightarrow> linked_to m (of_nat a) bs e"
    using Cons.prems by (intro Cons.IH) (auto simp: header_words_def)
  then show ?case using Cons.prems b by (auto simp: header_ptr_def header_size_def header_words_def)
qed (simp add: header_ptr_def)

section \<open>The search for the place of a block\<close>

text \<open>The ring \<open>us @ vs\<close> where a block at \<open>a\<close> belongs between the two parts.\<close>

definition gap :: "um \<Rightarrow> nat \<Rightarrow> blocks \<Rightarrow> blocks \<Rightarrow> nat \<Rightarrow> nat \<Rightarrow> bool" where
  "gap m base us vs a n \<longleftrightarrow> free_ring m base (us @ vs) \<and> ordered (base + 8) (us @ (a, n) # vs)"

lemma gap_small: "gap m base us vs a n \<Longrightarrow> base < 2 ^ 32 \<and> a < 2 ^ 32 \<and> base < a \<and> last_of base us < a"
  using last_of_bound [of base us a n vs] ordered_bounds [of "base + 8" "us @ (a, n) # vs" a n] by (auto simp: gap_def free_ring_def)

lemma search_forward:
  assumes g: "gap m base us vs a n" and us: "us = xs @ zs"
  shows "free_search m (of_nat a) (of_nat (last_of base xs)) = Some (of_nat (last_of base us))"
  using us
proof (induction zs arbitrary: xs)
  case Nil
  have r: "linked_to m (of_nat base) us (head_of vs (of_nat base))" using g by (simp add: gap_def free_ring_def linked_append)
  note nx = linked_next [OF r] and sm = gap_small [OF g]
  have p: "last_of base us < 2 ^ 32" using sm by simp
  show ?case
  proof (cases vs)
    case Nil
    have "base \<le> last_of base us"
      using g last_of_ge [of base us "(a, n) # vs"] by (simp add: gap_def)
    then show ?thesis using \<open>us = xs @ []\<close> nx Nil sm p by (subst free_search.simps) (simp add: head_of_def small_less)
  next
    case (Cons v vs')
    obtain b k where v: "v = (b, k)" by (cases v)
    have "a < b" "b < 2 ^ 32" using g Cons v ordered_bounds [of "base + 8" "us @ (a, n) # vs" b k] by (auto simp: gap_def ordered_append)
    then show ?thesis using \<open>us = xs @ []\<close> nx Cons v sm p by (subst free_search.simps) (simp add: head_of_def small_less)
  qed
next
  case (Cons z zs)
  obtain b k where z: "z = (b, k)" by (cases z)
  have r: "linked_to m (of_nat base) xs (of_nat b)"
    using g Cons.prems z by (simp add: gap_def free_ring_def linked_append head_of_def)
  note nx = linked_next [OF r] and sm = gap_small [OF g]
  have o: "ordered (base + 8) (xs @ (b, k) # zs @ (a, n) # vs)" using g Cons.prems z by (simp add: gap_def)
  then have pb: "last_of base xs < b" by (rule last_of_bound)
  have o2: "ordered (b + 8 * k) (zs @ (a, n) # vs)" "0 < k" using o by (simp_all add: ordered_append [of _ xs])
  then have ba: "b < a" using ordered_bounds [OF o2(1), of a n] by simp
  have "free_search m (of_nat a) (of_nat (last_of base xs)) = free_search m (of_nat a) (of_nat b)"
    using nx pb ba sm by (subst free_search.simps) (simp add: small_less)
  also have "\<dots> = Some (of_nat (last_of base us))" using Cons.IH [of "xs @ [(b, k)]"] Cons.prems z by simp
  finally show ?case .
qed

lemma search_wrap:
  assumes g: "gap m base us vs a n" and vs: "vs = ws @ zs" "ws \<noteq> []"
  shows "free_search m (of_nat a) (of_nat (fst (last ws))) = free_search m (of_nat a) (of_nat base)"
  using vs
proof (induction zs arbitrary: ws)
  case Nil
  obtain b k where b: "last ws = (b, k)" by (cases "last ws")
  then have "ws = butlast ws @ [(b, k)]" using Nil.prems(2) by (metis append_butlast_last_id)
  then have e: "us @ vs = (us @ butlast ws) @ [(b, k)]" using Nil.prems(1) by simp
  have r: "linked_to m (of_nat base) (us @ vs) (of_nat base)" using g by (simp add: gap_def free_ring_def)
  have nx: "header_ptr m (of_nat b) = of_nat base" using linked_next [OF r] by (simp add: e last_of_def)
  have "(b, k) \<in> set vs" using b Nil.prems by (metis append_Nil2 last_in_set)
  then have "a < b" "b < 2 ^ 32"
    using g ordered_bounds [of "a + 8 * n" vs b k] by (auto simp: gap_def ordered_append)
  then show ?case using nx gap_small [OF g] b by (subst free_search.simps) (simp add: small_less)
next
  case (Cons z zs)
  obtain b k where b: "last ws = (b, k)" by (cases "last ws")
  obtain c i where z: "z = (c, i)" by (cases z)
  have w: "ws = butlast ws @ [(b, k)]" using b Cons.prems(2) by (metis append_butlast_last_id)
  have e: "us @ vs = (us @ butlast ws @ [(b, k)]) @ (c, i) # zs" using w Cons.prems(1) z by (metis append.assoc)
  have "linked_to m (of_nat base) (us @ vs) (of_nat base)" using g by (simp add: gap_def free_ring_def)
  then have r: "linked_to m (of_nat base) (us @ butlast ws @ [(b, k)]) (of_nat c)" unfolding e linked_append by (simp add: head_of_def)
  have nx: "header_ptr m (of_nat b) = of_nat c" using linked_next [OF r] by (simp add: last_of_def)
  have "vs = butlast ws @ (b, k) # (c, i) # zs" using w Cons.prems(1) z by (metis append.assoc append_Cons append_Nil)
  then have o: "ordered (a + 8 * n) (butlast ws @ (b, k) # (c, i) # zs)" "0 < n" using g by (auto simp: gap_def ordered_append [of _ us])
  then have o2: "ordered (b + 8 * k) ((c, i) # zs)" by (simp add: ordered_append [of _ "butlast ws"])
  have "a < b" "0 < k" using ordered_bounds [OF o(1), of b k] o(2) by auto
  then have "a < b" "b < c" "c < 2 ^ 32" using ordered_bounds [OF o2, of c i] by auto
  then have "free_search m (of_nat a) (of_nat b) = free_search m (of_nat a) (of_nat c)"
    using nx gap_small [OF g] by (subst free_search.simps) (simp add: small_less)
  also have "\<dots> = free_search m (of_nat a) (of_nat base)" using Cons.IH [of "ws @ [z]"] Cons.prems z by simp
  finally show ?case using b by simp
qed

lemma search_ok:
  assumes g: "gap m base us vs a n"
  shows "free_search m (of_nat a) (freep m) = Some (of_nat (last_of base us))"
proof -
  obtain q where q: "q \<in> insert base (fst ` set (us @ vs))" "freep m = of_nat q" using g by (auto simp: gap_def free_ring_def)
  have b: "free_search m (of_nat a) (of_nat base) = Some (of_nat (last_of base us))"
    using search_forward [OF g, of "[]" us] by (simp add: last_of_def)
  consider "q = base" | k where "(q, k) \<in> set us" | k where "(q, k) \<in> set vs" using q(1) by force
  then show ?thesis
  proof cases
    case 1
    then show ?thesis using b q(2) by simp
  next
    case 2
    then obtain xs zs where "us = (xs @ [(q, k)]) @ zs" by (metis append.assoc append_Cons append_Nil split_list)
    then show ?thesis using search_forward [OF g, of "xs @ [(q, k)]" zs] q(2) by simp
  next
    case 3
    then obtain xs zs where "vs = (xs @ [(q, k)]) @ zs" by (metis append.assoc append_Cons append_Nil split_list)
    then show ?thesis using search_wrap [OF g, of "xs @ [(q, k)]" zs] b q(2) by simp
  qed
qed

section \<open>Linking a block\<close>

lemma linked_headed: "linked_to m p ys e \<longleftrightarrow> header_ptr m p = head_of ys e \<and> headed m ys e"
  using linked_append [of m p "[]" ys e] by simp

lemma headed_frame:
  assumes "\<forall>x\<in>header_words (fst ` set bs). um_mem m' x = um_mem m x"
  shows "headed m' bs e \<longleftrightarrow> headed m bs e"
proof (cases bs)
  case (Cons b bs')
  obtain a n where b: "b = (a, n)" by (cases b)
  have "linked_to m' (of_nat a) bs' e \<longleftrightarrow> linked_to m (of_nat a) bs' e"
    using assms Cons b by (intro linked_frame) (auto simp: header_words_def)
  then show ?thesis using assms Cons b by (auto simp: header_size_def header_words_def)
qed simp

lemma header_apart:
  assumes "a + 8 \<le> b" "b + 8 \<le> 2 ^ 32"
  shows "of_nat a \<noteq> (of_nat b :: u32)" "of_nat a + 4 \<noteq> (of_nat b :: u32)" "of_nat a \<noteq> (of_nat b + 4 :: u32)" "of_nat a + 4 \<noteq> (of_nat b + 4 :: u32)"
  using assms small_less(3) [of a b] small_less(3) [of "a + 4" b] small_less(3) [of a "b + 4"] small_less(3) [of "a + 4" "b + 4"]
  by simp_all

text \<open>What the merge with the next block makes of the freed one and of the blocks behind it.\<close>

definition merge_up :: "nat \<Rightarrow> nat \<Rightarrow> blocks \<Rightarrow> nat \<times> blocks" where
  "merge_up a n vs = (case vs of [] \<Rightarrow> (n, []) | (b, k) # vs' \<Rightarrow> if b = a + 8 * n then (n + k, vs') else (n, vs))"

definition link_up :: "u32 \<Rightarrow> u32 \<Rightarrow> um \<Rightarrow> um" where
  "link_up bp nxt m = (if units bp (header_size m bp) = nxt
     then let m = set_size bp (header_size m bp + header_size m nxt) m in set_ptr bp (header_ptr m nxt) m
     else set_ptr bp nxt m)"

definition link_down :: "u32 \<Rightarrow> u32 \<Rightarrow> um \<Rightarrow> um" where
  "link_down bp p m = (if units p (header_size m p) = bp
     then let m = set_size p (header_size m p + header_size m bp) m in set_ptr p (header_ptr m bp) m
     else set_ptr p bp m)"

lemma free_link_eq: "free_link bp p m = (link_down bp p (link_up bp (header_ptr m p) m))\<lparr>freep := p\<rparr>"
  by (simp add: free_link_def link_up_def link_down_def Let_def)

lemma units_small: "units (of_nat a) (of_nat n) = of_nat (a + 8 * n)"
  by (simp add: units_def)

lemma word_4 [simp]: "x + 4 \<noteq> (x :: u32)"
  by simp

lemma link_up_ok:
  assumes o: "ordered (base + 8) ((a, n) # vs)" and h: "headed m vs (of_nat base)" "header_size m (of_nat a) = of_nat n"
  defines "m' \<equiv> link_up (of_nat a) (head_of vs (of_nat base)) m" and "n1 \<equiv> fst (merge_up a n vs)" and "vs1 \<equiv> snd (merge_up a n vs)"
  shows "header_size m' (of_nat a) = of_nat n1" "header_ptr m' (of_nat a) = head_of vs1 (of_nat base)" "headed m vs1 (of_nat base)"
    "x \<notin> {of_nat a, of_nat a + 4} \<Longrightarrow> um_mem m' x = um_mem m x" "ordered (base + 8) ((a, n1) # vs1)"
    "area ((a, n1) # vs1) = region a n \<union> area vs" "freep m' = freep m"
proof -
  have a: "base + 8 \<le> a" "0 < n" "a + 8 * n \<le> 2 ^ 31" using o by auto
  consider (nil) "vs = []" | (other) b k vs' where "vs = (b, k) # vs'" "b \<noteq> a + 8 * n" | (merge) k vs' where "vs = (a + 8 * n, k) # vs'"
    by (cases vs) auto
  then have "header_size m' (of_nat a) = of_nat n1 \<and> header_ptr m' (of_nat a) = head_of vs1 (of_nat base) \<and> headed m vs1 (of_nat base) \<and>
    (\<forall>x. x \<notin> {of_nat a, of_nat a + 4} \<longrightarrow> um_mem m' x = um_mem m x) \<and> ordered (base + 8) ((a, n1) # vs1) \<and>
    area ((a, n1) # vs1) = region a n \<union> area vs \<and> freep m' = freep m"
  proof cases
    case nil
    have "units (of_nat a) (of_nat n) \<noteq> of_nat base" using a small_less(3) [of "a + 8 * n" base] by (simp only: units_small) simp
    then show ?thesis using nil h o
      by (simp add: m'_def n1_def vs1_def merge_up_def head_of_def link_up_def set_ptr_def header_size_def header_ptr_def area_def)
  next
    case other
    have "b < 2 ^ 32" using o other(1) by auto
    then have "units (of_nat a) (of_nat n) \<noteq> of_nat b" using a other(2) small_less(3) [of "a + 8 * n" b] by (simp only: units_small) simp
    then show ?thesis using other h o
      by (simp add: m'_def n1_def vs1_def merge_up_def head_of_def link_up_def set_ptr_def header_size_def header_ptr_def area_def)
  next
    case merge
    let ?b = "a + 8 * n"
    have b: "?b + 8 * k \<le> 2 ^ 31" "0 < k" using o merge by auto
    note ap = header_apart [of a ?b]
    have e: "units (of_nat a) (of_nat n) = of_nat ?b" by (rule units_small)
    have hb: "header_size m (of_nat ?b) = of_nat k" "header_ptr m (of_nat ?b) = head_of vs' (of_nat base)" "headed m vs' (of_nat base)"
      using h(1) merge linked_headed by auto
    have ne: "of_nat ?b \<noteq> (of_nat a + 4 :: u32)" using ap(2) a b by auto
    have m': "m' = set_ptr (of_nat a) (head_of vs' (of_nat base)) (set_size (of_nat a) (of_nat n + of_nat k) m)"
      using h(2) hb(1,2) ne e
      by (simp add: m'_def head_of_def merge link_up_def Let_def set_size_def header_ptr_def del: of_nat_add of_nat_mult)
    have ord: "ordered (base + 8) ((a, n + k) # vs')" using o merge by (auto simp: algebra_simps)
    have ar: "region a (n + k) = region a n \<union> region ?b k" by (auto simp: region_def)
    show ?thesis using hb(3) ord ar merge
      by (simp add: m' n1_def vs1_def merge_up_def set_ptr_def set_size_def header_size_def header_ptr_def area_def Un_assoc)
  qed
  then show "header_size m' (of_nat a) = of_nat n1" "header_ptr m' (of_nat a) = head_of vs1 (of_nat base)" "headed m vs1 (of_nat base)"
    "x \<notin> {of_nat a, of_nat a + 4} \<Longrightarrow> um_mem m' x = um_mem m x" "ordered (base + 8) ((a, n1) # vs1)"
    "area ((a, n1) # vs1) = region a n \<union> area vs" "freep m' = freep m" by blast+
qed

text \<open>Words outside the free blocks and the header \<open>base\<close> are not touched.\<close>

definition keeps_used :: "nat \<Rightarrow> nat set \<Rightarrow> um \<Rightarrow> um \<Rightarrow> bool" where
  "keeps_used base A m m' \<longleftrightarrow> (\<forall>y<2 ^ 32. y \<notin> A \<union> region base 1 \<longrightarrow> um_mem m' (of_nat y) = um_mem m (of_nat y))"

lemma keeps_usedI:
  assumes "\<forall>x. x \<notin> header_words H \<longrightarrow> um_mem m' x = um_mem m x"
    and "\<forall>h\<in>H. h + 8 \<le> 2 ^ 32 \<and> {h, h + 4} \<subseteq> A \<union> region base 1"
  shows "keeps_used base A m m'"
  unfolding keeps_used_def
proof (intro allI impI)
  fix y :: nat assume y: "y < 2 ^ 32" "y \<notin> A \<union> region base 1"
  have "of_nat y \<notin> header_words H"
  proof
    assume "of_nat y \<in> header_words H"
    then obtain h where h: "h \<in> H" "of_nat y = (of_nat h :: u32) \<or> of_nat y = (of_nat (h + 4) :: u32)" by (auto simp: header_words_def)
    have "h < 2 ^ 32" "h + 4 < 2 ^ 32" using assms(2) h(1) by auto
    then have "y = h \<or> y = h + 4" using h(2) y(1) small_less(3) by blast
    then show False using y(2) assms(2) h(1) by blast
  qed
  then show "um_mem m' (of_nat y) = um_mem m (of_nat y)" using assms(1) by blast
qed

lemma area_append [simp]: "area (xs @ ys) = area xs \<union> area ys" "area ((a, n) # ys) = region a n \<union> area ys" "area [] = {}"
  by (auto simp: area_def)

lemma header_words_insert: "header_words (insert a A) = insert (of_nat a) (insert (of_nat a + 4) (header_words A))"
  by (auto simp: header_words_def)

lemma not_header:
  assumes "\<forall>b\<in>B. (b + 8 \<le> a \<or> a + 8 \<le> b) \<and> b + 8 \<le> 2 ^ 32" "a + 8 \<le> 2 ^ 32"
  shows "(of_nat a :: u32) \<notin> header_words B" "(of_nat a + 4 :: u32) \<notin> header_words B"
proof -
  have "of_nat a \<noteq> (of_nat b :: u32) \<and> of_nat a + 4 \<noteq> (of_nat b :: u32) \<and> of_nat a \<noteq> (of_nat b + 4 :: u32) \<and>
      of_nat a + 4 \<noteq> (of_nat b + 4 :: u32)" if "b \<in> B" for b
    using assms that header_apart [of a b] header_apart [of b a] by metis
  then show "(of_nat a :: u32) \<notin> header_words B" "(of_nat a + 4 :: u32) \<notin> header_words B" by (auto simp: header_words_def)
qed

text \<open>The headers of a part of the ring are at least 8 bytes away from the blocks around it.\<close>

lemma headers_below:
  assumes "ordered (base + 8) (us @ (a, n) # vs)" "b \<in> insert base (fst ` set us)"
  shows "b + 8 \<le> a"
proof -
  have o: "ordered (base + 8) us" "base + 8 \<le> a" using assms(1) ordered_bounds [OF assms(1), of a n] by (auto simp: ordered_append)
  show ?thesis
  proof (cases "b = base")
    case False
    then obtain k where k: "(b, k) \<in> set us" using assms(2) by auto
    then obtain xs ys where us: "us = xs @ (b, k) # ys" by (metis split_list)
    then have "ordered (base + 8) (xs @ (b, k) # ys @ (a, n) # vs)" using assms(1) by simp
    then have "ordered (b + 8 * k) (ys @ (a, n) # vs)" "0 < k" by (simp_all add: ordered_append [of _ xs])
    then show ?thesis using ordered_bounds [of "b + 8 * k" "ys @ (a, n) # vs" a n] by simp
  qed (use o in simp)
qed

lemma headers_above:
  assumes "ordered lo ((a, n) # vs)" "b \<in> fst ` set vs"
  shows "a + 8 \<le> b \<and> b + 8 \<le> 2 ^ 31"
proof -
  have o: "ordered (a + 8 * n) vs" "0 < n" using assms(1) by auto
  obtain k where "(b, k) \<in> set vs" using assms(2) by auto
  then show ?thesis using ordered_bounds [OF o(1)] o(2) by fastforce
qed

text \<open>
  A changed memory \<open>m'\<close> in which the header at \<open>q\<close>, the last one of the lower part, is followed by \<open>ws\<close>: the
  headers below \<open>q\<close> and those of \<open>ws\<close> are as in \<open>m\<close>.
\<close>

lemma ring_built:
  assumes lk: "linked_to m (of_nat base) us (of_nat q)" "header_size m (of_nat base) = 0" and b: "0 < base" "base + 8 \<le> 2 ^ 31"
    and o: "ordered (base + 8) (us @ (q, k) # ws)" and hd: "headed m ws (of_nat base)"
    and q: "header_size m' (of_nat q) = of_nat k" "header_ptr m' (of_nat q) = head_of ws (of_nat base)"
    and same: "\<forall>x\<in>header_words (insert base (fst ` set us) \<union> fst ` set ws). um_mem m' x = um_mem m x"
    and fp: "f \<in> insert base (fst ` set (us @ (q, k) # ws))"
  shows "free_ring (m'\<lparr>freep := of_nat f\<rparr>) base (us @ (q, k) # ws)"
proof -
  have w: "insert (of_nat base) (header_words (fst ` set us)) \<subseteq> header_words (insert base (fst ` set us) \<union> fst ` set ws)"
    "header_words (fst ` set ws) \<subseteq> header_words (insert base (fst ` set us) \<union> fst ` set ws)"
    unfolding header_words_def by blast+
  have 1: "linked_to m' (of_nat base) us (of_nat q)"
    using lk(1) linked_frame [of "of_nat base" us m' m] same w(1) by blast
  have 2: "headed m' ws (of_nat base)" using hd headed_frame [of ws m' m] same w(2) by blast
  have 3: "header_size m' (of_nat base) = 0" using lk(2) same by (auto simp: header_size_def header_words_def)
  have 4: "linked_to m' (of_nat base) (us @ (q, k) # ws) (of_nat base)"
    using 1 2 q by (simp add: linked_append head_of_def linked_headed [of m' "of_nat q"])
  have "linked_to (m'\<lparr>freep := of_nat f\<rparr>) p bs e \<longleftrightarrow> linked_to m' p bs e" for p bs e by (rule linked_frame) simp
  moreover have "header_size (m'\<lparr>freep := of_nat f\<rparr>) p = header_size m' p" for p by (simp add: header_size_def)
  ultimately show ?thesis using 3 4 b o fp unfolding free_ring_def by auto
qed

lemma link_down_merge:
  assumes o: "ordered (base + 8) (us @ (q, k) # (a, n) # vs)" and a: "a = q + 8 * k"
    and lk: "linked_to m (of_nat base) us (of_nat q)" "header_size m (of_nat base) = 0" "0 < base" "base + 8 \<le> 2 ^ 31"
    and hq: "header_size m (of_nat q) = of_nat k" and hd: "headed m vs (of_nat base)"
    and ha: "header_size m (of_nat a) = of_nat n" "header_ptr m (of_nat a) = head_of vs (of_nat base)"
  shows "free_ring ((link_down (of_nat a) (of_nat q) m)\<lparr>freep := of_nat q\<rparr>) base (us @ (q, k + n) # vs)"
    "\<forall>x. x \<notin> header_words {q} \<longrightarrow> um_mem (link_down (of_nat a) (of_nat q) m) x = um_mem m x"
proof -
  have kq: "0 < k" "q + 8 * k \<le> 2 ^ 31" "q + 8 \<le> a" using o a by (auto simp: ordered_append [of _ us])
  have "of_nat a \<noteq> (of_nat q + 4 :: u32)" using header_apart(2) [of q a] kq a by auto
  then have l: "link_down (of_nat a) (of_nat q) m = set_ptr (of_nat q) (head_of vs (of_nat base)) (set_size (of_nat q) (of_nat k + of_nat n) m)"
    using hq ha a units_small [of q k] by (simp add: link_down_def Let_def set_size_def header_ptr_def del: of_nat_add of_nat_mult)
  show f: "\<forall>x. x \<notin> header_words {q} \<longrightarrow> um_mem (link_down (of_nat a) (of_nat q) m) x = um_mem m x"
    by (simp add: l header_words_def set_ptr_def set_size_def)
  have o': "ordered (base + 8) (us @ (q, k + n) # vs)" using o a by (auto simp: ordered_append [of _ us] algebra_simps)
  then have o3: "ordered q ((q, k + n) # vs)" by (simp add: ordered_append [of _ us])
  let ?H = "insert base (fst ` set us) \<union> fst ` set vs"
  have "\<forall>b\<in>?H. (b + 8 \<le> q \<or> q + 8 \<le> b) \<and> b + 8 \<le> 2 ^ 32"
  proof
    fix b assume "b \<in> ?H"
    then have "b + 8 \<le> q \<or> q + 8 \<le> b \<and> b + 8 \<le> 2 ^ 31" using headers_above [OF o3, of b] headers_below [OF o, of b] by blast
    then show "(b + 8 \<le> q \<or> q + 8 \<le> b) \<and> b + 8 \<le> 2 ^ 32" using kq by auto
  qed
  then have nh: "of_nat q \<notin> header_words ?H" "of_nat q + 4 \<notin> header_words ?H" using kq not_header [of ?H q] by simp_all
  have "x \<notin> header_words {q}" if "x \<in> header_words ?H" for x using that nh unfolding header_words_def [of "{q}"] by blast
  then have same: "\<forall>x\<in>header_words ?H. um_mem (link_down (of_nat a) (of_nat q) m) x = um_mem m x" using f by blast
  show "free_ring ((link_down (of_nat a) (of_nat q) m)\<lparr>freep := of_nat q\<rparr>) base (us @ (q, k + n) # vs)"
    by (rule ring_built [OF lk o' hd _ _ same]) (simp_all add: l set_ptr_def set_size_def header_size_def header_ptr_def)
qed

text \<open>The pointer of the last header can be redirected.\<close>

lemma linked_retarget:
  assumes lk: "linked_to m (of_nat base) us e" and o: "ordered (base + 8) us"
  shows "linked_to (set_ptr (of_nat (last_of base us)) e' m) (of_nat base) us e'"
proof (cases us rule: rev_cases)
  case Nil
  then show ?thesis by (simp add: last_of_def header_ptr_def set_ptr_def)
next
  case (snoc us0 q)
  obtain p k where q: "q = (p, k)" by (cases q)
  have o0: "ordered (base + 8) (us0 @ (p, k) # [])" using o snoc q by simp
  have p8: "p + 8 \<le> 2 ^ 31" using ordered_bounds [OF o0, of p k] by simp
  have "\<forall>b\<in>insert base (fst ` set us0). (b + 8 \<le> p \<or> p + 8 \<le> b) \<and> b + 8 \<le> 2 ^ 32"
  proof
    fix b assume "b \<in> insert base (fst ` set us0)"
    from headers_below [OF o0 this] show "(b + 8 \<le> p \<or> p + 8 \<le> b) \<and> b + 8 \<le> 2 ^ 32" using p8 by simp
  qed
  then have "of_nat p \<notin> header_words (insert base (fst ` set us0))" using p8 not_header(1) [of "insert base (fst ` set us0)" p] by simp
  then have "\<forall>x\<in>insert (of_nat base) (header_words (fst ` set us0)). um_mem (set_ptr (of_nat p) e' m) x = um_mem m x"
    by (auto simp: set_ptr_def header_words_insert)
  from linked_frame [OF this, of "of_nat p"] show ?thesis
    using lk snoc q by (simp add: linked_append head_of_def) (simp add: header_ptr_def header_size_def set_ptr_def)
qed

lemma link_down_link:
  assumes o: "ordered (base + 8) (us @ (a, n) # vs)" and p: "p = last_of base us" and np: "units (of_nat p) (header_size m (of_nat p)) \<noteq> of_nat a"
    and lk: "linked_to m (of_nat base) us e" "header_size m (of_nat base) = 0" "0 < base" "base + 8 \<le> 2 ^ 31"
    and hd: "headed m vs (of_nat base)"
    and ha: "header_size m (of_nat a) = of_nat n" "header_ptr m (of_nat a) = head_of vs (of_nat base)"
  shows "free_ring ((link_down (of_nat a) (of_nat p) m)\<lparr>freep := of_nat p\<rparr>) base (us @ (a, n) # vs)"
    "\<forall>x. x \<notin> header_words {p} \<longrightarrow> um_mem (link_down (of_nat a) (of_nat p) m) x = um_mem m x"
proof -
  have l: "link_down (of_nat a) (of_nat p) m = set_ptr (of_nat p) (of_nat a) m" using np by (simp add: link_down_def)
  show f: "\<forall>x. x \<notin> header_words {p} \<longrightarrow> um_mem (link_down (of_nat a) (of_nat p) m) x = um_mem m x"
    by (simp add: l header_words_def set_ptr_def)
  have pin: "p \<in> insert base (fst ` set us)" using p by (simp add: last_of_def)
  have a: "a + 8 \<le> 2 ^ 31" using ordered_bounds [OF o, of a n] by simp
  have pa: "p + 8 \<le> a" by (rule headers_below [OF o pin])
  have o3: "ordered a ((a, n) # vs)" using o by (simp add: ordered_append)
  have "\<forall>b\<in>insert a (fst ` set vs). (b + 8 \<le> p \<or> p + 8 \<le> b) \<and> b + 8 \<le> 2 ^ 32"
    using headers_above [OF o3] pa a by fastforce
  then have "of_nat p \<notin> header_words (insert a (fst ` set vs))" using a pa not_header(1) [of "insert a (fst ` set vs)" p] by simp
  then have up: "um_mem (set_ptr (of_nat p) (of_nat a) m) x = um_mem m x" if "x \<in> header_words (insert a (fst ` set vs))" for x
    using that by (auto simp: set_ptr_def)
  have low: "linked_to (set_ptr (of_nat p) (of_nat a) m) (of_nat base) us (of_nat a)"
    using o unfolding p by (intro linked_retarget [OF lk(1)]) (simp add: ordered_append)
  have "linked_to (set_ptr (of_nat p) (of_nat a) m) (of_nat base) (us @ (a, n) # vs) (of_nat base)"
    using low hd ha up headed_frame [of vs "set_ptr (of_nat p) (of_nat a) m" m]
    by (simp add: linked_append head_of_def linked_headed [of _ "of_nat a"]) (simp add: header_words_insert header_size_def header_ptr_def)
  moreover have "of_nat base + 4 \<noteq> (of_nat p :: u32)"
  proof -
    have "p = base \<or> base + 8 \<le> p" using pin ordered_bounds [of "base + 8" us p] o by (auto simp: ordered_append)
    then show ?thesis using header_apart(2) [of base p] pa a by auto
  qed
  ultimately show "free_ring ((link_down (of_nat a) (of_nat p) m)\<lparr>freep := of_nat p\<rparr>) base (us @ (a, n) # vs)"
    using lk o pin linked_frame [of "of_nat base" "us @ (a, n) # vs" "(set_ptr (of_nat p) (of_nat a) m)\<lparr>freep := of_nat p\<rparr>"
        "set_ptr (of_nat p) (of_nat a) m" "of_nat base"]
    by (auto simp: free_ring_def l header_size_def set_ptr_def)
qed

lemma link_down_ring:
  assumes o: "ordered (base + 8) (us @ (a, n) # vs)" and p: "p = last_of base us"
    and lk: "linked_to m (of_nat base) us e" "header_size m (of_nat base) = 0" "0 < base" "base + 8 \<le> 2 ^ 31"
    and hd: "headed m vs (of_nat base)"
    and ha: "header_size m (of_nat a) = of_nat n" "header_ptr m (of_nat a) = head_of vs (of_nat base)"
  shows "\<exists>bs'. free_ring ((link_down (of_nat a) (of_nat p) m)\<lparr>freep := of_nat p\<rparr>) base bs' \<and> area bs' = area us \<union> (region a n \<union> area vs) \<and>
    (\<exists>(b, k)\<in>set bs'. n \<le> k) \<and> {p, p + 4} \<subseteq> area bs' \<union> region base 1 \<and>
    (\<forall>x. x \<notin> header_words {p} \<longrightarrow> um_mem ((link_down (of_nat a) (of_nat p) m)\<lparr>freep := of_nat p\<rparr>) x = um_mem m x)"
proof (cases us rule: rev_cases)
  case Nil
  then have pb: "p = base" using p by (simp add: last_of_def)
  have "base < a" "a < 2 ^ 32" using ordered_bounds [OF o, of a n] by auto
  then have "units (of_nat p) (header_size m (of_nat p)) \<noteq> of_nat a" using lk(2,4) small_less(3) [of base a] by (simp add: pb units_def)
  note l = link_down_link [OF o p this lk hd ha]
  show ?thesis using l Nil pb by (intro exI [of _ "us @ (a, n) # vs"]) (auto simp: region_def)
next
  case (snoc us0 q)
  obtain k where q: "q = (p, k)" using snoc p by (cases q) (auto simp: last_of_def)
  have o0: "ordered (base + 8) (us0 @ (p, k) # (a, n) # vs)" using o snoc q by simp
  have pk: "0 < k" "p + 8 * k \<le> 2 ^ 31" "a + 8 * n \<le> 2 ^ 31" using ordered_bounds [OF o0, of p k] ordered_bounds [OF o0, of a n] by auto
  have hq: "linked_to m (of_nat base) us0 (of_nat p)" "header_size m (of_nat p) = of_nat k"
    using lk(1) snoc q by (simp_all add: linked_append head_of_def)
  have pin: "{p, p + 4} \<subseteq> region p k" using pk(1) by (auto simp: region_def)
  show ?thesis
  proof (cases "a = p + 8 * k")
    case True
    note l = link_down_merge [OF o0 True hq(1) lk(2-4) hq(2) hd ha]
    have "region p (k + n) = region p k \<union> region a n" using True by (auto simp: region_def)
    then show ?thesis using l snoc q pin by (intro exI [of _ "us0 @ (p, k + n) # vs"]) auto
  next
    case False
    then have "units (of_nat p) (header_size m (of_nat p)) \<noteq> of_nat a"
      using pk small_less(3) [of "p + 8 * k" a] unfolding hq(2) units_small by auto
    note l = link_down_link [OF o p this lk hd ha]
    show ?thesis using l snoc q pin by (intro exI [of _ "us @ (a, n) # vs"]) auto
  qed
qed

section \<open>free\<close>

lemma ordered_split:
  assumes "ordered lo bs" "lo \<le> a" "0 < n" "a + 8 * n \<le> 2 ^ 31" "region a n \<inter> area bs = {}"
  shows "\<exists>us vs. bs = us @ vs \<and> ordered lo (us @ (a, n) # vs)"
  using assms
proof (induction bs arbitrary: lo)
  case Nil
  then show ?case by auto
next
  case (Cons b bs)
  obtain c k where b: "b = (c, k)" by (cases b)
  have c: "0 < k" "lo \<le> c" "c + 8 * k \<le> 2 ^ 31" "ordered (c + 8 * k) bs" using Cons.prems(1) b by auto
  have dis: "region a n \<inter> region c k = {}" "region a n \<inter> area bs = {}" using Cons.prems(5) b by auto
  show ?case
  proof (cases "a < c")
    case True
    have "c \<notin> region a n" using dis(1) c(1) by (auto simp: region_def)
    then have "a + 8 * n \<le> c" using True by (simp add: region_def)
    then have "ordered lo ([] @ (a, n) # b # bs)" using Cons.prems b by auto
    then show ?thesis by blast
  next
    case False
    have "a \<notin> region c k" using dis(1) Cons.prems(3) by (auto simp: region_def)
    then have "c + 8 * k \<le> a" using False by (simp add: region_def)
    then obtain us vs where "bs = us @ vs" "ordered (c + 8 * k) (us @ (a, n) # vs)"
      using Cons.IH [OF c(4) _ Cons.prems(3,4) dis(2)] by blast
    then show ?thesis using c b by (intro exI [of _ "b # us"] exI [of _ vs]) simp
  qed
qed

lemma free_gap:
  assumes g: "gap m base us vs a n" and hs: "header_size m (of_nat a) = of_nat n"
  shows "\<exists>m' bs'. u_free (of_nat a + 8) m = Some m' \<and> free_ring m' base bs' \<and> area bs' = area (us @ vs) \<union> region a n \<and>
    (\<exists>(b, k)\<in>set bs'. n \<le> k) \<and> keeps_used base (area bs') m m'"
proof -
  define p where "p = last_of base us"
  define m1 where "m1 = link_up (of_nat a) (head_of vs (of_nat base)) m"
  define n1 where "n1 = fst (merge_up a n vs)"
  define vs1 where "vs1 = snd (merge_up a n vs)"
  have o: "ordered (base + 8) (us @ (a, n) # vs)" and r: "free_ring m base (us @ vs)" using g by (auto simp: gap_def)
  have o2: "ordered a ((a, n) # vs)" using o by (simp add: ordered_append)
  have ab: "base + 8 \<le> a" using headers_below [OF o, of base] by simp
  have ol: "ordered (base + 8) ((a, n) # vs)" using o2 ab by simp
  have lk: "linked_to m (of_nat base) us (head_of vs (of_nat base))" "headed m vs (of_nat base)" "header_size m (of_nat base) = 0"
    "0 < base" "base + 8 \<le> 2 ^ 31"
    using r by (auto simp: free_ring_def linked_append)
  note lu = link_up_ok [OF ol lk(2) hs, folded m1_def n1_def vs1_def]
  have o1: "ordered (base + 8) (us @ (a, n1) # vs1)" using o lu(5) by (auto simp: ordered_append)
  have pin: "p \<in> insert base (fst ` set us)" by (simp add: p_def last_of_def)
  have pa: "p + 8 \<le> a" by (rule headers_below [OF o pin])
  have a8: "a + 8 \<le> 2 ^ 31" using ordered_bounds [OF o, of a n] by simp
  have nh: "of_nat a \<notin> header_words (insert base (fst ` set us) \<union> fst ` set vs1)"
    "of_nat a + 4 \<notin> header_words (insert base (fst ` set us) \<union> fst ` set vs1)"
  proof -
    have o3: "ordered a ((a, n1) # vs1)" using o1 by (simp add: ordered_append)
    have "\<forall>b\<in>insert base (fst ` set us) \<union> fst ` set vs1. (b + 8 \<le> a \<or> a + 8 \<le> b) \<and> b + 8 \<le> 2 ^ 32"
    proof
      fix b assume "b \<in> insert base (fst ` set us) \<union> fst ` set vs1"
      then have "b + 8 \<le> a \<or> a + 8 \<le> b \<and> b + 8 \<le> 2 ^ 31" using headers_above [OF o3, of b] headers_below [OF o, of b] by blast
      then show "(b + 8 \<le> a \<or> a + 8 \<le> b) \<and> b + 8 \<le> 2 ^ 32" using a8 by auto
    qed
    then show "of_nat a \<notin> header_words (insert base (fst ` set us) \<union> fst ` set vs1)"
      "of_nat a + 4 \<notin> header_words (insert base (fst ` set us) \<union> fst ` set vs1)"
      using a8 not_header [of "insert base (fst ` set us) \<union> fst ` set vs1" a] by simp_all
  qed
  have m1: "um_mem m1 x = um_mem m x" if "x \<in> header_words (insert base (fst ` set us) \<union> fst ` set vs1)" for x
    using that nh by (intro lu(4)) auto
  have w: "insert (of_nat base) (header_words (fst ` set us)) \<subseteq> header_words (insert base (fst ` set us) \<union> fst ` set vs1)"
    "header_words (fst ` set vs1) \<subseteq> header_words (insert base (fst ` set us) \<union> fst ` set vs1)"
    "of_nat base + 4 \<in> header_words (insert base (fst ` set us) \<union> fst ` set vs1)"
    unfolding header_words_def by blast+
  have l1: "linked_to m1 (of_nat base) us (head_of vs (of_nat base))" using lk(1) linked_frame [of "of_nat base" us m1 m] m1 w(1) by blast
  have h1: "headed m1 vs1 (of_nat base)" using lu(3) headed_frame [of vs1 m1 m] m1 w(2) by blast
  have b1: "header_size m1 (of_nat base) = 0" using lk(3) m1 [OF w(3)] by (simp add: header_size_def)
  define m2 where "m2 = (link_down (of_nat a) (of_nat p) m1)\<lparr>freep := of_nat p\<rparr>"
  obtain bs' where bs: "free_ring m2 base bs'" "area bs' = area us \<union> (region a n1 \<union> area vs1)" "{p, p + 4} \<subseteq> area bs' \<union> region base 1"
    "\<forall>x. x \<notin> header_words {p} \<longrightarrow> um_mem m2 x = um_mem m1 x" "\<exists>(b, k)\<in>set bs'. n1 \<le> k"
    using link_down_ring [OF o1 p_def l1 b1 lk(4,5) h1 lu(1,2)] unfolding m2_def by blast
  have ar: "area bs' = area (us @ vs) \<union> region a n" using bs(2) lu(6) by auto
  have "keeps_used base (area bs') m m2"
  proof (rule keeps_usedI [of "{a, p}"])
    show "\<forall>x. x \<notin> header_words {a, p} \<longrightarrow> um_mem m2 x = um_mem m x" using bs(4) lu(4) by (auto simp: header_words_def)
    show "\<forall>h\<in>{a, p}. h + 8 \<le> 2 ^ 32 \<and> {h, h + 4} \<subseteq> area bs' \<union> region base 1"
      using ar bs(3) a8 pa o2 by (auto simp: region_def)
  qed
  moreover have "u_free (of_nat a + 8) m = Some m2"
    using search_ok [OF g] linked_next [OF lk(1)] by (simp add: u_free_def free_link_eq m2_def m1_def p_def Let_def)
  moreover have "\<exists>(b, k)\<in>set bs'. n \<le> k"
  proof -
    obtain b k where "(b, k) \<in> set bs'" "n1 \<le> k" using bs(5) by auto
    moreover have "n \<le> n1" by (auto simp: n1_def merge_up_def split: list.splits)
    ultimately show ?thesis by (intro bexI [of _ "(b, k)"]) auto
  qed
  ultimately show ?thesis using bs(1) ar by blast
qed

lemma u_free_ok:
  assumes r: "free_ring m base bs" and hs: "header_size m (of_nat a) = of_nat n"
    and a: "base + 8 \<le> a" "0 < n" "a + 8 * n \<le> 2 ^ 31" "region a n \<inter> area bs = {}"
  shows "\<exists>m' bs'. u_free (of_nat a + 8) m = Some m' \<and> free_ring m' base bs' \<and> area bs' = area bs \<union> region a n \<and>
    (\<exists>(b, k)\<in>set bs'. n \<le> k) \<and> keeps_used base (area bs') m m'"
proof -
  have "ordered (base + 8) bs" using r by (simp add: free_ring_def)
  then obtain us vs where s: "bs = us @ vs" "ordered (base + 8) (us @ (a, n) # vs)" using ordered_split a by blast
  then have "gap m base us vs a n" using r by (simp add: gap_def)
  then show ?thesis using free_gap hs s(1) by blast
qed

section \<open>malloc\<close>

text \<open>A block of \<open>k\<close> units from which \<open>n\<close> are taken: the whole block, or its tail.\<close>

lemma ordered_disjoint:
  assumes "ordered lo (us @ (a, k) # ws)"
  shows "region a k \<inter> area us = {}" "region a k \<inter> area ws = {}"
proof -
  have o: "ordered lo us" "ordered (a + 8 * k) ws" using assms by (auto simp: ordered_append)
  have le: "b + 8 * i \<le> a" if "(b, i) \<in> set us" for b i
  proof -
    from split_list [OF that] obtain xs ys where "us = xs @ (b, i) # ys" by blast
    then have "ordered (b + 8 * i) (ys @ (a, k) # ws)" using assms by (simp add: ordered_append [of _ xs])
    then show ?thesis using ordered_bounds [of "b + 8 * i" "ys @ (a, k) # ws" a k] by simp
  qed
  show "region a k \<inter> area us = {}"
  proof (rule equals0I)
    fix x assume "x \<in> region a k \<inter> area us"
    then obtain b i where "(b, i) \<in> set us" "x < b + 8 * i" "a \<le> x" by (auto simp: area_def region_def)
    then show False using le [of b i] by linarith
  qed
  show "region a k \<inter> area ws = {}"
  proof (rule equals0I)
    fix x assume "x \<in> region a k \<inter> area ws"
    then obtain b i where "(b, i) \<in> set ws" "b \<le> x" "x < a + 8 * k" by (auto simp: area_def region_def)
    then show False using ordered_bounds [OF o(2), of b i] by linarith
  qed
qed

lemma take_exact:
  assumes r: "free_ring m base (us @ (a, k) # ws)"
  defines "m' \<equiv> (set_ptr (of_nat (last_of base us)) (header_ptr m (of_nat a)) m)\<lparr>freep := of_nat (last_of base us)\<rparr>"
  shows "free_ring m' base (us @ ws)" "header_size m' (of_nat a) = of_nat k" "area (us @ ws) = area (us @ (a, k) # ws) - region a k"
    "keeps_used base (area (us @ (a, k) # ws)) m m'"
proof -
  define p where "p = last_of base us"
  have o: "ordered (base + 8) (us @ (a, k) # ws)" and lk: "linked_to m (of_nat base) us (of_nat a)" "header_size m (of_nat a) = of_nat k"
    "header_ptr m (of_nat a) = head_of ws (of_nat base)" "headed m ws (of_nat base)" "header_size m (of_nat base) = 0" "0 < base" "base + 8 \<le> 2 ^ 31"
    using r by (auto simp: free_ring_def linked_append head_of_def linked_headed [of m "of_nat a"])
  have ou: "ordered (base + 8) us" "ordered a ((a, k) # ws)" using o by (auto simp: ordered_append)
  have ak: "a + 8 \<le> 2 ^ 31" using ordered_bounds [OF o, of a k] by simp
  have pin: "p \<in> insert base (fst ` set us)" by (simp add: p_def last_of_def)
  have pa: "p + 8 \<le> a" by (rule headers_below [OF o pin])
  define mp where "mp = set_ptr (of_nat p) (head_of ws (of_nat base)) m"
  have m': "m' = mp\<lparr>freep := of_nat p\<rparr>" by (simp add: m'_def mp_def lk(3) p_def)
  have f: "um_mem mp x = um_mem m x" if "x \<noteq> of_nat p" for x using that by (simp add: mp_def set_ptr_def)
  have "\<forall>b\<in>insert a (fst ` set ws). (b + 8 \<le> p \<or> p + 8 \<le> b) \<and> b + 8 \<le> 2 ^ 32"
    using headers_above [OF ou(2)] pa ak by fastforce
  then have np: "of_nat p \<notin> header_words (insert a (fst ` set ws))" using pa ak not_header(1) [of "insert a (fst ` set ws)" p] by simp
  have 1: "linked_to mp (of_nat base) us (head_of ws (of_nat base))" unfolding mp_def p_def by (rule linked_retarget [OF lk(1) ou(1)])
  have "\<forall>x\<in>header_words (fst ` set ws). um_mem mp x = um_mem m x"
  proof
    fix x assume "x \<in> header_words (fst ` set ws)"
    then have "x \<noteq> of_nat p" using np by (auto simp: header_words_insert)
    then show "um_mem mp x = um_mem m x" by (rule f)
  qed
  then have 2: "headed mp ws (of_nat base)" using lk(4) headed_frame [of ws mp m] by blast
  have "p = base \<or> base + 8 \<le> p" using pin ordered_bounds [OF ou(1), of p] by auto
  then have "of_nat base + 4 \<noteq> (of_nat p :: u32)" using header_apart(2) [of base p] pa ak by auto
  then have 3: "header_size mp (of_nat base) = 0" using lk(5) f by (simp add: header_size_def)
  have 4: "ordered (base + 8) (us @ ws)" using o ordered_mono [of "a + 8 * k" ws] by (auto simp: ordered_append)
  have "linked_to m' q bs e \<longleftrightarrow> linked_to mp q bs e" for q bs e unfolding m' by (rule linked_frame) simp
  moreover have "linked_to mp (of_nat base) (us @ ws) (of_nat base)" using 1 2 by (simp add: linked_append)
  ultimately show "free_ring m' base (us @ ws)"
    using 3 4 lk(6,7) pin by (auto simp: free_ring_def m' header_size_def)
  show "header_size m' (of_nat a) = of_nat k" using lk(2) f np by (auto simp: m' header_size_def header_words_insert)
  show "area (us @ ws) = area (us @ (a, k) # ws) - region a k" using ordered_disjoint [OF o] by auto
  show "keeps_used base (area (us @ (a, k) # ws)) m m'"
  proof (rule keeps_usedI [of "{p}"])
    show "\<forall>x. x \<notin> header_words {p} \<longrightarrow> um_mem m' x = um_mem m x" using f by (auto simp: m' header_words_def)
    have "{p, p + 4} \<subseteq> area us \<union> region base 1"
    proof (cases "p = base")
      case False
      then obtain i where "(p, i) \<in> set us" using pin by auto
      then have "region p i \<subseteq> area us" "0 < i" using ordered_bounds [OF ou(1), of p i] by (auto simp: area_def)
      moreover have "{p, p + 4} \<subseteq> region p i" using \<open>0 < i\<close> by (auto simp: region_def)
      ultimately show ?thesis by blast
    qed (auto simp: region_def)
    then show "\<forall>h\<in>{p}. h + 8 \<le> 2 ^ 32 \<and> {h, h + 4} \<subseteq> area (us @ (a, k) # ws) \<union> region base 1" using pa ak by auto
  qed
qed

lemma take_tail:
  assumes r: "free_ring m base (us @ (a, k) # ws)" and n: "0 < n" "n < k"
  defines "q \<equiv> a + 8 * (k - n)"
  defines "m' \<equiv> (set_size (of_nat q) (of_nat n) (set_size (of_nat a) (of_nat (k - n)) m))\<lparr>freep := of_nat (last_of base us)\<rparr>"
  shows "free_ring m' base (us @ (a, k - n) # ws)" "header_size m' (of_nat q) = of_nat n"
    "region q n \<subseteq> region a k" "area (us @ (a, k - n) # ws) = area (us @ (a, k) # ws) - region q n"
    "keeps_used base (area (us @ (a, k) # ws)) m m'"
proof -
  have o: "ordered (base + 8) (us @ (a, k) # ws)" and lk: "linked_to m (of_nat base) us (of_nat a)" "header_size m (of_nat a) = of_nat k"
    "header_ptr m (of_nat a) = head_of ws (of_nat base)" "headed m ws (of_nat base)" "header_size m (of_nat base) = 0" "0 < base" "base + 8 \<le> 2 ^ 31"
    using r by (auto simp: free_ring_def linked_append head_of_def linked_headed [of m "of_nat a"])
  have ou: "ordered a ((a, k) # ws)" using o by (auto simp: ordered_append)
  have ak: "0 < k" "a + 8 * k \<le> 2 ^ 31" using ordered_bounds [OF o, of a k] by auto
  have q: "a + 8 \<le> q" "q + 8 * n = a + 8 * k" "q + 8 \<le> 2 ^ 31" using n ak by (auto simp: q_def)
  note ap = header_apart [of a q]
  let ?H = "insert base (fst ` set us) \<union> fst ` set ws"
  have "(b + 8 \<le> a \<or> a + 8 \<le> b) \<and> (b + 8 \<le> q \<or> q + 8 \<le> b) \<and> b + 8 \<le> 2 ^ 32" if "b \<in> ?H" for b
  proof -
    note bh = that
    have "b + 8 \<le> a \<or> a + 8 * k \<le> b \<and> b + 8 \<le> 2 ^ 31"
    proof (cases "b \<in> insert base (fst ` set us)")
      case False
      then obtain i where "(b, i) \<in> set ws" using bh by auto
      moreover have "ordered (a + 8 * k) ws" using ou by simp
      ultimately show ?thesis using ordered_bounds [of "a + 8 * k" ws b i] by simp
    qed (use headers_below [OF o, of b] in blast)
    then show ?thesis using q ak n by auto
  qed
  then have "of_nat a + 4 \<notin> header_words ?H" "of_nat q + 4 \<notin> header_words ?H"
    using q not_header(2) [of ?H a] not_header(2) [of ?H q] by auto
  then have same: "\<forall>x\<in>header_words ?H. um_mem (set_size (of_nat q) (of_nat n) (set_size (of_nat a) (of_nat (k - n)) m)) x = um_mem m x"
    by (auto simp: set_size_def)
  have o': "ordered (base + 8) (us @ (a, k - n) # ws)"
    using o n ordered_mono [of "a + 8 * k" ws "a + 8 * (k - n)"] by (auto simp: ordered_append)
  show "free_ring m' base (us @ (a, k - n) # ws)"
    unfolding m'_def using q ap lk(3)
    by (intro ring_built [OF lk(1,5-7) o' lk(4) _ _ same]) (auto simp: header_size_def header_ptr_def set_size_def last_of_def)
  show "header_size m' (of_nat q) = of_nat n" by (simp add: m'_def header_size_def set_size_def)
  show rq: "region q n \<subseteq> region a k" using q by (auto simp: region_def)
  have "region a k = region a (k - n) \<union> region q n" "region a (k - n) \<inter> region q n = {}" using q n by (auto simp: region_def q_def)
  then show "area (us @ (a, k - n) # ws) = area (us @ (a, k) # ws) - region q n" using ordered_disjoint [OF o] by auto
  show "keeps_used base (area (us @ (a, k) # ws)) m m'"
  proof (rule keeps_usedI [of "{a, q}"])
    show "\<forall>x. x \<notin> header_words {a, q} \<longrightarrow> um_mem m' x = um_mem m x" by (auto simp: m'_def header_words_def set_size_def)
    show "\<forall>h\<in>{a, q}. h + 8 \<le> 2 ^ 32 \<and> {h, h + 4} \<subseteq> area (us @ (a, k) # ws) \<union> region base 1" using q ak n by (auto simp: region_def)
  qed
qed

definition allocated :: "um \<Rightarrow> nat \<Rightarrow> blocks \<Rightarrow> nat \<Rightarrow> nat \<Rightarrow> um \<Rightarrow> blocks \<Rightarrow> bool" where
  "allocated m base bs q n m' bs' \<longleftrightarrow> free_ring m' base bs' \<and> header_size m' (of_nat q) = of_nat n \<and> q + 8 * n \<le> 2 ^ 31 \<and>
     region q n \<subseteq> area bs \<and> area bs' = area bs - region q n \<and> keeps_used base (area bs) m m'"

lemma take_block_ok:
  assumes r: "free_ring m base (us @ (a, k) # ws)" and n: "0 < n" "n \<le> k"
  shows "\<exists>q m' bs'. take_block (of_nat n) (of_nat (last_of base us)) (of_nat a) m = (of_nat q + 8, m') \<and>
    allocated m base (us @ (a, k) # ws) q n m' bs'"
proof -
  have hs: "header_size m (of_nat a) = of_nat k" and o: "ordered (base + 8) (us @ (a, k) # ws)"
    using r by (auto simp: free_ring_def linked_append)
  have k: "k < 2 ^ 32" and ak: "a + 8 * k \<le> 2 ^ 31" using ordered_bounds [OF o, of a k] by simp_all
  show ?thesis
  proof (cases "n = k")
    case True
    then show ?thesis using take_exact [OF r] hs ak
      by (intro exI [of _ a] exI [of _ "us @ ws"] exI) (auto simp: take_block_def allocated_def)
  next
    case False
    then have nk: "n < k" using n(2) by simp
    have e: "header_size m (of_nat a) \<noteq> of_nat n" using hs False small_less(3) [of k n] k nk by simp
    let ?q = "a + 8 * (k - n)"
    have s: "header_size m (of_nat a) - of_nat n = of_nat (k - n)" using hs nk by (simp add: of_nat_diff)
    have u: "units (of_nat a) (of_nat (k - n)) = of_nat ?q" by (rule units_small)
    have "header_size (set_size (of_nat a) (of_nat (k - n)) m) (of_nat a) = of_nat (k - n)" by (simp add: header_size_def set_size_def)
    moreover have "?q + 8 * n \<le> 2 ^ 31" using ak nk by simp
    ultimately show ?thesis using take_tail [OF r n(1) nk] e s u
      by (intro exI [of _ ?q] exI [of _ "us @ (a, k - n) # ws"] exI) (auto simp: take_block_def allocated_def Let_def simp del: of_nat_diff of_nat_add of_nat_mult)
  qed
qed

text \<open>The search of \<open>malloc\<close> along a part of the ring without a block that is large enough, and its end.\<close>

lemma malloc_walk:
  assumes r: "free_ring m base (xs @ zs @ ys)" and n: "0 < n"
    and z: "\<forall>(b, i)\<in>set zs. i < n \<and> of_nat b \<noteq> freep m" and n32: "n < 2 ^ 32"
  shows "malloc_loop h (of_nat n) (of_nat (last_of base xs)) (head_of (zs @ ys) (of_nat base)) m e =
    malloc_loop h (of_nat n) (of_nat (last_of base (xs @ zs))) (head_of ys (of_nat base)) m e"
  using r z
proof (induction zs arbitrary: xs)
  case (Cons z zs)
  obtain b i where z: "z = (b, i)" by (cases z)
  have "linked_to m (of_nat base) (xs @ (b, i) # zs @ ys) (of_nat base)" and o: "ordered (base + 8) (xs @ (b, i) # zs @ ys)"
    using Cons.prems(1) z by (auto simp: free_ring_def)
  then have hb: "header_size m (of_nat b) = of_nat i" "header_ptr m (of_nat b) = head_of (zs @ ys) (of_nat base)"
    by (auto simp: linked_append [of _ _ xs] linked_headed [of m "of_nat b"])
  have i: "i < n" "of_nat b \<noteq> freep m" "i < 2 ^ 32" using Cons.prems(2) z ordered_bounds [OF o, of b i] by auto
  have "\<not> (of_nat n :: u32) \<le> of_nat i" using i small_less(2) [of n i] n32 by simp
  then have "malloc_loop h (of_nat n) (of_nat (last_of base xs)) (of_nat b) m e =
      malloc_loop h (of_nat n) (of_nat b) (head_of (zs @ ys) (of_nat base)) m e"
    using hb i(2) by (subst malloc_loop.simps) simp
  also have "\<dots> = malloc_loop h (of_nat n) (of_nat (last_of base ((xs @ [z]) @ zs))) (head_of ys (of_nat base)) m e"
    using Cons.IH [of "xs @ [z]"] Cons.prems z by simp
  finally show ?case by (simp add: z head_of_def)
qed simp

lemma malloc_found:
  assumes r: "free_ring m base (xs @ zs @ (a, k) # ws)" and n: "0 < n" "n \<le> k"
    and z: "\<forall>(b, i)\<in>set zs. i < n \<and> of_nat b \<noteq> freep m"
  shows "\<exists>q m' bs'. malloc_loop h (of_nat n) (of_nat (last_of base xs)) (head_of (zs @ (a, k) # ws) (of_nat base)) m e =
    uret (of_nat q + 8, m') e \<and> allocated m base (xs @ zs @ (a, k) # ws) q n m' bs'"
proof -
  have r': "free_ring m base ((xs @ zs) @ (a, k) # ws)" using r by simp
  have hs: "header_size m (of_nat a) = of_nat k" and o: "ordered (base + 8) ((xs @ zs) @ (a, k) # ws)"
    using r' by (auto simp: free_ring_def linked_append [of _ _ "xs @ zs"] simp del: append_assoc)
  have k: "k < 2 ^ 32" "n < 2 ^ 32" using ordered_bounds [OF o, of a k] n by auto
  have "(of_nat n :: u32) \<le> header_size m (of_nat a)" using hs small_less(2) [of n k] k n by simp
  then have "malloc_loop h (of_nat n) (of_nat (last_of base (xs @ zs))) (of_nat a) m e =
      uret (take_block (of_nat n) (of_nat (last_of base (xs @ zs))) (of_nat a) m) e"
    by (subst malloc_loop.simps) simp
  moreover have "malloc_loop h (of_nat n) (of_nat (last_of base xs)) (head_of (zs @ (a, k) # ws) (of_nat base)) m e =
      malloc_loop h (of_nat n) (of_nat (last_of base (xs @ zs))) (of_nat a) m e"
    using malloc_walk [OF r n(1) z k(2)] by (simp add: head_of_def)
  ultimately show ?thesis using take_block_ok [OF r' n] by fastforce
qed

lemma header_distinct:
  assumes "ordered (base + 8) (us @ vs)" "b \<in> insert base (fst ` set us)" "c \<in> fst ` set vs"
  shows "(of_nat b :: u32) \<noteq> of_nat c"
proof -
  obtain i where i: "(c, i) \<in> set vs" using assms(3) by auto
  from split_list [OF i] obtain xs ys where vs: "vs = xs @ (c, i) # ys" by blast
  then have o: "ordered (base + 8) ((us @ xs) @ (c, i) # ys)" using assms(1) by simp
  have "b + 8 \<le> c" using headers_below [OF o, of b] assms(2) by auto
  moreover have "c + 8 \<le> 2 ^ 31" using ordered_bounds [OF o, of c i] by simp
  ultimately show ?thesis using small_less(3) [of b c] by simp
qed

lemma first_large:
  assumes "\<exists>(a, k)\<in>set bs. n \<le> k"
  shows "\<exists>zs a k ws. bs = zs @ (a, k) # ws \<and> n \<le> k \<and> (\<forall>(b, i)\<in>set zs. i < (n :: nat))"
proof -
  have "\<exists>x\<in>set bs. n \<le> snd x" using assms by force
  from split_list_first_prop [OF this] obtain zs x ws where "bs = zs @ x # ws" "n \<le> snd x" "\<forall>y\<in>set zs. \<not> n \<le> snd y" by blast
  then show ?thesis by (cases x) force
qed

lemma malloc_search:
  assumes r: "free_ring m base bs" and n: "0 < n" "n < 2 ^ 32" and ex: "\<exists>(a, k)\<in>set bs. n \<le> k"
  shows "\<exists>q m' bs'. malloc_loop h (of_nat n) (freep m) (header_ptr m (freep m)) m e = uret (of_nat q + 8, m') e \<and>
    allocated m base bs q n m' bs'"
proof -
  obtain f where f: "f \<in> insert base (fst ` set bs)" "freep m = of_nat f" using r by (auto simp: free_ring_def)
  obtain xs ys where bs: "bs = xs @ ys" "f = last_of base xs"
  proof (cases "f = base")
    case True
    then show ?thesis using that [of "[]" bs] by (simp add: last_of_def)
  next
    case False
    then obtain i where i: "(f, i) \<in> set bs" using f(1) by auto
    from split_list [OF i] obtain us vs where "bs = us @ (f, i) # vs" by blast
    then show ?thesis using that [of "us @ [(f, i)]" vs] by simp
  qed
  have o: "ordered (base + 8) (xs @ ys)" and lk: "linked_to m (of_nat base) xs (head_of ys (of_nat base))"
    using r bs by (auto simp: free_ring_def linked_append)
  have fx: "f \<in> insert base (fst ` set xs)" by (simp add: bs(2) last_of_def)
  have nx: "header_ptr m (freep m) = head_of ys (of_nat base)" using linked_next [OF lk] f(2) bs(2) by simp
  have ny: "of_nat b \<noteq> freep m" if "(b, i) \<in> set ys" for b i
    using header_distinct [OF o fx, of b] that f(2) by force
  show ?thesis
  proof (cases "\<exists>(a, k)\<in>set ys. n \<le> k")
    case True
    from first_large [OF True] obtain zs a k ws where y: "ys = zs @ (a, k) # ws" "n \<le> k" "\<forall>(b, i)\<in>set zs. i < n" by blast
    then have "\<forall>(b, i)\<in>set zs. i < n \<and> of_nat b \<noteq> freep m" using ny by auto
    from malloc_found [of m base xs zs a k ws n h e, OF _ n(1) y(2) this] show ?thesis
      using r bs y(1) nx f(2) by simp
  next
    case False
    then have z: "\<forall>(b, i)\<in>set ys. i < n \<and> of_nat b \<noteq> freep m" using ny by force
    have exx: "\<exists>(a, k)\<in>set xs. n \<le> k" using ex False bs(1) by auto
    then have xne: "xs \<noteq> []" by auto
    have hb: "header_size m (of_nat base) = 0" "header_ptr m (of_nat base) = head_of bs (of_nat base)"
      using r linked_headed [of m "of_nat base" bs] by (auto simp: free_ring_def)
    have "(of_nat base :: u32) \<noteq> freep m"
      using header_distinct [of base "[]" "xs @ ys" base f] o fx f(2) bs(2) xne by (auto simp: last_of_def)
    moreover have "\<not> (of_nat n :: u32) \<le> 0" using n small_less(2) [of n 0] by simp
    ultimately have b: "malloc_loop h (of_nat n) p (of_nat base) m e = malloc_loop h (of_nat n) (of_nat base) (head_of bs (of_nat base)) m e" for p
      using hb by (subst malloc_loop.simps) simp
    have w: "malloc_loop h (of_nat n) (of_nat (last_of base xs)) (head_of ys (of_nat base)) m e =
        malloc_loop h (of_nat n) (of_nat (last_of base (xs @ ys))) (of_nat base) m e"
      using malloc_walk [of m base xs ys "[]" n h e] r bs(1) n z by (simp add: head_of_def)
    from first_large [OF exx] obtain zs a k ws where x: "xs = zs @ (a, k) # ws" "n \<le> k" "\<forall>(b, i)\<in>set zs. i < n" by blast
    have "\<forall>(b, i)\<in>set zs. i < n \<and> of_nat b \<noteq> freep m"
    proof -
      have "f \<in> fst ` set ((a, k) # ws)" using bs(2) x(1) last_in_set [of "(a, k) # ws"] by (auto simp: last_of_def)
      then have "of_nat b \<noteq> freep m" if "(b, i) \<in> set zs" for b i
        using header_distinct [of base zs "(a, k) # ws @ ys" b f] o x(1) that f(2) by force
      then show ?thesis using x(3) by auto
    qed
    from malloc_found [of m base "[]" zs a k "ws @ ys" n h e, OF _ n(1) x(2) this] show ?thesis
      using r bs(1) x(1) nx f(2) bs(2) b w by (simp add: last_of_def)
  qed
qed

section \<open>Growing the heap\<close>

text \<open>Where no block is large enough the search comes back to its start and asks for more memory.\<close>

definition retry :: "'e kern \<Rightarrow> u32 \<Rightarrow> um \<Rightarrow> ('e, u32 \<times> um) usr" where
  "retry h nu m = ubind (morecore h nu m) (\<lambda>r. if fst r = 0 then uret (0, snd r)
     else malloc_loop h nu (fst r) (header_ptr (snd r) (fst r)) (snd r))"

lemma malloc_none:
  assumes r: "free_ring m base bs" and n: "0 < n" "n < 2 ^ 32" and none: "\<forall>(a, k)\<in>set bs. k < n"
  shows "malloc_loop h (of_nat n) (freep m) (header_ptr m (freep m)) m e = retry h (of_nat n) m e"
proof -
  obtain f where f: "f \<in> insert base (fst ` set bs)" "freep m = of_nat f" using r by (auto simp: free_ring_def)
  have hb: "header_size m (of_nat base) = 0" "header_ptr m (of_nat base) = head_of bs (of_nat base)" and o: "ordered (base + 8) bs"
    using r linked_headed [of m "of_nat base" bs] by (auto simp: free_ring_def)
  have n0: "\<not> (of_nat n :: u32) \<le> 0" using n small_less(2) [of n 0] by simp
  show ?thesis
  proof (cases "f = base")
    case True
    have "\<forall>(b, j)\<in>set bs. j < n \<and> of_nat b \<noteq> freep m"
      using header_distinct [of base "[]" bs base] o none f(2) True by force
    then have "malloc_loop h (of_nat n) (freep m) (header_ptr m (freep m)) m e = malloc_loop h (of_nat n) (of_nat (last_of base bs)) (of_nat base) m e"
      using malloc_walk [of m base "[]" bs "[]" n h e] r n f(2) True hb(2) by (simp add: head_of_def last_of_def)
    also have "\<dots> = retry h (of_nat n) m e" using hb(1) n0 f(2) True by (subst malloc_loop.simps) (simp add: retry_def)
    finally show ?thesis .
  next
    case False
    then obtain i where i: "(f, i) \<in> set bs" using f(1) by auto
    from split_list [OF i] obtain us vs where bs: "bs = us @ (f, i) # vs" by blast
    have hf: "header_size m (of_nat f) = of_nat i" "header_ptr m (of_nat f) = head_of vs (of_nat base)"
      using r bs by (auto simp: free_ring_def linked_append linked_headed [of m "of_nat f"])
    have nb: "(of_nat base :: u32) \<noteq> freep m" using header_distinct [of base "[]" bs base f] o i f(2) by force
    have nv: "\<forall>(b, j)\<in>set vs. j < n \<and> of_nat b \<noteq> freep m"
      using header_distinct [of base "us @ [(f, i)]" vs f] o bs none f(2) by force
    have "(of_nat b :: u32) \<noteq> freep m" if "(b, j) \<in> set us" for b j
      using header_distinct [of base us "(f, i) # vs" b f] o bs f(2) imageI [OF that, of fst] by simp
    then have nu: "\<forall>(b, j)\<in>set us. j < n \<and> of_nat b \<noteq> freep m" using none bs by fastforce
    have "malloc_loop h (of_nat n) (of_nat f) (head_of vs (of_nat base)) m e = malloc_loop h (of_nat n) (of_nat (last_of base bs)) (of_nat base) m e"
      using malloc_walk [of m base "us @ [(f, i)]" vs "[]" n h e] r bs n nv by (simp add: head_of_def)
    also have "\<dots> = malloc_loop h (of_nat n) (of_nat base) (head_of bs (of_nat base)) m e"
      using hb n0 nb by (subst malloc_loop.simps) simp
    also have "\<dots> = malloc_loop h (of_nat n) (of_nat (last_of base us)) (of_nat f) m e"
      using malloc_walk [of m base "[]" us "(f, i) # vs" n h e] r bs n nu by (simp add: head_of_def last_of_def)
    also have "\<dots> = retry h (of_nat n) m e"
    proof -
      have "i < n" "i < 2 ^ 32" using none bs ordered_bounds [OF o i] by auto
      then have "\<not> (of_nat n :: u32) \<le> header_size m (of_nat f)" using hf(1) small_less(2) [of n i] n by simp
      then show ?thesis using f(2) by (subst malloc_loop.simps) (simp add: retry_def)
    qed
    finally show ?thesis using hf(2) f(2) by simp
  qed
qed

lemma ring_set_size:
  assumes r: "free_ring m base bs" and a: "base + 8 \<le> a" "0 < n" "a + 8 * n \<le> 2 ^ 31" "region a n \<inter> area bs = {}"
  shows "free_ring (set_size (of_nat a) v m) base bs"
proof -
  have "ordered (base + 8) bs" using r by (simp add: free_ring_def)
  then obtain us vs where s: "bs = us @ vs" "ordered (base + 8) (us @ (a, n) # vs)" using ordered_split a by blast
  have o3: "ordered a ((a, n) # vs)" using s(2) by (simp add: ordered_append)
  let ?H = "insert base (fst ` set bs)"
  have "\<forall>b\<in>?H. (b + 8 \<le> a \<or> a + 8 \<le> b) \<and> b + 8 \<le> 2 ^ 32"
  proof
    fix b assume "b \<in> ?H"
    then have "b + 8 \<le> a \<or> a + 8 \<le> b \<and> b + 8 \<le> 2 ^ 31" using headers_above [OF o3, of b] headers_below [OF s(2), of b] s(1) by auto
    then show "(b + 8 \<le> a \<or> a + 8 \<le> b) \<and> b + 8 \<le> 2 ^ 32" using a by auto
  qed
  then have "of_nat a + 4 \<notin> header_words ?H" using a not_header(2) [of ?H a] by simp
  then have f: "um_mem (set_size (of_nat a) v m) x = um_mem m x" if "x \<in> header_words ?H" for x using that by (auto simp: set_size_def)
  then have "linked_to (set_size (of_nat a) v m) (of_nat base) bs (of_nat base) \<longleftrightarrow> linked_to m (of_nat base) bs (of_nat base)"
    by (intro linked_frame) (auto simp: header_words_insert)
  moreover have "header_size (set_size (of_nat a) v m) (of_nat base) = header_size m (of_nat base)"
    using f [of "of_nat base + 4"] by (simp add: header_size_def header_words_insert)
  ultimately show ?thesis using r by (auto simp: free_ring_def set_size_def)
qed

text \<open>More memory: what \<open>sbrk\<close> grants is entered into the ring as a free block.\<close>

definition grant :: "nat \<Rightarrow> blocks \<Rightarrow> nat \<Rightarrow> nat \<Rightarrow> bool" where
  "grant base bs a k \<longleftrightarrow> base + 8 \<le> a \<and> a + 8 * k \<le> 2 ^ 31 \<and> region a k \<inter> area bs = {}"

lemma keeps_used_trans: "keeps_used base A m m' \<Longrightarrow> keeps_used base A m' m'' \<Longrightarrow> keeps_used base A m m''"
  by (simp add: keeps_used_def)

lemma keeps_set_size:
  assumes "a + 8 * k \<le> 2 ^ 31" "0 < k" "region a k \<subseteq> A"
  shows "keeps_used base A m (set_size (of_nat a) v m)"
proof -
  have "(of_nat y :: u32) \<noteq> of_nat a + 4" if "y < 2 ^ 32" "y \<notin> A" for y
  proof
    assume "(of_nat y :: u32) = of_nat a + 4"
    then have "(of_nat y :: u32) = of_nat (a + 4)" by simp
    then have "y = a + 4" using that(1) assms(1,2) by (subst (asm) word_of_nat_eq_iff) (simp add: take_bit_nat_eq_self)
    moreover have "a + 4 \<in> region a k" using assms(2) by (simp add: region_def)
    ultimately show False using that(2) assms(3) by blast
  qed
  then show ?thesis by (auto simp: keeps_used_def set_size_def)
qed

lemma core_units:
  assumes "k = max 4096 n" "8 * k < 2 ^ 31"
  shows "(if (of_nat n :: u32) < 4096 then 4096 else of_nat n) = (of_nat k :: u32)" and "sint ((of_nat k :: u32) * 8) = int (8 * k)"
proof -
  show "(if (of_nat n :: u32) < 4096 then 4096 else of_nat n) = (of_nat k :: u32)"
    using small_less(1) [of n 4096] assms by (cases "4096 \<le> n") (simp_all add: max_def)
  have "(of_nat k :: u32) * 8 = word_of_int (int (8 * k))" by (simp add: mult.commute)
  moreover have "sint (word_of_int (int (8 * k)) :: u32) = int (8 * k)"
    using assms(2) by (subst sint_sbintrunc') (simp add: signed_take_bit_int_eq_self)
  ultimately show "sint ((of_nat k :: u32) * 8) = int (8 * k)" by (simp only:)
qed

lemma morecore_ok:
  assumes r: "free_ring m base bs" and n: "0 < n" and k: "k = max 4096 n" and g: "grant base bs a k"
    and s: "h (U_sbrk (int (8 * k))) e = Some (Inr (v, e'))" "r_val v = int a"
  shows "\<exists>m' bs'. morecore h (of_nat n) m e = uret (freep m', m') e' \<and> free_ring m' base bs' \<and> area bs' = area bs \<union> region a k \<and>
    (\<exists>(b, j)\<in>set bs'. k \<le> j) \<and> keeps_used base (area bs') m m'"
proof -
  have b: "base + 8 \<le> a" "0 < k" "a + 8 * k \<le> 2 ^ 31" "region a k \<inter> area bs = {}" and k32: "8 * k < 2 ^ 31"
    using g k n r by (auto simp: grant_def free_ring_def)
  note w = core_units [OF k k32]
  let ?m = "set_size (of_nat a) (of_nat k) m"
  have hs: "header_size ?m (of_nat a) = of_nat k" by (simp add: header_size_def set_size_def)
  from u_free_ok [OF ring_set_size [OF r b] hs b] obtain m' bs' where
    f: "u_free (of_nat a + 8) ?m = Some m'" "free_ring m' base bs'" "area bs' = area bs \<union> region a k" "\<exists>(b, j)\<in>set bs'. k \<le> j"
      "keeps_used base (area bs') ?m m'" by blast
  have "morecore h (of_nat n) m e = uret (freep m', m') e'"
    using s f(1) by (simp add: morecore_def Let_def w sys_def ubind_def uret_def)
  moreover have "keeps_used base (area bs') m m'"
    using keeps_used_trans [OF keeps_set_size [of a k "area bs'"] f(5)] b f(3) by simp
  ultimately show ?thesis using f by blast
qed

lemma morecore_refused:
  assumes k: "k = max 4096 n" "8 * k < 2 ^ 31" and s: "h (U_sbrk (int (8 * k))) e = Some (Inr (v, e'))" "r_val v = -1"
  shows "retry h (of_nat n) m e = uret (0, m) e'"
  using s by (simp add: retry_def morecore_def Let_def core_units [OF k] sys_def ubind_def uret_def)

section \<open>The allocator\<close>

text \<open>Before the first call the list head is not set up; from then on the free blocks form a ring.\<close>

definition ready :: "um \<Rightarrow> nat \<Rightarrow> blocks \<Rightarrow> bool" where
  "ready m base bs \<longleftrightarrow> free_ring m base bs \<or> freep m = 0 \<and> bs = [] \<and> 0 < base \<and> base + 8 \<le> 2 ^ 31"

definition set_up :: "u32 \<Rightarrow> um \<Rightarrow> um" where
  "set_up base m = (if freep m = 0 then set_size base 0 ((set_ptr base base m)\<lparr>freep := base\<rparr>) else m)"

lemma free_ring_freep: "free_ring m base bs \<Longrightarrow> freep m \<noteq> 0"
proof -
  assume r: "free_ring m base bs"
  then obtain q where q: "q \<in> insert base (fst ` set bs)" "freep m = of_nat q" by (auto simp: free_ring_def)
  have "0 < base" "base + 8 \<le> 2 ^ 31" "ordered (base + 8) bs" using r by (simp_all add: free_ring_def)
  then have "0 < q" "q < 2 ^ 32" using q(1) ordered_bounds [of "base + 8" bs q] by fastforce+
  then show ?thesis using q(2) small_less(1) [of 0 q] by auto
qed

lemma set_up_ok:
  assumes "ready m base bs"
  shows "free_ring (set_up (of_nat base) m) base bs" and "keeps_used base {} m (set_up (of_nat base) m)"
proof -
  have "free_ring (set_up (of_nat base) m) base bs \<and> keeps_used base {} m (set_up (of_nat base) m)"
  proof (cases "free_ring m base bs")
    case True
    then show ?thesis using free_ring_freep by (simp add: set_up_def keeps_used_def)
  next
    case False
    then have e: "freep m = 0" "bs = []" "0 < base" "base + 8 \<le> 2 ^ 31" using assms by (auto simp: ready_def)
    have "keeps_used base (region base 1) m (set_size (of_nat base) 0 ((set_ptr (of_nat base) (of_nat base) m)\<lparr>freep := of_nat base\<rparr>))"
      by (rule keeps_usedI [where H = "{base}"]) (use e in \<open>simp_all add: header_words_def set_size_def set_ptr_def region_def\<close>)
    then show ?thesis
      using e by (simp add: set_up_def free_ring_def keeps_used_def header_ptr_def header_size_def set_size_def set_ptr_def)
  qed
  then show "free_ring (set_up (of_nat base) m) base bs" "keeps_used base {} m (set_up (of_nat base) m)" by auto
qed

lemma malloc_units_nat:
  assumes "unat nbytes < 2 ^ 30"
  shows "malloc_units nbytes = of_nat ((unat nbytes + 7) div 8 + 1)"
proof -
  have u: "unat (nbytes + 7) = unat nbytes + 7" using assms by (subst unat_add_lem [THEN iffD1]) simp_all
  have "(nbytes + 7) div 8 = of_nat ((unat nbytes + 7) div 8)"
    using assms by (simp add: word_unat_eq_iff unat_div_distrib unat_of_nat take_bit_nat_eq_self u)
  then show ?thesis by (simp add: malloc_units_def add.commute)
qed

lemma keeps_used_mono: "keeps_used base A m m' \<Longrightarrow> A \<subseteq> B \<Longrightarrow> keeps_used base B m m'"
  by (auto simp: keeps_used_def)

lemma allocated_from: "keeps_used base (area bs) m m1 \<Longrightarrow> allocated m1 base bs q n m' bs' \<Longrightarrow> allocated m base bs q n m' bs'"
  using keeps_used_trans by (auto simp: allocated_def)

text \<open>What \<open>malloc\<close> may answer: the null pointer when nothing fits and the kernel refuses more memory, or the body of
  a block of \<open>n\<close> units cut from the free blocks \<open>bs\<close>, or from them and the memory granted at \<open>a\<close>.\<close>

definition malloc_result :: "um \<Rightarrow> nat \<Rightarrow> blocks \<Rightarrow> nat \<Rightarrow> bool \<Rightarrow> nat set \<Rightarrow> u32 \<Rightarrow> um \<Rightarrow> bool" where
  "malloc_result m base bs n refused extra p m' \<longleftrightarrow>
     p = 0 \<and> refused \<and> (\<forall>(b, j)\<in>set bs. j < n) \<and> free_ring m' base bs \<and> keeps_used base {} m m' \<or>
     (\<exists>q bs0 bs'. p = of_nat q + 8 \<and> (bs0 = bs \<or> \<not> refused \<and> area bs0 = area bs \<union> extra) \<and> allocated m base bs0 q n m' bs')"

lemma malloc_ring:
  assumes r: "free_ring m base bs" and n: "0 < n" and k: "k = max 4096 n" "8 * k < 2 ^ 31"
    and s: "h (U_sbrk (int (8 * k))) e = Some (Inr (v, e'))" "r_val v = -1 \<or> r_val v = int a \<and> grant base bs a k"
  shows "\<exists>p m' e''. malloc_loop h (of_nat n) (freep m) (header_ptr m (freep m)) m e = Some (Inr ((p, m'), e'')) \<and>
    malloc_result m base bs n (r_val v = -1) (region a k) p m'"
proof (cases "\<exists>(b, j)\<in>set bs. n \<le> j")
  case True
  have "n < 2 ^ 32" using k by simp
  from malloc_search [OF r n this True, of h e] show ?thesis unfolding malloc_result_def uret_def by blast
next
  case False
  then have none: "\<forall>(b, j)\<in>set bs. j < n" by force
  have n32: "n < 2 ^ 32" using k by simp
  note l = malloc_none [OF r n n32 none, of h e]
  show ?thesis
  proof (cases "r_val v = -1")
    case True
    then show ?thesis using l morecore_refused [where h = h and e = e and m = m, OF k s(1)] none r
      by (auto simp: malloc_result_def uret_def keeps_used_def)
  next
    case False
    then have g: "grant base bs a k" "r_val v = int a" using s(2) by auto
    from morecore_ok [where h = h and e = e and v = v and e' = e', OF r n k(1) g(1) s(1) g(2)] obtain m1 bs1 where m1: "morecore h (of_nat n) m e = uret (freep m1, m1) e'"
      "free_ring m1 base bs1" "area bs1 = area bs \<union> region a k" "\<exists>(b, j)\<in>set bs1. k \<le> j" "keeps_used base (area bs1) m m1" by blast
    have nz: "freep m1 \<noteq> 0" using m1(2) by (rule free_ring_freep)
    have "\<exists>(b, j)\<in>set bs1. n \<le> j" using m1(4) k(1) by force
    from malloc_search [OF m1(2) n n32 this, of h e'] obtain q m' bs' where
      q: "malloc_loop h (of_nat n) (freep m1) (header_ptr m1 (freep m1)) m1 e' = uret (of_nat q + 8, m') e'" "allocated m1 base bs1 q n m' bs'" by blast
    have "retry h (of_nat n) m e = Some (Inr ((of_nat q + 8, m'), e'))" using m1(1) q(1) nz by (simp add: retry_def ubind_def uret_def)
    then show ?thesis using l allocated_from [OF m1(5) q(2)] m1(3) False unfolding malloc_result_def by auto
  qed
qed

lemma malloc_result_set_up:
  assumes "malloc_result (set_up (of_nat base) m) base bs n c x p m'" "keeps_used base {} m (set_up (of_nat base) m)"
  shows "malloc_result m base bs n c x p m'"
proof -
  have k: "keeps_used base A m (set_up (of_nat base) m)" for A using keeps_used_mono [OF assms(2)] by blast
  have "allocated m base bs0 q n m' bs'" if "allocated (set_up (of_nat base) m) base bs0 q n m' bs'" for q bs0 bs'
    using allocated_from [OF k that] .
  moreover have "keeps_used base {} m m'" if "keeps_used base {} (set_up (of_nat base) m) m'" using keeps_used_trans [OF k that] .
  ultimately show ?thesis using assms(1) unfolding malloc_result_def by blast
qed


text \<open>A process whose allocator is untouched, over a kernel that grants the region at 4096.\<close>

definition new_heap :: um where "new_heap = \<lparr>um_mem = \<lambda>_. 0, freep = 0\<rparr>"

definition granted :: reply where
  "granted = \<lparr>r_val = 4096, r_bytes = [], r_fds = (0, 0), r_stat = \<lparr>st_type = 0, st_dev = 0, st_ino = 0, st_nlink = 0, st_size = 0\<rparr>\<rparr>"



text \<open>Witness for C39: two free blocks, and the block between them is freed.\<close>

definition two_free :: um where
  "two_free = \<lparr>um_mem = (\<lambda>_. 0)(64 := 72, 72 := 96, 76 := 2, 92 := 1, 96 := 64, 100 := 3), freep = 72\<rparr>"


end
