(* ===== verification/Boot.thy ===== *)
theory Boot
  imports Life
begin

unbundle bit_operations_syntax

text \<open>
  bootmain.c: the boot loader, which reads the ELF image of the kernel from the disk into physical
  memory. The disk controller is a parameter: a function that answers a read of a port and one that takes a
  write, both over the state of the controller. The jump to the entry point is the result of \<open>bootmain\<close>.
\<close>

type_synonym 'd port_in = "u16 \<Rightarrow> 'd \<Rightarrow> u32 \<times> 'd"
type_synonym 'd port_out = "u16 \<Rightarrow> u8 \<Rightarrow> 'd \<Rightarrow> 'd"

definition SECTSIZE :: u32 where "SECTSIZE = 512"

partial_function (option) waitdisk :: "'d port_in \<Rightarrow> 'd \<Rightarrow> 'd option" where
  "waitdisk rd d = (let r = rd 0x1F7 d in if ucast (fst r) AND 0xC0 \<noteq> (0x40 :: u8) then waitdisk rd (snd r) else Some (snd r))"

text \<open>\<open>insl\<close>: words from a port to memory.\<close>

fun insl_mem :: "'d port_in \<Rightarrow> u16 \<Rightarrow> u32 \<Rightarrow> nat \<Rightarrow> (u32 \<Rightarrow> u8) \<Rightarrow> 'd \<Rightarrow> (u32 \<Rightarrow> u8) \<times> 'd" where
  "insl_mem rd port addr 0 m d = (m, d)"
| "insl_mem rd port addr (Suc n) m d =
     (let (w, d) = rd port d in
      insl_mem rd port (addr + 4) n (m(addr := ucast w, addr + 1 := ucast (drop_bit 8 w),
        addr + 2 := ucast (drop_bit 16 w), addr + 3 := ucast (drop_bit 24 w))) d)"

definition sector_cmd :: "'d port_out \<Rightarrow> u32 \<Rightarrow> 'd \<Rightarrow> 'd" where
  "sector_cmd wr offset d =
     (let d = wr 0x1F2 1 d;
          d = wr 0x1F3 (ucast offset) d;
          d = wr 0x1F4 (ucast (drop_bit 8 offset)) d;
          d = wr 0x1F5 (ucast (drop_bit 16 offset)) d;
          d = wr 0x1F6 (ucast (drop_bit 24 offset OR 0xE0)) d
      in wr 0x1F7 0x20 d)"

definition readsect ::
  "'d port_in \<Rightarrow> 'd port_out \<Rightarrow> u32 \<Rightarrow> u32 \<Rightarrow> (u32 \<Rightarrow> u8) \<Rightarrow> 'd \<Rightarrow> ((u32 \<Rightarrow> u8) \<times> 'd) option" where
  "readsect rd wr dst offset m d =
     Option.bind (waitdisk rd d) (\<lambda>d.
     Option.bind (waitdisk rd (sector_cmd wr offset d)) (\<lambda>d.
     Some (insl_mem rd 0x1F0 dst (unat (SECTSIZE div 4)) m d)))"

partial_function (option) readseg_loop ::
  "'d port_in \<Rightarrow> 'd port_out \<Rightarrow> u32 \<Rightarrow> u32 \<Rightarrow> u32 \<Rightarrow> (u32 \<Rightarrow> u8) \<Rightarrow> 'd \<Rightarrow> ((u32 \<Rightarrow> u8) \<times> 'd) option" where
  "readseg_loop rd wr pa epa offset m d =
     (if pa < epa then
        Option.bind (readsect rd wr pa offset m d) (\<lambda>r. readseg_loop rd wr (pa + SECTSIZE) epa (offset + 1) (fst r) (snd r))
      else Some (m, d))"

definition readseg ::
  "'d port_in \<Rightarrow> 'd port_out \<Rightarrow> u32 \<Rightarrow> u32 \<Rightarrow> u32 \<Rightarrow> (u32 \<Rightarrow> u8) \<Rightarrow> 'd \<Rightarrow> ((u32 \<Rightarrow> u8) \<times> 'd) option" where
  "readseg rd wr pa count offset m d =
     (let epa = pa + count; pa = pa - offset mod SECTSIZE; offset = offset div SECTSIZE + 1
      in readseg_loop rd wr pa epa offset m d)"

definition mem16 :: "(u32 \<Rightarrow> u8) \<Rightarrow> u32 \<Rightarrow> u16" where
  "mem16 m a = get16 [m a, m (a + 1)] 0"

definition mem32 :: "(u32 \<Rightarrow> u8) \<Rightarrow> u32 \<Rightarrow> u32" where
  "mem32 m a = get32 [m a, m (a + 1), m (a + 2), m (a + 3)] 0"

text \<open>The loop over the program headers, read from memory where the first page of the image was put.\<close>

partial_function (option) boot_segments ::
  "'d port_in \<Rightarrow> 'd port_out \<Rightarrow> u32 \<Rightarrow> u32 \<Rightarrow> (u32 \<Rightarrow> u8) \<Rightarrow> 'd \<Rightarrow> ((u32 \<Rightarrow> u8) \<times> 'd) option" where
  "boot_segments rd wr ph eph m d =
     (if ph < eph then
        let pa = mem32 m (ph + 12) in
        Option.bind (readseg rd wr pa (mem32 m (ph + 16)) (mem32 m (ph + 4)) m d) (\<lambda>r.
        let m = fst r; filesz = mem32 m (ph + 16); memsz = mem32 m (ph + 20) in
        boot_segments rd wr (ph + 32) eph
          (if filesz < memsz then stosb m (pa + filesz) 0 (unat (memsz - filesz)) else m) (snd r))
      else Some (m, d))"

text \<open>The entry point, or nothing when the image is not an ELF file.\<close>

definition bootmain ::
  "'d port_in \<Rightarrow> 'd port_out \<Rightarrow> (u32 \<Rightarrow> u8) \<Rightarrow> 'd \<Rightarrow> (u32 option \<times> (u32 \<Rightarrow> u8) \<times> 'd) option" where
  "bootmain rd wr m d =
     (let elf = 0x10000 in
      Option.bind (readseg rd wr elf 4096 0 m d) (\<lambda>(m, d).
      if mem32 m elf \<noteq> ELF_MAGIC then Some (None, m, d)
      else let ph = elf + mem32 m (elf + 28); eph = ph + 32 * ucast (mem16 m (elf + 44)) in
        Option.bind (boot_segments rd wr ph eph m d) (\<lambda>(m, d). Some (Some (mem32 m (elf + 24)), m, d))))"

end
