(* ===== verification/Tests.thy ===== *)
theory Tests
  imports Ulib Proc
begin

text \<open>
  The test programs of the repository other than usertests.c and test.c: forktest, niceforktest,
  niceforktest2, schedlogtest and stressfs, the program loop that they run, and shutdown.
\<close>

section \<open>forktest.c and niceforktest.c\<close>

text \<open>
  The loop that forks until the kernel refuses; the result counts the children. The call that forks and
  the messages are what differs between the two programs.
\<close>

fun fork_loop :: "'e kern \<Rightarrow> (nat \<Rightarrow> ucall) \<Rightarrow> nat \<Rightarrow> nat \<Rightarrow> ('e, nat) usr" where
  "fork_loop h call n 0 = uret n"
| "fork_loop h call n (Suc left) =
     ubind (sys h (call n)) (\<lambda>pid.
     if pid < 0 then uret n else if pid = 0 then uexit h else fork_loop h call (n + 1) left)"

fun wait_loop :: "'e kern \<Rightarrow> (string \<Rightarrow> ('e, unit) usr) \<Rightarrow> nat \<Rightarrow> ('e, unit) usr" where
  "wait_loop h say 0 = uret ()"
| "wait_loop h say (Suc n) =
     ubind (sys h U_wait) (\<lambda>r.
     if r < 0 then ubind (say ''wait stopped early\<newline>'') (\<lambda>_. uexit h) else wait_loop h say n)"

text \<open>The \<open>printf\<close> of forktest.c writes the format as it is.\<close>

definition say_plain :: "'e kern \<Rightarrow> string \<Rightarrow> ('e, unit) usr" where
  "say_plain h s = ubind (h (U_write 1 s)) (\<lambda>_. uret ())"

definition forktest :: "'e kern \<Rightarrow> ('e, unit) usr" where
  "forktest h =
     ubind (say_plain h ''fork test\<newline>'') (\<lambda>_.
     ubind (fork_loop h (\<lambda>_. U_fork) 0 1000) (\<lambda>n.
     if n = 1000 then ubind (say_plain h ''fork claimed to work N times!\<newline>'') (\<lambda>_. uexit h)
     else ubind (wait_loop h (say_plain h) n) (\<lambda>_.
       ubind (sys h U_wait) (\<lambda>r.
       if r \<noteq> -1 then ubind (say_plain h ''wait got too many\<newline>'') (\<lambda>_. uexit h)
       else say_plain h ''fork test OK\<newline>''))))"

definition forktest_main :: "'e kern \<Rightarrow> ('e, unit) usr" where
  "forktest_main h = ubind (forktest h) (\<lambda>_. uexit h)"

definition nice_of :: "nat \<Rightarrow> int" where
  "nice_of n = int n mod (NICE_LAST_LEVEL - NICE_FIRST_LEVEL + 1) - NICE_LAST_LEVEL - 1"

definition niceforktest :: "'e kern \<Rightarrow> ('e, unit) usr" where
  "niceforktest h =
     (let say = (\<lambda>s. fprintf h 1 s []) in
      ubind (say ''nicefork test\<newline>'') (\<lambda>_.
      ubind (fork_loop h (\<lambda>n. U_nicefork (nice_of n)) 0 1000) (\<lambda>n.
      if n = 1000 then ubind (say ''nicefork claimed to work N times!\<newline>'') (\<lambda>_. uexit h)
      else ubind (wait_loop h say n) (\<lambda>_.
        ubind (sys h U_wait) (\<lambda>r.
        if r \<noteq> -1 then ubind (say ''wait got too many\<newline>'') (\<lambda>_. uexit h)
        else say ''nicefork test OK\<newline>'')))))"

definition niceforktest_main :: "'e kern \<Rightarrow> ('e, unit) usr" where
  "niceforktest_main h = ubind (niceforktest h) (\<lambda>_. uexit h)"

section \<open>schedlogtest.c, niceforktest2.c, loop.c and shutdown.c\<close>

text \<open>The children of both programs run loop. An \<open>exec\<close> that fails lets the child go on with the loop.\<close>

fun spawn_loops :: "'e kern \<Rightarrow> (nat \<Rightarrow> ucall) \<Rightarrow> nat list \<Rightarrow> ('e, unit) usr" where
  "spawn_loops h call [] = uret ()"
| "spawn_loops h call (i # is) =
     ubind (sys h (call i)) (\<lambda>pid.
     ubind (if pid = 0 then sys h (U_exec ''loop'' [''loop'']) else uret 0) (\<lambda>_. spawn_loops h call is))"

fun wait_times :: "'e kern \<Rightarrow> nat \<Rightarrow> ('e, unit) usr" where
  "wait_times h 0 = uret ()"
| "wait_times h (Suc n) = ubind (sys h U_wait) (\<lambda>_. wait_times h n)"

definition schedlogtest_main :: "'e kern \<Rightarrow> ('e, unit) usr" where
  "schedlogtest_main h =
     ubind (sys h (U_schedlog 10000)) (\<lambda>_.
     ubind (spawn_loops h (\<lambda>_. U_fork) [0..<3]) (\<lambda>_.
     ubind (wait_times h 3) (\<lambda>_. ubind (sys h U_shutdown) (\<lambda>_. uret ()))))"

definition niceforktest2_main :: "'e kern \<Rightarrow> ('e, unit) usr" where
  "niceforktest2_main h =
     ubind (sys h (U_schedlog 10000)) (\<lambda>_.
     ubind (spawn_loops h (\<lambda>i. U_nicefork (int i)) [0..<3]) (\<lambda>_.
     ubind (wait_times h 3) (\<lambda>_. ubind (sys h U_shutdown) (\<lambda>_. uret ()))))"

function loop_sum :: "u32 \<Rightarrow> u32 \<Rightarrow> u32" where
  "loop_sum i dummy = (if i < 4000000000 then loop_sum (i + 1) (dummy + i) else dummy)"
  by pat_completeness auto

lemma loop_step: "i < 4000000000 \<Longrightarrow> unat (i + 1) = unat i + 1" for i :: u32
  by (simp add: word_less_nat_alt unat_word_ariths)

termination loop_sum
  by (relation "measure (\<lambda>(i, dummy). 4000000000 - unat i)") (auto simp: loop_step word_less_nat_alt)

declare loop_sum.simps [simp del]

definition loop_main :: "'e kern \<Rightarrow> ('e, unit) usr" where
  "loop_main h = (let dummy = loop_sum 0 0 in uexit h)"

definition shutdown_main :: "'e kern \<Rightarrow> ('e, unit) usr" where
  "shutdown_main h = ubind (sys h U_shutdown) (\<lambda>_. uexit h)"

section \<open>stressfs.c\<close>

fun fork_chain :: "'e kern \<Rightarrow> nat \<Rightarrow> nat \<Rightarrow> ('e, nat) usr" where
  "fork_chain h i 0 = uret i"
| "fork_chain h i (Suc left) = ubind (sys h U_fork) (\<lambda>pid. if 0 < pid then uret i else fork_chain h (i + 1) left)"

fun repeat_call :: "'e kern \<Rightarrow> ucall \<Rightarrow> nat \<Rightarrow> ('e, unit) usr" where
  "repeat_call h c 0 = uret ()"
| "repeat_call h c (Suc n) = ubind (sys h c) (\<lambda>_. repeat_call h c n)"

definition stressfs_main :: "'e kern \<Rightarrow> ('e, unit) usr" where
  "stressfs_main h =
     ubind (fprintf h 1 ''stressfs starting\<newline>'' []) (\<lambda>_.
     ubind (fork_chain h 0 4) (\<lambda>i.
     ubind (fprintf h 1 ''write %d\<newline>'' [W (of_nat i)]) (\<lambda>_.
     let path = ''stressfs'' @ [char_of (48 + i)] in
     ubind (sys h (U_open path 0x202)) (\<lambda>fd.
     ubind (repeat_call h (U_write fd (replicate 512 (CHR ''a''))) 20) (\<lambda>_.
     ubind (sys h (U_close fd)) (\<lambda>_.
     ubind (fprintf h 1 ''read\<newline>'' []) (\<lambda>_.
     ubind (sys h (U_open path 0)) (\<lambda>fd.
     ubind (repeat_call h (U_read fd 512) 20) (\<lambda>_.
     ubind (sys h (U_close fd)) (\<lambda>_. ubind (sys h U_wait) (\<lambda>_. uexit h)))))))))))"

end
