(* ===== verification/Spec2Isabelle.thy ===== *)
theory Spec2Isabelle
  imports ConsProps DevProps LogProps SystemProps ShProps GrepProps MkfsProps VmCopy UmallocProps Boot Tests
begin

text \<open>
  A verification of xv6 with a BFS scheduler: the kernel, its user programs, the boot loader and the
  program that builds the file system image.

  \<^bold>\<open>The program.\<close> The kernel is a small Unix for one CPU. Processes that are ready to run wait in a skip list
  ordered by virtual deadline (proc.c, bfs.h); the timer takes a process off the CPU after a quantum of 50
  ticks and gives it a new deadline, which its nice value determines. Below it are locks, the page allocator
  and page tables; above it a buffer cache, a redo log, a file system, pipes, the console, the table of open
  files and the system calls. User programs reach the kernel only by system calls.

  \<^bold>\<open>How C is represented.\<close> A function of the source is a HOL function on an explicit state with the result
  type \<open>res\<close> of the theory \<open>Prelude\<close>: \<open>ret v\<close> is a normal return, \<open>panic msg\<close> a call of \<open>panic\<close> (or a failed
  assertion), \<open>None\<close> a call that does not return or whose behaviour C does not define. Unsigned words are
  \<open>32 word\<close>; signed values of a word are \<open>sint\<close> of it where the width matters and integers elsewhere. The
  state is a chain of records, each of which extends the one before:
  machine, kmem, vms, ptable, bcache, logst, fss, devs, pcs, fls, lifes, traps. A function of a lower layer
  therefore runs unchanged on the states of the upper layers. A function that calls \<open>swtch\<close> is split there:
  \<open>yield_enter\<close>, \<open>sleep_enter\<close>, \<open>sched_enter\<close>, \<open>scheduler_enter\<close> end where the CPU is given away, the
  definitions with the suffix \<open>_leave\<close> start where it comes back. What a device register yields is an input
  of the model, what is written to it is recorded.

  \<^bold>\<open>The theories and the source.\<close>
  \<^item> \<open>Prelude\<close>: results, words, lists. \<open>Machine\<close>: memory, CPUs, locks as data. \<open>Cprintf\<close>: \<open>cprintf\<close> of
    console.c and printf.c. \<open>Spinlock\<close>: spinlock.c. \<open>CString\<close>: string.c. \<open>Kalloc\<close>: kalloc.c. \<open>Vm\<close>: vm.c;
    \<open>VmProps\<close>, \<open>VmCopy\<close>: page tables, and the copy of an address space.
  \<^item> \<open>SkipList\<close>: the nodes and loops of the skip list of proc.c; \<open>SkipInv\<close>, \<open>SkipIns\<close>, \<open>SkipQueue\<close>: its
    invariant, and that it is a queue ordered by deadline. \<open>Proc\<close>: the rest of proc.c up to process creation;
    \<open>ProcInv\<close>, \<open>ProcProps\<close>: the invariant of the process table and the properties of its operations.
  \<^item> \<open>Bio\<close>: sleeplock.c, memide.c, bio.c; \<open>BlockStore\<close>, \<open>BioList\<close>, \<open>BioOps\<close>, \<open>BioProps\<close>: the cache as an
    implementation of a store of blocks. \<open>Log\<close>: log.c; \<open>LogProps\<close>: crashes and recovery. \<open>Fs\<close>: fs.c;
    \<open>FsProps\<close>: its data structures.
  \<^item> \<open>Devices\<close>: kbd.c, uart.c, lapic.c, ioapic.c, picirq.c, mp.c, ide.c, kshutdown.c; \<open>DevProps\<close>. \<open>Ring\<close>,
    \<open>Pipe\<close>: pipe.c and console.c; \<open>PipeProps\<close>, \<open>ConsProps\<close>. \<open>File\<close>: file.c. \<open>Life\<close>: process creation and
    termination of proc.c, exec.c. \<open>Sys\<close>: syscall.c, sysproc.c, sysfile.c. \<open>Trap\<close>: trap.c, main.c.
    \<open>Sections\<close>, \<open>Demo\<close>: critical sections, and a concrete kernel state for the witnesses.
  \<^item> \<open>System\<close>, \<open>SystemProps\<close>: the kernel as a transition system.
  \<^item> \<open>Ulib\<close>: ulib.c and printf.c; \<open>Progs\<close>: init, cat, echo, kill, ln, ls, mkdir, rm, wc, zombie; \<open>Grep\<close>:
    grep.c; \<open>Sh\<close>: sh.c; \<open>Umalloc\<close>: umalloc.c; \<open>Tests\<close>: forktest, niceforktest, niceforktest2,
    schedlogtest, stressfs, loop, shutdown; \<open>Boot\<close>: bootmain.c; \<open>Mkfs\<close>: mkfs.c. \<open>ShProps\<close>, \<open>GrepProps\<close>,
    \<open>MkfsProps\<close>, \<open>UmallocProps\<close>: their properties.

  \<^bold>\<open>Interfaces.\<close> Four locales state what one component promises to another, and each is interpreted on the
  definitions that model the code: \<open>deadline_queue\<close> (the skip list for the process table, qualifier \<open>sl\<close>),
  \<open>page_allocator\<close> (kalloc.c for its clients, \<open>km\<close>), \<open>block_store\<close> (the buffer cache for the log, \<open>bc\<close>) and
  \<open>byte_ring\<close> (the rings of pipes and of the console, \<open>pq\<close> and \<open>iq\<close>).

  \<^bold>\<open>What is proved.\<close>
  \<^item> Scheduling. The skip list keeps the deadline order on every level and insertion and deletion undo each
    other; a scheduler round takes the earliest deadline; yielding, sleeping and waking keep the table
    consistent. For the transition system: in every reachable state the queue holds exactly the ready and
    running processes, no step panics, some step is always possible, a slice lasts 50 ticks and goes to the
    earliest deadline, and a ready process is dispatched after a bounded number of slices while the
    processes compute. The last property is not stated for processes that sleep: a process that is woken
    within its quantum keeps its old deadline and starts with full ticks.
  \<^item> Memory. The allocator hands out distinct whole pages; \<open>mappages\<close> maps exactly its range and keeps every
    other mapping; the address space that \<open>fork\<close> builds has the contents of the parent on pages of its own;
    \<open>memmove\<close>, \<open>safestrcpy\<close> and the digits of
    \<open>printint\<close> stay within their bounds.
  \<^item> Files. The buffer cache refines a store of blocks with pending updates; a transaction of the log is
    atomic under a crash between any two disk writes; inodes, directory entries and the bitmap are read back
    as written. The image of mkfs.c holds the files of the host, read as the kernel reads them.
  \<^item> Queues and console. Pipes and the input buffer refine bounded queues although their indices wrap
    around; every input character edits the line as the abstract editor does.
  \<^item> User programs. The shell's parser always returns and its strings are words of the line; the matcher of
    grep accepts the language of its pattern; the free list of \<open>malloc\<close> and \<open>free\<close> stays a ring in the order of
    addresses, and a block that is handed out overlaps no other.

  \<^bold>\<open>Bounds and fuel.\<close> Loops are structural recursions, functions with a measure, or partial functions whose
  value is \<open>None\<close> when they do not end. Only the parser of the shell takes fuel: \<open>4 * length + 4\<close> units, and
  that this suffices for every line is proved. The image of \<open>MkfsProps\<close> is the one of param.h: 2000 blocks,
  59 of them in front of the data, 207 inodes in 26 blocks, files of at most 140 blocks. The copy of an
  address space is stated for a free list with room for the page directory, all its tables and the pages of
  the process; blocks of the user allocator lie below 2^31, where the kernel begins.

  \<^bold>\<open>Not modelled.\<close> The assembly (entry.S, entryother.S, bootasm.S, swtch.S, trapasm.S, initcode.S, usys.S and
  the script vectors.pl) has no counterpart in the model. usertests.c and test.c are tests: of the system
  calls, and of a copy of the skip list. defs.h and user.h are declarations. The kernel runs on one CPU, as
  the readme of the repository requires; the transition system has no steps for the creation and
  termination of processes. The kernel is linked with memide.c; ide.c is modelled with the prefix \<open>ide_\<close>.
\<close>

end
